(* ===== verification/Prelude.thy ===== *)
theory Prelude
  imports "HOL-Library.Word" "HOL-Library.Monad_Syntax" "HOL-Library.Sublist"
begin

text \<open>
  Shared vocabulary of the development: bytes and big-endian integers
  (\<open>encoding/binary\<close>), the part of Go's \<open>strings\<close> and \<open>strconv\<close> packages the
  program calls, readers as byte lists (\<open>io.ReadFull\<close>), 64-bit integers, and the codec
  interface that every wire format of the program is an instance of.

  Go strings are byte sequences, so a Go string is a HOL \<^typ>\<open>string\<close> whose characters
  are bytes. A Go panic is \<^term>\<open>None\<close>; a Go error is the left injection of a sum.
\<close>

named_theorems codec_simps
  \<open>evaluation of encoders and decoders\<close>

named_theorems str_simps
  \<open>facts on Go's string functions\<close>

type_synonym byte = "8 word"
type_synonym bytes = "8 word list"


section \<open>Big-endian integers\<close>

text \<open>
  \<open>binary.BigEndian.PutUint16/32/64\<close> and their readers, for any number of bytes.
\<close>

primrec be_put :: "nat \<Rightarrow> nat \<Rightarrow> bytes" where
  "be_put 0 x = []"
| "be_put (Suc n) x = word_of_nat (x div 256 ^ n) # be_put n x"

primrec be_get :: "bytes \<Rightarrow> nat" where
  "be_get [] = 0"
| "be_get (b # bs) = unat b * 256 ^ length bs + be_get bs"

lemma length_be_put [simp]: "length (be_put n x) = n"
  by (induction n) auto

lemma be_get_less: "be_get bs < 256 ^ length bs"
proof (induction bs)
  case (Cons b bs)
  have "unat b < 256" using unsigned_less [of b] by simp
  then have "unat b * 256 ^ length bs \<le> 255 * 256 ^ length bs"
    by (intro mult_right_mono) auto
  moreover have "be_get (b # bs) = unat b * 256 ^ length bs + be_get bs" by simp
  moreover have "(256 :: nat) ^ length (b # bs) = 256 * 256 ^ length bs" by simp
  ultimately show ?case using Cons.IH by linarith
qed simp

lemma unat_byte_of_nat: "unat (word_of_nat k :: byte) = k mod 256"
  by (simp add: unat_of_nat)

lemma be_get_put: "be_get (be_put n x) = x mod 256 ^ n"
proof (induction n)
  case (Suc n)
  have "x mod 256 ^ Suc n = 256 ^ n * (x div 256 ^ n mod 256) + x mod 256 ^ n"
    by (simp add: mod_mult2_eq mult.commute [of 256])
  then show ?case by (simp add: Suc.IH unat_byte_of_nat algebra_simps)
qed simp

lemma be_get_put_id [simp]: "x < 256 ^ n \<Longrightarrow> be_get (be_put n x) = x"
  by (simp add: be_get_put)

lemma word_256: "(256 :: byte) = 0"
  by simp

lemma be_put_add: "m < 256 ^ n \<Longrightarrow> be_put n (k * 256 ^ n + m) = be_put n m"
proof -
  have *: "i \<le> n \<Longrightarrow> be_put i (k * 256 ^ n + m) = be_put i m" for i
  proof (induction i)
    case (Suc i)
    then obtain d where d: "n = Suc i + d" using le_Suc_ex by blast
    have "(k * 256 ^ n + m) div 256 ^ i = k * 256 ^ Suc d + m div 256 ^ i"
    proof -
      have "k * 256 ^ n = k * 256 ^ Suc d * 256 ^ i" by (simp add: d power_add)
      then show ?thesis by (simp only: div_mult_self3) simp
    qed
    moreover have "(word_of_nat (k * 256 ^ Suc d + j) :: byte) = word_of_nat j" for j
    proof -
      have "(word_of_nat (k * 256 ^ Suc d + j) :: byte) = word_of_nat k * (256 * 256 ^ d) + word_of_nat j"
        by simp
      also have "\<dots> = word_of_nat j" by (simp only: word_256) simp
      finally show ?thesis .
    qed
    ultimately show ?case using Suc by simp
  qed simp
  show ?thesis by (rule *) simp
qed

lemma be_put_get: "be_put (length bs) (be_get bs) = bs"
proof (induction bs)
  case (Cons b bs)
  have "be_get (b # bs) div 256 ^ length bs = unat b"
    using be_get_less [of bs] by simp
  then show ?case
    using be_put_add [OF be_get_less [of bs], of "unat b"] Cons.IH
    by simp
qed simp


text \<open>The fixed widths the wire formats use.\<close>

definition be16 :: "16 word \<Rightarrow> bytes" where "be16 w = be_put 2 (unat w)"
definition be32 :: "32 word \<Rightarrow> bytes" where "be32 w = be_put 4 (unat w)"
definition un16 :: "bytes \<Rightarrow> 16 word" where "un16 bs = word_of_nat (be_get bs)"
definition un32 :: "bytes \<Rightarrow> 32 word" where "un32 bs = word_of_nat (be_get bs)"

lemma length_be16 [simp]: "length (be16 w) = 2" by (simp add: be16_def)
lemma length_be32 [simp]: "length (be32 w) = 4" by (simp add: be32_def)

lemma un16_be16 [simp, codec_simps]: "un16 (be16 w) = w"
proof -
  have "unat w < 65536" using unsigned_less [of w] by simp
  then show ?thesis by (simp add: un16_def be16_def be_get_put)
qed

lemma un32_be32 [simp, codec_simps]: "un32 (be32 w) = w"
proof -
  have "unat w < 4294967296" using unsigned_less [of w] by simp
  then show ?thesis by (simp add: un32_def be32_def be_get_put)
qed

lemma be16_un16: "length bs = 2 \<Longrightarrow> be16 (un16 bs) = bs"
  using be_get_less [of bs] be_put_get [of bs]
  by (simp add: un16_def be16_def unat_of_nat)

lemma be32_un32: "length bs = 4 \<Longrightarrow> be32 (un32 bs) = bs"
  using be_get_less [of bs] be_put_get [of bs]
  by (simp add: un32_def be32_def unat_of_nat)


lemma unat_byte_le [simp]: "unat (b :: byte) \<le> 255"
proof -
  have "unat b < 256" using unsigned_less [of b] by simp
  then show ?thesis by simp
qed

lemma length_2E:
  assumes "length xs = 2"
  obtains a b where "xs = [a, b]"
  using assms by (auto simp: numeral_eq_Suc length_Suc_conv)

lemma length_4E:
  assumes "length xs = 4"
  obtains a b c d where "xs = [a, b, c, d]"
  using assms by (auto simp: numeral_eq_Suc length_Suc_conv)


text \<open>A Go string and its bytes.\<close>

definition str_bytes :: "string \<Rightarrow> bytes" where
  "str_bytes s = map (\<lambda>c. word_of_nat (of_char c)) s"

definition bytes_str :: "bytes \<Rightarrow> string" where
  "bytes_str bs = map (\<lambda>b. char_of (unat b)) bs"

lemma bytes_str_bytes [simp, codec_simps]: "bytes_str (str_bytes s) = s"
proof -
  have "unat (word_of_nat (of_char c) :: byte) = of_char c" for c
    using of_char_mod_256 [of c, where 'a = nat] by (simp add: unat_byte_of_nat)
  then show ?thesis by (simp add: bytes_str_def str_bytes_def comp_def)
qed

lemma str_bytes_append [simp]: "str_bytes (s @ t) = str_bytes s @ str_bytes t"
  by (simp add: str_bytes_def)

lemma length_str_bytes [simp]: "length (str_bytes s) = length s"
  by (simp add: str_bytes_def)


section \<open>Readers\<close>

text \<open>
  An \<open>io.Reader\<close> over a stream that ends is the list of bytes still to come.
  \<open>io.ReadFull\<close> reads exactly \<open>n\<close> bytes or fails: \<open>EOF\<close> when there was none,
  \<open>UnexpectedEOF\<close> when the stream ended inside the read.
\<close>

datatype io_error = EOF | UnexpectedEOF

definition ReadFull :: "nat \<Rightarrow> bytes \<Rightarrow> io_error + (bytes \<times> bytes)" where
  "ReadFull n r =
     (if n \<le> length r then Inr (take n r, drop n r)
      else Inl (if r = [] then EOF else UnexpectedEOF))"

lemma ReadFull_append [simp, codec_simps]:
  "n = length xs \<Longrightarrow> ReadFull n (xs @ ys) = Inr (xs, ys)"
  by (simp add: ReadFull_def)

lemma ReadFull_Inr:
  "ReadFull n r = Inr (xs, ys) \<longleftrightarrow> r = xs @ ys \<and> length xs = n"
  by (auto simp: ReadFull_def)


section \<open>64-bit integers\<close>

text \<open>
  Go's \<open>int64\<close> (and \<open>int\<close>) as an integer with the wrap-around written out, its
  truncating division, and \<open>uint64\<close>.
\<close>

definition i64 :: "int \<Rightarrow> int" where
  "i64 x = (x + 2 ^ 63) mod 2 ^ 64 - 2 ^ 63"

definition u64 :: "int \<Rightarrow> int" where
  "u64 x = x mod 2 ^ 64"

definition quo :: "int \<Rightarrow> int \<Rightarrow> int" where
  "quo a b = sgn a * sgn b * (\<bar>a\<bar> div \<bar>b\<bar>)"

abbreviation in_i64 :: "int \<Rightarrow> bool" where
  "in_i64 x \<equiv> - (2 ^ 63) \<le> x \<and> x < 2 ^ 63"

lemma i64_id [simp]: "in_i64 x \<Longrightarrow> i64 x = x"
  by (simp add: i64_def)

lemma in_i64_i64: "in_i64 (i64 x)"
  by (simp add: i64_def)

lemma u64_id [simp]: "0 \<le> x \<Longrightarrow> x < 2 ^ 64 \<Longrightarrow> u64 x = x"
  by (simp add: u64_def)

lemma quo_nonneg [simp]: "0 \<le> a \<Longrightarrow> 0 \<le> b \<Longrightarrow> quo a b = a div b"
  by (cases "a = 0"; cases "b = 0") (auto simp: quo_def sgn_if)


section \<open>Strings\<close>

text \<open>
  \<open>unicode.IsSpace\<close> as the UTF-8 encodings of the white space characters. Every
  encoding is one ASCII byte, or starts with a byte that occurs nowhere else in a
  character, so matching encodings byte by byte is what the decoding loops of
  \<open>strings.TrimSpace\<close> and \<open>strings.Fields\<close> do.
\<close>

definition go_spaces :: "string list" where
  "go_spaces =
     [[CHR 0x09], [CHR 0x0A], [CHR 0x0B], [CHR 0x0C], [CHR 0x0D], [CHR 0x20],
      [CHR 0xC2, CHR 0x85], [CHR 0xC2, CHR 0xA0], [CHR 0xE1, CHR 0x9A, CHR 0x80],
      [CHR 0xE2, CHR 0x80, CHR 0x80], [CHR 0xE2, CHR 0x80, CHR 0x81],
      [CHR 0xE2, CHR 0x80, CHR 0x82], [CHR 0xE2, CHR 0x80, CHR 0x83],
      [CHR 0xE2, CHR 0x80, CHR 0x84], [CHR 0xE2, CHR 0x80, CHR 0x85],
      [CHR 0xE2, CHR 0x80, CHR 0x86], [CHR 0xE2, CHR 0x80, CHR 0x87],
      [CHR 0xE2, CHR 0x80, CHR 0x88], [CHR 0xE2, CHR 0x80, CHR 0x89],
      [CHR 0xE2, CHR 0x80, CHR 0x8A], [CHR 0xE2, CHR 0x80, CHR 0xA8],
      [CHR 0xE2, CHR 0x80, CHR 0xA9], [CHR 0xE2, CHR 0x80, CHR 0xAF],
      [CHR 0xE2, CHR 0x81, CHR 0x9F], [CHR 0xE3, CHR 0x80, CHR 0x80]]"

definition match_len :: "string list \<Rightarrow> string \<Rightarrow> nat" where
  "match_len ps s = (case find (\<lambda>p. prefix p s) ps of None \<Rightarrow> 0 | Some p \<Rightarrow> length p)"

lemma match_len_le: "match_len ps s \<le> length s"
  by (auto simp: match_len_def find_Some_iff prefix_def split: option.splits)

function trim_left :: "string list \<Rightarrow> string \<Rightarrow> string" where
  "trim_left ps s = (if match_len ps s = 0 then s else trim_left ps (drop (match_len ps s) s))"
  by pat_completeness auto
termination
proof (relation "measure (\<lambda>(ps, s). length s)", goal_cases)
  case (2 ps s)
  then show ?case using match_len_le [of ps s] by simp
qed simp

declare trim_left.simps [simp del]

definition TrimSpace :: "string \<Rightarrow> string" where
  "TrimSpace s = rev (trim_left (map rev go_spaces) (rev (trim_left go_spaces s)))"

text \<open>\<open>strings.Fields\<close>: the maximal runs without white space.\<close>

function fields_from :: "string \<Rightarrow> string \<Rightarrow> string list" where
  "fields_from cur [] = (if cur = [] then [] else [rev cur])"
| "fields_from cur (c # s) =
     (if match_len go_spaces (c # s) = 0 then fields_from (c # cur) s
      else (if cur = [] then [] else [rev cur])
             @ fields_from [] (drop (match_len go_spaces (c # s)) (c # s)))"
  by pat_completeness auto
termination
proof (relation "measure (\<lambda>(cur, s). length s)", goal_cases)
  case (3 cur c s)
  then show ?case using match_len_le [of go_spaces "c # s"] by simp
qed simp_all

definition Fields :: "string \<Rightarrow> string list" where
  "Fields s = fields_from [] s"

text \<open>\<open>strings.Cut\<close>, \<open>strings.Split\<close> and \<open>strings.Join\<close> for a one-byte separator.\<close>

fun Cut :: "string \<Rightarrow> char \<Rightarrow> string \<times> string \<times> bool" where
  "Cut [] c = ([], [], False)"
| "Cut (x # s) c = (if x = c then ([], s, True)
                    else (case Cut s c of (a, b, f) \<Rightarrow> (x # a, b, f)))"

fun Split :: "string \<Rightarrow> char \<Rightarrow> string list" where
  "Split [] c = [[]]"
| "Split (x # s) c = (if x = c then [] # Split s c
                      else (case Split s c of [] \<Rightarrow> [[x]] | w # ws \<Rightarrow> (x # w) # ws))"

fun Join :: "string list \<Rightarrow> string \<Rightarrow> string" where
  "Join [] sep = []"
| "Join [w] sep = w"
| "Join (w # ws) sep = w @ sep @ Join ws sep"

abbreviation nl :: char where "nl \<equiv> CHR 0x0A"

text \<open>
  The lines of \<open>bufio.Scanner\<close>: without a carriage return at their end, and no empty line behind the last
  newline. A line that does not fit into the buffer of 64 KiB ends the scan with an error.
\<close>

definition scan_lines :: "string \<Rightarrow> string list" where
  "scan_lines s =
     (let ls = Split s nl; ls = (if last ls = [] then butlast ls else ls) in ls)"

definition drop_cr :: "string \<Rightarrow> string" where
  "drop_cr l = (if l \<noteq> [] \<and> last l = CHR 0x0D then butlast l else l)"

text \<open>\<open>%d\<close> and \<open>strconv.ParseUint(s, 10, bits)\<close>.\<close>

fun show_nat :: "nat \<Rightarrow> string" where
  "show_nat n = (if n < 10 then [char_of (48 + n)]
                 else show_nat (n div 10) @ [char_of (48 + n mod 10)])"

declare show_nat.simps [simp del]

definition is_digit :: "char \<Rightarrow> bool" where
  "is_digit c \<longleftrightarrow> 48 \<le> (of_char c :: nat) \<and> (of_char c :: nat) \<le> 57"

definition digits_val :: "string \<Rightarrow> nat" where
  "digits_val s = foldl (\<lambda>a c. a * 10 + (of_char c - 48)) 0 s"

definition ParseUint :: "nat \<Rightarrow> string \<Rightarrow> nat option" where
  "ParseUint bits s =
     (if s = [] \<or> \<not> list_all is_digit s then None
      else if digits_val s < 2 ^ bits then Some (digits_val s) else None)"


text \<open>\<open>strconv.Atoi\<close>: an optional sign, digits, and the range of \<open>int\<close>.\<close>

definition Atoi :: "string \<Rightarrow> int option" where
  "Atoi s =
     (let neg = (s \<noteq> [] \<and> hd s = CHR ''-'');
          ds = (if s \<noteq> [] \<and> (hd s = CHR ''-'' \<or> hd s = CHR ''+'') then tl s else s)
      in if ds = [] \<or> \<not> list_all is_digit ds then None
         else let v = (if neg then - int (digits_val ds) else int (digits_val ds))
              in if in_i64 v then Some v else None)"

definition Itoa :: "int \<Rightarrow> string" where
  "Itoa n = (if n < 0 then CHR ''-'' # show_nat (nat (- n)) else show_nat (nat n))"

definition HasPrefix :: "string \<Rightarrow> string \<Rightarrow> bool" where
  "HasPrefix s p \<longleftrightarrow> take (length p) s = p"

definition CutPrefix :: "string \<Rightarrow> string \<Rightarrow> string \<times> bool" where
  "CutPrefix s p = (if HasPrefix s p then (drop (length p) s, True) else (s, False))"

lemma HasPrefix_append [simp]: "HasPrefix (p @ s) p"
  by (simp add: HasPrefix_def)

lemma HasPrefix_iff: "HasPrefix s p \<longleftrightarrow> (\<exists>r. s = p @ r)"
  by (metis HasPrefix_def HasPrefix_append append_take_drop_id)

lemma CutPrefix_append [simp, str_simps]: "CutPrefix (p @ s) p = (s, True)"
  by (simp add: CutPrefix_def)

text \<open>
  \<open>strings.ToLower\<close>, as far as a comparison with ASCII names can tell: the ASCII letters, and the two
  characters outside ASCII whose lower case is an ASCII letter (U+0130 and the Kelvin
  sign U+212A). Every other character has its lower case outside ASCII, which is in no name.
\<close>

definition lower_char :: "char \<Rightarrow> char" where
  "lower_char c = (let n = of_char c :: nat in if 65 \<le> n \<and> n \<le> 90 then char_of (n + 32) else c)"

fun ToLower :: "string \<Rightarrow> string" where
  "ToLower [] = []"
| "ToLower (c # s) =
     (if c = CHR 0xE2 \<and> take 2 s = [CHR 0x84, CHR 0xAA] then CHR ''k'' # ToLower (drop 2 s)
      else if c = CHR 0xC4 \<and> take 1 s = [CHR 0xB0] then CHR ''i'' # ToLower (drop 1 s)
      else lower_char c # ToLower s)"

subsection \<open>Facts on the string functions\<close>

text \<open>Printable ASCII without the space: such characters are never white space.\<close>

definition plain :: "char \<Rightarrow> bool" where
  "plain c \<longleftrightarrow> 33 \<le> (of_char c :: nat) \<and> (of_char c :: nat) \<le> 126"

lemma of_char_go_spaces:
  "p \<in> set go_spaces \<Longrightarrow> p \<noteq> [] \<and> \<not> plain (hd p) \<and> \<not> plain (last p)"
  by (auto simp: go_spaces_def plain_def)

lemma match_len_0_iff:
  "match_len ps s = 0 \<longleftrightarrow> (case find (\<lambda>p. prefix p s) ps of None \<Rightarrow> True | Some p \<Rightarrow> p = [])"
  by (simp add: match_len_def split: option.splits)

lemma match_len_plain [simp]:
  assumes "plain c"
  shows "match_len go_spaces (c # s) = 0" and "match_len (map rev go_spaces) (c # s) = 0"
proof -
  have "\<not> prefix p (c # s)" if "p \<in> set go_spaces" for p
    using of_char_go_spaces [OF that] assms by (cases p) auto
  then have "find (\<lambda>p. prefix p (c # s)) go_spaces = None"
    by (auto simp: find_None_iff)
  then show "match_len go_spaces (c # s) = 0" by (simp add: match_len_def)
  have "\<not> prefix (rev p) (c # s)" if "p \<in> set go_spaces" for p
    using of_char_go_spaces [OF that] assms
    by (cases p rule: rev_cases) auto
  then have "find (\<lambda>p. prefix p (c # s)) (map rev go_spaces) = None"
    by (auto simp: find_None_iff)
  then show "match_len (map rev go_spaces) (c # s) = 0" by (simp add: match_len_def)
qed

lemma match_len_Nil [simp]:
  "match_len go_spaces [] = 0" "match_len (map rev go_spaces) [] = 0"
  using match_len_le [of _ "[]"] by simp_all

lemma trim_left_plain [simp]:
  "s = [] \<or> plain (hd s) \<Longrightarrow> trim_left go_spaces s = s"
  "s = [] \<or> plain (hd s) \<Longrightarrow> trim_left (map rev go_spaces) s = s"
  by (subst trim_left.simps, cases s, auto)+

lemma TrimSpace_plain [str_simps]:
  "s = [] \<or> plain (hd s) \<and> plain (last s) \<Longrightarrow> TrimSpace s = s"
  by (auto simp: TrimSpace_def hd_rev)

lemma match_len_blank [simp]: "match_len go_spaces (CHR '' '' # s) = 1"
  by (simp add: match_len_def go_spaces_def)

lemma trim_newline [str_simps]:
  assumes "s \<noteq> []" "plain (hd s)" "plain (last s)"
  shows "TrimSpace (s @ [CHR 0x0A]) = s"
proof -
  have l: "trim_left go_spaces (s @ [CHR 0x0A]) = s @ [CHR 0x0A]"
    using assms by (intro trim_left_plain) auto
  have "match_len (map rev go_spaces) (CHR 0x0A # rev s) = 1"
    by (simp add: match_len_def go_spaces_def)
  then have "trim_left (map rev go_spaces) (CHR 0x0A # rev s) = trim_left (map rev go_spaces) (rev s)"
    by (subst trim_left.simps) simp
  then show ?thesis
    using assms by (simp add: TrimSpace_def l hd_rev)
qed

lemma trim_blank [str_simps]:
  assumes "s \<noteq> []" "plain (hd s)" "plain (last s)"
  shows "TrimSpace (CHR '' '' # s) = s"
proof -
  have "trim_left go_spaces (CHR '' '' # s) = s"
    using assms by (subst trim_left.simps) simp
  then show ?thesis using assms by (simp add: TrimSpace_def hd_rev)
qed

text \<open>Trimming never goes past a plain character.\<close>

lemma go_spaces_no_plain: "p \<in> set go_spaces \<Longrightarrow> c \<in> set p \<Longrightarrow> \<not> plain c"
  by (auto simp: go_spaces_def plain_def)

lemma prefix_before:
  "prefix p (ys @ c # zs) \<Longrightarrow> c \<notin> set p \<Longrightarrow> length p \<le> length ys"
  by (induction ys arbitrary: p) (auto simp: prefix_Cons)

lemma trim_left_keeps:
  assumes "plain c" and ps: "\<And>p d. p \<in> set ps \<Longrightarrow> d \<in> set p \<Longrightarrow> \<not> plain d"
  shows "\<exists>ys'. suffix ys' ys \<and> trim_left ps (ys @ c # zs) = ys' @ c # zs"
proof (induction ys rule: length_induct)
  case (1 ys)
  let ?k = "match_len ps (ys @ c # zs)"
  have k: "?k \<le> length ys"
  proof (cases "find (\<lambda>p. prefix p (ys @ c # zs)) ps")
    case (Some p)
    then have "p \<in> set ps" "prefix p (ys @ c # zs)" by (auto simp: find_Some_iff)
    then have "length p \<le> length ys" using ps assms(1) by (blast intro: prefix_before)
    with Some show ?thesis by (simp add: match_len_def)
  qed (simp add: match_len_def)
  show ?case
  proof (cases "?k = 0")
    case True
    then show ?thesis by (subst trim_left.simps) auto
  next
    case False
    then have "length (drop ?k ys) < length ys" using k by auto
    with 1 obtain ys' where ys': "suffix ys' (drop ?k ys)"
      "trim_left ps (drop ?k ys @ c # zs) = ys' @ c # zs" by blast
    have "suffix ys' ys" using ys'(1) suffix_drop suffix_order.trans by blast
    moreover have "trim_left ps (ys @ c # zs) = ys' @ c # zs"
      using False ys'(2) k by (subst trim_left.simps) simp
    ultimately show ?thesis by blast
  qed
qed

lemma TrimSpace_word:
  assumes "w \<noteq> []" "plain (hd w)" "plain (last w)"
  shows "\<exists>t. prefix t u \<and> TrimSpace (w @ u) = w @ t"
proof -
  have l: "trim_left go_spaces (w @ u) = w @ u"
    using assms by (intro trim_left_plain) auto
  have w: "rev w = last w # rev (butlast w)"
    using assms(1) by (metis append_butlast_last_id rev_eq_Cons_iff rev_rev_ident)
  have "\<not> plain d" if "p \<in> set (map rev go_spaces)" "d \<in> set p" for p d
    using that go_spaces_no_plain by auto
  then obtain ys where "suffix ys (rev u)"
    and t: "trim_left (map rev go_spaces) (rev u @ rev w) = ys @ rev w"
    using trim_left_keeps [OF assms(3), of "map rev go_spaces" "rev u" "rev (butlast w)"]
    unfolding w by blast
  then have "prefix (rev ys) u" by (metis rev_rev_ident suffix_to_prefix)
  moreover have "TrimSpace (w @ u) = w @ rev ys"
    by (simp add: TrimSpace_def l t)
  ultimately show ?thesis by blast
qed

lemma Cut_found [simp, str_simps]: "c \<notin> set a \<Longrightarrow> Cut (a @ c # b) c = (a, b, True)"
  by (induction a) auto

lemma Cut_absent [simp, str_simps]: "c \<notin> set a \<Longrightarrow> Cut a c = (a, [], False)"
  by (induction a) auto

lemma Split_no_sep [simp, str_simps]: "c \<notin> set w \<Longrightarrow> Split w c = [w]"
  by (induction w) auto

lemma Split_append: "c \<notin> set w \<Longrightarrow> Split (w @ c # s) c = w # Split s c"
  by (induction w) auto

lemma Split_lines: "\<forall>l \<in> set ls. nl \<notin> set l \<Longrightarrow> Split (concat (map (\<lambda>x. x @ [nl]) ls)) nl = ls @ [[]]"
  by (induction ls) (simp_all add: Split_append)

lemma Split_Join [str_simps]:
  "ws \<noteq> [] \<Longrightarrow> (\<forall>w \<in> set ws. c \<notin> set w) \<Longrightarrow> Split (Join ws [c]) c = ws"
proof (induction ws "[c]" rule: Join.induct)
  case (3 w v va)
  then show ?case by (simp add: Split_append)
qed auto

lemma fields_from_plain:
  "list_all plain w \<Longrightarrow> fields_from cur (w @ s) = fields_from (rev w @ cur) s"
  by (induction w arbitrary: cur) auto

lemma Fields_Join [str_simps]:
  "(\<forall>w \<in> set ws. w \<noteq> [] \<and> list_all plain w) \<Longrightarrow> Fields (Join ws '' '') = ws"
proof (induction ws "'' ''" rule: Join.induct)
  case (2 w)
  then show ?case using fields_from_plain [of w "[]" "[]"] by (simp add: Fields_def)
next
  case (3 w v va)
  then show ?case
    using fields_from_plain [of w "[]" "'' '' @ Join (v # va) '' ''"] by (simp add: Fields_def)
qed (simp add: Fields_def)

lemma show_nat_nonempty [simp]: "show_nat n \<noteq> []"
  by (subst show_nat.simps) simp

lemma is_digit_of_nat [simp]: "d < 10 \<Longrightarrow> is_digit (char_of (48 + d :: nat))"
  by (simp add: is_digit_def)

lemma show_nat_digits: "list_all is_digit (show_nat n)"
proof (induction n rule: show_nat.induct)
  case (1 n)
  then show ?case by (subst show_nat.simps) simp
qed

lemma length_show_nat: "0 < k \<Longrightarrow> n < 10 ^ k \<Longrightarrow> length (show_nat n) \<le> k"
proof (induction n arbitrary: k rule: show_nat.induct)
  case (1 n)
  show ?case
  proof (cases "n < 10")
    case True
    with 1 show ?thesis by (simp add: show_nat.simps [of n])
  next
    case False
    with "1.prems" obtain j where j: "k = Suc j" "0 < j" by (cases k; cases "k - 1") auto
    then have "n div 10 < 10 ^ j" using "1.prems" by (simp add: less_mult_imp_div_less)
    with 1 False j show ?thesis by (simp add: show_nat.simps [of n])
  qed
qed

lemma digit_plain: "is_digit c \<Longrightarrow> plain c"
  by (simp add: is_digit_def plain_def)

lemma show_nat_plain [simp]: "list_all plain (show_nat n)"
  using show_nat_digits [of n] by (auto simp: list_all_iff digit_plain)

lemma digits_val_snoc: "digits_val (s @ [c]) = digits_val s * 10 + (of_char c - 48)"
  by (simp add: digits_val_def)

lemma digits_val_show [simp]: "digits_val (show_nat n) = n"
proof (induction n rule: show_nat.induct)
  case (1 n)
  show ?case
  proof (cases "n < 10")
    case True
    then show ?thesis by (subst show_nat.simps) (simp add: digits_val_def)
  next
    case False
    with 1 show ?thesis by (subst show_nat.simps) (simp add: digits_val_snoc)
  qed
qed

lemma ParseUint_show [simp, str_simps]: "n < 2 ^ bits \<Longrightarrow> ParseUint bits (show_nat n) = Some n"
  by (simp add: ParseUint_def show_nat_digits)

lemma ParseUint_bound: "ParseUint bits s = Some n \<Longrightarrow> n < 2 ^ bits"
  by (auto simp: ParseUint_def split: if_splits)

text \<open>A printed positive number has no leading zero.\<close>

lemma show_nat_hd: "0 < n \<Longrightarrow> hd (show_nat n) \<noteq> CHR ''0''"
proof (induction n rule: show_nat.induct)
  case (1 n)
  show ?case
  proof (cases "n < 10")
    case True
    then have "of_char (char_of (48 + n)) = 48 + n" by simp
    with 1 have "char_of (48 + n) \<noteq> CHR ''0''" by (auto dest: arg_cong [where f = "of_char :: char \<Rightarrow> nat"])
    with True show ?thesis by (simp add: show_nat.simps [of n])
  next
    case False
    with 1 show ?thesis by (simp add: show_nat.simps [of n])
  qed
qed

lemma Atoi_show [simp, str_simps]: "int n < 2 ^ 63 \<Longrightarrow> Atoi (show_nat n) = Some (int n)"
proof -
  assume b: "int n < 2 ^ 63"
  obtain c s where cs: "show_nat n = c # s" by (cases "show_nat n") auto
  with show_nat_digits [of n] have "is_digit c" by simp
  then have "c \<noteq> CHR ''-'' \<and> c \<noteq> CHR ''+''" by (auto simp: is_digit_def)
  with b cs show_nat_digits [of n] digits_val_show [of n] show ?thesis
    by (simp add: Atoi_def del: digits_val_show)
qed

lemma plain_hd_last:
  "list_all plain s \<Longrightarrow> s \<noteq> [] \<Longrightarrow> plain (hd s) \<and> plain (last s)"
  by (auto simp: list_all_iff)

lemma TrimSpace_all_plain [simp, str_simps]: "list_all plain s \<Longrightarrow> TrimSpace s = s"
  using plain_hd_last [of s] by (intro TrimSpace_plain) auto

lemma digits_no_sep [simp]: "\<not> is_digit c \<Longrightarrow> c \<notin> set (show_nat n)"
  using show_nat_digits [of n] by (auto simp: list_all_iff)


section \<open>The codec interface\<close>

text \<open>
  Every message of the mux protocol is written in one call and read from the stream by a
  decoder that must stop exactly where the message ends: the next message follows on the
  same stream. \<open>read_n\<close> is the receiving loop for a known number of messages.
\<close>

primrec read_n :: "(bytes \<Rightarrow> 'e + ('b \<times> bytes)) \<Rightarrow> nat \<Rightarrow> bytes \<Rightarrow> 'e + ('b list \<times> bytes)" where
  "read_n dec 0 r = Inr ([], r)"
| "read_n dec (Suc n) r =
     (case dec r of
        Inl e \<Rightarrow> Inl e
      | Inr (x, r') \<Rightarrow>
          (case read_n dec n r' of Inl e \<Rightarrow> Inl e | Inr (xs, r'') \<Rightarrow> Inr (x # xs, r'')))"

locale stream_codec =
  fixes ok :: "'a \<Rightarrow> bool"
    and enc :: "'a \<Rightarrow> bytes"
    and dec :: "bytes \<Rightarrow> 'e + ('b \<times> bytes)"
    and norm :: "'a \<Rightarrow> 'b"
  assumes dec_enc: "ok x \<Longrightarrow> dec (enc x @ r) = Inr (norm x, r)"
begin

lemma read_all:
  "list_all ok xs \<Longrightarrow> read_n dec (length xs) (concat (map enc xs) @ r) = Inr (map norm xs, r)"
  by (induction xs) (auto simp: dec_enc)

lemma prefix_free:
  assumes "ok x" "ok y" "enc x @ r = enc y @ r'"
  shows "norm x = norm y \<and> r = r'"
  using dec_enc [OF assms(1), of r] dec_enc [OF assms(2), of r'] assms(3) by simp

end


section \<open>Running operations, and refinement of an abstract state\<close>

text \<open>
  A client is a list of operations; each gives an output and a new state, and \<open>None\<close> is a
  panic, which ends the run.
\<close>

fun run_steps :: "('op \<Rightarrow> 's \<Rightarrow> ('out \<times> 's) option) \<Rightarrow> 'op list \<Rightarrow> 's \<Rightarrow> 'out list option" where
  "run_steps step [] s = Some []"
| "run_steps step (a # as) s =
     (case step a s of None \<Rightarrow> None | Some (out, s') \<Rightarrow> map_option (\<lambda>os. out # os) (run_steps step as s'))"

locale data_refinement =
  fixes inv :: "'c \<Rightarrow> bool"
    and abs :: "'c \<Rightarrow> 'a"
    and ok :: "'op \<Rightarrow> bool"
    and cstep :: "'op \<Rightarrow> 'c \<Rightarrow> ('out \<times> 'c) option"
    and astep :: "'op \<Rightarrow> 'a \<Rightarrow> ('out \<times> 'a) option"
  assumes simulates: "inv c \<Longrightarrow> ok a \<Longrightarrow>
    case cstep a c of
      None \<Rightarrow> astep a (abs c) = None
    | Some (out, c') \<Rightarrow> inv c' \<and> astep a (abs c) = Some (out, abs c')"
begin

lemma run_refines: "inv c \<Longrightarrow> list_all ok as \<Longrightarrow> run_steps cstep as c = run_steps astep as (abs c)"
proof (induction as arbitrary: c)
  case (Cons a as)
  with simulates [of c a] show ?case by (auto split: option.splits prod.splits)
qed simp

end

section \<open>Loops over fallible steps\<close>

text \<open>A loop that stops at the first error.\<close>

fun try_each :: "('x \<Rightarrow> 'k \<Rightarrow> 'e option \<times> 'k) \<Rightarrow> 'x list \<Rightarrow> 'k \<Rightarrow> 'e option \<times> 'k" where
  "try_each f [] k = (None, k)"
| "try_each f (x # xs) k = (case f x k of (Some e, k') \<Rightarrow> (Some e, k') | (None, k') \<Rightarrow> try_each f xs k')"

lemma try_each_inv:
  assumes "\<And>x k. x \<in> set xs \<Longrightarrow> P k \<Longrightarrow> P (snd (f x k))" "P k"
  shows "P (snd (try_each f xs k))"
  using assms
proof (induction xs arbitrary: k)
  case (Cons x xs)
  have "P (snd (f x k))" using Cons.prems by simp
  then show ?case using Cons.IH [of "snd (f x k)"] Cons.prems(1) by (cases "f x k") (simp split: option.split)
qed simp

end
