(* ===== verification/Transport.thy ===== *)
theory Transport
  imports Prelude
begin

text \<open>
  \<open>internal/transport/transport.go\<close>, \<open>internal/protocols/protocols.go\<close> and
  \<open>internal/dns/dns.go\<close>: the option vocabularies the client, the helper, the manifest and
  the config share. Every value has a text form; the theorems relate the parsers and the
  printers and bound the arithmetic of the rates.
\<close>

section \<open>Modes\<close>

definition mode_Valid :: "string \<Rightarrow> bool" where
  "mode_Valid s \<longleftrightarrow> s = ''auto'' \<or> s = ''quic'' \<or> s = ''ssh''"

definition mode_Resolve :: "string \<Rightarrow> string \<Rightarrow> string \<Rightarrow> string" where
  "mode_Resolve flag remote defaults =
     (case find (\<lambda>s. s \<noteq> []) [flag, remote, defaults] of Some s \<Rightarrow> s | None \<Rightarrow> ''auto'')"

definition dns_Valid :: "string \<Rightarrow> bool" where
  "dns_Valid s \<longleftrightarrow> s = ''none'' \<or> s = ''split'' \<or> s = ''all''"

definition dns_Default :: "bool \<Rightarrow> string" where
  "dns_Default hasDomains = (if hasDomains then ''split'' else ''none'')"


section \<open>Port ranges\<close>

record port_range =
  pr_First :: "16 word"
  pr_Last :: "16 word"

datatype port_error = InvalidPort string | FirstAboveLast string

definition DefaultPorts :: port_range where
  "DefaultPorts = \<lparr>pr_First = 7443, pr_Last = 7452\<rparr>"

definition parsePort :: "string \<Rightarrow> port_error + 16 word" where
  "parsePort s =
     (case ParseUint 16 (TrimSpace s) of
        None \<Rightarrow> Inl (InvalidPort s)
      | Some n \<Rightarrow> if n = 0 then Inl (InvalidPort s) else Inr (word_of_nat n))"

definition ParsePortRange :: "string \<Rightarrow> port_error + port_range" where
  "ParsePortRange s0 =
     (let s = TrimSpace s0 in
      case Cut s CHR ''-'' of (first, last0, found) \<Rightarrow>
        (let last = (if found then last0 else first) in
         case parsePort first of
           Inl e \<Rightarrow> Inl e
         | Inr lo \<Rightarrow>
             (case parsePort last of
                Inl e \<Rightarrow> Inl e
              | Inr hi \<Rightarrow> if lo > hi then Inl (FirstAboveLast s)
                          else Inr \<lparr>pr_First = lo, pr_Last = hi\<rparr>)))"

definition PortRange_String :: "port_range \<Rightarrow> string" where
  "PortRange_String r = show_nat (unat (pr_First r)) @ ''-'' @ show_nat (unat (pr_Last r))"

definition PortRange_Contains :: "port_range \<Rightarrow> 16 word \<Rightarrow> bool" where
  "PortRange_Contains r p \<longleftrightarrow> p \<ge> pr_First r \<and> p \<le> pr_Last r"

definition PolicyRule :: "port_range \<Rightarrow> string" where
  "PolicyRule r = ''udp:'' @ show_nat (unat (pr_First r)) @ ''-'' @ show_nat (unat (pr_Last r))"


section \<open>Rates\<close>

definition rateUnits :: "(string \<times> nat) list" where
  "rateUnits = [(''bps'', 1), (''kbps'', 1000), (''mbps'', 1000000), (''gbps'', 1000000000),
                (''tbps'', 1000000000000)]"

datatype rate_error = RateSyntax | RateUnit string | RateNumber | RateZero | RateTooLarge

text \<open>
  Rates are \<open>uint64\<close>: natural numbers below \<open>2 ^ 64\<close>, with the wrap-around of every
  multiplication and addition written out.
\<close>

definition ParseRate :: "string \<Rightarrow> rate_error + nat" where
  "ParseRate s0 =
     (let s = ToLower (TrimSpace s0);
          ds = takeWhile is_digit s; rest = dropWhile is_digit s in
      if rest = [] \<or> ds = [] then Inl RateSyntax
      else
        let unit = TrimSpace rest in
        case map_of rateUnits unit of
          None \<Rightarrow> Inl (RateUnit unit)
        | Some mult \<Rightarrow>
            (case ParseUint 64 ds of
               None \<Rightarrow> Inl RateNumber
             | Some n \<Rightarrow>
                 if n = 0 then Inl RateZero
                 else if n > (2 ^ 64 - 1) div mult div 8 * 8 then Inl RateTooLarge
                 else Inr (n * mult mod 2 ^ 64 div 8)))"

fun pick_unit :: "nat \<Rightarrow> string \<times> nat \<Rightarrow> (string \<times> nat) list \<Rightarrow> string \<times> nat" where
  "pick_unit bits u [] = u"
| "pick_unit bits u (v # vs) =
     (if bits < 10 * snd v then u else pick_unit bits v vs)"

definition FormatRate :: "nat \<Rightarrow> string" where
  "FormatRate bytesPerSecond =
     (let bits = bytesPerSecond * 8 mod 2 ^ 64;
          (unit, mult) = pick_unit bits (hd rateUnits) (tl rateUnits)
      in show_nat ((bits + mult div 2) mod 2 ^ 64 div mult) @ '' '' @ unit)"


section \<open>Controllers\<close>

record controller =
  c_Name :: string
  c_Bps :: nat

datatype controller_error = BrutalNeedsRate string | UnknownController string

definition ControllerFor :: "nat \<Rightarrow> controller" where
  "ControllerFor bytesPerSecond =
     (if bytesPerSecond > 0 then \<lparr>c_Name = ''brutal'', c_Bps = bytesPerSecond\<rparr>
      else \<lparr>c_Name = ''bbr'', c_Bps = 0\<rparr>)"

definition ControllerNamed :: "string \<Rightarrow> nat \<Rightarrow> controller" where
  "ControllerNamed name bytesPerSecond =
     (if name = ''cubic'' then \<lparr>c_Name = ''cubic'', c_Bps = 0\<rparr> else ControllerFor bytesPerSecond)"

definition Controller_String :: "controller \<Rightarrow> string" where
  "Controller_String c =
     (if c_Name c = ''brutal'' then ''brutal='' @ show_nat (c_Bps c)
      else if c_Name c = ''cubic'' then ''cubic'' else ''bbr'')"

definition ParseController :: "string \<Rightarrow> controller_error + controller" where
  "ParseController s =
     (case Cut s CHR ''='' of (name, rate, found) \<Rightarrow>
        if name = ''bbr'' \<and> \<not> found then Inr \<lparr>c_Name = ''bbr'', c_Bps = 0\<rparr>
        else if name = ''cubic'' \<and> \<not> found then Inr \<lparr>c_Name = ''cubic'', c_Bps = 0\<rparr>
        else if name = ''brutal'' \<and> found then
          (case ParseUint 64 rate of
             None \<Rightarrow> Inl (BrutalNeedsRate s)
           | Some bps \<Rightarrow> if bps = 0 then Inl (BrutalNeedsRate s)
                         else Inr \<lparr>c_Name = ''brutal'', c_Bps = bps\<rparr>)
        else Inl (UnknownController s))"


section \<open>Protocol sets\<close>

record proto_set =
  ps_TCP :: bool
  ps_UDP :: bool
  ps_ICMP :: bool

datatype proto_error = ProtoEmpty | ProtoUnknown string | ProtoTwice string

definition proto_All :: proto_set where
  "proto_All = \<lparr>ps_TCP = True, ps_UDP = True, ps_ICMP = True\<rparr>"

fun proto_loop :: "proto_set \<Rightarrow> string list \<Rightarrow> proto_error + proto_set" where
  "proto_loop ps [] = Inr ps"
| "proto_loop ps (n # names) =
     (let name = TrimSpace n in
      if name = ''tcp'' then
        (if ps_TCP ps then Inl (ProtoTwice name) else proto_loop (ps\<lparr>ps_TCP := True\<rparr>) names)
      else if name = ''udp'' then
        (if ps_UDP ps then Inl (ProtoTwice name) else proto_loop (ps\<lparr>ps_UDP := True\<rparr>) names)
      else if name = ''icmp'' then
        (if ps_ICMP ps then Inl (ProtoTwice name) else proto_loop (ps\<lparr>ps_ICMP := True\<rparr>) names)
      else Inl (ProtoUnknown name))"

definition proto_Parse :: "string \<Rightarrow> proto_error + proto_set" where
  "proto_Parse s =
     (if TrimSpace s = [] then Inl ProtoEmpty
      else proto_loop \<lparr>ps_TCP = False, ps_UDP = False, ps_ICMP = False\<rparr> (Split s CHR '',''))"

definition proto_Valid :: "string \<Rightarrow> bool" where
  "proto_Valid s \<longleftrightarrow> (case proto_Parse s of Inl _ \<Rightarrow> False | Inr _ \<Rightarrow> True)"

definition proto_Resolve :: "string \<Rightarrow> string \<Rightarrow> string \<Rightarrow> proto_error + proto_set" where
  "proto_Resolve flag remote defaults =
     (case find (\<lambda>s. s \<noteq> []) [flag, remote, defaults] of
        Some s \<Rightarrow> proto_Parse s | None \<Rightarrow> Inr proto_All)"

definition proto_String :: "proto_set \<Rightarrow> string" where
  "proto_String s =
     Join ((if ps_TCP s then [''tcp''] else []) @ (if ps_UDP s then [''udp''] else [])
           @ (if ps_ICMP s then [''icmp''] else [])) '',''"



section \<open>Round trips\<close>

lemma not_digits [simp]:
  "\<not> is_digit CHR ''-''" "\<not> is_digit CHR ''=''" "\<not> is_digit CHR '' ''" "\<not> is_digit CHR '',''"
  by (simp_all add: is_digit_def)

lemma parsePort_show:
  "p \<noteq> 0 \<Longrightarrow> parsePort (show_nat (unat p)) = Inr p"
proof -
  assume p: "p \<noteq> 0"
  have "unat p < 2 ^ 16" using unsigned_less [of p] by simp
  with p show ?thesis by (simp add: parsePort_def unat_eq_zero)
qed

lemma list_all_plain_hd_last:
  "list_all plain s \<Longrightarrow> s \<noteq> [] \<Longrightarrow> plain (hd s)" "list_all plain s \<Longrightarrow> s \<noteq> [] \<Longrightarrow> plain (last s)"
  using plain_hd_last by blast+

lemma port_string_plain: "list_all plain (PortRange_String r)" "PortRange_String r \<noteq> []"
  by (simp_all add: PortRange_String_def plain_def)

lemma controller_string_plain: "list_all plain (Controller_String c)" "Controller_String c \<noteq> []"
  by (auto simp: Controller_String_def plain_def)

text \<open>What the parsers of the fields give back; the other direction of their printers.\<close>

lemma port_parse_print:
  "0 < pr_First r \<Longrightarrow> pr_First r \<le> pr_Last r \<Longrightarrow> ParsePortRange (PortRange_String r) = Inr r"
proof -
  assume a: "0 < pr_First r" "pr_First r \<le> pr_Last r"
  then have "pr_First r \<noteq> 0" "pr_Last r \<noteq> 0" by auto
  moreover have "Cut (PortRange_String r) CHR ''-''
      = (show_nat (unat (pr_First r)), show_nat (unat (pr_Last r)), True)"
    by (simp add: PortRange_String_def)
  ultimately show ?thesis
    using a port_string_plain [of r] by (simp add: ParsePortRange_def parsePort_show)
qed

lemma controller_parse_print:
  "c_Name c = ''bbr'' \<and> c_Bps c = 0 \<or> c_Name c = ''cubic'' \<and> c_Bps c = 0
   \<or> c_Name c = ''brutal'' \<and> 0 < c_Bps c \<and> c_Bps c < 2 ^ 64 \<Longrightarrow>
   ParseController (Controller_String c) = Inr c"
  using Cut_found [of "CHR ''=''" "''brutal''" "show_nat (c_Bps c)"]
  by (cases c) (auto simp: ParseController_def Controller_String_def)

text \<open>
  A port range the client prints on the control line is the range the helper parses,
  for every range with a non-zero first port that is not empty.
\<close>

theorem port_range_roundtrip:
  assumes "0 < pr_First r" "pr_First r \<le> pr_Last r"
  shows "ParsePortRange (PortRange_String r) = Inr r"
  using assms by (rule port_parse_print)

theorem port_range_roundtrip_witness:
  "ParsePortRange (PortRange_String DefaultPorts) = Inr DefaultPorts"
  by (rule port_range_roundtrip) (simp_all add: DefaultPorts_def)

lemma ports_pos:
  assumes "ParsePortRange s = Inr r"
  shows "pr_First r \<le> pr_Last r \<and> pr_First r \<noteq> 0"
proof -
  have pos: "parsePort t = Inr p \<Longrightarrow> p \<noteq> 0" for t p
  proof -
    assume "parsePort t = Inr p"
    then obtain n where n: "ParseUint 16 (TrimSpace t) = Some n" "n \<noteq> 0" "p = word_of_nat n"
      by (auto simp: parsePort_def split: option.splits if_splits)
    with ParseUint_bound [OF n(1)] have "unat p = n" by (simp add: unat_of_nat)
    with n show "p \<noteq> 0" by auto
  qed
  from assms show ?thesis
    by (auto simp: ParsePortRange_def Let_def dest: pos split: sum.splits if_splits prod.splits)
qed

text \<open>
  The ranges the parser accepts are never empty and never contain port zero, so the
  helper's bind loop always has a port to try.
\<close>

theorem port_range_nonempty:
  assumes "ParsePortRange s = Inr r"
  shows "PortRange_Contains r (pr_First r) \<and> PortRange_Contains r (pr_Last r)
       \<and> \<not> PortRange_Contains r 0"
  using ports_pos [OF assms] by (auto simp: PortRange_Contains_def)

theorem port_range_nonempty_witness:
  "ParsePortRange ''7443-7452'' = Inr DefaultPorts \<and> PortRange_Contains DefaultPorts 7443"
proof -
  have p: "ParsePortRange ''7443-7452'' = Inr DefaultPorts"
    by (simp add: ParsePortRange_def plain_def parsePort_def ParseUint_def is_digit_def
        digits_val_def DefaultPorts_def)
  show ?thesis using p port_range_nonempty [OF p] by (simp add: DefaultPorts_def)
qed

text \<open>
  C32: \<open>ParseController\<close> reverses \<open>String\<close> on every controller the client can choose.
\<close>

theorem controller_roundtrip:
  assumes "bps < 2 ^ 64"
  shows "ParseController (Controller_String (ControllerNamed name bps)) = Inr (ControllerNamed name bps)"
  using assms by (intro controller_parse_print) (auto simp: ControllerNamed_def ControllerFor_def)

theorem controller_roundtrip_witness:
  "ParseController (Controller_String (ControllerNamed ''brutal'' 2500000))
     = Inr (ControllerNamed ''brutal'' 2500000)"
  by (rule controller_roundtrip) simp

text \<open>
  A protocol set that is not empty is printed in canonical order and parsed back;
  the empty set, which no parser produces, is refused.
\<close>

theorem proto_roundtrip:
  "proto_Parse (proto_String ps) =
     (if ps_TCP ps \<or> ps_UDP ps \<or> ps_ICMP ps then Inr ps else Inl ProtoEmpty)"
proof -
  have "proto_Parse (proto_String \<lparr>ps_TCP = t, ps_UDP = u, ps_ICMP = i\<rparr>) =
    (if t \<or> u \<or> i then Inr \<lparr>ps_TCP = t, ps_UDP = u, ps_ICMP = i\<rparr> else Inl ProtoEmpty)" for t u i
    by (cases t rule: bool.exhaust; cases u rule: bool.exhaust; cases i rule: bool.exhaust)
       (simp_all add: proto_Parse_def proto_String_def plain_def)
  then show ?thesis by (cases ps) simp
qed



section \<open>Rates\<close>

definition lower_ascii :: "char \<Rightarrow> bool" where
  "lower_ascii c \<longleftrightarrow> (of_char c :: nat) < 128 \<and> \<not> (65 \<le> (of_char c :: nat) \<and> (of_char c :: nat) \<le> 90)"

lemma ToLower_id [str_simps]: "list_all lower_ascii s \<Longrightarrow> ToLower s = s"
  by (induction s rule: ToLower.induct) (auto simp: lower_char_def lower_ascii_def Let_def)

lemma digit_lower: "is_digit c \<Longrightarrow> lower_ascii c"
  by (simp add: is_digit_def lower_ascii_def)

lemma rateUnits_mult: "(u, mult) \<in> set rateUnits \<Longrightarrow> 0 < mult \<and> mult \<le> 1000000000000"
  by (auto simp: rateUnits_def)

lemma rateUnits_text: "u \<in> fst ` set rateUnits \<Longrightarrow> u \<noteq> [] \<and> list_all plain u \<and> list_all lower_ascii u"
  by (auto simp: rateUnits_def plain_def lower_ascii_def)

lemma rateUnits_lookup: "(u, mult) \<in> set rateUnits \<Longrightarrow> map_of rateUnits u = Some mult"
  by (rule map_of_is_SomeI) (simp_all add: rateUnits_def)

text \<open>The parser on a number, a blank and a unit.\<close>

lemma ParseRate_show:
  assumes u: "(u, mult) \<in> set rateUnits" and n: "0 < n" "n \<le> (2 ^ 64 - 1) div mult div 8 * 8"
  shows "ParseRate (show_nat n @ '' '' @ u) = Inr (n * mult mod 2 ^ 64 div 8)"
proof -
  let ?s = "show_nat n @ '' '' @ u"
  note uf = rateUnits_mult [OF u] rateUnits_text [OF image_eqI [OF _ u], simplified] rateUnits_lookup [OF u]
  have "list_all lower_ascii (show_nat n)"
    using show_nat_digits [of n] by (auto simp: list_all_iff digit_lower)
  then have low: "ToLower ?s = ?s"
    using uf by (intro ToLower_id) (simp add: lower_ascii_def)
  have trim: "TrimSpace ?s = ?s"
    using uf list_all_plain_hd_last [OF show_nat_plain [of n]] list_all_plain_hd_last [of u]
    by (intro TrimSpace_plain) auto
  have digs: "takeWhile is_digit ?s = show_nat n" "dropWhile is_digit ?s = '' '' @ u"
    using show_nat_digits [of n]
    by (simp_all add: takeWhile_append dropWhile_append list_all_iff takeWhile_eq_all_conv
        dropWhile_eq_Nil_conv)
  have unit: "TrimSpace ('' '' @ u) = u"
    using uf list_all_plain_hd_last [of u] trim_blank [of u] by simp
  have "n \<le> 2 ^ 64 - 1"
    using n(2) div_le_dividend [of "2 ^ 64 - 1" mult]
      div_times_less_eq_dividend [of "(2 ^ 64 - 1) div mult" 8] by linarith
  then have "ParseUint 64 (show_nat n) = Some n" by (intro ParseUint_show) simp
  then show ?thesis
    using n uf unit by (simp only: ParseRate_def trim low digs Let_def) simp
qed

lemma pick_unit_rates:
  "pick_unit bits (hd rateUnits) (tl rateUnits) =
     (if bits < 10000 then (''bps'', 1) else if bits < 10000000 then (''kbps'', 1000)
      else if bits < 10000000000 then (''mbps'', 1000000)
      else if bits < 10000000000000 then (''gbps'', 1000000000) else (''tbps'', 1000000000000))"
  by (simp add: rateUnits_def)

text \<open>Printing in a unit of \<open>m\<close> bits and parsing back stays within five percent.\<close>

lemma rate_unit_roundtrip:
  fixes b m k :: nat
  defines "r \<equiv> (b * 8 + m div 2) mod 2 ^ 64 div m"
  assumes u: "(u, m) \<in> set rateUnits" and m: "m = 8 * k" "0 < k" and big: "10 * m \<le> b * 8"
    and small: "b * 8 + m div 2 < 2 ^ 64" and lim: "r \<le> (2 ^ 64 - 1) div m div 8 * 8"
  shows "\<exists>n. ParseRate (show_nat r @ '' '' @ u) = Inr n \<and> 0 < n \<and> 20 * n \<le> 21 * b \<and> 19 * b \<le> 20 * n"
proof -
  have r: "r = (b * 8 + m div 2) div m" using small by (simp add: r_def)
  have up: "r * m \<le> b * 8 + m div 2" by (simp add: r)
  have lo: "b * 8 + m div 2 < r * m + m"
    using m dividend_less_times_div [of m "b * 8 + m div 2"] by (simp add: r algebra_simps)
  have h: "m div 2 = 4 * k" using m by simp
  from up lo h have b: "r * (8 * k) \<le> b * 8 + 4 * k" "b * 8 + 4 * k < r * (8 * k) + 8 * k"
    by (simp_all only: m)
  from big m have k: "10 * k \<le> b" by simp
  have n8: "r * m mod 2 ^ 64 div 8 = r * k"
  proof -
    have "r * m < 2 ^ 64" using up small by linarith
    moreover have "r * m div 8 = r * k" using m by simp
    ultimately show ?thesis by simp
  qed
  have rk: "r * (8 * k) = 8 * (r * k)" by simp
  have bounds: "20 * (r * k) \<le> 21 * b" "19 * b \<le> 20 * (r * k)"
    using b k unfolding rk by linarith+
  have "0 < r * k" using bounds(2) k m(2) by linarith
  then have "0 < r" by simp
  from ParseRate_show [OF u this lim] have "ParseRate (show_nat r @ '' '' @ u) = Inr (r * k)"
    by (simp only: n8)
  with bounds \<open>0 < r * k\<close> show ?thesis by blast
qed

lemma rate_limit: "x < l * m \<Longrightarrow> l \<le> Suc bound \<Longrightarrow> x mod (2 ^ 64 :: nat) div m \<le> bound"
  using less_mult_imp_div_less [of x l m] div_le_mono [OF mod_less_eq_dividend [of x "2 ^ 64"], of m]
  by linarith

text \<open>
  C40: \<open>ParseRate\<close> accepts every rate \<open>FormatRate\<close> prints, from one byte per second up
  to the range where adding half a unit would wrap, and the rate that comes back is
  positive and within five percent of the rate printed.
\<close>

theorem rate_format_parse:
  assumes "0 < b" "b * 8 + 500000000000 < 2 ^ 64"
  shows "\<exists>n. ParseRate (FormatRate b) = Inr n \<and> 0 < n \<and> 20 * n \<le> 21 * b \<and> 19 * b \<le> 20 * n"
proof -
  have bits: "b * 8 mod 2 ^ 64 = b * 8" using assms(2) by simp
  note F = FormatRate_def Let_def bits pick_unit_rates
  consider "b * 8 < 10000" | "10000 \<le> b * 8" "b * 8 < 10000000"
    | "10000000 \<le> b * 8" "b * 8 < 10000000000" | "10000000000 \<le> b * 8" "b * 8 < 10000000000000"
    | "10000000000000 \<le> b * 8" by linarith
  then show ?thesis
  proof cases
    case 1
    have "ParseRate (show_nat (b * 8) @ '' '' @ ''bps'') = Inr (b * 8 * 1 mod 2 ^ 64 div 8)"
      using assms 1 by (intro ParseRate_show) (simp_all add: rateUnits_def)
    with 1 bits show ?thesis using assms by (simp add: F)
  next
    case 2
    then have f: "FormatRate b = show_nat ((b * 8 + 1000 div 2) mod 2 ^ 64 div 1000) @ '' '' @ ''kbps''"
      unfolding F by simp
    show ?thesis
      unfolding f using 2 assms
      by (intro rate_unit_roundtrip [of _ _ 125] rate_limit [of _ _ 10001]) (simp_all add: rateUnits_def)
  next
    case 3
    then have f: "FormatRate b = show_nat ((b * 8 + 1000000 div 2) mod 2 ^ 64 div 1000000) @ '' '' @ ''mbps''"
      unfolding F by simp
    show ?thesis
      unfolding f using 3 assms
      by (intro rate_unit_roundtrip [of _ _ 125000] rate_limit [of _ _ 10001]) (simp_all add: rateUnits_def)
  next
    case 4
    then have f: "FormatRate b = show_nat ((b * 8 + 1000000000 div 2) mod 2 ^ 64 div 1000000000) @ '' '' @ ''gbps''"
      unfolding F by simp
    show ?thesis
      unfolding f using 4 assms
      by (intro rate_unit_roundtrip [of _ _ 125000000] rate_limit [of _ _ 10001]) (simp_all add: rateUnits_def)
  next
    case 5
    then have f: "FormatRate b = show_nat ((b * 8 + 1000000000000 div 2) mod 2 ^ 64 div 1000000000000) @ '' '' @ ''tbps''"
      unfolding F by simp
    show ?thesis
      unfolding f using 5 assms
      by (intro rate_unit_roundtrip [of _ _ 125000000000] rate_limit [of _ _ 18446745]) (simp_all add: rateUnits_def)
  qed
qed

theorem rate_format_parse_witness:
  "\<exists>n. ParseRate (FormatRate 2500000) = Inr n \<and> 0 < n \<and> 20 * n \<le> 21 * 2500000 \<and> 19 * 2500000 \<le> 20 * n"
  by (rule rate_format_parse) simp_all

text \<open>
  The limit of the parser is sound: an accepted rate is a positive number of a known
  unit whose product with the unit fits in 64 bits, so the multiplication never wraps.
\<close>

theorem rate_parse_sound:
  assumes "ParseRate s = Inr n"
  shows "\<exists>u mult d. map_of rateUnits u = Some mult \<and> 0 < d \<and> d * mult < 2 ^ 64 \<and> n = d * mult div 8"
proof -
  from assms obtain u mult d where u: "map_of rateUnits u = Some mult" and d: "0 < d"
    and lim: "d \<le> (2 ^ 64 - 1) div mult div 8 * 8" and n: "n = d * mult mod 2 ^ 64 div 8"
    by (auto simp: ParseRate_def Let_def split: if_splits option.splits)
  have "0 < mult" using rateUnits_mult map_of_SomeD [OF u] by blast
  have "d \<le> (2 ^ 64 - 1) div mult"
    using lim div_times_less_eq_dividend [of "(2 ^ 64 - 1) div mult" 8] by linarith
  then have "d * mult \<le> (2 ^ 64 - 1) div mult * mult" by simp
  also have "\<dots> \<le> 2 ^ 64 - 1" by (rule div_times_less_eq_dividend)
  finally have "d * mult < 2 ^ 64" by simp
  with u d n show ?thesis by auto
qed

theorem rate_parse_sound_witness:
  "\<exists>u mult d. map_of rateUnits u = Some mult \<and> 0 < d \<and> d * mult < 2 ^ 64 \<and> 2500000 = d * mult div 8"
proof -
  have "ParseRate (show_nat 20 @ '' '' @ ''mbps'') = Inr (20 * 1000000 mod 2 ^ 64 div 8)"
    by (rule ParseRate_show) (simp_all add: rateUnits_def)
  then have "ParseRate (show_nat 20 @ '' '' @ ''mbps'') = Inr 2500000" by simp
  then show ?thesis by (rule rate_parse_sound)
qed


text \<open>
  The two ends of the rate vocabulary do not meet at zero. The rate 0, which
  \<open>FormatRate\<close> prints as "0 bps", is refused by \<open>ParseRate\<close>.
\<close>

theorem rate_zero_refused: "ParseRate (FormatRate 0) = Inl RateZero"
proof -
  have z: "show_nat 0 = ''0''" by code_simp
  have "FormatRate 0 = ''0 bps''"
    by (simp add: FormatRate_def pick_unit_rates z)
  moreover have "TrimSpace '' bps'' = ''bps''"
    using trim_blank [of "''bps''"] by (simp add: plain_def)
  moreover have "TrimSpace ''0 bps'' = ''0 bps''"
    by (rule TrimSpace_plain) (simp add: plain_def)
  moreover have "ToLower ''0 bps'' = ''0 bps''"
    by (rule ToLower_id) (simp add: lower_ascii_def)
  ultimately show ?thesis
    by (simp add: ParseRate_def is_digit_def rateUnits_def ParseUint_def digits_val_def)
qed

text \<open>
  A positive rate below one byte per second passes every check of \<open>ParseRate\<close> and
  comes back as zero, so a manifest that asks for such a rate selects BBR, not Brutal.
\<close>

theorem rate_below_one_byte:
  assumes "0 < d" "d < 8"
  shows "ParseRate (show_nat d @ '' '' @ ''bps'') = Inr 0
       \<and> ControllerFor 0 = \<lparr>c_Name = ''bbr'', c_Bps = 0\<rparr>"
proof -
  have "ParseRate (show_nat d @ '' '' @ ''bps'') = Inr (d * 1 mod 2 ^ 64 div 8)"
    using assms by (intro ParseRate_show) (simp_all add: rateUnits_def)
  then show ?thesis using assms by (simp add: ControllerFor_def)
qed

theorem rate_below_one_byte_witness: "ParseRate (show_nat 5 @ '' '' @ ''bps'') = Inr 0"
  using rate_below_one_byte [of 5] by simp

end
