(* ===== verification/Netip.thy ===== *)
theory Netip
  imports Prelude "HOL-Library.Char_ord"
begin

text \<open>
  The values of Go's \<open>net/netip\<close> package the program passes around: addresses,
  address and port pairs, and prefixes, with the operations the program calls on them.
  An IPv4 address is a 32-bit word, an IPv6 address a 128-bit word and a zone.
\<close>

datatype addr = AddrZero | V4 "32 word" | V6 "128 word" string

record addr_port =
  ap_addr :: addr
  ap_port :: "16 word"

record prefix =
  pfx_addr :: addr
  pfx_bits :: int

fun Is4 :: "addr \<Rightarrow> bool" where
  "Is4 (V4 _) = True"
| "Is4 _ = False"

fun Is6 :: "addr \<Rightarrow> bool" where
  "Is6 (V6 _ _) = True"
| "Is6 _ = False"

definition IsValid :: "addr \<Rightarrow> bool" where
  "IsValid a \<longleftrightarrow> a \<noteq> AddrZero"

fun BitLen :: "addr \<Rightarrow> nat" where
  "BitLen AddrZero = 0"
| "BitLen (V4 _) = 32"
| "BitLen (V6 _ _) = 128"

text \<open>\<open>Addr.Is4In6\<close> and \<open>Addr.Unmap\<close>: an IPv4-mapped IPv6 address is ::ffff:a.b.c.d.\<close>

fun Is4In6 :: "addr \<Rightarrow> bool" where
  "Is4In6 (V6 w _) = (drop_bit 32 w = 0xffff)"
| "Is4In6 _ = False"

fun Unmap :: "addr \<Rightarrow> addr" where
  "Unmap (V6 w z) = (if drop_bit 32 w = 0xffff then V4 (ucast w) else V6 w z)"
| "Unmap a = a"

fun WithoutZone :: "addr \<Rightarrow> addr" where
  "WithoutZone (V6 w _) = V6 w []"
| "WithoutZone a = a"

text \<open>
  \<open>As4\<close>, \<open>As16\<close>, \<open>AsSlice\<close> and their inverses. \<open>As16\<close> gives an IPv4 address in
  its mapped form and the zero address as zeros; \<open>AsSlice\<close> of the zero address is nil.
\<close>

definition As4 :: "32 word \<Rightarrow> bytes" where "As4 w = be_put 4 (unat w)"

fun As16 :: "addr \<Rightarrow> bytes" where
  "As16 AddrZero = replicate 16 0"
| "As16 (V4 w) = replicate 10 0 @ [0xff, 0xff] @ As4 w"
| "As16 (V6 w _) = be_put 16 (unat w)"

fun AsSlice :: "addr \<Rightarrow> bytes" where
  "AsSlice AddrZero = []"
| "AsSlice (V4 w) = As4 w"
| "AsSlice (V6 w _) = be_put 16 (unat w)"

definition AddrFrom4 :: "bytes \<Rightarrow> addr" where
  "AddrFrom4 bs = V4 (word_of_nat (be_get bs))"

definition AddrFrom16 :: "bytes \<Rightarrow> addr" where
  "AddrFrom16 bs = V6 (word_of_nat (be_get bs)) []"

definition AddrFromSlice :: "bytes \<Rightarrow> addr \<times> bool" where
  "AddrFromSlice bs =
     (if length bs = 4 then (AddrFrom4 bs, True)
      else if length bs = 16 then (AddrFrom16 bs, True) else (AddrZero, False))"

lemma length_As4 [simp]: "length (As4 w) = 4"
  by (simp add: As4_def)

lemma length_As16 [simp]: "length (As16 a) = 16"
  by (cases a) auto

lemma AddrFrom4_As4 [simp, codec_simps]: "AddrFrom4 (As4 w) = V4 w"
proof -
  have "unat w < 4294967296" using unsigned_less [of w] by simp
  then show ?thesis by (simp add: AddrFrom4_def As4_def be_get_put)
qed

lemma AddrFrom16_put [simp, codec_simps]: "AddrFrom16 (be_put 16 (unat w)) = V6 w []"
proof -
  have "unat w < 256 ^ 16" using unsigned_less [of w] by simp
  then show ?thesis by (simp add: AddrFrom16_def)
qed

lemma AddrFromSlice_As4 [simp, codec_simps]: "AddrFromSlice (As4 w) = (V4 w, True)"
  by (simp add: AddrFromSlice_def)

lemma AddrFromSlice_put [simp, codec_simps]:
  "AddrFromSlice (be_put 16 (unat w)) = (V6 w [], True)"
  by (simp add: AddrFromSlice_def)

lemma As4_AddrFrom4: "length bs = 4 \<Longrightarrow> AddrFrom4 bs = V4 w \<Longrightarrow> As4 w = bs"
  using be_get_less [of bs] be_put_get [of bs]
  by (auto simp: As4_def AddrFrom4_def unat_of_nat)

lemma put_AddrFrom16: "length bs = 16 \<Longrightarrow> AddrFrom16 bs = V6 w z \<Longrightarrow> be_put 16 (unat w) = bs"
  using be_get_less [of bs] be_put_get [of bs]
  by (auto simp: AddrFrom16_def unat_of_nat)

lemma Unmap_idem [simp]: "Unmap (Unmap a) = Unmap a"
  by (cases a) auto


section \<open>Prefixes\<close>

text \<open>
  \<open>netip.PrefixFrom\<close> stores -1 for a bit count out of range, which makes the prefix
  invalid; it drops the zone. \<open>Contains\<close> is false for an invalid prefix, an address
  with a zone, and an address of the other family.
\<close>

definition PrefixFrom :: "addr \<Rightarrow> int \<Rightarrow> prefix" where
  "PrefixFrom a b =
     \<lparr>pfx_addr = WithoutZone a,
      pfx_bits = (if IsValid a \<and> 0 \<le> b \<and> b \<le> int (BitLen a) then b else -1)\<rparr>"

definition PrefixIsValid :: "prefix \<Rightarrow> bool" where
  "PrefixIsValid p \<longleftrightarrow> 0 \<le> pfx_bits p"

fun hasZone :: "addr \<Rightarrow> bool" where
  "hasZone (V6 _ z) = (z \<noteq> [])"
| "hasZone _ = False"

text \<open>A prefix as the package makes it: a real address without a zone, and a length that fits it.\<close>

definition prefix_ok :: "prefix \<Rightarrow> bool" where
  "prefix_ok p \<longleftrightarrow> IsValid (pfx_addr p) \<and> \<not> hasZone (pfx_addr p) \<and> 0 \<le> pfx_bits p \<and> pfx_bits p \<le> int (BitLen (pfx_addr p))"

fun same_high :: "nat \<Rightarrow> addr \<Rightarrow> addr \<Rightarrow> bool" where
  "same_high n (V4 a) (V4 b) = (drop_bit (32 - n) a = drop_bit (32 - n) b)"
| "same_high n (V6 a _) (V6 b _) = (drop_bit (128 - n) a = drop_bit (128 - n) b)"
| "same_high n _ _ = False"

definition Contains :: "prefix \<Rightarrow> addr \<Rightarrow> bool" where
  "Contains p a \<longleftrightarrow> PrefixIsValid p \<and> \<not> hasZone a \<and> same_high (nat (pfx_bits p)) (pfx_addr p) a"

lemma same_high_refl: "IsValid a \<Longrightarrow> same_high n a a"
  by (cases a) (auto simp: IsValid_def)

text \<open>A host prefix, \<open>PrefixFrom(a, a.BitLen())\<close>, contains exactly its own address.\<close>

lemma Contains_host:
  "IsValid a \<Longrightarrow> \<not> hasZone a \<Longrightarrow> Contains (PrefixFrom a (int (BitLen a))) b \<longleftrightarrow> b = a"
  by (cases a; cases b)
     (auto simp: Contains_def PrefixFrom_def PrefixIsValid_def IsValid_def)



section \<open>Text\<close>

text \<open>
  \<open>Addr.String\<close> for IPv4, and \<open>netip.ParseAddr\<close>: the first of the bytes \<open>.\<close>,
  \<open>:\<close> and \<open>%\<close> decides the family. An IPv4 field has no leading zero and is below 256.
\<close>

definition show_v4 :: "32 word \<Rightarrow> string" where
  "show_v4 w = Join (map (show_nat \<circ> unat) (As4 w)) ''.''"

definition v4_field :: "string \<Rightarrow> nat option" where
  "v4_field s =
     (if s = [] \<or> \<not> list_all is_digit s then None
      else if length s > 1 \<and> hd s = CHR ''0'' then None
      else if digits_val s > 255 then None else Some (digits_val s))"

definition parseIPv4Fields :: "string \<Rightarrow> bytes option" where
  "parseIPv4Fields s =
     (case Split s CHR ''.'' of
        [a, b, c, d] \<Rightarrow> do {
          a' \<leftarrow> v4_field a; b' \<leftarrow> v4_field b; c' \<leftarrow> v4_field c; d' \<leftarrow> v4_field d;
          Some (map word_of_nat [a', b', c', d']) }
      | _ \<Rightarrow> None)"

definition parseIPv4 :: "string \<Rightarrow> addr option" where
  "parseIPv4 s = map_option AddrFrom4 (parseIPv4Fields s)"

text \<open>
  \<open>parseIPv6\<close>. A group is one to four hex digits. The loop carries the bytes parsed so
  far and the byte position of the ellipsis; it returns what is left of the text.
\<close>

definition hex_digit :: "char \<Rightarrow> nat option" where
  "hex_digit c =
     (let n = of_char c in
      if 48 \<le> n \<and> n \<le> 57 then Some (n - 48)
      else if 97 \<le> n \<and> n \<le> 102 then Some (n - 87)
      else if 65 \<le> n \<and> n \<le> 70 then Some (n - 55) else None)"

definition is_hex :: "char \<Rightarrow> bool" where
  "is_hex c \<longleftrightarrow> hex_digit c \<noteq> None"

definition hex_val :: "string \<Rightarrow> nat" where
  "hex_val s = foldl (\<lambda>a c. a * 16 + the (hex_digit c)) 0 s"

function v6_groups ::
  "string \<Rightarrow> bytes \<Rightarrow> nat option \<Rightarrow> (bytes \<times> nat option \<times> string) option" where
  "v6_groups s ip ell =
     (if length ip \<ge> 16 then Some (ip, ell, s)
      else
        let g = takeWhile is_hex s; r = dropWhile is_hex s in
        if g = [] \<or> length g > 4 then None
        else if r \<noteq> [] \<and> hd r = CHR ''.'' then
          (if ell = None \<and> length ip \<noteq> 12 \<or> length ip + 4 > 16 then None
           else map_option (\<lambda>b. (ip @ b, ell, [])) (parseIPv4Fields s))
        else
          let ip' = ip @ be_put 2 (hex_val g) in
          if r = [] then Some (ip', ell, [])
          else if hd r \<noteq> CHR '':'' \<or> tl r = [] then None
          else if hd (tl r) = CHR '':'' then
            (if ell \<noteq> None then None
             else if tl (tl r) = [] then Some (ip', Some (length ip'), [])
             else v6_groups (tl (tl r)) ip' (Some (length ip')))
          else v6_groups (tl r) ip' ell)"
  by pat_completeness auto
termination
  by (relation "measure (\<lambda>(s, ip, ell). 16 - length ip)") auto

declare v6_groups.simps [simp del]

definition v6_expand :: "bytes \<Rightarrow> nat option \<Rightarrow> string \<Rightarrow> bytes option" where
  "v6_expand ip ell s =
     (if s \<noteq> [] then None
      else if length ip < 16 then
        map_option (\<lambda>e. take e ip @ replicate (16 - length ip) 0 @ drop e ip) ell
      else if ell \<noteq> None then None else Some ip)"

definition parseIPv6 :: "string \<Rightarrow> addr option" where
  "parseIPv6 s =
     (case Cut s CHR ''%'' of (s1, zone, found) \<Rightarrow>
        if found \<and> zone = [] then None
        else
          let lead = HasPrefix s1 ''::''; s2 = (if lead then drop 2 s1 else s1) in
          if lead \<and> s2 = [] then Some (V6 0 zone)
          else do {
            (ip, ell, r) \<leftarrow> v6_groups s2 [] (if lead then Some 0 else None);
            b \<leftarrow> v6_expand ip ell r;
            (case AddrFrom16 b of V6 w _ \<Rightarrow> Some (V6 w zone) | _ \<Rightarrow> None) })"

definition ParseAddr :: "string \<Rightarrow> addr option" where
  "ParseAddr s =
     (case find (\<lambda>c. c = CHR ''.'' \<or> c = CHR '':'' \<or> c = CHR ''%'') s of
        Some c \<Rightarrow> if c = CHR ''.'' then parseIPv4 s
                  else if c = CHR '':'' then parseIPv6 s else None
      | None \<Rightarrow> None)"

text \<open>
  \<open>netip.ParsePrefix\<close>: the address before the last slash, without a zone, and a bit
  count without sign and leading zero, in range.
\<close>

definition LastCut :: "string \<Rightarrow> char \<Rightarrow> (string \<times> string) option" where
  "LastCut s c =
     (case Cut (rev s) c of (b, a, f) \<Rightarrow> if f then Some (rev a, rev b) else None)"

definition ParsePrefix :: "string \<Rightarrow> prefix option" where
  "ParsePrefix s = do {
     (ip_s, bits_s) \<leftarrow> LastCut s CHR ''/'';
     ip \<leftarrow> ParseAddr ip_s;
     if hasZone ip then None
     else if length bits_s > 1 \<and> (hd bits_s < CHR ''1'' \<or> hd bits_s > CHR ''9'') then None
     else do {
       bits \<leftarrow> Atoi bits_s;
       if bits < 0 \<or> bits > int (BitLen ip) then None else Some (PrefixFrom ip bits) } }"

text \<open>\<open>Prefix.Masked\<close> clears the bits below the prefix length.\<close>

fun mask_addr :: "nat \<Rightarrow> addr \<Rightarrow> addr" where
  "mask_addr n (V4 w) = V4 (push_bit (32 - n) (drop_bit (32 - n) w))"
| "mask_addr n (V6 w z) = V6 (push_bit (128 - n) (drop_bit (128 - n) w)) []"
| "mask_addr n AddrZero = AddrZero"

definition Masked :: "prefix \<Rightarrow> prefix" where
  "Masked p = (if PrefixIsValid p then p\<lparr>pfx_addr := mask_addr (nat (pfx_bits p)) (pfx_addr p)\<rparr>
               else \<lparr>pfx_addr = AddrZero, pfx_bits = -1\<rparr>)"



section \<open>Facts on addresses as text\<close>

lemma show_nat_0: "show_nat 0 = ''0''"
  by code_simp

lemma v4_field_show [simp]: "n \<le> 255 \<Longrightarrow> v4_field (show_nat n) = Some n"
proof (cases "n = 0")
  case True
  then show ?thesis by (simp add: v4_field_def show_nat_0 is_digit_def digits_val_def)
next
  case False
  assume "n \<le> 255"
  with False show ?thesis using show_nat_hd [of n] by (simp add: v4_field_def show_nat_digits)
qed

lemma dot_not_digit [simp]: "\<not> is_digit CHR ''.''" "\<not> is_digit CHR '':''" "\<not> is_digit CHR ''%''"
  by (simp_all add: is_digit_def)

lemma parseIPv4Fields_show: "parseIPv4Fields (show_v4 w) = Some (As4 w)"
proof -
  obtain a b c d where abcd: "As4 w = [a, b, c, d]"
    by (rule length_4E [OF length_As4])
  have "Split (show_v4 w) CHR ''.'' = map (show_nat \<circ> unat) (As4 w)"
    unfolding show_v4_def by (rule Split_Join) (auto simp: abcd)
  then show ?thesis by (simp add: parseIPv4Fields_def abcd)
qed

lemma parseIPv4_show [simp]: "parseIPv4 (show_v4 w) = Some (V4 w)"
  by (simp add: parseIPv4_def parseIPv4Fields_show)

lemma find_append_None: "find P (xs @ ys) = (case find P xs of None \<Rightarrow> find P ys | Some x \<Rightarrow> Some x)"
  by (induction xs) auto

text \<open>\<open>ParseAddr(a.String())\<close> gives an IPv4 address back.\<close>

lemma ParseAddr_show_v4 [simp, str_simps]: "ParseAddr (show_v4 w) = Some (V4 w)"
proof -
  obtain a bs where w: "As4 w = a # bs" "bs \<noteq> []"
    by (rule length_4E [OF length_As4 [of w]]) auto
  have "show_v4 w = show_nat (unat a) @ CHR ''.'' # Join (map (show_nat \<circ> unat) bs) ''.''"
    using w by (cases bs) (auto simp: show_v4_def)
  moreover have "find (\<lambda>c. c = CHR ''.'' \<or> c = CHR '':'' \<or> c = CHR ''%'') (show_nat (unat a)) = None"
    by (auto simp: find_None_iff)
  ultimately have "find (\<lambda>c. c = CHR ''.'' \<or> c = CHR '':'' \<or> c = CHR ''%'') (show_v4 w) = Some CHR ''.''"
    by (simp add: find_append_None)
  then show ?thesis by (simp add: ParseAddr_def)
qed

lemma list_all_Join: "list_all (list_all P) ws \<Longrightarrow> list_all P sep \<Longrightarrow> list_all P (Join ws sep)"
  by (induction ws sep rule: Join.induct) auto

lemma show_v4_plain [simp]: "list_all plain (show_v4 w)" "show_v4 w \<noteq> []"
proof -
  show "list_all plain (show_v4 w)"
    unfolding show_v4_def
  proof (rule list_all_Join)
    show "list_all (list_all plain) (map (show_nat \<circ> unat) (As4 w))"
      by (simp add: list.pred_map comp_def list.pred_True)
    show "list_all plain ''.''" by (simp add: plain_def)
  qed
  show "show_v4 w \<noteq> []"
    by (rule length_4E [OF length_As4 [of w]]) (simp add: show_v4_def)
qed

lemma ParseAddr_valid: "ParseAddr s = Some a \<Longrightarrow> a \<noteq> AddrZero"
  by (auto simp: ParseAddr_def parseIPv4_def parseIPv6_def AddrFrom4_def Let_def
      split: option.splits if_splits prod.splits addr.splits bind_splits)

end
