(* ===== verification/Tailnet.thy ===== *)
theory Tailnet
  imports Netip
begin

text \<open>
  Choosing the remote: \<open>internal/tailnet/resolve.go\<close> and the peer operations of
  \<open>tailnet.go\<close>, with \<open>resolveAddr\<close> of \<open>internal/session/reconnect.go\<close>. A time is an integer.
  The loops that keep the best candidate so far share the locale \<open>selection\<close>.
\<close>

section \<open>Peers\<close>

record peer =
  HostName :: string
  Tags :: "string list"
  Online :: bool
  TailscaleIPs :: "addr list"
  Active :: bool
  CurAddr :: string
  Relay :: string
  LastHandshake :: int

record tail_status =
  Self :: peer
  Peers :: "peer list"

record raw_peer =
  raw_HostName :: string
  raw_Tags :: "string list"
  raw_Online :: bool
  raw_Active :: bool
  raw_CurAddr :: string
  raw_Relay :: string
  raw_TailscaleIPs :: "string list"
  raw_LastHandshake :: int

datatype tailnet_error =
    BadTailscaleAddress string
  | NoIPv4 string
  | NoOnlineTag string "string list"
  | NoOnlineHost string "string list"
  | TailscaledOffline

fun parse_addrs :: "string list \<Rightarrow> string + addr list" where
  "parse_addrs [] = Inr []"
| "parse_addrs (s # ss) =
     (case ParseAddr s of
        None \<Rightarrow> Inl s
      | Some a \<Rightarrow> (case parse_addrs ss of Inl e \<Rightarrow> Inl e | Inr as \<Rightarrow> Inr (a # as)))"

definition toPeer :: "raw_peer \<Rightarrow> tailnet_error + peer" where
  "toPeer rp =
     (case parse_addrs (raw_TailscaleIPs rp) of
        Inl s \<Rightarrow> Inl (BadTailscaleAddress s)
      | Inr addrs \<Rightarrow> Inr \<lparr>HostName = raw_HostName rp, Tags = raw_Tags rp, Online = raw_Online rp,
                         TailscaleIPs = addrs, Active = raw_Active rp, CurAddr = raw_CurAddr rp,
                         Relay = raw_Relay rp, LastHandshake = raw_LastHandshake rp\<rparr>)"

definition HasTag :: "string list \<Rightarrow> string \<Rightarrow> bool" where
  "HasTag tags tag = list_ex (\<lambda>t. t = tag) tags"

definition IsTagRef :: "string \<Rightarrow> bool" where
  "IsTagRef ref = HasPrefix ref ''tag:''"

definition peer_IPv4 :: "peer \<Rightarrow> tailnet_error + addr" where
  "peer_IPv4 p = (case find Is4 (TailscaleIPs p) of Some a \<Rightarrow> Inr a | None \<Rightarrow> Inl (NoIPv4 (HostName p)))"


section \<open>The best candidate\<close>

definition pick_best :: "('a \<Rightarrow> 'a \<Rightarrow> bool) \<Rightarrow> 'a \<Rightarrow> 'a list \<Rightarrow> 'a" where
  "pick_best better x xs = fold (\<lambda>m best. if better m best then m else best) xs x"

locale selection =
  fixes better :: "'a \<Rightarrow> 'a \<Rightarrow> bool"
  assumes irrefl: "\<not> better a a"
    and neg_trans: "\<not> better a b \<Longrightarrow> \<not> better b c \<Longrightarrow> \<not> better a c"
    and asym: "better a b \<Longrightarrow> \<not> better b a"
begin

lemma pick_best_mem: "pick_best better x xs \<in> set (x # xs)"
  by (induction xs arbitrary: x) (auto simp: pick_best_def)

lemma pick_best_keeps: "\<not> better x (pick_best better x xs)"
proof (induction xs arbitrary: x)
  case (Cons m xs)
  show ?case
  proof (cases "better m x")
    case True
    then show ?thesis using Cons.IH [of m] neg_trans [OF asym [OF True]] by (simp add: pick_best_def)
  next
    case False
    then show ?thesis using Cons.IH [of x] by (simp add: pick_best_def)
  qed
qed (simp add: pick_best_def irrefl)

lemma pick_best_max: "m \<in> set (x # xs) \<Longrightarrow> \<not> better m (pick_best better x xs)"
proof (induction xs arbitrary: x)
  case (Cons y xs)
  let ?z = "if better y x then y else x"
  have e: "pick_best better x (y # xs) = pick_best better ?z xs" by (simp add: pick_best_def)
  have z: "\<not> better ?z (pick_best better ?z xs)" by (rule pick_best_keeps)
  from Cons.prems consider "m = x" | "m = y" | "m \<in> set xs" by auto
  then show ?case
  proof cases
    case 1
    then have "\<not> better m ?z" using irrefl asym by auto
    then show ?thesis using neg_trans z e by metis
  next
    case 2
    then have "\<not> better m ?z" using irrefl by auto
    then show ?thesis using neg_trans z e by metis
  next
    case 3
    then show ?thesis using Cons.IH [of ?z] e by simp
  qed
qed (simp add: pick_best_def irrefl)

text \<open>The loop keeps the earliest of equally good candidates.\<close>

lemma pick_best_first:
  assumes "\<forall>m \<in> set xs. \<not> better m x"
  shows "pick_best better x xs = x"
  using assms by (induction xs) (auto simp: pick_best_def)

end


section \<open>Resolve\<close>

record host_match =
  hm_peer :: peer
  exact :: bool
  suffix :: int

text \<open>The match of one hostname: whether it is exact, and the collision suffix otherwise.\<close>

definition matchHostname :: "string \<Rightarrow> string \<Rightarrow> (bool \<times> int) option" where
  "matchHostname hostname ref =
     (if hostname = ref then Some (True, 0)
      else let prefix = ref @ ''-'' in
        if \<not> HasPrefix hostname prefix then None
        else let rest = drop (length prefix) hostname in
          (case Atoi rest of
             None \<Rightarrow> None
           | Some n \<Rightarrow> if n < 0 \<or> Itoa n \<noteq> rest then None else Some (False, n)))"

definition host_match_of :: "string \<Rightarrow> peer \<Rightarrow> host_match option" where
  "host_match_of ref p =
     map_option (\<lambda>(e, n). \<lparr>hm_peer = p, exact = e, suffix = n\<rparr>) (matchHostname (HostName p) ref)"

definition betterHostMatch :: "host_match \<Rightarrow> host_match \<Rightarrow> bool" where
  "betterHostMatch a b =
     (if exact a \<noteq> exact b then exact a
      else if \<not> exact a \<and> suffix a \<noteq> suffix b then suffix a > suffix b
      else LastHandshake (hm_peer a) > LastHandshake (hm_peer b))"

definition later_handshake :: "peer \<Rightarrow> peer \<Rightarrow> bool" where
  "later_handshake a b \<longleftrightarrow> LastHandshake a > LastHandshake b"

definition resolveTag :: "peer list \<Rightarrow> string \<Rightarrow> tailnet_error + peer" where
  "resolveTag peers tag =
     (let alls = filter (\<lambda>p. HasTag (Tags p) tag) peers in
      case filter Online alls of
        [] \<Rightarrow> Inl (NoOnlineTag tag (map HostName alls))
      | x # xs \<Rightarrow> Inr (pick_best later_handshake x xs))"

definition resolveHostname :: "peer list \<Rightarrow> string \<Rightarrow> tailnet_error + peer" where
  "resolveHostname peers ref =
     (let alls = List.map_filter (host_match_of ref) peers in
      case filter (\<lambda>m. Online (hm_peer m)) alls of
        [] \<Rightarrow> Inl (NoOnlineHost ref (map (\<lambda>m. HostName (hm_peer m)) alls))
      | x # xs \<Rightarrow> Inr (hm_peer (pick_best betterHostMatch x xs)))"

definition Resolve :: "peer list \<Rightarrow> string \<Rightarrow> tailnet_error + peer" where
  "Resolve peers ref = (if IsTagRef ref then resolveTag peers ref else resolveHostname peers ref)"

definition resolveAddr :: "tail_status \<Rightarrow> string \<Rightarrow> tailnet_error + addr \<times> string" where
  "resolveAddr st ref =
     (if \<not> Online (Self st) then Inl TailscaledOffline
      else case Resolve (Peers st) ref of
        Inl e \<Rightarrow> Inl e
      | Inr p \<Rightarrow> (case peer_IPv4 p of Inl e \<Rightarrow> Inl e | Inr a \<Rightarrow> Inr (a, HostName p)))"


section \<open>What the choice guarantees\<close>

interpretation handshake: selection later_handshake
  by unfold_locales (auto simp: later_handshake_def)

interpretation hosts: selection betterHostMatch
  by unfold_locales (auto simp: betterHostMatch_def split: if_splits)

lemma matchHostname_exact [simp]: "matchHostname ref ref = Some (True, 0)"
  by (simp add: matchHostname_def)

lemma Atoi_range: "Atoi r = Some n \<Longrightarrow> n < 2 ^ 63"
  by (auto simp: Atoi_def Let_def split: if_splits)

lemma suffix_match:
  assumes "h = (ref @ ''-'') @ r"
  shows "matchHostname h ref = Some (e, n) \<longleftrightarrow> \<not> e \<and> 0 \<le> n \<and> n < 2 ^ 63 \<and> r = show_nat (nat n)"
proof -
  have m: "matchHostname h ref =
      (case Atoi r of None \<Rightarrow> None | Some k \<Rightarrow> if k < 0 \<or> Itoa k \<noteq> r then None else Some (False, k))"
    using assms by (simp add: matchHostname_def Let_def del: append_assoc)
  show ?thesis
  proof
    assume "matchHostname h ref = Some (e, n)"
    then have "\<not> e" "Atoi r = Some n" "0 \<le> n" "Itoa n = r" unfolding m by (auto split: option.splits if_splits)
    then show "\<not> e \<and> 0 \<le> n \<and> n < 2 ^ 63 \<and> r = show_nat (nat n)"
      using Atoi_range [of r n] by (simp add: Itoa_def)
  next
    assume a: "\<not> e \<and> 0 \<le> n \<and> n < 2 ^ 63 \<and> r = show_nat (nat n)"
    then have "Atoi r = Some n" using Atoi_show [of "nat n"] by simp
    with a show "matchHostname h ref = Some (e, n)" unfolding m by (simp add: Itoa_def)
  qed
qed

lemma matchHostname_iff:
  "matchHostname h ref = Some (e, n) \<longleftrightarrow>
     (if e then h = ref \<and> n = 0 else 0 \<le> n \<and> n < 2 ^ 63 \<and> h = ref @ ''-'' @ show_nat (nat n))"
proof (cases "\<exists>r. h = (ref @ ''-'') @ r")
  case True
  then obtain r where r: "h = (ref @ ''-'') @ r" by blast
  then show ?thesis unfolding suffix_match [OF r] by auto
next
  case False
  then have "\<not> HasPrefix h (ref @ ''-'')" "h \<noteq> ref @ ''-'' @ show_nat (nat n)"
    unfolding HasPrefix_iff by auto
  then show ?thesis by (auto simp: matchHostname_def Let_def)
qed

definition answers :: "string \<Rightarrow> peer \<Rightarrow> bool" where
  "answers ref p \<longleftrightarrow> Online p \<and>
     (if IsTagRef ref then HasTag (Tags p) ref else matchHostname (HostName p) ref \<noteq> None)"

lemma set_host_matches: "m \<in> set (List.map_filter f xs) \<longleftrightarrow> (\<exists>x \<in> set xs. f x = Some m)"
  by (induction xs) (auto simp: List.map_filter_simps split: option.splits)

lemma host_match_of_iff:
  "host_match_of ref p = Some m \<longleftrightarrow> hm_peer m = p \<and> matchHostname (HostName p) ref = Some (exact m, suffix m)"
  by (cases m) (auto simp: host_match_of_def)

lemma matches_mem:
  "m \<in> set (filter (\<lambda>m. Online (hm_peer m)) (List.map_filter (host_match_of ref) peers)) \<longleftrightarrow>
     hm_peer m \<in> set peers \<and> Online (hm_peer m) \<and> matchHostname (HostName (hm_peer m)) ref = Some (exact m, suffix m)"
  unfolding set_filter mem_Collect_eq set_host_matches host_match_of_iff by blast

lemma resolveHostname_best:
  assumes "resolveHostname peers ref = Inr p"
  obtains m where "hm_peer m = p" "p \<in> set peers" "Online p" "matchHostname (HostName p) ref = Some (exact m, suffix m)"
    "\<And>q e n. q \<in> set peers \<Longrightarrow> Online q \<Longrightarrow> matchHostname (HostName q) ref = Some (e, n)
       \<Longrightarrow> \<not> betterHostMatch \<lparr>hm_peer = q, exact = e, suffix = n\<rparr> m"
proof -
  let ?ms = "filter (\<lambda>m. Online (hm_peer m)) (List.map_filter (host_match_of ref) peers)"
  from assms obtain x xs where ms: "?ms = x # xs" and p: "p = hm_peer (pick_best betterHostMatch x xs)"
    by (auto simp: resolveHostname_def Let_def split: list.splits)
  let ?m = "pick_best betterHostMatch x xs"
  have "?m \<in> set ?ms" unfolding ms by (rule hosts.pick_best_mem)
  then have m: "p \<in> set peers" "Online p" "matchHostname (HostName p) ref = Some (exact ?m, suffix ?m)"
    unfolding matches_mem p by simp_all
  have "\<not> betterHostMatch \<lparr>hm_peer = q, exact = e, suffix = n\<rparr> ?m"
    if "q \<in> set peers" "Online q" "matchHostname (HostName q) ref = Some (e, n)" for q e n
  proof -
    have "\<lparr>hm_peer = q, exact = e, suffix = n\<rparr> \<in> set ?ms" unfolding matches_mem using that by simp
    then show ?thesis unfolding ms by (rule hosts.pick_best_max)
  qed
  with m p show ?thesis using that by blast
qed

lemma resolveTag_best:
  assumes "resolveTag peers tag = Inr p"
  shows "p \<in> set peers" "Online p" "HasTag (Tags p) tag"
    "q \<in> set peers \<Longrightarrow> Online q \<Longrightarrow> HasTag (Tags q) tag \<Longrightarrow> LastHandshake q \<le> LastHandshake p"
proof -
  let ?ps = "filter Online (filter (\<lambda>p. HasTag (Tags p) tag) peers)"
  from assms obtain x xs where ps: "?ps = x # xs" and p: "p = pick_best later_handshake x xs"
    by (auto simp: resolveTag_def Let_def split: list.splits)
  have "p \<in> set ?ps" unfolding ps p by (rule handshake.pick_best_mem)
  then show "p \<in> set peers" "Online p" "HasTag (Tags p) tag" by simp_all
  show "LastHandshake q \<le> LastHandshake p" if "q \<in> set peers" "Online q" "HasTag (Tags q) tag"
  proof -
    have "q \<in> set ?ps" using that by simp
    then have "\<not> later_handshake q p" unfolding ps p by (rule handshake.pick_best_max)
    then show ?thesis by (simp add: later_handshake_def)
  qed
qed

lemma resolveTag_fails: "(\<exists>e. resolveTag peers tag = Inl e) \<longleftrightarrow> (\<forall>p \<in> set peers. \<not> (Online p \<and> HasTag (Tags p) tag))"
proof -
  have "filter Online (filter (\<lambda>p. HasTag (Tags p) tag) peers) = [] \<longleftrightarrow>
      (\<forall>p \<in> set peers. \<not> (Online p \<and> HasTag (Tags p) tag))"
    by (simp add: filter_empty_conv) blast
  then show ?thesis by (cases "filter Online (filter (\<lambda>p. HasTag (Tags p) tag) peers)") (simp_all add: resolveTag_def Let_def)
qed

lemma resolveHostname_fails:
  "(\<exists>e. resolveHostname peers ref = Inl e) \<longleftrightarrow> (\<forall>p \<in> set peers. \<not> (Online p \<and> matchHostname (HostName p) ref \<noteq> None))"
proof -
  let ?ms = "filter (\<lambda>m. Online (hm_peer m)) (List.map_filter (host_match_of ref) peers)"
  have "?ms = [] \<longleftrightarrow> (\<forall>p \<in> set peers. \<not> (Online p \<and> matchHostname (HostName p) ref \<noteq> None))"
  proof
    assume e: "?ms = []"
    show "\<forall>p \<in> set peers. \<not> (Online p \<and> matchHostname (HostName p) ref \<noteq> None)"
    proof (intro ballI notI, elim conjE)
      fix p assume "p \<in> set peers" "Online p" "matchHostname (HostName p) ref \<noteq> None"
      then obtain ex n where "matchHostname (HostName p) ref = Some (ex, n)" by auto
      then have "\<lparr>hm_peer = p, exact = ex, suffix = n\<rparr> \<in> set ?ms"
        unfolding matches_mem using \<open>p \<in> set peers\<close> \<open>Online p\<close> by simp
      then show False unfolding e by simp
    qed
  next
    assume n: "\<forall>p \<in> set peers. \<not> (Online p \<and> matchHostname (HostName p) ref \<noteq> None)"
    have "m \<notin> set ?ms" for m unfolding matches_mem using n by auto
    then show "?ms = []" by (metis list.set_intros(1) neq_Nil_conv)
  qed
  then show ?thesis by (cases ?ms) (simp_all add: resolveHostname_def Let_def)
qed



text \<open>
  The priority among several online matches of a hostname. An exact match wins over
  every suffixed one; without one the peer with the highest collision suffix wins; among
  equals the most recent handshake wins.
\<close>

theorem resolve_hostname_priority:
  assumes "resolveHostname peers ref = Inr p" "q \<in> set peers" "Online q"
  shows "(HostName q = ref \<longrightarrow> HostName p = ref \<and> LastHandshake q \<le> LastHandshake p)
    \<and> (\<forall>n. HostName q = ref @ ''-'' @ show_nat n \<and> int n < 2 ^ 63 \<longrightarrow>
         HostName p = ref \<or> (\<exists>k. HostName p = ref @ ''-'' @ show_nat k \<and>
           (n < k \<or> n = k \<and> LastHandshake q \<le> LastHandshake p)))"
proof -
  from assms(1) obtain m where m: "hm_peer m = p" "matchHostname (HostName p) ref = Some (exact m, suffix m)"
    and best: "\<And>q e n. q \<in> set peers \<Longrightarrow> Online q \<Longrightarrow> matchHostname (HostName q) ref = Some (e, n)
       \<Longrightarrow> \<not> betterHostMatch \<lparr>hm_peer = q, exact = e, suffix = n\<rparr> m"
    by (rule resolveHostname_best) blast
  show ?thesis
  proof (intro conjI impI allI)
    assume "HostName q = ref"
    then have "\<not> betterHostMatch \<lparr>hm_peer = q, exact = True, suffix = 0\<rparr> m"
      using best assms(2,3) by simp
    then have "exact m \<and> LastHandshake q \<le> LastHandshake p"
      using m(1) by (auto simp: betterHostMatch_def split: if_splits)
    with m(2) show "HostName p = ref" "LastHandshake q \<le> LastHandshake p" by (auto simp: matchHostname_iff)
  next
    fix n assume n: "HostName q = ref @ ''-'' @ show_nat n \<and> int n < 2 ^ 63"
    then have "matchHostname (HostName q) ref = Some (False, int n)" by (simp add: matchHostname_iff)
    then have b: "\<not> betterHostMatch \<lparr>hm_peer = q, exact = False, suffix = int n\<rparr> m" using best assms(2,3) by blast
    show "HostName p = ref \<or> (\<exists>k. HostName p = ref @ ''-'' @ show_nat k \<and>
           (n < k \<or> n = k \<and> LastHandshake q \<le> LastHandshake p))"
    proof (cases "exact m")
      case True
      with m(2) show ?thesis by (simp add: matchHostname_iff)
    next
      case False
      with m(2) have "0 \<le> suffix m" "HostName p = ref @ ''-'' @ show_nat (nat (suffix m))" by (auto simp: matchHostname_iff)
      moreover have "int n < suffix m \<or> int n = suffix m \<and> LastHandshake q \<le> LastHandshake p"
        using b False m(1) by (auto simp: betterHostMatch_def split: if_splits)
      ultimately show ?thesis by (intro disjI2 exI [of _ "nat (suffix m)"]) auto
    qed
  qed
qed

theorem resolve_hostname_priority_witness:
  "\<exists>p. resolveHostname
      [\<lparr>HostName = ''gw-1'', Tags = [], Online = True, TailscaleIPs = [], Active = False,
        CurAddr = [], Relay = [], LastHandshake = 9\<rparr>,
       \<lparr>HostName = ''gw'', Tags = [], Online = True, TailscaleIPs = [], Active = False,
        CurAddr = [], Relay = [], LastHandshake = 0\<rparr>] ''gw'' = Inr p \<and> HostName p = ''gw''"
  (is "\<exists>p. resolveHostname [?a, ?b] _ = _ \<and> _")
proof (cases "resolveHostname [?a, ?b] ''gw''")
  case (Inl e)
  then have "\<not> (Online ?b \<and> matchHostname (HostName ?b) ''gw'' \<noteq> None)"
    using resolveHostname_fails [of "[?a, ?b]" "''gw''"] by (metis list.set_intros)
  then show ?thesis by simp
next
  case (Inr p)
  with resolve_hostname_priority [OF Inr, of ?b] show ?thesis by simp
qed

end
