(* ===== verification/Networks.thy ===== *)
theory Networks
  imports Transport Tailnet
begin

text \<open>
  The networks of a session: the manifest's settings (\<open>internal/manifest\<close>), the discovery
  result (\<open>internal/discovery\<close>), \<open>ComputeNetworks\<close>, \<open>sessionNetworks\<close> of
  \<open>internal/cli/networks.go\<close> and \<open>routePrefixes\<close> of \<open>internal/session/plan.go\<close>.
  The address sets of \<open>go4.org/netipx\<close> are a parameter, the record \<open>ipset_ops\<close>; the locale
  \<open>ipset\<close> states what its documentation promises. YAML, JSON and base64 decoding happen
  before the values modelled here.
\<close>

section \<open>The manifest\<close>

record manifest_bandwidth =
  bw_Up :: string
  bw_Down :: string

record manifest_transport =
  mt_QUICPorts :: string
  mt_Bandwidth :: "manifest_bandwidth option"

record manifest_discovery =
  md_LinkRoutes :: "bool option"
  md_CloudMetadata :: "bool option"

record manifest_dns =
  dm_Servers :: "string list"
  dm_Domains :: "string list"

record manifest =
  mf_Version :: int
  mf_Discovery :: "manifest_discovery option"
  mf_Networks :: "string list"
  mf_Exclude :: "string list"
  mf_DNS :: "manifest_dns option"
  mf_Transport :: "manifest_transport option"

datatype network_error =
    BadPrefix string
  | BadAddr string
  | BadVersion int
  | BadQUICPorts port_error
  | BandwidthNeedsBoth
  | BadBandwidthUp rate_error
  | BadBandwidthDown rate_error
  | MissingVersion | MissingHostname | MissingExecDir
  | BadAddress string | BadLinkRoute string | BadResolver string | BadCloudNetwork string
  | BadManifestEncoding
  | SetError string
  | PlanNetwork string | PlanServer string
  | BadManifestOutput

definition manifest_QUICPorts :: "manifest \<Rightarrow> network_error + port_range" where
  "manifest_QUICPorts m =
     (case mf_Transport m of
        None \<Rightarrow> Inr DefaultPorts
      | Some t \<Rightarrow> if mt_QUICPorts t = [] then Inr DefaultPorts
                  else case ParsePortRange (mt_QUICPorts t) of Inl e \<Rightarrow> Inl (BadQUICPorts e) | Inr r \<Rightarrow> Inr r)"

definition manifest_Bandwidth :: "manifest \<Rightarrow> network_error + nat \<times> nat" where
  "manifest_Bandwidth m =
     (case Option.bind (mf_Transport m) mt_Bandwidth of
        None \<Rightarrow> Inr (0, 0)
      | Some b \<Rightarrow>
          if bw_Up b = [] \<or> bw_Down b = [] then Inl BandwidthNeedsBoth
          else case ParseRate (bw_Up b) of
            Inl e \<Rightarrow> Inl (BadBandwidthUp e)
          | Inr up \<Rightarrow> (case ParseRate (bw_Down b) of Inl e \<Rightarrow> Inl (BadBandwidthDown e) | Inr down \<Rightarrow> Inr (up, down)))"

text \<open>\<open>Parse\<close> after the YAML decoding.\<close>

definition manifest_check :: "manifest \<Rightarrow> network_error + manifest" where
  "manifest_check m =
     (if mf_Version m \<noteq> 1 then Inl (BadVersion (mf_Version m))
      else case manifest_QUICPorts m of
        Inl e \<Rightarrow> Inl e
      | Inr _ \<Rightarrow> (case manifest_Bandwidth m of Inl e \<Rightarrow> Inl e | Inr _ \<Rightarrow> Inr m))"

definition manifest_Empty :: manifest where
  "manifest_Empty = \<lparr>mf_Version = 1, mf_Discovery = None, mf_Networks = [], mf_Exclude = [], mf_DNS = None, mf_Transport = None\<rparr>"

definition LinkRoutesEnabled :: "manifest \<Rightarrow> bool" where
  "LinkRoutesEnabled m =
     (case mf_Discovery m of None \<Rightarrow> True | Some d \<Rightarrow> (case md_LinkRoutes d of None \<Rightarrow> True | Some b \<Rightarrow> b))"

definition CloudEnabled :: "manifest \<Rightarrow> bool" where
  "CloudEnabled m =
     (case mf_Discovery m of None \<Rightarrow> True | Some d \<Rightarrow> (case md_CloudMetadata d of None \<Rightarrow> True | Some b \<Rightarrow> b))"

fun ParsePrefixes :: "string list \<Rightarrow> network_error + prefix list" where
  "ParsePrefixes [] = Inr []"
| "ParsePrefixes (s # ss) =
     (case ParsePrefix s of
        None \<Rightarrow> Inl (BadPrefix s)
      | Some p \<Rightarrow> (case ParsePrefixes ss of Inl e \<Rightarrow> Inl e | Inr ps \<Rightarrow> Inr (Masked p # ps)))"

fun ParseAddrs :: "string list \<Rightarrow> network_error + addr list" where
  "ParseAddrs [] = Inr []"
| "ParseAddrs (s # ss) =
     (case ParseAddr s of
        None \<Rightarrow> Inl (BadAddr s)
      | Some a \<Rightarrow> (case ParseAddrs ss of Inl e \<Rightarrow> Inl e | Inr as \<Rightarrow> Inr (a # as)))"


section \<open>The discovery result\<close>

record discovery_result =
  dr_Version :: string
  dr_Hostname :: string
  dr_UnameM :: string
  dr_ExecDir :: string
  dr_Manifest :: string
  dr_Addresses :: "string list"
  dr_LinkRoutes :: "string list"
  dr_Resolvers :: "string list"
  dr_CloudNetworks :: "string list option"

definition first_bad :: "(string \<Rightarrow> 'a option) \<Rightarrow> string list \<Rightarrow> string option" where
  "first_bad parse ss = find (\<lambda>s. parse s = None) ss"

text \<open>\<open>validate\<close>; \<open>base64_ok\<close> tells whether the standard decoder accepts the manifest field.\<close>

definition discovery_validate :: "(string \<Rightarrow> bool) \<Rightarrow> discovery_result \<Rightarrow> network_error option" where
  "discovery_validate base64_ok r =
     (if dr_Version r = [] then Some MissingVersion
      else if dr_Hostname r = [] then Some MissingHostname
      else if dr_ExecDir r = [] then Some MissingExecDir
      else case first_bad ParsePrefix (dr_Addresses r) of Some s \<Rightarrow> Some (BadAddress s)
      | None \<Rightarrow> (case first_bad ParsePrefix (dr_LinkRoutes r) of Some s \<Rightarrow> Some (BadLinkRoute s)
      | None \<Rightarrow> (case first_bad ParseAddr (dr_Resolvers r) of Some s \<Rightarrow> Some (BadResolver s)
      | None \<Rightarrow> (case Option.bind (dr_CloudNetworks r) (first_bad ParsePrefix) of Some s \<Rightarrow> Some (BadCloudNetwork s)
      | None \<Rightarrow> if dr_Manifest r \<noteq> [] \<and> \<not> base64_ok (dr_Manifest r) then Some BadManifestEncoding else None))))"

fun parsePrefixes :: "string list \<Rightarrow> network_error + prefix list" where
  "parsePrefixes [] = Inr []"
| "parsePrefixes (s # ss) =
     (case ParsePrefix s of
        None \<Rightarrow> Inl (BadPrefix s)
      | Some p \<Rightarrow> (case parsePrefixes ss of Inl e \<Rightarrow> Inl e | Inr ps \<Rightarrow> Inr (p # ps)))"

definition LinkRoutePrefixes :: "discovery_result \<Rightarrow> network_error + prefix list" where
  "LinkRoutePrefixes r = parsePrefixes (dr_LinkRoutes r)"

definition CloudNetworkPrefixes :: "discovery_result \<Rightarrow> network_error + prefix list" where
  "CloudNetworkPrefixes r = (case dr_CloudNetworks r of None \<Rightarrow> Inr [] | Some ns \<Rightarrow> parsePrefixes ns)"

text \<open>\<open>FetchManifest\<close> on the output of the script: the path line, then the content.\<close>

definition FetchManifest :: "bytes \<Rightarrow> network_error + string \<times> bytes" where
  "FetchManifest out =
     (case dropWhile (\<lambda>b. b \<noteq> 10) out of
        [] \<Rightarrow> Inl BadManifestOutput
      | _ # content \<Rightarrow>
          (let path = bytes_str (takeWhile (\<lambda>b. b \<noteq> 10) out) in
           if path = [] then Inr ([], []) else Inr (path, content)))"


section \<open>The session networks\<close>

record ('b, 's) ipset_ops =
  ops_builder :: 'b
  AddPrefix :: "prefix \<Rightarrow> 'b \<Rightarrow> 'b"
  AddIP :: "addr \<Rightarrow> 'b \<Rightarrow> 'b"
  AddSet :: "'s \<Rightarrow> 'b \<Rightarrow> 'b"
  RemoveSet :: "'s \<Rightarrow> 'b \<Rightarrow> 'b"
  IPSet :: "'b \<Rightarrow> string + 's"
  Prefixes :: "'s \<Rightarrow> prefix list"

definition reserved :: "prefix list" where
  "reserved =
     [PrefixFrom (V4 0x64400000) 10,
      PrefixFrom (V6 0xfd7a115ca1e000000000000000000000 []) 48,
      PrefixFrom (V4 0) 8, PrefixFrom (V4 0x7f000000) 8, PrefixFrom (V4 0xa9fe0000) 16,
      PrefixFrom (V4 0xe0000000) 3, PrefixFrom (V6 1 []) 128,
      PrefixFrom (V6 0xfe800000000000000000000000000000 []) 10,
      PrefixFrom (V6 0xff000000000000000000000000000000 []) 8]"

record network_inputs =
  ManifestNetworks :: "prefix list"
  ManifestExclude :: "prefix list"
  DiscoveryLinkRoutes :: "prefix list"
  DiscoveryCloud :: "prefix list"
  RemoteAddrs :: "addr list"
  ClientConnected :: "prefix list"
  LocalExclude :: "prefix list"

definition ComputeNetworks :: "('b, 's) ipset_ops \<Rightarrow> network_inputs \<Rightarrow> network_error + prefix list" where
  "ComputeNetworks ops inp =
     (let incl = fold (AddPrefix ops) (DiscoveryCloud inp) (fold (AddPrefix ops) (DiscoveryLinkRoutes inp)
                   (fold (AddPrefix ops) (ManifestNetworks inp) (ops_builder ops))) in
      case IPSet ops incl of
        Inl e \<Rightarrow> Inl (SetError e)
      | Inr inclSet \<Rightarrow>
          (let excl = fold (AddIP ops) (RemoteAddrs inp) (fold (AddPrefix ops) reserved
                        (fold (AddPrefix ops) (LocalExclude inp) (fold (AddPrefix ops) (ClientConnected inp)
                          (fold (AddPrefix ops) (ManifestExclude inp) (ops_builder ops))))) in
           case IPSet ops excl of
             Inl e \<Rightarrow> Inl (SetError e)
           | Inr exclSet \<Rightarrow>
               (case IPSet ops (RemoveSet ops exclSet (AddSet ops inclSet (ops_builder ops))) of
                  Inl e \<Rightarrow> Inl (SetError e)
                | Inr finalSet \<Rightarrow> Inr (Prefixes ops finalSet))))"

definition sessionNetworks ::
  "('b, 's) ipset_ops \<Rightarrow> manifest \<Rightarrow> discovery_result option \<Rightarrow> string list \<Rightarrow> string list \<Rightarrow> string list \<Rightarrow>
   addr list \<Rightarrow> string list \<Rightarrow> string list \<Rightarrow> prefix list \<Rightarrow> network_error + prefix list" where
  "sessionNetworks ops m res cfgExclude remoteNetworks remoteExclude peerIPs networkFlags excludeFlags connected =
     (case ParsePrefixes (mf_Networks m @ remoteNetworks @ networkFlags) of
        Inl e \<Rightarrow> Inl e
      | Inr manifestNetworks \<Rightarrow>
     (case ParsePrefixes (mf_Exclude m) of
        Inl e \<Rightarrow> Inl e
      | Inr manifestExclude \<Rightarrow>
     (case ParsePrefixes (cfgExclude @ remoteExclude @ excludeFlags) of
        Inl e \<Rightarrow> Inl e
      | Inr localExclude \<Rightarrow>
     (case (case res of Some r \<Rightarrow> if LinkRoutesEnabled m then LinkRoutePrefixes r else Inr [] | None \<Rightarrow> Inr []) of
        Inl e \<Rightarrow> Inl e
      | Inr linkRoutes \<Rightarrow>
     (case (case res of Some r \<Rightarrow> if CloudEnabled m then CloudNetworkPrefixes r else Inr [] | None \<Rightarrow> Inr []) of
        Inl e \<Rightarrow> Inl e
      | Inr cloudNets \<Rightarrow>
          ComputeNetworks ops
            \<lparr>ManifestNetworks = manifestNetworks, ManifestExclude = manifestExclude,
             DiscoveryLinkRoutes = linkRoutes, DiscoveryCloud = cloudNets, RemoteAddrs = peerIPs,
             ClientConnected = connected, LocalExclude = localExclude\<rparr>)))))"


section \<open>The routes of a plan\<close>

record plan_dns =
  dns_Mode :: string
  dns_Servers :: "string list"
  dns_Domains :: "string list"

record plan =
  plan_Remote :: string
  plan_Ref :: string
  plan_Addr :: string
  plan_User :: string
  plan_Networks :: "string list"
  plan_DNS :: plan_dns
  plan_HelperArch :: string
  plan_ManifestSHA256 :: string
  plan_Transport :: string
  plan_QUICPorts :: string
  plan_BandwidthUp :: nat
  plan_BandwidthDown :: nat
  plan_Controller :: string
  plan_Protocols :: string
  plan_SingleLane :: bool
  plan_Verbose :: bool
  plan_ReconnectFor :: int

fun planNetworks :: "string list \<Rightarrow> network_error + prefix list" where
  "planNetworks [] = Inr []"
| "planNetworks (s # ss) =
     (case ParsePrefix s of
        None \<Rightarrow> Inl (PlanNetwork s)
      | Some p \<Rightarrow> (case planNetworks ss of Inl e \<Rightarrow> Inl e | Inr ps \<Rightarrow> Inr (p # ps)))"

definition coveredBy :: "addr \<Rightarrow> prefix list \<Rightarrow> bool" where
  "coveredBy a ps = list_ex (\<lambda>p. Contains p a) ps"

fun route_servers :: "string list \<Rightarrow> prefix list \<Rightarrow> network_error + prefix list" where
  "route_servers [] networks = Inr networks"
| "route_servers (s # ss) networks =
     (case ParseAddr s of
        None \<Rightarrow> Inl (PlanServer s)
      | Some a \<Rightarrow> if coveredBy a networks then route_servers ss networks
                  else route_servers ss (networks @ [PrefixFrom a (int (BitLen a))]))"

definition routePrefixes :: "plan \<Rightarrow> network_error + prefix list" where
  "routePrefixes p =
     (case planNetworks (plan_Networks p) of
        Inl e \<Rightarrow> Inl e
      | Inr networks \<Rightarrow>
          if dns_Mode (plan_DNS p) = ''none'' then Inr networks
          else route_servers (dns_Servers (plan_DNS p)) networks)"


section \<open>What the address sets promise\<close>

text \<open>
  \<open>holds\<close> is the content of a builder and \<open>member\<close> that of a set; both are about addresses
  without a zone. A builder is \<open>good\<close> while only valid prefixes and addresses were added.
\<close>

definition plain_addr :: "addr \<Rightarrow> bool" where
  "plain_addr a \<longleftrightarrow> IsValid a \<and> \<not> hasZone a"

definition inputs_ok :: "network_inputs \<Rightarrow> bool" where
  "inputs_ok inp \<longleftrightarrow>
     list_all PrefixIsValid (ManifestNetworks inp @ DiscoveryLinkRoutes inp @ DiscoveryCloud inp
       @ ManifestExclude inp @ ClientConnected inp @ LocalExclude inp)
     \<and> list_all plain_addr (RemoteAddrs inp)"

lemma reserved_valid: "list_all PrefixIsValid reserved"
  by (simp add: reserved_def PrefixFrom_def PrefixIsValid_def IsValid_def)

locale ipset =
  fixes ops :: "('b, 's) ipset_ops"
    and good :: "'b \<Rightarrow> bool"
    and holds :: "'b \<Rightarrow> addr \<Rightarrow> bool"
    and member :: "'s \<Rightarrow> addr \<Rightarrow> bool"
  assumes builder_new: "good (ops_builder ops)" "plain_addr a \<Longrightarrow> \<not> holds (ops_builder ops) a"
    and add_prefix: "good b \<Longrightarrow> PrefixIsValid p \<Longrightarrow> good (AddPrefix ops p b)"
      "good b \<Longrightarrow> PrefixIsValid p \<Longrightarrow> plain_addr a \<Longrightarrow> holds (AddPrefix ops p b) a \<longleftrightarrow> Contains p a \<or> holds b a"
    and add_ip: "good b \<Longrightarrow> plain_addr x \<Longrightarrow> good (AddIP ops x b)"
      "good b \<Longrightarrow> plain_addr x \<Longrightarrow> plain_addr a \<Longrightarrow> holds (AddIP ops x b) a \<longleftrightarrow> a = x \<or> holds b a"
    and add_set: "good b \<Longrightarrow> good (AddSet ops s b)"
      "good b \<Longrightarrow> plain_addr a \<Longrightarrow> holds (AddSet ops s b) a \<longleftrightarrow> member s a \<or> holds b a"
    and remove_set: "good b \<Longrightarrow> good (RemoveSet ops s b)"
      "good b \<Longrightarrow> plain_addr a \<Longrightarrow> holds (RemoveSet ops s b) a \<longleftrightarrow> holds b a \<and> \<not> member s a"
    and build: "good b \<Longrightarrow> \<exists>s. IPSet ops b = Inr s \<and> (\<forall>a. plain_addr a \<longrightarrow> member s a = holds b a)"
    and prefixes: "plain_addr a \<Longrightarrow> (\<exists>p \<in> set (Prefixes ops s). Contains p a) \<longleftrightarrow> member s a"
      "p \<in> set (Prefixes ops s) \<Longrightarrow> prefix_ok p"
begin

lemma add_prefixes:
  "good b \<Longrightarrow> list_all PrefixIsValid ps \<Longrightarrow> good (fold (AddPrefix ops) ps b)"
  "good b \<Longrightarrow> list_all PrefixIsValid ps \<Longrightarrow> plain_addr a \<Longrightarrow>
     holds (fold (AddPrefix ops) ps b) a \<longleftrightarrow> coveredBy a ps \<or> holds b a"
  by (induction ps arbitrary: b) (auto simp: add_prefix coveredBy_def)

lemma add_ips:
  "good b \<Longrightarrow> list_all plain_addr xs \<Longrightarrow> good (fold (AddIP ops) xs b)"
  "good b \<Longrightarrow> list_all plain_addr xs \<Longrightarrow> plain_addr a \<Longrightarrow> holds (fold (AddIP ops) xs b) a \<longleftrightarrow> a \<in> set xs \<or> holds b a"
  by (induction xs arbitrary: b) (auto simp: add_ip)

lemma compute_exact:
  assumes "inputs_ok inp"
  shows "\<exists>ps. ComputeNetworks ops inp = Inr ps \<and> (\<forall>a. plain_addr a \<longrightarrow> (coveredBy a ps \<longleftrightarrow>
      coveredBy a (ManifestNetworks inp @ DiscoveryLinkRoutes inp @ DiscoveryCloud inp)
      \<and> \<not> coveredBy a (ManifestExclude inp @ ClientConnected inp @ LocalExclude inp @ reserved)
      \<and> a \<notin> set (RemoteAddrs inp)))"
proof -
  note v = assms [unfolded inputs_ok_def list_all_append]
  let ?incl = "fold (AddPrefix ops) (DiscoveryCloud inp) (fold (AddPrefix ops) (DiscoveryLinkRoutes inp)
                 (fold (AddPrefix ops) (ManifestNetworks inp) (ops_builder ops)))"
  let ?excl0 = "fold (AddPrefix ops) reserved (fold (AddPrefix ops) (LocalExclude inp)
                  (fold (AddPrefix ops) (ClientConnected inp) (fold (AddPrefix ops) (ManifestExclude inp) (ops_builder ops))))"
  let ?excl = "fold (AddIP ops) (RemoteAddrs inp) ?excl0"
  have cov: "coveredBy a (ps @ qs) \<longleftrightarrow> coveredBy a ps \<or> coveredBy a qs" for a ps qs by (simp add: coveredBy_def)
  have g: "good ?incl" "good ?excl0" "good ?excl"
    using v reserved_valid by (auto intro!: add_prefixes add_ips builder_new)
  have hi: "holds ?incl a \<longleftrightarrow> coveredBy a (ManifestNetworks inp @ DiscoveryLinkRoutes inp @ DiscoveryCloud inp)"
    if "plain_addr a" for a
    using that v by (simp add: add_prefixes builder_new cov) blast
  have he: "holds ?excl a \<longleftrightarrow> coveredBy a (ManifestExclude inp @ ClientConnected inp @ LocalExclude inp @ reserved)
      \<or> a \<in> set (RemoteAddrs inp)" if "plain_addr a" for a
    using that v reserved_valid g(2) by (simp add: add_prefixes add_ips builder_new cov) blast
  obtain si where si: "IPSet ops ?incl = Inr si" "\<forall>a. plain_addr a \<longrightarrow> member si a = holds ?incl a"
    using build [OF g(1)] by blast
  obtain se where se: "IPSet ops ?excl = Inr se" "\<forall>a. plain_addr a \<longrightarrow> member se a = holds ?excl a"
    using build [OF g(3)] by blast
  let ?out = "RemoveSet ops se (AddSet ops si (ops_builder ops))"
  have go: "good (AddSet ops si (ops_builder ops))" "good ?out" by (auto intro: add_set remove_set builder_new)
  obtain sf where sf: "IPSet ops ?out = Inr sf" "\<forall>a. plain_addr a \<longrightarrow> member sf a = holds ?out a"
    using build [OF go(2)] by blast
  have "coveredBy a (Prefixes ops sf) \<longleftrightarrow> holds ?incl a \<and> \<not> holds ?excl a" if "plain_addr a" for a
    using prefixes(1) [OF that, of sf] that si(2) se(2) sf(2) go(1)
    by (simp add: coveredBy_def list_ex_iff remove_set add_set builder_new)
  then show ?thesis using si(1) se(1) sf(1) hi he by (auto simp: ComputeNetworks_def Let_def)
qed

lemma compute_prefixes_ok: "ComputeNetworks ops inp = Inr ps \<Longrightarrow> list_all prefix_ok ps"
  using prefixes(2) by (auto simp: ComputeNetworks_def Let_def list_all_iff split: sum.splits)

end

text \<open>
  Sets of addresses as predicates satisfy the laws; the prefixes of a set are the host
  prefixes of its members.
\<close>

definition every_addr :: "addr list" where
  "every_addr = map (\<lambda>n. V4 (word_of_nat n)) [0..<2 ^ 32] @ map (\<lambda>n. V6 (word_of_nat n) []) [0..<2 ^ 128]"

definition pred_ops :: "(bool \<times> (addr \<Rightarrow> bool), addr \<Rightarrow> bool) ipset_ops" where
  "pred_ops =
     \<lparr>ops_builder = (True, \<lambda>_. False),
      AddPrefix = (\<lambda>p (g, h). (g \<and> PrefixIsValid p, \<lambda>a. Contains p a \<or> h a)),
      AddIP = (\<lambda>x (g, h). (g \<and> plain_addr x, \<lambda>a. a = x \<or> h a)),
      AddSet = (\<lambda>s (g, h). (g, \<lambda>a. s a \<or> h a)),
      RemoveSet = (\<lambda>s (g, h). (g, \<lambda>a. h a \<and> \<not> s a)),
      IPSet = (\<lambda>(g, h). if g then Inr h else Inl ''invalid''),
      Prefixes = (\<lambda>s. map (\<lambda>a. PrefixFrom a (int (BitLen a))) (filter s every_addr))\<rparr>"

lemma every_addr: "a \<in> set every_addr \<longleftrightarrow> plain_addr a"
proof
  assume "a \<in> set every_addr"
  then show "plain_addr a" by (auto simp: every_addr_def plain_addr_def IsValid_def simp del: upt_conv_Cons)
next
  assume p: "plain_addr a"
  have w: "unat (x :: 32 word) \<in> set [0..<2 ^ 32]" "unat (y :: 128 word) \<in> set [0..<2 ^ 128]" for x y
    using unsigned_less [of x] unsigned_less [of y] by simp_all
  have e: "word_of_nat (unat x) = x" "word_of_nat (unat y) = y" for x :: "32 word" and y :: "128 word"
    by simp_all
  have i: "V4 x \<in> set (map (\<lambda>n. V4 (word_of_nat n)) [0..<2 ^ 32])" for x
    using imageI [OF w(1) [of x], of "\<lambda>n. V4 (word_of_nat n)"] by (simp only: set_map e)
  have j: "V6 y [] \<in> set (map (\<lambda>n. V6 (word_of_nat n) []) [0..<2 ^ 128])" for y
    using imageI [OF w(2) [of y], of "\<lambda>n. V6 (word_of_nat n) []"] by (simp only: set_map e)
  show "a \<in> set every_addr"
    using p i j by (cases a) (auto simp only: every_addr_def set_append plain_addr_def IsValid_def hasZone.simps)
qed

lemma pred_prefixes: "plain_addr a \<Longrightarrow> (\<exists>p \<in> set (Prefixes pred_ops s). Contains p a) \<longleftrightarrow> s a"
proof -
  assume a: "plain_addr a"
  have "Contains (PrefixFrom b (int (BitLen b))) a \<longleftrightarrow> a = b" if "b \<in> set every_addr" for b
    using that Contains_host [of b a] by (simp add: every_addr plain_addr_def)
  with a show ?thesis by (auto simp: pred_ops_def every_addr)
qed

lemma host_prefix_ok: "plain_addr a \<Longrightarrow> prefix_ok (PrefixFrom a (int (BitLen a)))"
  by (cases a) (simp_all add: plain_addr_def prefix_ok_def PrefixFrom_def IsValid_def)

lemma pred_prefixes_ok: "p \<in> set (Prefixes pred_ops s) \<Longrightarrow> prefix_ok p"
  by (auto simp: pred_ops_def every_addr host_prefix_ok)

interpretation pred_set: ipset pred_ops fst snd "\<lambda>s. s"
  by unfold_locales (auto simp: pred_prefixes pred_prefixes_ok, auto simp: pred_ops_def)


section \<open>Properties\<close>

text \<open>
  C4: the session networks are exact. On valid inputs \<open>ComputeNetworks\<close> succeeds, and an
  address is in the networks exactly when a manifest, link-route or cloud prefix contains it,
  no exclude, connected, local or reserved prefix does, and it is not an address of the remote.
\<close>

theorem session_networks_exact:
  assumes "ipset ops good holds member" "inputs_ok inp"
  shows "\<exists>ps. ComputeNetworks ops inp = Inr ps \<and> (\<forall>a. plain_addr a \<longrightarrow> (coveredBy a ps \<longleftrightarrow>
      coveredBy a (ManifestNetworks inp @ DiscoveryLinkRoutes inp @ DiscoveryCloud inp)
      \<and> \<not> coveredBy a (ManifestExclude inp @ ClientConnected inp @ LocalExclude inp @ reserved)
      \<and> a \<notin> set (RemoteAddrs inp)))"
  using assms(2) by (rule ipset.compute_exact [OF assms(1)])

definition example_inputs :: network_inputs where
  "example_inputs = \<lparr>ManifestNetworks = [PrefixFrom (V4 0) 0], ManifestExclude = [], DiscoveryLinkRoutes = [],
     DiscoveryCloud = [], RemoteAddrs = [V4 0x08080808], ClientConnected = [], LocalExclude = []\<rparr>"

lemma example_inputs_ok: "inputs_ok example_inputs"
  by (simp add: inputs_ok_def example_inputs_def PrefixFrom_def PrefixIsValid_def IsValid_def plain_addr_def)

theorem session_networks_exact_witness:
  "\<exists>ps. ComputeNetworks pred_ops example_inputs = Inr ps \<and> \<not> coveredBy (V4 0x08080808) ps \<and> \<not> coveredBy (V4 0x7f000001) ps"
proof -
  have "plain_addr (V4 0x08080808)" "plain_addr (V4 0x7f000001)" by (simp_all add: plain_addr_def IsValid_def)
  moreover have "coveredBy (V4 0x7f000001) reserved"
    by (simp add: coveredBy_def reserved_def Contains_def PrefixFrom_def PrefixIsValid_def IsValid_def)
  ultimately show ?thesis
    using session_networks_exact [OF pred_set.ipset_axioms example_inputs_ok]
    by (auto simp: example_inputs_def coveredBy_def)
qed

lemma ParsePrefix_valid: "ParsePrefix s = Some p \<Longrightarrow> PrefixIsValid p"
  by (auto simp: ParsePrefix_def PrefixFrom_def PrefixIsValid_def IsValid_def dest: ParseAddr_valid
      split: bind_splits if_splits)

lemma Masked_valid [simp]: "PrefixIsValid p \<Longrightarrow> PrefixIsValid (Masked p)"
  by (simp add: Masked_def PrefixIsValid_def)

lemma ParsePrefixes_valid: "ParsePrefixes ss = Inr ps \<Longrightarrow> list_all PrefixIsValid ps"
  by (induction ss arbitrary: ps) (auto split: option.splits sum.splits dest: ParsePrefix_valid)

lemma parsePrefixes_valid: "parsePrefixes ss = Inr ps \<Longrightarrow> list_all PrefixIsValid ps"
  by (induction ss arbitrary: ps) (auto split: option.splits sum.splits dest: ParsePrefix_valid)

lemma sessionNetworks_inputs:
  assumes "sessionNetworks ops m res ce rn re ips nf ef conn = Inr ps"
    and "list_all plain_addr ips" "list_all PrefixIsValid conn"
  obtains inp where "inputs_ok inp" "ComputeNetworks ops inp = Inr ps"
    "RemoteAddrs inp = ips" "ClientConnected inp = conn"
proof -
  from assms(1) obtain mn me le lr cn where p: "ParsePrefixes (mf_Networks m @ rn @ nf) = Inr mn"
      "ParsePrefixes (mf_Exclude m) = Inr me" "ParsePrefixes (ce @ re @ ef) = Inr le"
    and d: "(case res of Some r \<Rightarrow> if LinkRoutesEnabled m then LinkRoutePrefixes r else Inr [] | None \<Rightarrow> Inr []) = Inr lr"
      "(case res of Some r \<Rightarrow> if CloudEnabled m then CloudNetworkPrefixes r else Inr [] | None \<Rightarrow> Inr []) = Inr cn"
    and c: "ComputeNetworks ops \<lparr>ManifestNetworks = mn, ManifestExclude = me, DiscoveryLinkRoutes = lr, DiscoveryCloud = cn,
      RemoteAddrs = ips, ClientConnected = conn, LocalExclude = le\<rparr> = Inr ps"
    unfolding sessionNetworks_def by (auto split: sum.splits)
  have "list_all PrefixIsValid lr" "list_all PrefixIsValid cn"
    using d by (auto simp: LinkRoutePrefixes_def CloudNetworkPrefixes_def dest: parsePrefixes_valid
        split: option.splits if_splits)
  then show ?thesis using that [OF _ c] p [THEN ParsePrefixes_valid] assms(2,3) by (simp add: inputs_ok_def)
qed


lemma show_v4_zero: "show_v4 0 = ''0.0.0.0''"
proof -
  have n: "(4 :: nat) = Suc (Suc (Suc (Suc 0)))" by simp
  have "As4 0 = [0, 0, 0, 0]" unfolding As4_def n by simp
  then show ?thesis by (simp add: show_v4_def show_nat_0)
qed

lemma parse_all_v4: "ParsePrefix ''0.0.0.0/0'' = Some (PrefixFrom (V4 0) 0)"
proof -
  have "LastCut ''0.0.0.0/0'' CHR ''/'' = Some (''0.0.0.0'', ''0'')" by (simp add: LastCut_def)
  moreover have "Atoi ''0'' = Some 0" using Atoi_show [of 0] by (simp add: show_nat_0)
  ultimately show ?thesis using ParseAddr_show_v4 [of 0] by (simp add: ParsePrefix_def show_v4_zero)
qed


lemma coveredBy_append [simp]: "coveredBy a (ps @ qs) \<longleftrightarrow> coveredBy a ps \<or> coveredBy a qs"
  by (simp add: coveredBy_def)

lemma coveredBy_host: "plain_addr b \<Longrightarrow> coveredBy a [PrefixFrom b (int (BitLen b))] \<longleftrightarrow> a = b"
  by (simp add: coveredBy_def Contains_host plain_addr_def)

lemma route_servers_law:
  assumes "route_servers ss networks = Inr ps" "\<forall>s \<in> set ss. \<forall>a. ParseAddr s = Some a \<longrightarrow> \<not> hasZone a"
  shows "coveredBy a ps \<longleftrightarrow> coveredBy a networks \<or> (\<exists>s \<in> set ss. ParseAddr s = Some a)"
  using assms
proof (induction ss networks arbitrary: ps rule: route_servers.induct)
  case (2 s ss networks)
  from "2.prems"(1) obtain b where b: "ParseAddr s = Some b" by (auto split: option.splits)
  have pb: "plain_addr b" using b "2.prems"(2) ParseAddr_valid [OF b] by (simp add: plain_addr_def IsValid_def)
  show ?case
  proof (cases "coveredBy b networks")
    case True
    with "2.IH"(1) [OF b True] "2.prems" b show ?thesis by auto
  next
    case False
    with "2.IH"(2) [OF b False] "2.prems" b pb show ?thesis by (auto simp: coveredBy_host)
  qed
qed simp

text \<open>
  The routes of a plan cover exactly its networks, and with a DNS mode also its DNS
  servers and nothing else, so captured queries reach the resolver.
\<close>

theorem routes_cover_networks_and_servers:
  assumes "routePrefixes p = Inr ps" "planNetworks (plan_Networks p) = Inr networks"
    and "\<forall>s \<in> set (dns_Servers (plan_DNS p)). \<forall>a. ParseAddr s = Some a \<longrightarrow> \<not> hasZone a"
  shows "coveredBy a ps \<longleftrightarrow> coveredBy a networks
    \<or> dns_Mode (plan_DNS p) \<noteq> ''none'' \<and> (\<exists>s \<in> set (dns_Servers (plan_DNS p)). ParseAddr s = Some a)"
  using assms route_servers_law [OF _ assms(3), of networks ps a] by (auto simp: routePrefixes_def split: if_splits)

theorem routes_cover_networks_and_servers_witness:
  "\<exists>ps. route_servers [show_v4 7] [] = Inr ps \<and> coveredBy (V4 7) ps \<and> \<not> coveredBy (V4 8) ps"
proof -
  let ?p = "\<lparr>plan_Remote = [], plan_Ref = [], plan_Addr = [], plan_User = [], plan_Networks = [],
    plan_DNS = \<lparr>dns_Mode = ''split'', dns_Servers = [show_v4 7], dns_Domains = []\<rparr>, plan_HelperArch = [], plan_ManifestSHA256 = [],
    plan_Transport = [], plan_QUICPorts = [], plan_BandwidthUp = 0, plan_BandwidthDown = 0,
    plan_Controller = [], plan_Protocols = [], plan_SingleLane = False, plan_Verbose = False, plan_ReconnectFor = 0\<rparr>"
  obtain ps where r: "route_servers [show_v4 7] [] = Inr ps" by (simp add: coveredBy_def)
  then have "routePrefixes ?p = Inr ps" by (simp add: routePrefixes_def)
  from routes_cover_networks_and_servers [OF this, of "[]" "V4 7"]
    routes_cover_networks_and_servers [OF this, of "[]" "V4 8"] r
  show ?thesis by (simp add: coveredBy_def)
qed

end
