(* ===== verification/Session.thy ===== *)
theory Session
  imports Networks
begin

text \<open>
  The session runner of \<open>internal/session\<close>: \<open>run.go\<close>, \<open>reconnect.go\<close>, \<open>lanes.go\<close> and
  \<open>quic.go\<close>. The runner keeps the session record; what the outside world answers, an attempt
  at a time, is the record \<open>attempt_env\<close>, and the signals, closes and samples it waits on are
  a list of events. \<open>r_open\<close> lists the connections that are open, so that a leak is visible.
\<close>

section \<open>Lanes\<close>

definition laneDNS :: string where "laneDNS = ''dns''"

definition laneDNSPort :: "16 word" where "laneDNSPort = 53"

definition lanePlan :: "plan \<Rightarrow> proto_set \<Rightarrow> string list" where
  "lanePlan p ps =
     (if ps_TCP ps then [''tcp''] else []) @ (if ps_UDP ps then [''udp''] else [])
     @ (if ps_ICMP ps then [''icmp''] else [])
     @ (if dns_Mode (plan_DNS p) \<noteq> ''none'' then [laneDNS] else [])"

record 'd lane_dialer =
  ld_primary :: 'd
  ld_tcp :: "'d option"
  ld_udp :: "'d option"
  ld_icmp :: "'d option"
  ld_dns :: "'d option"
  ld_servers :: "addr list"

definition ld_set :: "string \<Rightarrow> 'd \<Rightarrow> 'd lane_dialer \<Rightarrow> 'd lane_dialer" where
  "ld_set name c d =
     (if name = ''tcp'' then d\<lparr>ld_tcp := Some c\<rparr>
      else if name = ''udp'' then d\<lparr>ld_udp := Some c\<rparr>
      else if name = ''icmp'' then d\<lparr>ld_icmp := Some c\<rparr>
      else if name = laneDNS then d\<lparr>ld_dns := Some c\<rparr> else d)"

definition orPrimary :: "'d lane_dialer \<Rightarrow> 'd option \<Rightarrow> 'd" where
  "orPrimary d protoLane = (case protoLane of Some c \<Rightarrow> c | None \<Rightarrow> ld_primary d)"

definition isServer :: "'d lane_dialer \<Rightarrow> addr \<Rightarrow> bool" where
  "isServer d a = list_ex (\<lambda>s. Unmap s = Unmap a) (ld_servers d)"

definition lane_pick :: "'d lane_dialer \<Rightarrow> 'd option \<Rightarrow> addr_port \<Rightarrow> 'd" where
  "lane_pick d protoLane dst =
     (case ld_dns d of
        Some c \<Rightarrow> if ap_port dst = laneDNSPort \<and> isServer d (ap_addr dst) then c else orPrimary d protoLane
      | None \<Rightarrow> orPrimary d protoLane)"

definition lane_DialTCP :: "'d lane_dialer \<Rightarrow> addr_port \<Rightarrow> 'd" where
  "lane_DialTCP d dst = lane_pick d (ld_tcp d) dst"

definition lane_DialUDP :: "'d lane_dialer \<Rightarrow> addr_port \<Rightarrow> 'd" where
  "lane_DialUDP d dst = lane_pick d (ld_udp d) dst"

definition lane_DialICMP :: "'d lane_dialer \<Rightarrow> addr \<Rightarrow> 'd" where
  "lane_DialICMP d dst = orPrimary d (ld_icmp d)"

text \<open>\<open>openLanes\<close>: \<open>opens\<close> is the outcome of \<open>openLane\<close>, the client of a lane that came up.\<close>

definition openLanes :: "(string \<Rightarrow> 'd option) \<Rightarrow> string list \<Rightarrow> (string \<times> 'd) list" where
  "openLanes opens names = List.map_filter (\<lambda>n. map_option (Pair n) (opens n)) names"

record 'd lane_set =
  ls_extra :: "(string \<times> 'd) list"
  ls_dialer :: "'d lane_dialer"
  ls_names :: string

definition openLaneSet ::
  "'d \<Rightarrow> plan \<Rightarrow> proto_set \<Rightarrow> (string \<Rightarrow> 'd option) \<Rightarrow> network_error + 'd lane_set" where
  "openLaneSet primary p ps opens =
     (let d0 = \<lparr>ld_primary = primary, ld_tcp = None, ld_udp = None, ld_icmp = None, ld_dns = None, ld_servers = []\<rparr> in
      case lanePlan p ps of
        [] \<Rightarrow> Inr \<lparr>ls_extra = [], ls_dialer = d0, ls_names = []\<rparr>
      | first # rest \<Rightarrow>
          (case (if dns_Mode (plan_DNS p) \<noteq> ''none'' then ParseAddrs (dns_Servers (plan_DNS p)) else Inr []) of
             Inl e \<Rightarrow> Inl e
           | Inr servers \<Rightarrow>
               (let d1 = ld_set first primary (d0\<lparr>ld_servers := servers\<rparr>);
                    extra = (if plan_SingleLane p then [] else openLanes opens rest);
                    d2 = fold (\<lambda>(n, c). ld_set n c) extra d1
                in Inr \<lparr>ls_extra = extra, ls_dialer = d2, ls_names = Join (first # map fst extra) '',''\<rparr>)))"


section \<open>Backoff and the resume detector\<close>

definition backoffFirst :: int where "backoffFirst = 1000000000"

definition backoffCap :: int where "backoffCap = 10 * 1000000000"

text \<open>The loop of \<open>backoffAfter\<close> with \<open>n\<close> rounds left.\<close>

fun backoff_loop :: "nat \<Rightarrow> int \<Rightarrow> int" where
  "backoff_loop 0 d = d"
| "backoff_loop (Suc n) d =
     (let d' = i64 (d * 2) in if d' \<ge> backoffCap then backoffCap else backoff_loop n d')"

definition backoffAfter :: "int \<Rightarrow> int" where
  "backoffAfter attempt = backoff_loop (nat (attempt - 1)) backoffFirst"

definition resumeGap :: int where "resumeGap = 5 * 1000000000"

text \<open>
  \<open>resumeWatch.run\<close> on a list of ticks: the wall clock read at the tick and what the probe
  answers then. It gives the error of the failed probe, or nothing while the context lives.
\<close>

fun resume_run :: "int \<Rightarrow> (int \<times> string option) list \<Rightarrow> string option" where
  "resume_run lastReading [] = None"
| "resume_run lastReading ((now, probe) # ticks) =
     (if now - lastReading \<le> resumeGap then resume_run now ticks
      else case probe of
        None \<Rightarrow> resume_run now ticks
      | Some err \<Rightarrow> Some (''resume probe failed: '' @ err))"



section \<open>The runner\<close>

datatype session_error =
    StatusFailed string
  | ResolveFailed tailnet_error
  | DialFailed string
  | ManifestFailed string
  | RemoteChanged
  | HelperFailed string
  | PortsFailed port_error
  | QUICFailed string
  | QUICUnavailable string
  | LanesFailed network_error
  | DNSFailed
  | LossOf string
  | DeviceFailed | ConfigureFailed | RoutesBad network_error | RoutesFailed | DataPlaneFailed

record session_state =
  ss_Remote :: string
  ss_Addr :: addr
  ss_Status :: string
  ss_Transport :: string
  ss_QUICPort :: "16 word"
  ss_Fallback :: string
  ss_Lanes :: string
  ss_Reconnect :: "(nat \<times> session_error) option"
  ss_Reconnects :: nat

datatype resource = SSHConn | MuxConn | QUICConn | LaneConn string

datatype dialer = DialerQUIC "16 word" | DialerLanes

record runner =
  r_plan :: plan
  r_protos :: proto_set
  r_addr :: addr
  r_hostname :: string
  r_state :: session_state
  r_file :: "session_state option"
  r_dialer :: "dialer option"
  r_device :: bool
  r_routes :: "prefix list"
  r_dns :: bool
  r_dp :: bool
  r_ssh :: bool
  r_mux :: bool
  r_quic :: "16 word option"
  r_lanes :: "string list option"
  r_watches :: bool
  r_open :: "resource list"

text \<open>
  \<open>dialQUIC\<close>: an error, the reason of a fallback, or the port of the connection. What the
  remote and the operating system answer during one attempt is an \<open>attempt_env\<close>; an empty
  option is a success, a text the error.
\<close>

datatype quic_outcome = QError string | QFallback string | QUp "16 word"

record attempt_env =
  ae_sleep :: bool
  ae_before_deadline :: bool
  ae_ctx_done :: bool
  ae_status :: "string + tail_status"
  ae_dial :: "string option"
  ae_manifest :: "string + bytes"
  ae_helper :: "string option"
  ae_quic :: quic_outcome
  ae_lane :: "string \<Rightarrow> bool"
  ae_dns :: bool

definition writeState :: "runner \<Rightarrow> runner" where
  "writeState r = r\<lparr>r_file := Some (r_state r)\<rparr>"

definition plan_quicPorts :: "plan \<Rightarrow> port_error + port_range" where
  "plan_quicPorts p = (if plan_QUICPorts p = [] then Inr DefaultPorts else ParsePortRange (plan_QUICPorts p))"

text \<open>\<open>selectTransport\<close>: \<open>Some port\<close> when the session runs on QUIC, \<open>None\<close> for SSH.\<close>

definition selectTransport :: "attempt_env \<Rightarrow> runner \<Rightarrow> (session_error + 16 word option) \<times> runner" where
  "selectTransport e r =
     (let mode = (if plan_Transport (r_plan r) = [] then ''auto'' else plan_Transport (r_plan r)) in
      if mode = ''ssh'' then (Inr None, r\<lparr>r_state := (r_state r)\<lparr>ss_Transport := ''ssh''\<rparr>\<rparr>)
      else case plan_quicPorts (r_plan r) of
        Inl err \<Rightarrow> (Inl (PortsFailed err), r)
      | Inr _ \<Rightarrow>
          (case ae_quic e of
             QError err \<Rightarrow> (Inl (QUICFailed err), r)
           | QUp port \<Rightarrow> (Inr (Some port), r\<lparr>r_state := (r_state r)\<lparr>ss_Transport := ''quic'', ss_QUICPort := port\<rparr>\<rparr>)
           | QFallback reason \<Rightarrow>
               if mode = ''quic'' then (Inl (QUICUnavailable reason), r)
               else (Inr None, r\<lparr>r_state := (r_state r)\<lparr>ss_Transport := ''ssh'', ss_Fallback := reason\<rparr>\<rparr>)))"

definition redialQUIC :: "attempt_env \<Rightarrow> runner \<Rightarrow> session_error + 16 word" where
  "redialQUIC e r =
     (case plan_quicPorts (r_plan r) of
        Inl err \<Rightarrow> Inl (PortsFailed err)
      | Inr _ \<Rightarrow> (case ae_quic e of
                   QError err \<Rightarrow> Inl (QUICFailed err)
                 | QFallback reason \<Rightarrow> Inl (QUICUnavailable reason)
                 | QUp port \<Rightarrow> Inr port))"

definition lane_clients :: "attempt_env \<Rightarrow> string \<Rightarrow> resource option" where
  "lane_clients e name = (if ae_lane e name then Some (LaneConn name) else None)"

text \<open>\<open>openTransport\<close>: the QUIC port, or the set of lanes, and the connections that opened.\<close>

definition openTransport ::
  "attempt_env \<Rightarrow> runner \<Rightarrow> (session_error + (16 word option \<times> resource lane_set option)) \<times> runner" where
  "openTransport e r =
     (let lanes = (\<lambda>r. case openLaneSet MuxConn (r_plan r) (r_protos r) (lane_clients e) of
                          Inl err \<Rightarrow> (Inl (LanesFailed err), r)
                        | Inr ls \<Rightarrow> (Inr (None, Some ls), r\<lparr>r_open := map snd (ls_extra ls) @ r_open r\<rparr>)) in
      if ss_Transport (r_state r) = [] then
        (case selectTransport e r of
           (Inl err, r') \<Rightarrow> (Inl err, r')
         | (Inr (Some port), r') \<Rightarrow> (Inr (Some port, None), r'\<lparr>r_open := QUICConn # r_open r'\<rparr>)
         | (Inr None, r') \<Rightarrow> lanes r')
      else if ss_Transport (r_state r) = ''quic'' then
        (case redialQUIC e r of
           Inl err \<Rightarrow> (Inl err, r)
         | Inr port \<Rightarrow> (Inr (Some port, None),
             r\<lparr>r_state := (r_state r)\<lparr>ss_QUICPort := port\<rparr>, r_open := QUICConn # r_open r\<rparr>))
      else lanes r)"

text \<open>Closing a connection takes it from the open ones; closing an absent one is harmless.\<close>

definition close_res :: "resource list \<Rightarrow> runner \<Rightarrow> runner" where
  "close_res cs r = r\<lparr>r_open := fold remove1 cs (r_open r)\<rparr>"

definition transport_res :: "16 word option \<Rightarrow> resource list option \<Rightarrow> bool \<Rightarrow> bool \<Rightarrow> resource list" where
  "transport_res q lanes m c =
     (if q = None then [] else [QUICConn]) @ (if c then [SSHConn] else [])
     @ (case lanes of None \<Rightarrow> [] | Some ls \<Rightarrow> ls) @ (if m then [MuxConn] else [])"

definition closeTransport :: "16 word option \<Rightarrow> resource list option \<Rightarrow> bool \<Rightarrow> bool \<Rightarrow> runner \<Rightarrow> runner" where
  "closeTransport q lanes m c r = close_res (transport_res q lanes m c) r"

definition applyDNS :: "attempt_env \<Rightarrow> runner \<Rightarrow> bool \<times> runner" where
  "applyDNS e r =
     (let mode = dns_Mode (plan_DNS (r_plan r)) in
      if mode = ''none'' then (True, r)
      else case ParseAddrs (dns_Servers (plan_DNS (r_plan r))) of
        Inl _ \<Rightarrow> (False, r)
      | Inr _ \<Rightarrow> if mode = ''split'' \<or> mode = ''all''
                 then (if ae_dns e then (True, r\<lparr>r_dns := True\<rparr>) else (False, r))
                 else (False, r))"

definition manifestMatches :: "(bytes \<Rightarrow> string) \<Rightarrow> string \<Rightarrow> bytes \<Rightarrow> bool" where
  "manifestMatches sha want content \<longleftrightarrow> sha content = want"

text \<open>\<open>show_addr\<close> is \<open>Addr.String\<close>; \<open>sha\<close> is the hex SHA-256 of the content.\<close>

definition guardManifest :: "(addr \<Rightarrow> string) \<Rightarrow> (bytes \<Rightarrow> string) \<Rightarrow> attempt_env \<Rightarrow> runner \<Rightarrow> session_error option" where
  "guardManifest show_addr sha e r =
     (if show_addr (r_addr r) = plan_Addr (r_plan r) then None
      else case ae_manifest e of
        Inl err \<Rightarrow> Some (ManifestFailed err)
      | Inr out \<Rightarrow>
          (case FetchManifest out of
             Inl _ \<Rightarrow> Some (ManifestFailed ''read manifest'')
           | Inr (_, content) \<Rightarrow>
               if manifestMatches sha (plan_ManifestSHA256 (r_plan r)) content then None else Some RemoteChanged))"

definition transport ::
  "(addr \<Rightarrow> string) \<Rightarrow> (bytes \<Rightarrow> string) \<Rightarrow> attempt_env \<Rightarrow> runner \<Rightarrow> session_error option \<times> runner" where
  "transport show_addr sha e r0 =
     (case ae_dial e of
        Some err \<Rightarrow> (Some (DialFailed err), r0)
      | None \<Rightarrow>
     (let r1 = r0\<lparr>r_open := SSHConn # r_open r0\<rparr> in
      case guardManifest show_addr sha e r1 of
        Some err \<Rightarrow> (Some err, close_res [SSHConn] r1)
      | None \<Rightarrow>
     (case ae_helper e of
        Some err \<Rightarrow> (Some (HelperFailed err), close_res [SSHConn] r1)
      | None \<Rightarrow>
     (case openTransport e (r1\<lparr>r_open := MuxConn # r_open r1\<rparr>) of
        (Inl err, r2) \<Rightarrow> (Some err, closeTransport None None True True r2)
      | (Inr (q, lanes), r2) \<Rightarrow>
     (case (if r_device r2 then applyDNS e r2 else (True, r2)) of
        (False, r3) \<Rightarrow> (Some DNSFailed,
           closeTransport q (map_option (\<lambda>ls. map snd (ls_extra ls)) lanes) True True r3)
      | (True, r3) \<Rightarrow>
          (let r4 = r3\<lparr>r_ssh := True, r_mux := True, r_quic := q,
                        r_lanes := map_option (\<lambda>ls. map fst (ls_extra ls)) lanes\<rparr> in
           (None, case (q, lanes) of
              (Some port, _) \<Rightarrow> r4\<lparr>r_dialer := Some (DialerQUIC port)\<rparr>
            | (None, Some ls) \<Rightarrow> r4\<lparr>r_state := (r_state r4)\<lparr>ss_Lanes := ls_names ls\<rparr>, r_dialer := Some DialerLanes\<rparr>
            | (None, None) \<Rightarrow> r4)))))))"



section \<open>Loss and reconnect\<close>

definition dropTransport :: "runner \<Rightarrow> runner" where
  "dropTransport r =
     (closeTransport (r_quic r) (map_option (map LaneConn) (r_lanes r)) (r_mux r) (r_ssh r) r)
       \<lparr>r_quic := None, r_lanes := None, r_mux := False, r_ssh := False\<rparr>"

definition lost :: "string \<Rightarrow> runner \<Rightarrow> runner" where
  "lost reason r =
     (let r1 = dropTransport (r\<lparr>r_dialer := None, r_watches := False\<rparr>);
          r2 = r1\<lparr>r_dns := False\<rparr>
      in writeState (r2\<lparr>r_state := (r_state r2)\<lparr>ss_Status := ''reconnecting'', ss_Reconnect := Some (0, LossOf reason)\<rparr>\<rparr>))"

definition resolve_remote :: "attempt_env \<Rightarrow> runner \<Rightarrow> session_error option \<times> runner" where
  "resolve_remote e r =
     (case ae_status e of
        Inl err \<Rightarrow> (Some (StatusFailed err), r)
      | Inr st \<Rightarrow>
          (case resolveAddr st (plan_Ref (r_plan r)) of
             Inl err \<Rightarrow> (Some (ResolveFailed err), r)
           | Inr (a, hostname) \<Rightarrow>
               if a = r_addr r then (None, r)
               else (None, writeState (r\<lparr>r_addr := a, r_hostname := hostname,
                       r_state := (r_state r)\<lparr>ss_Addr := a, ss_Remote := hostname\<rparr>\<rparr>))))"

text \<open>An attempt: its failure and whether the failure ends the session.\<close>

definition attempt ::
  "(addr \<Rightarrow> string) \<Rightarrow> (bytes \<Rightarrow> string) \<Rightarrow> attempt_env \<Rightarrow> runner \<Rightarrow> (session_error \<times> bool) option \<times> runner" where
  "attempt show_addr sha e r =
     (case resolve_remote e r of
        (Some err, r') \<Rightarrow> (Some (err, False), r')
      | (None, r') \<Rightarrow>
          (case transport show_addr sha e r' of
             (None, r'') \<Rightarrow> (None, r'')
           | (Some err, r'') \<Rightarrow> (Some (err, err = RemoteChanged), r'')))"

definition markUp :: "runner \<Rightarrow> runner" where
  "markUp r = writeState (r\<lparr>r_state := (r_state r)\<lparr>ss_Status := ''up'', ss_Reconnect := None\<rparr>\<rparr>)"

definition startWatches :: "runner \<Rightarrow> runner" where
  "startWatches r = r\<lparr>r_watches := True\<rparr>"

definition set_reconnect :: "(nat \<times> session_error) \<Rightarrow> runner \<Rightarrow> runner" where
  "set_reconnect x r = writeState (r\<lparr>r_state := (r_state r)\<lparr>ss_Reconnect := Some x\<rparr>\<rparr>)"

text \<open>
  The reconnect loop on the list of what the attempts will meet: the session is up again, it
  stops (a signal, or the window passed), it ends with an error, or the list is used up.
\<close>

datatype reconnect_result = ReUp | ReStop | ReError session_error | RePending

fun reconnect ::
  "(addr \<Rightarrow> string) \<Rightarrow> (bytes \<Rightarrow> string) \<Rightarrow> nat \<Rightarrow> attempt_env list \<Rightarrow> runner \<Rightarrow> reconnect_result \<times> attempt_env list \<times> runner" where
  "reconnect show_addr sha n [] r = (RePending, [], r)"
| "reconnect show_addr sha n (e # es) r =
     (if n > 1 \<and> \<not> ae_sleep e then (ReStop, es, r)
      else if \<not> ae_before_deadline e then (ReStop, es, r)
      else
        let reason = (case ss_Reconnect (r_state r) of Some (_, x) \<Rightarrow> x | None \<Rightarrow> LossOf []);
            r1 = set_reconnect (n, reason) r in
        case attempt show_addr sha e r1 of
          (None, r2) \<Rightarrow>
            (ReUp, es, startWatches (markUp (r2\<lparr>r_state := (r_state r2)\<lparr>ss_Reconnects := Suc (ss_Reconnects (r_state r2))\<rparr>\<rparr>)))
        | (Some (err, fatal), r2) \<Rightarrow>
            if \<not> fatal \<and> ae_ctx_done e then (ReStop, es, r2)
            else let r3 = set_reconnect (n, err) r2 in
              if fatal then (ReError err, es, r3) else reconnect show_addr sha (Suc n) es r3)"


section \<open>The life of a session\<close>

datatype event = EvSignal | EvMuxClosed | EvLaneClosed string | EvQUICClosed | EvResumeLoss string | EvSample

definition loss_reason :: "event \<Rightarrow> string" where
  "loss_reason ev =
     (case ev of
        EvMuxClosed \<Rightarrow> ''mux closed''
      | EvLaneClosed lane \<Rightarrow> ''lane mux closed ('' @ lane @ '')''
      | EvQUICClosed \<Rightarrow> ''quic connection closed''
      | EvResumeLoss reason \<Rightarrow> reason
      | _ \<Rightarrow> [])"

datatype loop_result = LoopStopped | LoopEnded session_error | LoopRunning

fun session_loop ::
  "(addr \<Rightarrow> string) \<Rightarrow> (bytes \<Rightarrow> string) \<Rightarrow> event list \<Rightarrow> attempt_env list \<Rightarrow> runner \<Rightarrow> loop_result \<times> runner" where
  "session_loop show_addr sha [] es r = (LoopRunning, r)"
| "session_loop show_addr sha (ev # evs) es r =
     (if ev = EvSample then session_loop show_addr sha evs es (writeState r)
      else if ev = EvSignal then (LoopStopped, r)
      else if plan_ReconnectFor (r_plan r) \<le> 0 then (LoopStopped, r)
      else case reconnect show_addr sha 1 es (lost (loss_reason ev) r) of
        (ReUp, es', r') \<Rightarrow> session_loop show_addr sha evs es' r'
      | (ReStop, es', r') \<Rightarrow> (LoopStopped, r')
      | (ReError err, es', r') \<Rightarrow> (LoopEnded err, r')
      | (RePending, es', r') \<Rightarrow> (LoopRunning, r'))"

text \<open>What the platform answers during \<open>setup\<close>.\<close>

record setup_env =
  se_create :: bool
  se_configure :: bool
  se_add_routes :: bool
  se_dns :: attempt_env
  se_dataplane :: bool

text \<open>
  The host as the platform keeps it: the device exists, the prefixes routed to it, whether a
  DNS mode is applied. They are the fields \<open>r_device\<close>, \<open>r_routes\<close> and \<open>r_dns\<close> of the runner;
  tearing the device down takes its routes with it.
\<close>

definition teardownDevice :: "runner \<Rightarrow> runner" where
  "teardownDevice r = r\<lparr>r_device := False, r_routes := []\<rparr>"

definition removeRoutes :: "runner \<Rightarrow> runner" where
  "removeRoutes r = r\<lparr>r_routes := []\<rparr>"

definition revertDNS :: "runner \<Rightarrow> runner" where
  "revertDNS r = r\<lparr>r_dns := False\<rparr>"

definition runner_setup :: "setup_env \<Rightarrow> runner \<Rightarrow> session_error option \<times> runner" where
  "runner_setup e r0 =
     (if \<not> se_create e then (Some DeviceFailed, r0)
      else let r1 = r0\<lparr>r_device := True\<rparr> in
      if \<not> se_configure e then (Some ConfigureFailed, teardownDevice r1)
      else case routePrefixes (r_plan r1) of
        Inl err \<Rightarrow> (Some (RoutesBad err), teardownDevice r1)
      | Inr routes \<Rightarrow>
          if \<not> se_add_routes e then (Some RoutesFailed, teardownDevice r1)
          else let r2 = r1\<lparr>r_routes := routes\<rparr> in
          (case applyDNS (se_dns e) r2 of
             (False, r3) \<Rightarrow> (Some DNSFailed, teardownDevice (removeRoutes r3))
           | (True, r3) \<Rightarrow>
               if \<not> se_dataplane e then (Some DataPlaneFailed, teardownDevice (removeRoutes (revertDNS r3)))
               else (None, r3\<lparr>r_dp := True\<rparr>)))"

definition stopSession :: "runner \<Rightarrow> runner" where
  "stopSession r0 =
     (let r1 = writeState (r0\<lparr>r_state := (r_state r0)\<lparr>ss_Status := ''stopping''\<rparr>\<rparr>);
          r2 = removeRoutes (revertDNS (r1\<lparr>r_watches := False\<rparr>));
          r3 = close_res ((if r_quic r2 = None then [] else [QUICConn])
                          @ (case r_lanes r2 of None \<Rightarrow> [] | Some ls \<Rightarrow> map LaneConn ls)) r2
      in teardownDevice (r3\<lparr>r_dp := False\<rparr>))"

definition newRunner :: "plan \<Rightarrow> addr \<Rightarrow> proto_set \<Rightarrow> runner" where
  "newRunner p a ps =
     \<lparr>r_plan = p, r_protos = ps, r_addr = a, r_hostname = plan_Remote p,
      r_state = \<lparr>ss_Remote = plan_Remote p, ss_Addr = a, ss_Status = ''starting'', ss_Transport = [],
                 ss_QUICPort = 0, ss_Fallback = [], ss_Lanes = [], ss_Reconnect = None, ss_Reconnects = 0\<rparr>,
      r_file = None, r_dialer = None, r_device = False, r_routes = [], r_dns = False, r_dp = False,
      r_ssh = False, r_mux = False, r_quic = None, r_lanes = None, r_watches = False, r_open = []\<rparr>"

text \<open>\<open>Run\<close>: \<open>dropTransport\<close> and the removal of the state file are deferred, so every exit runs them.\<close>

definition remove_file :: "runner \<Rightarrow> runner" where
  "remove_file r = r\<lparr>r_file := None\<rparr>"

definition Run ::
  "(addr \<Rightarrow> string) \<Rightarrow> (bytes \<Rightarrow> string) \<Rightarrow> plan \<Rightarrow> addr \<Rightarrow> proto_set \<Rightarrow> attempt_env \<Rightarrow> setup_env \<Rightarrow>
   event list \<Rightarrow> attempt_env list \<Rightarrow> loop_result \<times> runner" where
  "Run show_addr sha p a ps e0 se evs es =
     (let r0 = writeState (newRunner p a ps) in
      case transport show_addr sha e0 r0 of
        (Some err, r1) \<Rightarrow> (LoopEnded err, remove_file r1)
      | (None, r1) \<Rightarrow>
          (case runner_setup se r1 of
             (Some err, r2) \<Rightarrow> (LoopEnded err, remove_file (dropTransport r2))
           | (None, r2) \<Rightarrow>
               (case session_loop show_addr sha evs es (startWatches (markUp r2)) of
                  (LoopRunning, r3) \<Rightarrow> (LoopRunning, r3)
                | (res, r3) \<Rightarrow> (res, remove_file (dropTransport (stopSession r3))))))"

end
