(* ===== verification/Session_Laws.thy ===== *)
theory Session_Laws
  imports Session "HOL-Library.Multiset"
begin

text \<open>
  The properties of the session runner: no connection leaks on any path, every exit reverts
  the host, a session never forwards to a remote with another manifest, the transport is
  sticky, the flows take the lanes the plan names, and the backoff is the documented one.
\<close>

section \<open>What is open is what the runner owns\<close>

definition owned :: "runner \<Rightarrow> resource list" where
  "owned r = transport_res (r_quic r) (map_option (map LaneConn) (r_lanes r)) (r_mux r) (r_ssh r)"

definition idle :: "runner \<Rightarrow> bool" where
  "idle r \<longleftrightarrow> r_quic r = None \<and> r_lanes r = None \<and> \<not> r_mux r \<and> \<not> r_ssh r \<and> r_dialer r = None \<and> r_open r = []"

lemma mset_fold_remove1: "mset (fold remove1 cs xs) = mset xs - mset cs"
  by (induction cs arbitrary: xs) auto

lemma openLanes_clients:
  "map snd (openLanes (lane_clients e) names) = map LaneConn (map fst (openLanes (lane_clients e) names))"
  by (induction names) (auto simp: openLanes_def lane_clients_def List.map_filter_simps split: option.splits)

lemma openLaneSet_extra:
  "openLaneSet x p ps (lane_clients e) = Inr ls \<Longrightarrow> map snd (ls_extra ls) = map LaneConn (map fst (ls_extra ls))"
  using openLanes_clients
  by (auto simp: openLaneSet_def Let_def simp del: map_map split: list.splits sum.splits if_splits)

definition new_conns :: "16 word option \<Rightarrow> resource lane_set option \<Rightarrow> resource list" where
  "new_conns q lanes =
     (if q = None then [] else [QUICConn]) @ (case lanes of None \<Rightarrow> [] | Some ls \<Rightarrow> map snd (ls_extra ls))"

lemma selectTransport_frame:
  "selectTransport e r = (res, r') \<Longrightarrow> \<exists>st. r' = r\<lparr>r_state := st\<rparr>"
  by (auto simp: selectTransport_def Let_def split: if_splits sum.splits quic_outcome.splits)
     (metis runner.surjective runner.update_convs(5))+

definition lanes_named :: "resource lane_set option \<Rightarrow> bool" where
  "lanes_named lanes \<longleftrightarrow>
     (case lanes of None \<Rightarrow> True | Some ls \<Rightarrow> map snd (ls_extra ls) = map LaneConn (map fst (ls_extra ls)))"

definition open_lanes :: "attempt_env \<Rightarrow> runner \<Rightarrow> (session_error + (16 word option \<times> resource lane_set option)) \<times> runner" where
  "open_lanes e r =
     (case openLaneSet MuxConn (r_plan r) (r_protos r) (lane_clients e) of
        Inl err \<Rightarrow> (Inl (LanesFailed err), r)
      | Inr ls \<Rightarrow> (Inr (None, Some ls), r\<lparr>r_open := map snd (ls_extra ls) @ r_open r\<rparr>))"

text \<open>\<open>openTransport\<close> changes the state and adds the connections it returns, and nothing else.\<close>

definition opened :: "runner \<Rightarrow> session_error + (16 word option \<times> resource lane_set option) \<Rightarrow> runner \<Rightarrow> bool" where
  "opened r res r' \<longleftrightarrow>
     (case res of
        Inl _ \<Rightarrow> (\<exists>st. r' = r\<lparr>r_state := st\<rparr>)
      | Inr (q, lanes) \<Rightarrow> (\<exists>st. r' = r\<lparr>r_state := st, r_open := new_conns q lanes @ r_open r\<rparr>)
          \<and> (q = None) = (lanes \<noteq> None) \<and> lanes_named lanes)"

lemma open_lanes_opened:
  assumes "open_lanes e r = (res, r')" and that: "r = r0\<lparr>r_state := st\<rparr>"
  shows "opened r0 res r'"
proof (cases "openLaneSet MuxConn (r_plan r) (r_protos r) (lane_clients e)")
  case (Inl err)
  then show ?thesis using assms by (auto simp: open_lanes_def opened_def)
next
  case (Inr ls)
  have "lanes_named (Some ls)" using openLaneSet_extra [OF Inr] by (simp add: lanes_named_def)
  then show ?thesis using assms Inr
    by (auto simp: open_lanes_def opened_def new_conns_def)
qed

lemma openTransport_cases:
  "openTransport e r =
     (if ss_Transport (r_state r) = [] then
        (case selectTransport e r of
           (Inl err, r') \<Rightarrow> (Inl err, r')
         | (Inr (Some port), r') \<Rightarrow> (Inr (Some port, None), r'\<lparr>r_open := QUICConn # r_open r'\<rparr>)
         | (Inr None, r') \<Rightarrow> open_lanes e r')
      else if ss_Transport (r_state r) = ''quic'' then
        (case redialQUIC e r of
           Inl err \<Rightarrow> (Inl err, r)
         | Inr port \<Rightarrow> (Inr (Some port, None),
             r\<lparr>r_state := (r_state r)\<lparr>ss_QUICPort := port\<rparr>, r_open := QUICConn # r_open r\<rparr>))
      else open_lanes e r)"
  unfolding openTransport_def open_lanes_def Let_def ..

lemma same_state: "r = r\<lparr>r_state := r_state r\<rparr>"
  by simp

lemma openTransport_opened:
  assumes "openTransport e r = (res, r')"
  shows "opened r res r'"
proof -
  consider (select) "ss_Transport (r_state r) = []" | (quic) "ss_Transport (r_state r) = ''quic''"
    | (ssh) "ss_Transport (r_state r) \<noteq> []" "ss_Transport (r_state r) \<noteq> ''quic''" by auto
  then show ?thesis
  proof cases
    case select
    obtain x r1 where x: "selectTransport e r = (x, r1)" by fastforce
    obtain st where st: "r1 = r\<lparr>r_state := st\<rparr>" using selectTransport_frame [OF x] by blast
    show ?thesis
    proof (cases x)
      case (Inl err)
      then show ?thesis using assms x select st by (auto simp: openTransport_cases opened_def)
    next
      case (Inr q)
      show ?thesis
      proof (cases q)
        case None
        then have "open_lanes e r1 = (res, r')" using assms x select Inr by (simp add: openTransport_cases)
        from open_lanes_opened [OF this st] show ?thesis .
      next
        case (Some port)
        then have "res = Inr (Some port, None)" "r' = r1\<lparr>r_open := QUICConn # r_open r1\<rparr>"
          using assms x select Inr by (simp_all add: openTransport_cases)
        then show ?thesis using st by (auto simp: opened_def new_conns_def lanes_named_def)
      qed
    qed
  next
    case quic
    show ?thesis
    proof (cases "redialQUIC e r")
      case (Inl err)
      with quic assms have "res = Inl err" "r' = r" by (simp_all add: openTransport_cases)
      then show ?thesis unfolding opened_def by (simp only: sum.case) (rule exI, rule same_state)
    next
      case (Inr port)
      with quic assms show ?thesis
        by (auto simp: openTransport_cases opened_def new_conns_def lanes_named_def)
    qed
  next
    case ssh
    then have "open_lanes e r = (res, r')" using assms by (simp add: openTransport_cases)
    from open_lanes_opened [OF this same_state] show ?thesis .
  qed
qed

lemma applyDNS_frame: "applyDNS e r = (ok, r') \<Longrightarrow> (\<exists>d. r' = r\<lparr>r_dns := d\<rparr>) \<and> (\<not> ok \<longrightarrow> r' = r)"
  by (auto simp: applyDNS_def Let_def split: if_splits sum.splits) (metis runner.surjective runner.update_convs(10))+



section \<open>A transport is all there or not at all\<close>

text \<open>The fields a transport attempt may not change, on either outcome.\<close>

definition kept :: "runner \<Rightarrow> runner \<Rightarrow> bool" where
  "kept r r' \<longleftrightarrow> r_plan r' = r_plan r \<and> r_protos r' = r_protos r \<and> r_addr r' = r_addr r
     \<and> r_hostname r' = r_hostname r \<and> r_device r' = r_device r \<and> r_routes r' = r_routes r
     \<and> r_dp r' = r_dp r \<and> r_watches r' = r_watches r \<and> r_file r' = r_file r"

definition same_conns :: "runner \<Rightarrow> runner \<Rightarrow> bool" where
  "same_conns r r' \<longleftrightarrow> r_ssh r' = r_ssh r \<and> r_mux r' = r_mux r \<and> r_quic r' = r_quic r \<and> r_lanes r' = r_lanes r
     \<and> r_dialer r' = r_dialer r \<and> r_dns r' = r_dns r"

lemma closed_again:
  assumes "r_open r' = new_conns q lanes @ MuxConn # SSHConn # r_open r"
  shows "mset (r_open (closeTransport q (map_option (\<lambda>ls. map snd (ls_extra ls)) lanes) True True r')) = mset (r_open r)"
  using assms
  by (cases lanes) (auto simp: closeTransport_def close_res_def mset_fold_remove1 transport_res_def new_conns_def)

lemma transport_law:
  assumes "transport show_addr sha e r = (err, r')" "r_ssh r = False" "r_mux r = False"
  shows "kept r r' \<and> (case err of
      Some _ \<Rightarrow> same_conns r r' \<and> mset (r_open r') = mset (r_open r)
    | None \<Rightarrow> r_dialer r' \<noteq> None \<and> mset (r_open r') = mset (owned r') + mset (r_open r)
        \<and> guardManifest show_addr sha e r = None)"
proof -
  let ?r1 = "r\<lparr>r_open := SSHConn # r_open r\<rparr>"
  have g: "guardManifest show_addr sha e ?r1 = guardManifest show_addr sha e r"
    by (simp add: guardManifest_def split: sum.splits)
  note simps = kept_def same_conns_def close_res_def mset_fold_remove1
  show ?thesis
  proof (cases "ae_dial e = None \<and> guardManifest show_addr sha e r = None \<and> ae_helper e = None")
    case False
    then show ?thesis using assms g
      by (auto simp: transport_def Let_def simps split: option.splits)
  next
    case True
    let ?r1' = "?r1\<lparr>r_open := MuxConn # r_open ?r1\<rparr>"
    obtain res r2 where o: "openTransport e ?r1' = (res, r2)" by fastforce
    note op = openTransport_opened [OF o]
    show ?thesis
    proof (cases res)
      case (Inl x)
      with op obtain st where r2: "r2 = ?r1'\<lparr>r_state := st\<rparr>" by (auto simp: opened_def)
      have "err = Some x" "r' = closeTransport None None True True r2"
        using assms(1) True g o Inl by (auto simp: transport_def Let_def)
      then show ?thesis using r2 assms
        by (auto simp: simps closeTransport_def transport_res_def)
    next
      case (Inr ql)
      obtain q lanes where ql: "ql = (q, lanes)" by (cases ql)
      from op Inr ql obtain st where r2: "r2 = ?r1'\<lparr>r_state := st, r_open := new_conns q lanes @ r_open ?r1'\<rparr>"
        and x: "(q = None) = (lanes \<noteq> None)" and nm: "lanes_named lanes" by (auto simp: opened_def)
      obtain ok r3 where d: "(if r_device r2 then applyDNS e r2 else (True, r2)) = (ok, r3)" by fastforce
      have "\<exists>dn. r3 = r2\<lparr>r_dns := dn\<rparr> \<and> (\<not> ok \<longrightarrow> r3 = r2)"
      proof (cases "r_device r2")
        case False
        with d show ?thesis by (intro exI [of _ "r_dns r2"]) simp
      qed (use d applyDNS_frame [of e r2 ok r3] in auto)
      then obtain dn where r3: "r3 = r2\<lparr>r_dns := dn\<rparr>" and bad: "\<not> ok \<Longrightarrow> r3 = r2" by blast
      have o3: "r_open r3 = new_conns q lanes @ MuxConn # SSHConn # r_open r" using r3 r2 by simp
      have tr: "transport show_addr sha e r = (if ok then
          (None, let r4 = r3\<lparr>r_ssh := True, r_mux := True, r_quic := q,
                        r_lanes := map_option (\<lambda>ls. map fst (ls_extra ls)) lanes\<rparr> in
            case (q, lanes) of
              (Some port, _) \<Rightarrow> r4\<lparr>r_dialer := Some (DialerQUIC port)\<rparr>
            | (None, Some ls) \<Rightarrow> r4\<lparr>r_state := (r_state r4)\<lparr>ss_Lanes := ls_names ls\<rparr>, r_dialer := Some DialerLanes\<rparr>
            | (None, None) \<Rightarrow> r4)
          else (Some DNSFailed, closeTransport q (map_option (\<lambda>ls. map snd (ls_extra ls)) lanes) True True r3))"
        using True g o Inr ql d by (auto simp: transport_def Let_def)
      show ?thesis
      proof (cases ok)
        case False
        then have "err = Some DNSFailed" "r' = closeTransport q (map_option (\<lambda>ls. map snd (ls_extra ls)) lanes) True True r3"
          using assms(1) tr by simp_all
        with closed_again [OF o3] bad [OF False] r2 show ?thesis
          by (auto simp: kept_def same_conns_def closeTransport_def close_res_def)
      next
        case ok: True
        show ?thesis
        proof (cases q)
          case None
          then obtain ls where ls: "lanes = Some ls" using x by auto
          have "map snd (ls_extra ls) = map LaneConn (map fst (ls_extra ls))" using nm ls by (simp add: lanes_named_def)
          then have "new_conns q lanes = map LaneConn (map fst (ls_extra ls))"
            using None ls by (simp only: new_conns_def) simp
          then have "mset (r_open r3) = mset (map LaneConn (map fst (ls_extra ls))) + {#MuxConn, SSHConn#} + mset (r_open r)"
            using o3 by simp
          then show ?thesis using assms(1) tr ok None ls r2 r3 True
            by (auto simp: kept_def owned_def transport_res_def)
        next
          case (Some port)
          then have "lanes = None" using x by auto
          then show ?thesis using assms(1) tr ok Some r2 r3 o3 True
            by (auto simp: kept_def owned_def transport_res_def new_conns_def)
        qed
      qed
    qed
  qed
qed

end
