(* ===== verification/Session_Runs.thy ===== *)
theory Session_Runs
  imports Session_Laws
begin

text \<open>
  The whole runs of a session: losses, reconnects and the exit, over any events and any
  answers of the remote and the platform.
\<close>

section \<open>Invariant of a running session\<close>

text \<open>
  Between events the runner is up: the connections open are exactly those of its transport,
  and the data plane has a dialer. While it reconnects nothing is open and there is no dialer.
\<close>

definition up_inv :: "runner \<Rightarrow> bool" where
  "up_inv r \<longleftrightarrow> r_dialer r \<noteq> None \<and> mset (r_open r) = mset (owned r) \<and> ss_Status (r_state r) = ''up''
     \<and> ss_Reconnect (r_state r) = None \<and> r_file r = Some (r_state r)"

definition down_inv :: "runner \<Rightarrow> bool" where
  "down_inv r \<longleftrightarrow> idle r \<and> ss_Status (r_state r) = ''reconnecting'' \<and> \<not> r_dns r \<and> \<not> r_watches r"

text \<open>What survives a loss.\<close>

definition session_kept :: "runner \<Rightarrow> runner \<Rightarrow> bool" where
  "session_kept r r' \<longleftrightarrow> r_plan r' = r_plan r \<and> r_protos r' = r_protos r \<and> r_device r' = r_device r
     \<and> r_routes r' = r_routes r \<and> r_dp r' = r_dp r"

lemma session_kept_refl [simp]: "session_kept r r"
  by (simp add: session_kept_def)

lemma session_kept_trans: "session_kept a b \<Longrightarrow> session_kept b c \<Longrightarrow> session_kept a c"
  by (simp add: session_kept_def)

lemma dropTransport_idle:
  assumes "mset (r_open r) \<subseteq># mset (owned r)" "r_dialer r = None"
  shows "idle (dropTransport r)"
proof -
  have "mset (r_open (dropTransport r)) = mset (r_open r) - mset (owned r)"
    by (simp add: dropTransport_def closeTransport_def close_res_def mset_fold_remove1 owned_def)
  also have "\<dots> = {#}" using assms(1) by (simp add: Diff_eq_empty_iff_mset)
  finally have "r_open (dropTransport r) = []" by simp
  then show ?thesis using assms(2) by (simp add: idle_def dropTransport_def closeTransport_def close_res_def)
qed

lemma lost_law:
  assumes "mset (r_open r) = mset (owned r)"
  shows "down_inv (lost reason r)" "session_kept r (lost reason r)"
    "ss_Reconnect (r_state (lost reason r)) = Some (0, LossOf reason)"
    "ss_Transport (r_state (lost reason r)) = ss_Transport (r_state r)"
    "ss_Reconnects (r_state (lost reason r)) = ss_Reconnects (r_state r)"
proof -
  let ?r = "r\<lparr>r_dialer := None, r_watches := False\<rparr>"
  have "idle (dropTransport ?r)" using assms by (intro dropTransport_idle) (simp_all add: owned_def)
  then show "down_inv (lost reason r)"
    by (simp add: lost_def Let_def writeState_def down_inv_def idle_def dropTransport_def closeTransport_def close_res_def)
qed (simp_all add: lost_def Let_def writeState_def session_kept_def dropTransport_def closeTransport_def close_res_def)

lemma resolve_remote_law:
  assumes "resolve_remote e r = (x, r')" "idle r"
  shows "idle r'" "session_kept r r'" "r_dns r' = r_dns r" "r_watches r' = r_watches r"
    "ss_Status (r_state r') = ss_Status (r_state r)" "ss_Transport (r_state r') = ss_Transport (r_state r)"
    "ss_Reconnects (r_state r') = ss_Reconnects (r_state r)"
  using assms
  by (auto simp: resolve_remote_def writeState_def idle_def session_kept_def split: sum.splits if_splits)

text \<open>A later attempt keeps the transport the session started with.\<close>

definition same_labels :: "runner \<Rightarrow> runner \<Rightarrow> bool" where
  "same_labels r r' \<longleftrightarrow> ss_Transport (r_state r') = ss_Transport (r_state r)
     \<and> ss_Status (r_state r') = ss_Status (r_state r) \<and> ss_Reconnects (r_state r') = ss_Reconnects (r_state r)"

lemma openTransport_sticky:
  "openTransport e r1 = (res, r2) \<Longrightarrow> ss_Transport (r_state r1) \<noteq> [] \<Longrightarrow> same_labels r1 r2"
  by (auto simp: openTransport_cases open_lanes_def same_labels_def split: sum.splits if_splits)

lemma transport_sticky:
  assumes "transport show_addr sha e r = (x, r')" "ss_Transport (r_state r) \<noteq> []"
  shows "same_labels r r'"
proof -
  let ?r1 = "r\<lparr>r_open := MuxConn # SSHConn # r_open r\<rparr>"
  obtain res r2 where o: "openTransport e ?r1 = (res, r2)" by fastforce
  have l2: "same_labels r r2" using openTransport_sticky [OF o] assms(2) by (simp add: same_labels_def)
  obtain ok r3 where d: "(if r_device r2 then applyDNS e r2 else (True, r2)) = (ok, r3)" by fastforce
  have "r_state r3 = r_state r2" using d applyDNS_frame [of e r2 ok r3] by (cases "r_device r2") auto
  with l2 have l3: "same_labels r r3" by (simp add: same_labels_def)
  consider (early) "r_state r' = r_state r" | (fail) "r_state r' = r_state r2"
    | (dns) "r_state r' = r_state r3" | (lanes) names where "r_state r' = (r_state r3)\<lparr>ss_Lanes := names\<rparr>"
    using assms(1) o d
    by (auto simp: transport_def Let_def close_res_def closeTransport_def split: option.splits sum.splits prod.splits bool.splits)
  then show ?thesis using l2 l3 by cases (simp_all add: same_labels_def)
qed

lemma guardManifest_cong:
  "r_addr r' = r_addr r \<Longrightarrow> r_plan r' = r_plan r \<Longrightarrow> guardManifest show_addr sha e r' = guardManifest show_addr sha e r"
  by (simp add: guardManifest_def split: sum.splits)

text \<open>One attempt from an idle runner either brings the transport up completely or leaves it idle.\<close>

lemma attempt_law:
  assumes "attempt show_addr sha e r = (x, r')" "idle r" "\<not> r_dns r" "\<not> r_watches r" "ss_Transport (r_state r) \<noteq> []"
  shows "session_kept r r' \<and> same_labels r r' \<and> \<not> r_watches r' \<and> (case x of
      None \<Rightarrow> r_dialer r' \<noteq> None \<and> mset (r_open r') = mset (owned r') \<and> guardManifest show_addr sha e r' = None
    | Some (err, fatal) \<Rightarrow> idle r' \<and> \<not> r_dns r' \<and> (fatal = (err = RemoteChanged)))"
proof -
  obtain y r1 where y: "resolve_remote e r = (y, r1)" by fastforce
  note rr = resolve_remote_law [OF y assms(2)]
  have lab: "same_labels r r1" using rr by (simp add: same_labels_def)
  have re: "e' \<noteq> RemoteChanged" if "y = Some e'" for e'
    using y that by (auto simp: resolve_remote_def split: sum.splits if_splits)
  show ?thesis
  proof (cases y)
    case (Some err)
    then have "x = Some (err, False)" "r' = r1" using assms(1) y by (simp_all add: attempt_def)
    then show ?thesis using rr lab assms re [OF Some] by simp
  next
    case None
    obtain z r2 where z: "transport show_addr sha e r1 = (z, r2)" by fastforce
    have id: "r_ssh r1 = False" "r_mux r1 = False" using rr(1) by (simp_all add: idle_def)
    note tl = transport_law [OF z id]
    have lab2: "same_labels r r2" using transport_sticky [OF z] rr(6) assms(5) lab by (simp add: same_labels_def)
    have k: "session_kept r r2" "\<not> r_watches r2" using tl rr(2,4) assms(4) by (auto simp: kept_def session_kept_def)
    have r': "r' = r2" and x: "x = map_option (\<lambda>err. (err, err = RemoteChanged)) z"
      using assms(1) y None z by (auto simp: attempt_def split: option.splits)
    show ?thesis
    proof (cases z)
      case None
      have "guardManifest show_addr sha e r2 = None"
        using tl None guardManifest_cong [of r2 r1 show_addr sha e] by (simp add: kept_def)
      then show ?thesis using tl None k lab2 r' x rr(1) by (simp add: idle_def)
    next
      case (Some err)
      then have "idle r2" "\<not> r_dns r2" using tl rr(1,3) assms(3) by (auto simp: same_conns_def idle_def)
      then show ?thesis using Some k lab2 r' x by simp
    qed
  qed
qed

definition reconnected :: "(addr \<Rightarrow> string) \<Rightarrow> (bytes \<Rightarrow> string) \<Rightarrow> attempt_env list \<Rightarrow> runner \<Rightarrow> reconnect_result \<Rightarrow> runner \<Rightarrow> bool" where
  "reconnected show_addr sha es r res r' \<longleftrightarrow>
     session_kept r r' \<and> ss_Transport (r_state r') = ss_Transport (r_state r)
     \<and> (if res = ReUp
        then up_inv r' \<and> ss_Reconnects (r_state r') = Suc (ss_Reconnects (r_state r))
             \<and> (\<exists>e \<in> set es. guardManifest show_addr sha e r' = None)
        else down_inv r' \<and> ss_Reconnects (r_state r') = ss_Reconnects (r_state r))"

lemma set_reconnect_simps [simp]:
  "r_dialer (set_reconnect x r) = r_dialer r" "r_open (set_reconnect x r) = r_open r"
  "idle (set_reconnect x r) = idle r" "r_dns (set_reconnect x r) = r_dns r"
  "r_watches (set_reconnect x r) = r_watches r" "session_kept s (set_reconnect x r) = session_kept s r"
  "same_labels s (set_reconnect x r) = same_labels s r" "same_labels (set_reconnect x r) s = same_labels r s"
  "session_kept (set_reconnect x r) s = session_kept r s"
  "ss_Status (r_state (set_reconnect x r)) = ss_Status (r_state r)"
  "ss_Transport (r_state (set_reconnect x r)) = ss_Transport (r_state r)"
  "ss_Reconnects (r_state (set_reconnect x r)) = ss_Reconnects (r_state r)"
  by (simp_all add: set_reconnect_def writeState_def idle_def session_kept_def same_labels_def)

text \<open>One round of the loop, as a choice between its four ways on.\<close>

lemma reconnect_Cons:
  assumes "reconnect show_addr sha n (e # es) r = (res, es', r')"
    and "attempt show_addr sha e (set_reconnect (n, case ss_Reconnect (r_state r) of Some (_, x) \<Rightarrow> x | None \<Rightarrow> LossOf []) r) = (x, r2)"
  shows "(res = ReStop \<and> r' = r)
    \<or> (x = None \<and> res = ReUp \<and> r' = startWatches (markUp (r2\<lparr>r_state := (r_state r2)\<lparr>ss_Reconnects := Suc (ss_Reconnects (r_state r2))\<rparr>\<rparr>)))
    \<or> (\<exists>err fatal. x = Some (err, fatal) \<and>
         (res = ReStop \<and> r' = r2 \<or> fatal \<and> res = ReError err \<and> r' = set_reconnect (n, err) r2
          \<or> \<not> fatal \<and> reconnect show_addr sha (Suc n) es (set_reconnect (n, err) r2) = (res, es', r')))"
  using assms(1) unfolding reconnect.simps Let_def assms(2)
  by (cases x) (auto split: if_splits)

lemma came_up:
  assumes "session_kept r r2" "same_labels r r2" "r_dialer r2 \<noteq> None" "mset (r_open r2) = mset (owned r2)"
    and "guardManifest show_addr sha e r2 = None" "e \<in> set es"
  shows "reconnected show_addr sha es r ReUp
    (startWatches (markUp (r2\<lparr>r_state := (r_state r2)\<lparr>ss_Reconnects := Suc (ss_Reconnects (r_state r2))\<rparr>\<rparr>)))" (is "reconnected _ _ _ _ _ ?r'")
proof -
  have "guardManifest show_addr sha e ?r' = guardManifest show_addr sha e r2"
    by (intro guardManifest_cong) (simp_all add: startWatches_def markUp_def writeState_def)
  then have "\<exists>e \<in> set es. guardManifest show_addr sha e ?r' = None" using assms(5,6) by auto
  moreover have "session_kept r ?r'" "ss_Transport (r_state ?r') = ss_Transport (r_state r)"
    "ss_Reconnects (r_state ?r') = Suc (ss_Reconnects (r_state r))"
    using assms(1,2) by (simp_all add: startWatches_def markUp_def writeState_def session_kept_def same_labels_def)
  moreover have "up_inv ?r'" using assms(3,4) by (simp add: up_inv_def startWatches_def markUp_def writeState_def owned_def)
  ultimately show ?thesis by (simp add: reconnected_def)
qed

lemma reconnect_law:
  assumes "down_inv r" "ss_Transport (r_state r) \<noteq> []" "reconnect show_addr sha n es r = (res, es', r')"
  shows "reconnected show_addr sha es r res r'"
  using assms
proof (induction es arbitrary: n r)
  case Nil
  then show ?case by (simp add: reconnected_def)
next
  case (Cons e es)
  let ?r1 = "set_reconnect (n, case ss_Reconnect (r_state r) of Some (_, x) \<Rightarrow> x | None \<Rightarrow> LossOf []) r"
  obtain x r2 where x: "attempt show_addr sha e ?r1 = (x, r2)" by fastforce
  have d1: "idle ?r1" "\<not> r_dns ?r1" "\<not> r_watches ?r1" "ss_Transport (r_state ?r1) \<noteq> []"
    using Cons.prems(1,2) by (simp_all add: down_inv_def)
  note al = attempt_law [OF x d1]
  have lab: "same_labels r r2" "session_kept r r2" using al by auto
  have down: "down_inv (set_reconnect y r2)" "down_inv r2" if "x = Some (err, fatal)" for y err fatal
    using al that lab Cons.prems(1) by (simp_all add: down_inv_def same_labels_def)
  from reconnect_Cons [OF Cons.prems(3) x]
  consider (halt) "res = ReStop" "r' = r"
    | (up) "x = None" "res = ReUp" "r' = startWatches (markUp (r2\<lparr>r_state := (r_state r2)\<lparr>ss_Reconnects := Suc (ss_Reconnects (r_state r2))\<rparr>\<rparr>))"
    | (stop) err fatal where "x = Some (err, fatal)" "res = ReStop" "r' = r2"
    | (fatal) err fatal where "x = Some (err, fatal)" "res = ReError err" "r' = set_reconnect (n, err) r2"
    | (again) err fatal where "x = Some (err, fatal)" "reconnect show_addr sha (Suc n) es (set_reconnect (n, err) r2) = (res, es', r')"
    by blast
  then show ?case
  proof cases
    case halt
    then show ?thesis using Cons.prems(1) by (simp add: reconnected_def)
  next
    case up
    have "reconnected show_addr sha (e # es) r ReUp r'"
      unfolding up(3) using lab al up(1) by (intro came_up) auto
    then show ?thesis by (simp add: up(2))
  next
    case stop
    then show ?thesis using down(2) [OF stop(1)] lab by (simp add: reconnected_def same_labels_def)
  next
    case fatal
    then show ?thesis using down(1) [OF fatal(1)] lab by (simp add: reconnected_def same_labels_def)
  next
    case again
    have tr: "ss_Transport (r_state (set_reconnect (n, err) r2)) \<noteq> []" using lab Cons.prems(2) by (simp add: same_labels_def)
    have ih: "reconnected show_addr sha es (set_reconnect (n, err) r2) res r'"
      by (rule Cons.IH [OF down(1) [OF again(1)] tr again(2)])
    then have "session_kept r2 r'" by (simp add: reconnected_def)
    then have "session_kept r r'" using lab(2) session_kept_trans by blast
    then show ?thesis using ih lab(1) by (simp add: reconnected_def same_labels_def split: if_splits)
  qed
qed

lemma session_loop_law:
  assumes "up_inv r" "ss_Transport (r_state r) \<noteq> []" "session_loop show_addr sha evs es r = (res, r')"
  shows "session_kept r r' \<and> ss_Transport (r_state r') = ss_Transport (r_state r) \<and> (up_inv r' \<or> down_inv r')"
  using assms
proof (induction evs arbitrary: es r)
  case (Cons ev evs)
  consider (sample) "ev = EvSample" | (quit) "ev \<noteq> EvSample" "ev = EvSignal \<or> plan_ReconnectFor (r_plan r) \<le> 0"
    | (lose) "ev \<noteq> EvSample" "ev \<noteq> EvSignal" "\<not> plan_ReconnectFor (r_plan r) \<le> 0" by blast
  then show ?case
  proof cases
    case sample
    have "up_inv (writeState r)" "session_kept r (writeState r)" "r_state (writeState r) = r_state r"
      using Cons.prems(1) by (simp_all add: up_inv_def writeState_def session_kept_def owned_def)
    moreover have "session_loop show_addr sha evs es (writeState r) = (res, r')" using Cons.prems(3) sample by simp
    ultimately show ?thesis using Cons.IH [of "writeState r" es] Cons.prems(2) session_kept_trans by metis
  next
    case quit
    then have "r' = r" using Cons.prems(3) by (auto split: if_splits)
    then show ?thesis using Cons.prems(1) by simp
  next
    case lose
    let ?l = "lost (loss_reason ev) r"
    have o: "mset (r_open r) = mset (owned r)" using Cons.prems(1) by (simp add: up_inv_def)
    note ll = lost_law [OF o, of "loss_reason ev"]
    obtain rr es' r1 where rec: "reconnect show_addr sha 1 es ?l = (rr, es', r1)" by (metis prod_cases3)
    have tr: "ss_Transport (r_state ?l) \<noteq> []" using ll(4) Cons.prems(2) by simp
    note rl = reconnect_law [OF ll(1) tr rec, unfolded reconnected_def]
    have k: "session_kept r r1" using rl ll(2) session_kept_trans by blast
    have t1: "ss_Transport (r_state r1) = ss_Transport (r_state r)" using rl ll(4) by simp
    show ?thesis
    proof (cases "rr = ReUp")
      case True
      then have "session_loop show_addr sha evs es' r1 = (res, r')" using Cons.prems(3) lose rec by simp
      moreover have "up_inv r1" using rl True by simp
      ultimately show ?thesis using Cons.IH [of r1 es'] t1 Cons.prems(2) k session_kept_trans by metis
    next
      case False
      then have "r' = r1" using Cons.prems(3) lose rec by (cases rr) auto
      moreover have "down_inv r1" using rl False by simp
      ultimately show ?thesis using k t1 by simp
    qed
  qed
qed simp

lemma settled_owned: "up_inv r \<or> down_inv r \<Longrightarrow> mset (r_open r) = mset (owned r)"
  by (auto simp: up_inv_def down_inv_def idle_def owned_def transport_res_def)


section \<open>Every exit reverts the host\<close>

definition clean :: "runner \<Rightarrow> bool" where
  "clean r \<longleftrightarrow> r_open r = [] \<and> \<not> r_device r \<and> r_routes r = [] \<and> \<not> r_dns r \<and> \<not> r_dp r \<and> \<not> r_watches r \<and> r_file r = None"

lemma dropTransport_open: "mset (r_open r) \<subseteq># mset (owned r) \<Longrightarrow> r_open (dropTransport r) = []"
proof -
  assume a: "mset (r_open r) \<subseteq># mset (owned r)"
  have "mset (r_open (dropTransport r)) = mset (r_open r) - mset (owned r)"
    by (simp add: dropTransport_def closeTransport_def close_res_def mset_fold_remove1 owned_def)
  also have "\<dots> = {#}" using a by (simp add: Diff_eq_empty_iff_mset)
  finally show ?thesis by simp
qed

lemma dropTransport_simps [simp]:
  "r_device (dropTransport r) = r_device r" "r_routes (dropTransport r) = r_routes r"
  "r_dns (dropTransport r) = r_dns r" "r_dp (dropTransport r) = r_dp r" "r_watches (dropTransport r) = r_watches r"
  by (simp_all add: dropTransport_def closeTransport_def close_res_def)

lemma stopSession_clean:
  assumes "mset (r_open r) = mset (owned r)"
  shows "clean (remove_file (dropTransport (stopSession r)))"
proof -
  let ?s = "stopSession r"
  have "mset (r_open ?s) \<subseteq># mset (r_open r)"
    by (simp add: stopSession_def Let_def teardownDevice_def close_res_def removeRoutes_def revertDNS_def writeState_def
        mset_fold_remove1 del: mset_append)
  moreover have "owned ?s = owned r"
    by (simp add: stopSession_def Let_def teardownDevice_def close_res_def removeRoutes_def revertDNS_def writeState_def owned_def)
  ultimately have "r_open (dropTransport ?s) = []" using assms by (intro dropTransport_open) simp
  then show ?thesis
    by (simp add: clean_def remove_file_def)
       (simp add: stopSession_def Let_def teardownDevice_def close_res_def removeRoutes_def revertDNS_def writeState_def)
qed

lemma setup_law:
  assumes "runner_setup se r = (x, r')" "\<not> r_device r" "r_routes r = []" "\<not> r_dns r" "\<not> r_dp r"
  shows "r_open r' = r_open r \<and> owned r' = owned r \<and> r_dialer r' = r_dialer r \<and> r_state r' = r_state r
    \<and> r_watches r' = r_watches r \<and> r_plan r' = r_plan r
    \<and> (x \<noteq> None \<longrightarrow> \<not> r_device r' \<and> r_routes r' = [] \<and> \<not> r_dns r' \<and> \<not> r_dp r')"
proof -
  have d: "(\<exists>dn. r2 = r1\<lparr>r_dns := dn\<rparr>) \<and> (\<not> ok \<longrightarrow> r2 = r1)" if "applyDNS e r1 = (ok, r2)" for e r1 ok r2
    using applyDNS_frame [OF that] .
  show ?thesis using assms
    by (auto simp: runner_setup_def Let_def teardownDevice_def removeRoutes_def revertDNS_def owned_def
        dest!: d split: if_splits sum.splits prod.splits bool.splits)
qed

lemma new_runner: "\<not> r_device r0" "r_routes r0 = []" "\<not> r_dns r0" "\<not> r_dp r0" "\<not> r_watches r0" "r_open r0 = []"
    "r_ssh r0 = False" "r_mux r0 = False"
  if "r0 = writeState (newRunner p a ps)"
  using that by (simp_all add: writeState_def newRunner_def)

lemma transport_selects:
  assumes "transport show_addr sha e r = (None, r')"
  shows "ss_Transport (r_state r') \<noteq> []"
proof (cases "ss_Transport (r_state r) = []")
  case False
  with transport_sticky [OF assms] show ?thesis by (simp add: same_labels_def)
next
  case True
  let ?r1 = "r\<lparr>r_open := MuxConn # SSHConn # r_open r\<rparr>"
  obtain res r2 where o: "openTransport e ?r1 = (res, r2)" by fastforce
  obtain ok r3 where d: "(if r_device r2 then applyDNS e r2 else (True, r2)) = (ok, r3)" by fastforce
  have st: "r_state r3 = r_state r2" using d applyDNS_frame [of e r2 ok r3] by (cases "r_device r2") auto
  have "\<exists>y. res = Inr y \<and> (r_state r' = r_state r3 \<or> (\<exists>names. r_state r' = (r_state r3)\<lparr>ss_Lanes := names\<rparr>))"
    using assms o d by (auto simp: transport_def Let_def split: option.splits sum.splits prod.splits bool.splits)
  then obtain y where y: "res = Inr y" and s: "ss_Transport (r_state r') = ss_Transport (r_state r2)" using st by auto
  have "ss_Transport (r_state r2) \<noteq> []"
    using o True y
    by (auto simp: openTransport_cases open_lanes_def selectTransport_def Let_def
        split: sum.splits option.splits if_splits quic_outcome.splits prod.splits)
  then show ?thesis by (simp add: s)
qed

text \<open>The first connect does not touch DNS: there is no device yet.\<close>

lemma first_dns:
  assumes "transport show_addr sha e r = (x, r')" "x = None" "\<not> r_device r" "\<not> r_dns r"
  shows "\<not> r_dns r'"
proof -
  let ?r1 = "r\<lparr>r_open := MuxConn # SSHConn # r_open r\<rparr>"
  obtain res r2 where o: "openTransport e ?r1 = (res, r2)" by fastforce
  have "r_device r2 = r_device r" "r_dns r2 = r_dns r"
    using openTransport_opened [OF o] by (auto simp: opened_def split: sum.splits prod.splits)
  then show ?thesis using assms o
    by (auto simp: transport_def Let_def split: option.splits sum.splits prod.splits)
qed

lemma Run_clean:
  assumes "Run show_addr sha p a ps e0 se evs es = (res, r)" "res \<noteq> LoopRunning"
  shows "clean r"
proof -
  define r0 where "r0 = writeState (newRunner p a ps)"
  note n = new_runner [OF r0_def]
  obtain x r1 where x: "transport show_addr sha e0 r0 = (x, r1)" by fastforce
  note tl = transport_law [OF x n(7,8)]
  have k: "\<not> r_device r1" "r_routes r1 = []" "\<not> r_dp r1" "\<not> r_watches r1" using tl n by (auto simp: kept_def)
  show ?thesis
  proof (cases x)
    case (Some err)
    then have "r = remove_file r1" using assms(1) x by (auto simp: Run_def r0_def [symmetric])
    then show ?thesis using Some tl k n by (auto simp: clean_def remove_file_def same_conns_def)
  next
    case None
    have o1: "mset (r_open r1) = mset (owned r1)" and di: "r_dialer r1 \<noteq> None" using tl None n by auto
    have dns1: "\<not> r_dns r1" by (rule first_dns [OF x None n(1,3)])
    obtain y r2 where y: "runner_setup se r1 = (y, r2)" by fastforce
    note sl = setup_law [OF y k(1,2) dns1 k(3)]
    show ?thesis
    proof (cases y)
      case (Some err)
      then have "r = remove_file (dropTransport r2)" using assms(1) x None y by (auto simp: Run_def r0_def [symmetric])
      moreover have "r_open (dropTransport r2) = []" using sl o1 by (intro dropTransport_open) simp
      ultimately show ?thesis using sl Some k by (simp add: clean_def remove_file_def)
    next
      case none2: None
      let ?u = "startWatches (markUp r2)"
      have "up_inv ?u" using sl o1 di by (simp add: up_inv_def startWatches_def markUp_def writeState_def owned_def)
      moreover have "ss_Transport (r_state ?u) \<noteq> []"
        using transport_selects [of show_addr sha e0 r0 r1] x None sl by (simp add: startWatches_def markUp_def writeState_def)
      moreover obtain lr r3 where l: "session_loop show_addr sha evs es ?u = (lr, r3)" by fastforce
      ultimately have "up_inv r3 \<or> down_inv r3" using session_loop_law by blast
      from stopSession_clean [OF settled_owned [OF this]]
      show ?thesis using assms x None y none2 l
        by (cases lr) (auto simp: Run_def r0_def [symmetric])
    qed
  qed
qed

end
