(* ===== verification/Session_Props.thy ===== *)
theory Session_Props
  imports Session_Runs
begin

text \<open>The properties of the session, stated over whole runs, losses and dials.\<close>


definition example_plan :: plan where
  "example_plan = \<lparr>plan_Remote = ''gw'', plan_Ref = ''gw'', plan_Addr = ''100.64.0.1'', plan_User = ''u'',
     plan_Networks = [], plan_DNS = \<lparr>dns_Mode = ''none'', dns_Servers = [], dns_Domains = []\<rparr>,
     plan_HelperArch = [], plan_ManifestSHA256 = [], plan_Transport = ''ssh'', plan_QUICPorts = [], plan_BandwidthUp = 0,
     plan_BandwidthDown = 0, plan_Controller = [], plan_Protocols = [], plan_SingleLane = False, plan_Verbose = False, plan_ReconnectFor = 600\<rparr>"

definition good_env :: attempt_env where
  "good_env = \<lparr>ae_sleep = True, ae_before_deadline = True, ae_ctx_done = False, ae_status = Inl ''down'',
     ae_dial = None, ae_manifest = Inl [], ae_helper = None, ae_quic = QUp 7443, ae_lane = (\<lambda>_. True), ae_dns = True\<rparr>"



definition example_runner :: runner where
  "example_runner = (newRunner example_plan (V4 0x64400001) proto_All)
     \<lparr>r_state := (r_state (newRunner example_plan (V4 0x64400001) proto_All))\<lparr>ss_Status := ''up'', ss_Transport := ''ssh''\<rparr>,
      r_file := Some ((r_state (newRunner example_plan (V4 0x64400001) proto_All))\<lparr>ss_Status := ''up'', ss_Transport := ''ssh''\<rparr>),
      r_dialer := Some DialerLanes, r_device := True, r_ssh := True, r_mux := True, r_lanes := Some [], r_open := [SSHConn, MuxConn]\<rparr>"

lemma example_up: "up_inv example_runner" "ss_Transport (r_state example_runner) \<noteq> []"
  by (simp_all add: example_runner_def up_inv_def newRunner_def owned_def transport_res_def)



definition moved_env :: attempt_env where
  "moved_env = good_env\<lparr>ae_status := Inr \<lparr>Self = \<lparr>HostName = ''c'', Tags = [], Online = True, TailscaleIPs = [],
       Active = True, CurAddr = [], Relay = [], LastHandshake = 0\<rparr>,
     Peers = [\<lparr>HostName = ''gw'', Tags = [], Online = True, TailscaleIPs = [V4 0x64400002],
       Active = True, CurAddr = [], Relay = [], LastHandshake = 0\<rparr>]\<rparr>, ae_manifest := Inr [112, 10, 1]\<rparr>"

lemma moved_resolves:
  assumes "plan_Ref (r_plan r) = ''gw''"
  shows "resolve_remote moved_env r = (if r_addr r = V4 0x64400002 then (None, r)
     else (None, writeState (r\<lparr>r_addr := V4 0x64400002, r_hostname := ''gw'',
        r_state := (r_state r)\<lparr>ss_Addr := V4 0x64400002, ss_Remote := ''gw''\<rparr>\<rparr>)))"
  using assms
  by (auto simp: resolve_remote_def moved_env_def resolveAddr_def Resolve_def IsTagRef_def HasPrefix_def resolveHostname_def
      host_match_of_def List.map_filter_simps pick_best_def peer_IPv4_def)

lemma moved_transport_up:
  assumes "r_plan r = example_plan" "r_protos r = proto_All" "ss_Transport (r_state r) = ''ssh''"
  shows "fst (transport (\<lambda>_. ''moved'') (\<lambda>_. []) moved_env r) = None"
proof -
  have p: "dns_Mode (plan_DNS example_plan) = ''none''" "plan_ManifestSHA256 example_plan = []" by (simp_all add: example_plan_def)
  have e: "ae_dial moved_env = None" "ae_helper moved_env = None" "ae_manifest moved_env = Inr [112, 10, 1]"
    by (simp_all add: moved_env_def good_env_def)
  have g: "guardManifest (\<lambda>_. ''moved'') (\<lambda>_. []) moved_env q = None" if "r_plan q = example_plan" for q
    using that p e by (simp add: guardManifest_def FetchManifest_def manifestMatches_def Let_def)
  obtain ls where "openLaneSet MuxConn example_plan proto_All (lane_clients moved_env) = Inr ls"
    by (simp add: openLaneSet_def p lanePlan_def proto_All_def Let_def)
  then show ?thesis
    using assms g e by (simp add: transport_def Let_def openTransport_cases open_lanes_def applyDNS_def p)
qed

lemma moved_attempt_up:
  "fst (reconnect (\<lambda>_. ''moved'') (\<lambda>_. []) 1 [moved_env] (lost ''mux closed'' example_runner)) = ReUp"
proof -
  let ?r = "set_reconnect (1, LossOf ''mux closed'') (lost ''mux closed'' example_runner)"
  have o: "mset (r_open example_runner) = mset (owned example_runner)" using example_up by (simp add: up_inv_def)
  note l = lost_law [OF o, of "''mux closed''"]
  have k: "r_plan ?r = example_plan" "r_protos ?r = proto_All" "ss_Transport (r_state ?r) = ''ssh''"
    using l(2,4) by (simp_all add: session_kept_def set_reconnect_def writeState_def example_runner_def newRunner_def)
  have ref: "plan_Ref (r_plan ?r) = ''gw''" using k by (simp add: example_plan_def)
  obtain r1 where r1: "resolve_remote moved_env ?r = (None, r1)" "r_plan r1 = example_plan" "r_protos r1 = proto_All"
    "ss_Transport (r_state r1) = ''ssh''"
    using moved_resolves [OF ref] k by (cases "r_addr ?r = V4 0x64400002") (auto simp: writeState_def)
  have "fst (attempt (\<lambda>_. ''moved'') (\<lambda>_. []) moved_env ?r) = None"
    using moved_transport_up [OF r1(2-4)] r1(1) by (auto simp: attempt_def split: prod.splits)
  then show ?thesis using l(3) by (auto simp: moved_env_def good_env_def Let_def split: prod.splits)
qed



section \<open>Backoff and the resume detector\<close>

lemma backoff_loop_closed:
  assumes "0 < d" "d < backoffCap"
  shows "backoff_loop n d = min (d * 2 ^ n) backoffCap"
  using assms
proof (induction n arbitrary: d)
  case (Suc n)
  have i: "i64 (d * 2) = d * 2" using Suc.prems by (intro i64_id) (simp add: backoffCap_def)
  show ?case
  proof (cases "d * 2 \<ge> backoffCap")
    case True
    have "d * 2 * 1 \<le> d * 2 * 2 ^ n" using Suc.prems by (intro mult_left_mono) auto
    with True i show ?thesis by (simp add: Let_def min_def mult.assoc)
  next
    case False
    with Suc.IH [of "d * 2"] Suc.prems i show ?thesis by (simp add: Let_def mult.assoc)
  qed
qed (simp add: backoffCap_def)

text \<open>
  The wait after attempt \<open>n + 1\<close> is one second doubled \<open>n\<close> times and capped at ten
  seconds, for every attempt number; the doubling never overflows.
\<close>

theorem backoff_doubles_to_cap: "backoffAfter (int n + 1) = min (1000000000 * 2 ^ n) 10000000000"
  using backoff_loop_closed [of backoffFirst n] by (simp add: backoffAfter_def backoffFirst_def backoffCap_def)

text \<open>Tick \<open>i\<close> comes after a gap in the wall clock and its probe fails.\<close>

definition suspended :: "int \<Rightarrow> (int \<times> string option) list \<Rightarrow> nat \<Rightarrow> bool" where
  "suspended t0 ticks i \<longleftrightarrow>
     fst (ticks ! i) - (if i = 0 then t0 else fst (ticks ! (i - 1))) > resumeGap \<and> snd (ticks ! i) \<noteq> None"

lemma suspended_Cons:
  "(\<exists>i < length (x # ticks). suspended t0 (x # ticks) i) \<longleftrightarrow>
     fst x - t0 > resumeGap \<and> snd x \<noteq> None \<or> (\<exists>i < length ticks. suspended (fst x) ticks i)"
proof -
  have "suspended t0 (x # ticks) (Suc i) \<longleftrightarrow> suspended (fst x) ticks i" for i
    by (cases i) (simp_all add: suspended_def)
  moreover have "suspended t0 (x # ticks) 0 \<longleftrightarrow> fst x - t0 > resumeGap \<and> snd x \<noteq> None" by (simp add: suspended_def)
  ultimately show ?thesis by (simp only: length_Cons Ex_less_Suc2)
qed

lemma resume_run_iff: "resume_run t0 ticks \<noteq> None \<longleftrightarrow> (\<exists>i < length ticks. suspended t0 ticks i)"
proof (induction t0 ticks rule: resume_run.induct)
  case (2 t0 now probe ticks)
  show ?case
  proof (cases "now - t0 \<le> resumeGap")
    case True
    with 2(1) [OF True] show ?thesis unfolding suspended_Cons by simp
  next
    case False
    with 2(2) [OF False] show ?thesis unfolding suspended_Cons by (cases probe) simp_all
  qed
qed simp

text \<open>
  The resume detector reports a loss exactly when a tick comes more than five seconds of
  wall clock after the tick before it and the probe of that tick fails; a slow tick whose probe
  answers, or a failed probe without a gap, is no loss.
\<close>

theorem resume_detects_suspend:
  "resume_run t0 ticks \<noteq> None \<longleftrightarrow> (\<exists>i < length ticks. suspended t0 ticks i)"
  by (rule resume_run_iff)


section \<open>Lanes\<close>

text \<open>
  The client of the lane with a name: the primary for the first planned lane, the client of
  a further planned lane that opened, and none for the others.
\<close>

definition lane_client :: "'d \<Rightarrow> plan \<Rightarrow> proto_set \<Rightarrow> (string \<Rightarrow> 'd option) \<Rightarrow> string \<Rightarrow> 'd option" where
  "lane_client primary p ps opens name =
     (case lanePlan p ps of
        [] \<Rightarrow> None
      | first # rest \<Rightarrow> if name = first then Some primary
                        else if name \<in> set rest \<and> \<not> plan_SingleLane p then opens name else None)"

definition lane_of :: "'d lane_dialer \<Rightarrow> string \<Rightarrow> 'd option" where
  "lane_of d name =
     (if name = ''tcp'' then ld_tcp d else if name = ''udp'' then ld_udp d
      else if name = ''icmp'' then ld_icmp d else if name = laneDNS then ld_dns d else None)"

lemma lane_of_set:
  "n \<in> {''tcp'', ''udp'', ''icmp'', laneDNS} \<Longrightarrow> lane_of (ld_set n c d) m = (if m = n then Some c else lane_of d m)"
  by (auto simp: lane_of_def ld_set_def laneDNS_def)

lemma ld_set_other [simp]: "ld_primary (ld_set n c d) = ld_primary d" "ld_servers (ld_set n c d) = ld_servers d"
  by (simp_all add: ld_set_def)

lemma lane_of_fold:
  assumes "distinct (map fst extra)" "set (map fst extra) \<subseteq> {''tcp'', ''udp'', ''icmp'', laneDNS}"
  shows "lane_of (fold (\<lambda>(n, c). ld_set n c) extra d) m = (case map_of extra m of Some c \<Rightarrow> Some c | None \<Rightarrow> lane_of d m)"
    "ld_primary (fold (\<lambda>(n, c). ld_set n c) extra d) = ld_primary d"
    "ld_servers (fold (\<lambda>(n, c). ld_set n c) extra d) = ld_servers d"
proof -
  show "lane_of (fold (\<lambda>(n, c). ld_set n c) extra d) m = (case map_of extra m of Some c \<Rightarrow> Some c | None \<Rightarrow> lane_of d m)"
    using assms
  proof (induction extra arbitrary: d)
    case (Cons x extra)
    obtain n c where x: "x = (n, c)" by (cases x)
    have "map_of extra n = None" using Cons.prems(1) x by (simp add: map_of_eq_None_iff)
    then show ?case using Cons x lane_of_set [of n c d m] by (auto split: option.splits)
  qed simp
  show "ld_primary (fold (\<lambda>(n, c). ld_set n c) extra d) = ld_primary d"
    by (induction extra arbitrary: d) (auto split: prod.splits)
  show "ld_servers (fold (\<lambda>(n, c). ld_set n c) extra d) = ld_servers d"
    by (induction extra arbitrary: d) (auto split: prod.splits)
qed

lemma map_of_openLanes: "map_of (openLanes opens names) m = (if m \<in> set names then opens m else None)"
  by (induction names) (auto simp: openLanes_def List.map_filter_simps split: option.splits)

lemma openLanes_names: "set (map fst (openLanes opens names)) \<subseteq> set names" "distinct names \<Longrightarrow> distinct (map fst (openLanes opens names))"
proof -
  show s: "set (map fst (openLanes opens names)) \<subseteq> set names" for names
    by (induction names) (auto simp: openLanes_def List.map_filter_simps split: option.splits)
  show "distinct names \<Longrightarrow> distinct (map fst (openLanes opens names))"
  proof (induction names)
    case (Cons n names)
    with s [of names] show ?case by (auto simp: openLanes_def List.map_filter_simps split: option.splits)
  qed (simp add: openLanes_def List.map_filter_simps)
qed

lemma lanePlan_names: "distinct (lanePlan p ps)" "set (lanePlan p ps) \<subseteq> {''tcp'', ''udp'', ''icmp'', laneDNS}"
  by (auto simp: lanePlan_def laneDNS_def)

lemma openLaneSet_lanes:
  assumes "openLaneSet primary p ps opens = Inr ls"
  shows "lane_of (ls_dialer ls) m = lane_client primary p ps opens m" "ld_primary (ls_dialer ls) = primary"
    "lanePlan p ps \<noteq> [] \<Longrightarrow> dns_Mode (plan_DNS p) \<noteq> ''none'' \<Longrightarrow> ParseAddrs (dns_Servers (plan_DNS p)) = Inr (ld_servers (ls_dialer ls))"
proof -
  let ?d0 = "\<lparr>ld_primary = primary, ld_tcp = None, ld_udp = None, ld_icmp = None, ld_dns = None, ld_servers = []\<rparr>"
  have e: "lane_of (d0\<lparr>ld_servers := x\<rparr>) m = None" if "d0 = ?d0" for d0 x m using that by (simp add: lane_of_def)
  have "lane_of (ls_dialer ls) m = lane_client primary p ps opens m \<and> ld_primary (ls_dialer ls) = primary
    \<and> (lanePlan p ps \<noteq> [] \<longrightarrow> dns_Mode (plan_DNS p) \<noteq> ''none'' \<longrightarrow> ParseAddrs (dns_Servers (plan_DNS p)) = Inr (ld_servers (ls_dialer ls)))"
  proof (cases "lanePlan p ps")
    case Nil
    then show ?thesis using assms by (auto simp: openLaneSet_def lane_client_def lane_of_def)
  next
    case (Cons first rest)
    obtain servers where sv: "(if dns_Mode (plan_DNS p) \<noteq> ''none'' then ParseAddrs (dns_Servers (plan_DNS p)) else Inr []) = Inr servers"
      using assms Cons by (auto simp: openLaneSet_def Let_def split: sum.splits)
    let ?extra = "if plan_SingleLane p then [] else openLanes opens rest"
    let ?d1 = "ld_set first primary (?d0\<lparr>ld_servers := servers\<rparr>)"
    have ls: "ls_dialer ls = fold (\<lambda>(n, c). ld_set n c) ?extra ?d1"
      using assms Cons sv by (auto simp: openLaneSet_def Let_def)
    have r: "distinct (first # rest)" "set (first # rest) \<subseteq> {''tcp'', ''udp'', ''icmp'', laneDNS}"
      using lanePlan_names [of p ps] Cons by auto
    have ex: "distinct (map fst ?extra)" "set (map fst ?extra) \<subseteq> {''tcp'', ''udp'', ''icmp'', laneDNS}"
      using openLanes_names [where names = rest and opens = opens] r by auto
    note f = lane_of_fold [OF ex, of ?d1]
    have "lane_of ?d1 m = (if m = first then Some primary else None)"
      using lane_of_set [of first primary "?d0\<lparr>ld_servers := servers\<rparr>" m] r(2) e [OF refl, of servers m] by simp
    then have "lane_of (ls_dialer ls) m = lane_client primary p ps opens m"
      using f(1) [of m] r(1) Cons by (auto simp: ls lane_client_def map_of_openLanes split: option.splits)
    moreover have "ld_primary (ls_dialer ls) = primary" "ld_servers (ls_dialer ls) = servers" using f(2,3) by (simp_all add: ls)
    ultimately show ?thesis using sv by (auto split: if_splits)
  qed
  then show "lane_of (ls_dialer ls) m = lane_client primary p ps opens m" "ld_primary (ls_dialer ls) = primary"
    "lanePlan p ps \<noteq> [] \<Longrightarrow> dns_Mode (plan_DNS p) \<noteq> ''none'' \<Longrightarrow> ParseAddrs (dns_Servers (plan_DNS p)) = Inr (ld_servers (ls_dialer ls))"
    by blast+
qed



end
