(* ===== verification/Netip_Text.thy ===== *)
theory Netip_Text
  imports Netip
begin

text \<open>
  \<open>Addr.String\<close> and \<open>Prefix.String\<close> of \<open>net/netip\<close>, with the proof that the parsers of the package
  give every address and prefix back. The plan of a session carries its networks as text
  between two processes, so what the runner routes rests on it.
\<close>

section \<open>Printing\<close>

fun show_hex :: "nat \<Rightarrow> string" where
  "show_hex n = (let d = (''0123456789abcdef'' ! (n mod 16)) in
     if n < 16 then [d] else show_hex (n div 16) @ [d])"

declare show_hex.simps [simp del]

text \<open>The eight 16-bit groups of an address.\<close>

definition v6_words :: "128 word \<Rightarrow> nat list" where
  "v6_words w = (let bs = be_put 16 (unat w) in map (\<lambda>i. be_get (take 2 (drop (2 * i) bs))) [0..<8])"

text \<open>The longest run of two or more zero groups, the first of equals, is \<open>::\<close>.\<close>

definition zero_len :: "nat list \<Rightarrow> nat \<Rightarrow> nat" where
  "zero_len gs i = length (takeWhile (\<lambda>g. g = 0) (drop i gs))"

definition zero_run :: "nat list \<Rightarrow> nat \<times> nat" where
  "zero_run gs = foldl (\<lambda>(s, e) i. let l = zero_len gs i in
     if 2 \<le> l \<and> e - s < l then (i, i + l) else (s, e)) (255, 255) [0..<length gs]"

definition show_v6 :: "128 word \<Rightarrow> string" where
  "show_v6 w =
     (let gs = v6_words w; (s, e) = zero_run gs in
      if s = 255 then Join (map show_hex gs) '':''
      else Join (map show_hex (take s gs)) '':'' @ ''::'' @ Join (map show_hex (drop e gs)) '':'')"

fun Addr_String :: "addr \<Rightarrow> string" where
  "Addr_String AddrZero = ''invalid IP''"
| "Addr_String (V4 w) = show_v4 w"
| "Addr_String (V6 w z) =
     (if Is4In6 (V6 w z)
      then (case Unmap (V6 w z) of V4 u \<Rightarrow> ''::ffff:'' @ show_v4 u | _ \<Rightarrow> [])
      else show_v6 w) @ (if z = [] then [] else CHR ''%'' # z)"

definition Prefix_String :: "prefix \<Rightarrow> string" where
  "Prefix_String p =
     (if PrefixIsValid p then Addr_String (pfx_addr p) @ ''/'' @ Itoa (pfx_bits p) else ''invalid Prefix'')"

section \<open>Groups\<close>

lemma hex_chars:
  assumes "d < 16"
  shows "hex_digit (''0123456789abcdef'' ! d) = Some d" "''0123456789abcdef'' ! d \<noteq> CHR '':''"
    "''0123456789abcdef'' ! d \<noteq> CHR ''.''" "''0123456789abcdef'' ! d \<noteq> CHR ''%''" "''0123456789abcdef'' ! d \<noteq> CHR ''/''"
proof -
  have "\<forall>d\<in>set [0..<16]. hex_digit (''0123456789abcdef'' ! d) = Some d" by code_simp
  then have "hex_digit (''0123456789abcdef'' ! d) = Some d" using assms by simp
  then show "hex_digit (''0123456789abcdef'' ! d) = Some d" "''0123456789abcdef'' ! d \<noteq> CHR '':''"
    "''0123456789abcdef'' ! d \<noteq> CHR ''.''" "''0123456789abcdef'' ! d \<noteq> CHR ''%''" "''0123456789abcdef'' ! d \<noteq> CHR ''/''"
    by (auto simp: hex_digit_def)
qed

lemma show_hex_nonempty [simp]: "show_hex n \<noteq> []"
  by (subst show_hex.simps) (simp add: Let_def)

lemma is_hex_char: "d < 16 \<Longrightarrow> is_hex (''0123456789abcdef'' ! d)"
  by (simp add: is_hex_def hex_chars)

lemma show_hex_hex: "list_all is_hex (show_hex n)"
proof (induction n rule: show_hex.induct)
  case (1 n)
  then show ?case by (subst show_hex.simps) (auto simp: Let_def is_hex_char)
qed

lemma hex_val_snoc: "hex_val (s @ [c]) = hex_val s * 16 + the (hex_digit c)"
  by (simp add: hex_val_def)

lemma hex_val_show [simp]: "hex_val (show_hex n) = n"
proof (induction n rule: show_hex.induct)
  case (1 n)
  then show ?case
    by (subst show_hex.simps) (auto simp: Let_def hex_val_snoc hex_chars hex_val_def div_mult_mod_eq)
qed

lemma length_show_hex: "0 < k \<Longrightarrow> n < 16 ^ k \<Longrightarrow> length (show_hex n) \<le> k"
proof (induction k arbitrary: n)
  case (Suc k)
  show ?case
  proof (cases "n < 16")
    case True
    then show ?thesis by (subst show_hex.simps) (simp add: Let_def)
  next
    case False
    then have "0 < k" using Suc.prems(2) by (cases k) auto
    moreover have "n div 16 < 16 ^ k" using Suc.prems(2) by (simp add: less_mult_imp_div_less mult.commute)
    ultimately show ?thesis using Suc.IH [of "n div 16"] False by (subst show_hex.simps) (simp add: Let_def)
  qed
qed simp

lemma not_hex [simp]: "\<not> is_hex CHR '':''" "\<not> is_hex CHR ''.''" "\<not> is_hex CHR ''%''" "\<not> is_hex CHR ''/''"
  by (simp_all add: is_hex_def hex_digit_def)

lemma span_hex [simp]:
  "takeWhile is_hex (show_hex n) = show_hex n" "dropWhile is_hex (show_hex n) = []"
  "takeWhile is_hex (show_hex n @ CHR '':'' # r) = show_hex n" "dropWhile is_hex (show_hex n @ CHR '':'' # r) = CHR '':'' # r"
  using show_hex_hex [of n] by (simp_all add: list_all_iff)

definition groups_ok :: "nat list \<Rightarrow> bool" where
  "groups_ok gs \<longleftrightarrow> list_all (\<lambda>g. g < 65536) gs"

abbreviation join_hex :: "nat list \<Rightarrow> string" where "join_hex gs \<equiv> Join (map show_hex gs) '':''"

abbreviation group_bytes :: "nat list \<Rightarrow> bytes" where "group_bytes gs \<equiv> concat (map (be_put 2) gs)"

lemma length_group_bytes [simp]: "length (group_bytes gs) = 2 * length gs"
  by (induction gs) simp_all

lemma join_hex_Cons: "gs \<noteq> [] \<Longrightarrow> join_hex (g # gs) = show_hex g @ CHR '':'' # join_hex gs"
  by (cases gs) simp_all

lemma hd_show_hex: "is_hex (hd (show_hex n))"
  using show_hex_hex [of n] hd_in_set [OF show_hex_nonempty [of n]] by (simp add: list_all_iff)

lemma hd_join_hex: "gs \<noteq> [] \<Longrightarrow> join_hex gs \<noteq> [] \<and> is_hex (hd (join_hex gs))"
  by (cases gs; cases "tl gs") (auto simp: hd_show_hex)

lemma group_step:
  assumes "g < 65536" "length ip < 16"
  shows "v6_groups (show_hex g) ip ell = Some (ip @ be_put 2 g, ell, [])"
    and "r \<noteq> [] \<Longrightarrow> hd r \<noteq> CHR '':'' \<Longrightarrow>
      v6_groups (show_hex g @ CHR '':'' # r) ip ell = v6_groups r (ip @ be_put 2 g) ell"
    and "v6_groups (show_hex g @ CHR '':'' # CHR '':'' # r) ip None =
      (if r = [] then Some (ip @ be_put 2 g, Some (length ip + 2), [])
       else v6_groups r (ip @ be_put 2 g) (Some (length ip + 2)))"
proof -
  have len: "length (show_hex g) \<le> 4" using assms(1) by (intro length_show_hex) simp_all
  show "v6_groups (show_hex g) ip ell = Some (ip @ be_put 2 g, ell, [])"
    using assms(2) len by (subst v6_groups.simps) (simp add: Let_def)
  show "v6_groups (show_hex g @ CHR '':'' # r) ip ell = v6_groups r (ip @ be_put 2 g) ell" if "r \<noteq> []" "hd r \<noteq> CHR '':''"
    using assms(2) len that by (subst v6_groups.simps) (simp add: Let_def)
  show "v6_groups (show_hex g @ CHR '':'' # CHR '':'' # r) ip None =
      (if r = [] then Some (ip @ be_put 2 g, Some (length ip + 2), [])
       else v6_groups r (ip @ be_put 2 g) (Some (length ip + 2)))"
    using assms(2) len by (subst v6_groups.simps) (simp add: Let_def)
qed

lemma groups_parse:
  "gs \<noteq> [] \<Longrightarrow> groups_ok gs \<Longrightarrow> length ip + 2 * length gs \<le> 16 \<Longrightarrow>
     v6_groups (join_hex gs) ip ell = Some (ip @ group_bytes gs, ell, [])"
proof (induction gs arbitrary: ip)
  case (Cons g gs)
  show ?case
  proof (cases "gs = []")
    case True
    then show ?thesis using Cons.prems by (simp add: group_step groups_ok_def)
  next
    case False
    have "hd (join_hex gs) \<noteq> CHR '':''" using hd_join_hex [OF False] by auto
    then show ?thesis using Cons.prems hd_join_hex [OF False] False
      by (simp only: join_hex_Cons [OF False]) (simp add: group_step groups_ok_def Cons.IH)
  qed
qed simp

lemma groups_parse_ellipsis:
  "gs \<noteq> [] \<Longrightarrow> groups_ok gs \<Longrightarrow> length ip + 2 * length gs \<le> 14 \<Longrightarrow>
     v6_groups (join_hex gs @ CHR '':'' # CHR '':'' # r) ip None =
       (let ip' = ip @ group_bytes gs in
        if r = [] then Some (ip', Some (length ip'), []) else v6_groups r ip' (Some (length ip')))"
proof (induction gs arbitrary: ip)
  case (Cons g gs)
  show ?case
  proof (cases "gs = []")
    case True
    then show ?thesis using Cons.prems by (simp add: group_step groups_ok_def Let_def)
  next
    case False
    have "hd (join_hex gs @ t) \<noteq> CHR '':''" for t using hd_join_hex [OF False] by auto
    then show ?thesis using Cons.prems hd_join_hex [OF False] False
      by (simp only: join_hex_Cons [OF False] append.assoc append_Cons) (simp add: group_step groups_ok_def Cons.IH)
  qed
qed simp

section \<open>The run of zeros\<close>

definition run_ok :: "nat list \<Rightarrow> nat \<times> nat \<Rightarrow> bool" where
  "run_ok gs x = (case x of (s, e) \<Rightarrow> s = 255 \<and> e = 255
     \<or> s + 2 \<le> e \<and> e \<le> length gs \<and> (\<forall>i. s \<le> i \<longrightarrow> i < e \<longrightarrow> gs ! i = 0))"

lemma zero_len_zero: "j < zero_len gs i \<Longrightarrow> gs ! (i + j) = 0"
proof -
  assume j: "j < zero_len gs i"
  let ?t = "takeWhile (\<lambda>g. g = 0) (drop i gs)"
  have "?t ! j = drop i gs ! j" using j unfolding zero_len_def by (rule takeWhile_nth)
  moreover have "?t ! j \<in> set ?t" using j unfolding zero_len_def by (rule nth_mem)
  then have "?t ! j = 0" by (blast dest: set_takeWhileD)
  moreover have "i \<le> length gs" using j by (cases "i \<le> length gs") (auto simp: zero_len_def)
  ultimately show ?thesis by simp
qed

lemma zero_len_le: "i + zero_len gs i \<le> length gs \<or> zero_len gs i = 0"
proof (cases "i \<le> length gs")
  case True
  then show ?thesis using length_takeWhile_le [of "\<lambda>g. g = 0" "drop i gs"] unfolding zero_len_def length_drop by linarith
qed (simp add: zero_len_def)

lemma run_ok_step: "run_ok gs (i, i + zero_len gs i)" if "2 \<le> zero_len gs i"
proof -
  have "gs ! k = 0" if "i \<le> k" "k < i + zero_len gs i" for k
    using zero_len_zero [of "k - i" gs i] that by simp
  then show ?thesis using that zero_len_le [of i gs] by (auto simp: run_ok_def)
qed

lemma foldl_invariant: "P x \<Longrightarrow> (\<And>x i. P x \<Longrightarrow> P (f x i)) \<Longrightarrow> P (foldl f x is)"
  by (induction "is" arbitrary: x) auto

lemma zero_run_ok: "run_ok gs (zero_run gs)"
  unfolding zero_run_def
  by (rule foldl_invariant) (auto simp: run_ok_def [of gs "(255, 255)"] Let_def run_ok_step split: prod.splits)

lemma zero_run_split:
  assumes "zero_run gs = (s, e)" "s \<noteq> 255"
  shows "s + 2 \<le> e" "e \<le> length gs" "gs = take s gs @ replicate (e - s) 0 @ drop e gs"
proof -
  show se: "s + 2 \<le> e" "e \<le> length gs" using zero_run_ok [of gs] assms by (auto simp: run_ok_def)
  have z: "\<And>i. s \<le> i \<Longrightarrow> i < e \<Longrightarrow> gs ! i = 0" using zero_run_ok [of gs] assms by (auto simp: run_ok_def)
  have "take (e - s) (drop s gs) = replicate (e - s) 0"
    using se z by (intro nth_equalityI) auto
  then have "drop s gs = replicate (e - s) 0 @ drop e gs"
    using append_take_drop_id [of "e - s" "drop s gs"] se by simp
  then show "gs = take s gs @ replicate (e - s) 0 @ drop e gs" by (metis append_take_drop_id)
qed

lemma v6_words_facts:
  shows length_v6_words: "length (v6_words w) = 8" and v6_words_ok: "groups_ok (v6_words w)"
    and v6_words_bytes: "group_bytes (v6_words w) = be_put 16 (unat w)"
proof -
  obtain bs where bs: "be_put 16 (unat w) = bs" "length bs = 16" by simp
  have two: "be_put 2 (be_get (take 2 (drop (2 * i) bs))) = take 2 (drop (2 * i) bs)" if "i < 8" for i
    using be_put_get [of "take 2 (drop (2 * i) bs)"] that bs(2) by simp
  have lt: "be_get (take 2 (drop (2 * i) bs)) < 65536" if "i < 8" for i
    using be_get_less [of "take 2 (drop (2 * i) bs)"] that bs(2) by simp
  show "length (v6_words w) = 8" by (simp add: v6_words_def Let_def)
  show "groups_ok (v6_words w)" using lt by (simp add: groups_ok_def v6_words_def Let_def list_all_iff bs(1))
  have "map (be_put 2) (v6_words w) = map (\<lambda>i. take 2 (drop (2 * i) bs)) [0..<8]"
    using two by (simp add: v6_words_def Let_def bs(1))
  moreover have "concat (map (\<lambda>i. take 2 (drop (2 * i) bs)) [0..<8]) = bs"
    using bs(2) by (auto simp: upt_rec eval_nat_numeral length_Suc_conv)
  ultimately show "group_bytes (v6_words w) = be_put 16 (unat w)" by (simp add: bs(1))
qed

section \<open>Round trips\<close>

lemma AddrFrom16_words: "AddrFrom16 (group_bytes (v6_words w)) = V6 w []"
  by (simp add: v6_words_bytes)

lemma group_bytes_zero: "concat (replicate n (be_put 2 0)) = replicate (2 * n) 0"
proof (induction n)
  case (Suc n)
  have "be_put 2 0 = [0, 0]" by (simp add: numeral_2_eq_2)
  then show ?case using Suc by simp
qed simp

text \<open>What the parser needs of a text without zone, to give \<open>w\<close>.\<close>

definition reads_back :: "string \<Rightarrow> 128 word \<Rightarrow> bool" where
  "reads_back t w \<longleftrightarrow>
     (if HasPrefix t ''::'' \<and> drop 2 t = [] then w = 0
      else \<exists>ip ell.
        v6_groups (if HasPrefix t ''::'' then drop 2 t else t) [] (if HasPrefix t ''::'' then Some 0 else None) = Some (ip, ell, [])
        \<and> v6_expand ip ell [] = Some (be_put 16 (unat w)))"

lemma not_ellipsis: "xs \<noteq> [] \<Longrightarrow> \<not> HasPrefix (join_hex xs @ t) ''::''"
proof -
  assume "xs \<noteq> []"
  then have "join_hex xs \<noteq> []" "is_hex (hd (join_hex xs))" using hd_join_hex by simp_all
  then obtain c r where "join_hex xs = c # r" "is_hex c" by (cases "join_hex xs") auto
  then show ?thesis by (auto simp: HasPrefix_def)
qed

lemma reads_plain:
  assumes "length gs = 8" "groups_ok gs" "group_bytes gs = be_put 16 (unat w)"
  shows "reads_back (join_hex gs) w"
proof -
  have ne: "gs \<noteq> []" using assms(1) by auto
  show ?thesis using not_ellipsis [OF ne, of "[]"] groups_parse [OF ne assms(2), of "[]" None] assms
    by (simp add: reads_back_def v6_expand_def)
qed

lemma be_get_zeros: "be_get (replicate n 0) = 0"
  by (induction n) simp_all

lemma reads_lead:
  assumes "groups_ok b" "2 \<le> n" "n + length b = 8" "be_put 16 (unat w) = replicate (2 * n) 0 @ group_bytes b"
  shows "reads_back (''::'' @ join_hex b) w"
proof (cases "b = []")
  case True
  then have "unat w = 0" using assms(3,4) be_get_put_id [of "unat w" 16] be_get_zeros [of 16] unsigned_less [of w] by simp
  then show ?thesis using True by (simp add: reads_back_def HasPrefix_def unat_eq_0)
next
  case False
  have "HasPrefix (''::'' @ join_hex b) ''::''" "drop 2 (''::'' @ join_hex b) = join_hex b" by (simp_all add: HasPrefix_def)
  moreover have "v6_expand (group_bytes b) (Some 0) [] = Some (be_put 16 (unat w))"
    using assms(2,3) unfolding assms(4) by (auto simp: v6_expand_def intro: arg_cong2 [where f = append])
  ultimately show ?thesis
    using hd_join_hex [OF False] groups_parse [OF False assms(1), of "[]" "Some 0"] assms(3)
    by (simp add: reads_back_def)
qed

lemma reads_middle:
  assumes "groups_ok a" "groups_ok b" "a \<noteq> []" "2 \<le> n" "length a + n + length b = 8"
    and "be_put 16 (unat w) = group_bytes a @ replicate (2 * n) 0 @ group_bytes b"
  shows "reads_back (join_hex a @ ''::'' @ join_hex b) w"
proof -
  have "16 - (2 * length a + 2 * length b) = 2 * n" using assms(5) by simp
  then have "v6_expand (group_bytes a @ group_bytes b) (Some (2 * length a)) [] = Some (be_put 16 (unat w))"
    using assms(4,5) unfolding assms(6) by (simp add: v6_expand_def)
  moreover have "v6_groups (join_hex a @ ''::'' @ join_hex b) [] None = Some (group_bytes a @ group_bytes b, Some (2 * length a), [])"
    using groups_parse_ellipsis [OF assms(3,1), of "[]" "join_hex b"] hd_join_hex [of b] assms(4,5)
      groups_parse [OF _ assms(2), of "group_bytes a" "Some (2 * length a)"]
    by (cases "b = []") (simp_all add: Let_def)
  ultimately show ?thesis using not_ellipsis [OF assms(3), of "''::'' @ join_hex b"] by (simp add: reads_back_def)
qed

lemma reads_show: "reads_back (show_v6 w) w"
proof -
  define gs where "gs = v6_words w"
  have gs: "length gs = 8" "groups_ok gs" "group_bytes gs = be_put 16 (unat w)" by (simp_all add: gs_def v6_words_facts)
  obtain s e where se: "zero_run gs = (s, e)" by (cases "zero_run gs")
  show ?thesis
  proof (cases "s = 255")
    case True
    then show ?thesis using reads_plain [OF gs] by (simp add: show_v6_def se gs_def [symmetric] Let_def)
  next
    case False
    note z = zero_run_split [OF se False]
    let ?a = "take s gs" and ?b = "drop e gs"
    have sh: "show_v6 w = join_hex ?a @ ''::'' @ join_hex ?b" using False by (simp add: show_v6_def se gs_def [symmetric] Let_def)
    have oks: "groups_ok ?a" "groups_ok ?b" using gs(2) by (auto simp: groups_ok_def list_all_iff dest: in_set_takeD in_set_dropD)
    have "group_bytes gs = group_bytes ?a @ group_bytes (replicate (e - s) 0) @ group_bytes ?b" by (subst (1) z(3)) simp
    then have all: "be_put 16 (unat w) = group_bytes ?a @ replicate (2 * (e - s)) 0 @ group_bytes ?b"
      by (simp add: gs(3) group_bytes_zero)
    have n: "2 \<le> e - s" "length ?a + (e - s) + length ?b = 8" using z(1,2) gs(1) by simp_all
    show ?thesis
    proof (cases "s = 0")
      case True
      then show ?thesis using reads_lead [OF oks(2) n(1)] n(2) all sh by simp
    next
      case pos: False
      then have "?a \<noteq> []" using z(1,2) gs(1) by auto
      then show ?thesis using reads_middle [OF oks _ n all] sh by simp
    qed
  qed
qed

lemma be_get_append: "be_get (xs @ ys) = be_get xs * 256 ^ length ys + be_get ys"
  by (induction xs) (simp_all add: power_add algebra_simps)

lemma mapped_bytes:
  assumes "drop_bit 32 w = (0xffff :: 128 word)"
  shows "be_put 16 (unat w) = replicate 10 0 @ [0xff, 0xff] @ As4 (ucast w)"
proof -
  let ?u = "ucast w :: 32 word" and ?bs = "replicate 10 0 @ [0xff, 0xff] @ As4 (ucast w) :: bytes"
  have "unat (drop_bit 32 w) = 65535" unfolding assms by simp
  then have "drop_bit 32 (unat w) = 65535" by (simp only: unat_drop_bit_eq)
  then have d: "unat w div 2 ^ 32 = 65535" by (simp only: drop_bit_eq_div)
  have m: "unat ?u = unat w mod 2 ^ 32" by (simp only: unsigned_ucast_eq take_bit_eq_mod) simp
  have "unat ?u < 256 ^ 4" unfolding m by simp
  then have "be_get (As4 ?u) = unat ?u" unfolding As4_def by (rule be_get_put_id)
  then have "be_get ?bs = 65535 * 2 ^ 32 + unat w mod 2 ^ 32" by (simp add: be_get_append be_get_zeros m)
  also have "\<dots> = unat w" unfolding d [symmetric] by (rule div_mult_mod_eq)
  finally show ?thesis using be_put_get [of ?bs] by simp
qed

lemma digit_hex: "is_digit c \<Longrightarrow> is_hex c"
  by (simp add: is_digit_def is_hex_def hex_digit_def Let_def)

lemma reads_mapped:
  assumes "drop_bit 32 w = 0xffff"
  shows "reads_back (''::ffff:'' @ show_v4 (ucast w)) w"
proof -
  let ?u = "ucast w :: 32 word"
  obtain a b c d where abcd: "As4 ?u = [a, b, c, d]" by (rule length_4E [OF length_As4])
  have sh: "show_v4 ?u = show_nat (unat a) @ CHR ''.'' # Join (map (show_nat \<circ> unat) [b, c, d]) ''.''"
    by (simp add: show_v4_def abcd)
  have dig: "list_all is_hex (show_nat (unat a))"
    using show_nat_digits [of "unat a"] digit_hex by (simp add: list_all_iff)
  have g: "takeWhile is_hex (show_v4 ?u) = show_nat (unat a)" "dropWhile is_hex (show_v4 ?u) = CHR ''.'' # Join (map (show_nat \<circ> unat) [b, c, d]) ''.''"
    using dig unfolding sh by (simp_all add: list_all_iff)
  have len: "length (show_nat (unat a)) \<le> 4" using le_less_trans [OF unat_byte_le [of a], of "10 ^ 4"] by (intro length_show_nat) simp_all
  note p4 = parseIPv4Fields_show [of ?u]
  have "v6_groups (show_v4 ?u) [0xff, 0xff] (Some 0) = Some ([0xff, 0xff] @ As4 ?u, Some 0, [])"
    using len by (subst v6_groups.simps) (simp add: g p4)
  moreover have "v6_groups (''ffff:'' @ show_v4 ?u) [] (Some 0) = v6_groups (show_v4 ?u) [0xff, 0xff] (Some 0)"
  proof -
    have "hd (show_v4 ?u) \<noteq> CHR '':''" using show_nat_digits [of "unat a"] show_nat_nonempty [of "unat a"]
      by (cases "show_nat (unat a)") (auto simp: sh)
    moreover have "be_put (Suc (Suc 0)) 65535 = [0xff, 0xff]" by simp
    then have "be_put 2 65535 = [0xff, 0xff]" by (simp only: numeral_2_eq_2)
    moreover have "show_hex 65535 = ''ffff''" by (simp add: show_hex.simps Let_def)
    ultimately show ?thesis using group_step(2) [of 65535 "[]" "show_v4 ?u" "Some 0"] by simp
  qed
  moreover have "v6_expand ([0xff, 0xff] @ As4 ?u) (Some 0) [] = Some (be_put 16 (unat w))"
    unfolding mapped_bytes [OF assms] by (simp add: v6_expand_def)
  ultimately show ?thesis by (simp add: reads_back_def HasPrefix_def)
qed

lemma parseIPv6_reads:
  assumes "reads_back t w" "CHR ''%'' \<notin> set t"
  shows "parseIPv6 (t @ (if z = [] then [] else CHR ''%'' # z)) = Some (V6 w z)"
proof -
  have "\<exists>f. Cut (t @ (if z = [] then [] else CHR ''%'' # z)) CHR ''%'' = (t, z, f) \<and> (f \<longrightarrow> z \<noteq> [])"
    using assms(2) by (cases "z = []") auto
  then show ?thesis using assms(1)
    by (auto simp: parseIPv6_def reads_back_def Let_def AddrFrom16_put split: if_splits)
qed

lemma show_v6_chars: "c \<in> set (show_v6 w) \<Longrightarrow> is_hex c \<or> c = CHR '':''"
proof -
  have "list_all (\<lambda>c. is_hex c \<or> c = CHR '':'') (join_hex gs)" for gs
  proof (rule list_all_Join)
    show "list_all (list_all (\<lambda>c. is_hex c \<or> c = CHR '':'')) (map show_hex gs)"
      using show_hex_hex unfolding list_all_iff by fastforce
  qed simp
  then show "c \<in> set (show_v6 w) \<Longrightarrow> is_hex c \<or> c = CHR '':''"
    by (auto simp: show_v6_def Let_def list_all_iff split: prod.splits if_splits)
qed

lemma show_v6_colon: "CHR '':'' \<in> set (show_v6 w)"
proof -
  obtain a b gs where "v6_words w = a # b # gs" using length_v6_words [of w] by (auto simp: eval_nat_numeral length_Suc_conv)
  then show ?thesis by (cases "zero_run (v6_words w)") (simp add: show_v6_def Let_def)
qed

lemma find_colon:
  assumes "CHR '':'' \<in> set t" "\<And>c. c \<in> set t \<Longrightarrow> is_hex c \<or> c = CHR '':''"
  shows "find (\<lambda>c. c = CHR ''.'' \<or> c = CHR '':'' \<or> c = CHR ''%'') (t @ r) = Some CHR '':''"
proof -
  obtain c where f: "find (\<lambda>c. c = CHR ''.'' \<or> c = CHR '':'' \<or> c = CHR ''%'') t = Some c"
    using assms(1) by (cases "find (\<lambda>c. c = CHR ''.'' \<or> c = CHR '':'' \<or> c = CHR ''%'') t") (auto simp: find_None_iff)
  then have "c \<in> set t" "c = CHR ''.'' \<or> c = CHR '':'' \<or> c = CHR ''%''" unfolding find_Some_iff by (metis nth_mem)+
  then have "c = CHR '':''" using assms(2) by fastforce
  then show ?thesis using f by (simp add: find_append_None)
qed

lemma show_v4_chars: "c \<in> set (show_v4 w) \<Longrightarrow> is_digit c \<or> c = CHR ''.''"
proof -
  have "list_all (\<lambda>c. is_digit c \<or> c = CHR ''.'') (show_v4 w)"
    unfolding show_v4_def
  proof (rule list_all_Join)
    show "list_all (list_all (\<lambda>c. is_digit c \<or> c = CHR ''.'')) (map (show_nat \<circ> unat) (As4 w))"
      using show_nat_digits unfolding list_all_iff by fastforce
  qed simp
  then show "c \<in> set (show_v4 w) \<Longrightarrow> is_digit c \<or> c = CHR ''.''" by (simp add: list_all_iff)
qed

lemma ParseAddr_String [simp, str_simps]: "IsValid a \<Longrightarrow> ParseAddr (Addr_String a) = Some a"
proof (cases a)
  case (V6 w z)
  show ?thesis
  proof (cases "drop_bit 32 w = 0xffff")
    case True
    have "CHR ''%'' \<notin> set (''::ffff:'' @ show_v4 (ucast w))" using show_v4_chars by fastforce
    note p = parseIPv6_reads [OF reads_mapped [OF True] this, of z]
    show ?thesis using p by (simp add: V6 True ParseAddr_def)
  next
    case False
    have "CHR ''%'' \<notin> set (show_v6 w)" using show_v6_chars [of "CHR ''%''" w] by auto
    note p = parseIPv6_reads [OF reads_show this, of z]
    show ?thesis using p find_colon [OF show_v6_colon show_v6_chars, of w]
      by (simp add: V6 False ParseAddr_def)
  qed
qed (simp_all add: IsValid_def)

lemma Addr_String_no_slash: "IsValid a \<Longrightarrow> \<not> hasZone a \<Longrightarrow> CHR ''/'' \<notin> set (Addr_String a)"
  using show_v4_chars [of "CHR ''/''"] show_v6_chars [of "CHR ''/''"]
  by (cases a) (auto simp: IsValid_def is_digit_def)

lemma LastCut_found: "CHR ''/'' \<notin> set b \<Longrightarrow> LastCut (a @ CHR ''/'' # b) CHR ''/'' = Some (a, b)"
  using Cut_found [of "CHR ''/''" "rev b" "rev a"] by (simp add: LastCut_def)

lemma ParsePrefix_String [simp, str_simps]:
  assumes "prefix_ok p"
  shows "ParsePrefix (Prefix_String p) = Some p"
proof -
  define a n where "a = pfx_addr p" and "n = nat (pfx_bits p)"
  have a: "IsValid a" "\<not> hasZone a" "n \<le> BitLen a" "pfx_bits p = int n"
    using assms by (auto simp: prefix_ok_def a_def n_def)
  have lt: "int n < 2 ^ 63" using a(3) by (cases a) auto
  have hd_ok: "\<not> (length (show_nat n) > 1 \<and> (hd (show_nat n) < CHR ''1'' \<or> hd (show_nat n) > CHR ''9''))"
  proof (cases "n = 0")
    case False
    then have h: "hd (show_nat n) \<noteq> CHR ''0''" "is_digit (hd (show_nat n))"
      using show_nat_hd [of n] show_nat_digits [of n] hd_in_set [OF show_nat_nonempty [of n]] by (auto simp: list_all_iff)
    have "char_of (48 :: nat) = CHR ''0''" by code_simp
    then have "of_char (hd (show_nat n)) \<noteq> (48 :: nat)" using h(1) char_of_char [of "hd (show_nat n)"] by metis
    then show ?thesis using h(2) by (auto simp: is_digit_def less_char_def)
  qed (simp add: show_nat_0)
  have "ParsePrefix (Prefix_String p) = Some (PrefixFrom a (int n))"
    using a lt hd_ok LastCut_found [of "show_nat n" "Addr_String a"]
    by (simp add: ParsePrefix_def Prefix_String_def PrefixIsValid_def a_def [symmetric] Itoa_def is_digit_def)
  moreover have "PrefixFrom a (int n) = p" using a by (cases a) (auto simp: PrefixFrom_def IsValid_def a_def)
  ultimately show ?thesis by simp
qed

end
