(* ===== verification/Mux_Wire.thy ===== *)
theory Mux_Wire
  imports Netip
begin

text \<open>
  The wire format of the mux protocol: \<open>internal/mux/frames.go\<close> (the bodies of UDP and
  echo frames) and the framing half of \<open>internal/mux/mux.go\<close> (destinations, length-prefixed
  frames, status bytes, lines). Each writer and its reader form a codec, and the
  interpretations of \<open>stream_codec\<close> give that a sequence of messages on one stream is
  read back message by message.
\<close>

section \<open>Flow frames\<close>

datatype frame_error =
    UDPRequestTooShort nat
  | EmptyUDPReply
  | UnknownUDPReply byte
  | EchoRequestTooShort nat
  | EmptyEchoReply
  | EchoReplyTooShort nat
  | UnknownEchoReply byte
  | ICMPErrorTooShort nat
  | ICMPErrorAddrLen nat

record icmp_error =
  ie_Type :: byte
  ie_Code :: byte
  ie_Info :: "32 word"
  ie_From :: addr
  ie_Inner :: bytes

record udp_reply =
  ur_Payload :: bytes
  ur_Error :: "icmp_error option"

record echo_reply =
  er_Seq :: "16 word"
  er_RTT :: int
  er_Payload :: bytes
  er_Error :: "icmp_error option"

definition replyData :: byte where "replyData = 0"
definition replyError :: byte where "replyError = 1"

definition encodeUDPRequest :: "byte \<Rightarrow> bytes \<Rightarrow> bytes" where
  "encodeUDPRequest ttl payload = ttl # payload"

definition decodeUDPRequest :: "bytes \<Rightarrow> frame_error + (byte \<times> bytes)" where
  "decodeUDPRequest frame =
     (if length frame < 1 then Inl (UDPRequestTooShort (length frame))
      else Inr (frame ! 0, drop 1 frame))"

definition encodeUDPData :: "bytes \<Rightarrow> bytes" where
  "encodeUDPData payload = replyData # payload"

definition icmp_append :: "icmp_error \<Rightarrow> bytes \<Rightarrow> bytes" where
  "icmp_append e buf =
     (let raw = AsSlice (Unmap (ie_From e)) in
      buf @ [ie_Type e, ie_Code e] @ be32 (ie_Info e) @ [word_of_nat (length raw)] @ raw
          @ ie_Inner e)"

definition encodeUDPError :: "icmp_error \<Rightarrow> bytes" where
  "encodeUDPError e = icmp_append e [replyError]"

definition decodeICMPError :: "bytes \<Rightarrow> frame_error + icmp_error" where
  "decodeICMPError b =
     (if length b < 7 then Inl (ICMPErrorTooShort (length b))
      else
        let n = unat (b ! 6) in
        if n \<noteq> 4 \<and> n \<noteq> 16 \<or> length b < 7 + n then Inl (ICMPErrorAddrLen n)
        else Inr \<lparr>ie_Type = b ! 0, ie_Code = b ! 1, ie_Info = un32 (take 4 (drop 2 b)),
                  ie_From = fst (AddrFromSlice (take n (drop 7 b))),
                  ie_Inner = drop (7 + n) b\<rparr>)"

definition decodeUDPReply :: "bytes \<Rightarrow> frame_error + udp_reply" where
  "decodeUDPReply frame =
     (if length frame < 1 then Inl EmptyUDPReply
      else if frame ! 0 = replyData then
        Inr \<lparr>ur_Payload = drop 1 frame, ur_Error = None\<rparr>
      else if frame ! 0 = replyError then
        (case decodeICMPError (drop 1 frame) of
           Inl err \<Rightarrow> Inl err
         | Inr e \<Rightarrow> Inr \<lparr>ur_Payload = [], ur_Error = Some e\<rparr>)
      else Inl (UnknownUDPReply (frame ! 0)))"

definition encodeEchoRequest :: "16 word \<Rightarrow> byte \<Rightarrow> bytes \<Rightarrow> bytes" where
  "encodeEchoRequest seq ttl payload = be16 seq @ [ttl] @ payload"

definition decodeEchoRequest :: "bytes \<Rightarrow> frame_error + (16 word \<times> byte \<times> bytes)" where
  "decodeEchoRequest frame =
     (if length frame < 3 then Inl (EchoRequestTooShort (length frame))
      else Inr (un16 (take 2 frame), frame ! 2, drop 3 frame))"

text \<open>
  Durations are nanoseconds. \<open>rtt.Microseconds()\<close> truncates towards zero, and the
  conversion to \<open>uint32\<close> keeps the low 32 bits.
\<close>

definition encodeEchoData :: "16 word \<Rightarrow> int \<Rightarrow> bytes \<Rightarrow> bytes" where
  "encodeEchoData seq rtt payload =
     [replyData] @ be16 seq @ be32 (word_of_int (min (quo rtt 1000) (2 ^ 32 - 1))) @ payload"

definition encodeEchoError :: "icmp_error \<Rightarrow> bytes" where
  "encodeEchoError e = icmp_append e [replyError]"

definition decodeEchoReply :: "bytes \<Rightarrow> frame_error + echo_reply" where
  "decodeEchoReply frame =
     (if length frame < 1 then Inl EmptyEchoReply
      else if frame ! 0 = replyData then
        (let body = drop 1 frame in
         if length body < 6 then Inl (EchoReplyTooShort (length frame))
         else Inr \<lparr>er_Seq = un16 (take 2 body),
                   er_RTT = uint (un32 (take 4 (drop 2 body))) * 1000,
                   er_Payload = drop 6 body, er_Error = None\<rparr>)
      else if frame ! 0 = replyError then
        (case decodeICMPError (drop 1 frame) of
           Inl err \<Rightarrow> Inl err
         | Inr e \<Rightarrow> Inr \<lparr>er_Seq = 0, er_RTT = 0, er_Payload = [], er_Error = Some e\<rparr>)
      else Inl (UnknownEchoReply (frame ! 0)))"


section \<open>Framing\<close>

datatype wire_error =
    IOError io_error
  | InvalidAddrLen byte
  | FrameTooLarge nat
  | LineTooLong nat

definition maxUDPFrame :: nat where "maxUDPFrame = 0xffff"
definition maxLineLen :: nat where "maxLineLen = 4096"

text \<open>
  \<open>writeDest\<close> and \<open>readDest\<close>: address length, address, port. The writers return the
  bytes of their single \<open>Write\<close> call.
\<close>

definition writeDest :: "addr_port \<Rightarrow> bytes" where
  "writeDest dst =
     (let a = Unmap (ap_addr dst);
          raw = (case a of V4 w \<Rightarrow> As4 w | _ \<Rightarrow> As16 a)
      in [word_of_nat (length raw)] @ raw @ be16 (ap_port dst))"

definition readDest :: "bytes \<Rightarrow> wire_error + (addr_port \<times> bytes)" where
  "readDest r =
     (case ReadFull 1 r of
        Inl e \<Rightarrow> Inl (IOError e)
      | Inr (len, r1) \<Rightarrow>
          if len ! 0 \<noteq> 4 \<and> len ! 0 \<noteq> 16 then Inl (InvalidAddrLen (len ! 0))
          else
            (case ReadFull (if len ! 0 = 4 then 4 else 16) r1 of
               Inl e \<Rightarrow> Inl (IOError e)
             | Inr (b, r2) \<Rightarrow>
                 (case ReadFull 2 r2 of
                    Inl e \<Rightarrow> Inl (IOError e)
                  | Inr (port, r3) \<Rightarrow>
                      Inr (\<lparr>ap_addr = (if len ! 0 = 4 then AddrFrom4 b else AddrFrom16 b),
                            ap_port = un16 port\<rparr>, r3))))"

definition writeFrame :: "bytes \<Rightarrow> wire_error + bytes" where
  "writeFrame p =
     (if length p > maxUDPFrame then Inl (FrameTooLarge (length p))
      else Inr (be16 (word_of_nat (length p)) @ p))"

definition readFrame :: "bytes \<Rightarrow> wire_error + (bytes \<times> bytes)" where
  "readFrame r =
     (case ReadFull 2 r of
        Inl e \<Rightarrow> Inl (IOError e)
      | Inr (hdr, r1) \<Rightarrow>
          (let n = unat (un16 hdr) in
           if n = 0 then Inr ([], r1)
           else (case ReadFull n r1 of
                   Inl e \<Rightarrow> Inl (IOError e)
                 | Inr (buf, r2) \<Rightarrow> Inr (buf, r2))))"

definition readStatus :: "bytes \<Rightarrow> wire_error + (byte \<times> bytes)" where
  "readStatus r =
     (case ReadFull 1 r of Inl e \<Rightarrow> Inl (IOError e) | Inr (b, r1) \<Rightarrow> Inr (b ! 0, r1))"

text \<open>
  \<open>readLine\<close> takes one byte at a time and returns what follows the newline untouched.
\<close>

fun readLine_loop :: "nat \<Rightarrow> bytes \<Rightarrow> bytes \<Rightarrow> wire_error + (bytes \<times> bytes)" where
  "readLine_loop limit buf [] = Inl (IOError EOF)"
| "readLine_loop limit buf (b # r) =
     (if b = 10 then Inr (if buf \<noteq> [] \<and> last buf = 13 then butlast buf else buf, r)
      else if length buf \<ge> limit then Inl (LineTooLong limit)
      else readLine_loop limit (buf @ [b]) r)"

definition readLine :: "bytes \<Rightarrow> nat \<Rightarrow> wire_error + (bytes \<times> bytes)" where
  "readLine r limit = readLine_loop limit [] r"


section \<open>Dial status\<close>

datatype dial_result = ErrRefused | ErrUnreachable | ErrDialTimeout | ErrDialFailed

text \<open>
  What \<open>statusFor\<close> asks of an error: whether it is a \<open>net.Error\<close> that timed out, and
  which of the system errors it wraps.
\<close>

record dial_error =
  is_net_timeout :: bool
  is_ECONNREFUSED :: bool
  is_ENETUNREACH :: bool
  is_EHOSTUNREACH :: bool
  is_DeadlineExceeded :: bool

definition statusOK :: byte where "statusOK = 0"
definition statusRefused :: byte where "statusRefused = 1"
definition statusUnreachable :: byte where "statusUnreachable = 2"
definition statusTimeout :: byte where "statusTimeout = 3"
definition statusOther :: byte where "statusOther = 4"
definition statusUnsupported :: byte where "statusUnsupported = 5"

definition statusError :: "byte \<Rightarrow> dial_result" where
  "statusError status =
     (if status = statusRefused then ErrRefused
      else if status = statusUnreachable then ErrUnreachable
      else if status = statusTimeout then ErrDialTimeout
      else ErrDialFailed)"

definition statusFor :: "dial_error \<Rightarrow> byte" where
  "statusFor err =
     (if is_net_timeout err then statusTimeout
      else if is_ECONNREFUSED err then statusRefused
      else if is_ENETUNREACH err \<or> is_EHOSTUNREACH err then statusUnreachable
      else if is_DeadlineExceeded err then statusTimeout
      else statusOther)"

lemmas status_defs =
  statusOK_def statusRefused_def statusUnreachable_def statusTimeout_def statusOther_def
  statusUnsupported_def

definition idleFor :: "16 word \<Rightarrow> int \<Rightarrow> int \<Rightarrow> int" where
  "idleFor port def dns = (if port = 53 then dns else def)"



section \<open>Round trips of the frame bodies\<close>

text \<open>What an ICMP error looks like after the wire: the address unmapped, without zone.\<close>

definition wire_addr :: "addr \<Rightarrow> addr" where
  "wire_addr a = WithoutZone (Unmap a)"

definition wire_icmp :: "icmp_error \<Rightarrow> icmp_error" where
  "wire_icmp e = e\<lparr>ie_From := wire_addr (ie_From e)\<rparr>"

lemma AsSlice_Unmap_cases:
  assumes "IsValid a"
  obtains (v4) w where "Unmap a = V4 w" | (v6) w z where "Unmap a = V6 w z"
  using assms by (cases "Unmap a"; cases a) (auto simp: IsValid_def split: if_splits)

lemma length_AsSlice:
  "IsValid a \<Longrightarrow> length (AsSlice (Unmap a)) = 4 \<or> length (AsSlice (Unmap a)) = 16"
  by (erule AsSlice_Unmap_cases) auto

lemma AddrFromSlice_AsSlice: "IsValid a \<Longrightarrow> fst (AddrFromSlice (AsSlice (Unmap a))) = wire_addr a"
  by (erule AsSlice_Unmap_cases) (auto simp: wire_addr_def)

lemma decodeICMPError_append [codec_simps]:
  assumes "IsValid (ie_From e)"
  shows "decodeICMPError (icmp_append e []) = Inr (wire_icmp e)"
proof -
  let ?raw = "AsSlice (Unmap (ie_From e))"
  obtain i0 i1 i2 i3 where i: "be32 (ie_Info e) = [i0, i1, i2, i3]"
    by (rule length_4E [OF length_be32])
  have b: "icmp_append e [] =
    [ie_Type e, ie_Code e, i0, i1, i2, i3, word_of_nat (length ?raw)] @ ?raw @ ie_Inner e"
    by (simp add: icmp_append_def i Let_def)
  have un: "un32 [i0, i1, i2, i3] = ie_Info e" using un32_be32 [of "ie_Info e"] by (simp add: i)
  have len: "length ?raw = 4 \<or> length ?raw = 16" using assms by (rule length_AsSlice)
  then have u: "unat (word_of_nat (length ?raw) :: byte) = length ?raw"
    by (auto simp: unat_byte_of_nat)
  show ?thesis
    unfolding b decodeICMPError_def
    using len u un AddrFromSlice_AsSlice [OF assms]
    by (auto simp: wire_icmp_def Let_def)
qed

lemma icmp_append_cons: "icmp_append e (b # bs) = b # icmp_append e bs"
  by (simp add: icmp_append_def Let_def)

lemma reply_kinds [simp]: "replyData \<noteq> replyError" "replyError \<noteq> replyData"
  by (simp_all add: replyData_def replyError_def)

text \<open>
  An ICMP error the helper reports on a UDP flow, or on an echo flow, reaches the
  client unchanged, up to the IPv4-mapped form and the zone of the sender's address.
\<close>

theorem icmp_error_roundtrip:
  assumes "IsValid (ie_From e)"
  shows "decodeUDPReply (encodeUDPError e) = Inr \<lparr>ur_Payload = [], ur_Error = Some (wire_icmp e)\<rparr>
       \<and> decodeEchoReply (encodeEchoError e)
           = Inr \<lparr>er_Seq = 0, er_RTT = 0, er_Payload = [], er_Error = Some (wire_icmp e)\<rparr>"
  using decodeICMPError_append [OF assms]
  by (simp add: decodeUDPReply_def encodeUDPError_def decodeEchoReply_def encodeEchoError_def
      icmp_append_cons)

theorem icmp_error_roundtrip_witness:
  "decodeUDPReply (encodeUDPError
      \<lparr>ie_Type = 11, ie_Code = 0, ie_Info = 0, ie_From = V6 0xffff0a000001 [], ie_Inner = [1, 2]\<rparr>)
     = Inr \<lparr>ur_Payload = [], ur_Error = Some
        \<lparr>ie_Type = 11, ie_Code = 0, ie_Info = 0, ie_From = V4 0x0a000001, ie_Inner = [1, 2]\<rparr>\<rparr>"
  using icmp_error_roundtrip
    [of "\<lparr>ie_Type = 11, ie_Code = 0, ie_Info = 0, ie_From = V6 0xffff0a000001 [], ie_Inner = [1, 2]\<rparr>"]
  by (simp add: IsValid_def wire_icmp_def wire_addr_def)

text \<open>
  The decoder of ICMP errors accepts only what the encoder writes: a decoded error
  whose address is not IPv4-mapped encodes to the very bytes it came from.
\<close>

theorem icmp_error_decode_exact:
  assumes "decodeICMPError b = Inr e" "\<not> Is4In6 (ie_From e)"
  shows "icmp_append e [] = b"
proof -
  let ?n = "unat (b ! 6)"
  let ?raw = "take ?n (drop 7 b)"
  from assms(1) have len: "7 \<le> length b" "?n = 4 \<or> ?n = 16" "7 + ?n \<le> length b"
    and e: "e = \<lparr>ie_Type = b ! 0, ie_Code = b ! 1, ie_Info = un32 (take 4 (drop 2 b)),
                 ie_From = fst (AddrFromSlice ?raw), ie_Inner = drop (7 + ?n) b\<rparr>"
    by (auto simp: decodeICMPError_def Let_def split: if_splits)
  from len have lraw: "length ?raw = ?n" by simp
  have raw: "AsSlice (Unmap (ie_From e)) = ?raw"
  proof (cases "?n = 4")
    case True
    with lraw have "fst (AddrFromSlice ?raw) = AddrFrom4 ?raw" by (simp add: AddrFromSlice_def)
    then show ?thesis
      using As4_AddrFrom4 [of ?raw] lraw True by (simp add: e AddrFrom4_def)
  next
    case False
    with len lraw have "fst (AddrFromSlice ?raw) = AddrFrom16 ?raw" by (simp add: AddrFromSlice_def)
    then show ?thesis
      using put_AddrFrom16 [of ?raw] lraw False len assms(2) by (simp add: e AddrFrom16_def)
  qed
  have info: "be32 (ie_Info e) = take 4 (drop 2 b)" using len by (simp add: e be32_un32)
  have "icmp_append e [] = [b ! 0, b ! 1] @ take 4 (drop 2 b) @ [b ! 6] @ ?raw @ drop (7 + ?n) b"
    unfolding icmp_append_def raw info by (simp add: e lraw del: length_take)
  also have "?raw @ drop (7 + ?n) b = drop 7 b"
    by (metis add.commute append_take_drop_id drop_drop)
  also have "[b ! 0, b ! 1] @ take 4 (drop 2 b) @ [b ! 6] @ drop 7 b = b"
    using len(1) by (auto simp: numeral_eq_Suc Suc_le_length_iff)
  finally show ?thesis .
qed

theorem icmp_error_decode_exact_witness:
  "icmp_append \<lparr>ie_Type = 3, ie_Code = 1, ie_Info = 0, ie_From = V4 0x0a000001, ie_Inner = [7]\<rparr> []
     = [3, 1, 0, 0, 0, 0, 4, 10, 0, 0, 1, 7]"
  by (rule icmp_error_decode_exact)
     (simp_all add: decodeICMPError_def un32_def AddrFromSlice_def AddrFrom4_def)

text \<open>
  An echo reply crosses the stream with its sequence and payload, and its round-trip
  time truncated to microseconds and capped at the 32-bit maximum.
\<close>

theorem echo_data_roundtrip:
  assumes "0 \<le> rtt"
  shows "decodeEchoReply (encodeEchoData seq rtt payload) =
    Inr \<lparr>er_Seq = seq, er_RTT = min (rtt div 1000) (2 ^ 32 - 1) * 1000,
         er_Payload = payload, er_Error = None\<rparr>"
proof -
  define us where "us = min (rtt div 1000) (2 ^ 32 - 1)"
  have "0 \<le> us" "us < 2 ^ 32" using assms by (auto simp: us_def)
  then have u: "uint (word_of_int us :: 32 word) = us"
    by (simp add: uint_word_of_int)
  obtain s0 s1 where s: "be16 seq = [s0, s1]"
    by (rule length_2E [OF length_be16])
  obtain i0 i1 i2 i3 where i: "be32 (word_of_int us) = [i0, i1, i2, i3]"
    by (rule length_4E [OF length_be32])
  have "un16 [s0, s1] = seq" "un32 [i0, i1, i2, i3] = word_of_int us"
    using un16_be16 [of seq] un32_be32 [of "word_of_int us"] by (simp_all add: s i)
  moreover have "encodeEchoData seq rtt payload = [replyData, s0, s1, i0, i1, i2, i3] @ payload"
    using assms i by (simp add: encodeEchoData_def s us_def)
  ultimately show ?thesis
    by (simp add: decodeEchoReply_def u Let_def) (simp add: us_def)
qed

theorem echo_data_roundtrip_witness:
  "decodeEchoReply (encodeEchoData 7 1234567 [42]) =
     Inr \<lparr>er_Seq = 7, er_RTT = 1234000, er_Payload = [42], er_Error = None\<rparr>"
  using echo_data_roundtrip [of 1234567 7 "[42]"] by simp

lemma echo_request_roundtrip [codec_simps]:
  "decodeEchoRequest (encodeEchoRequest seq ttl payload) = Inr (seq, ttl, payload)"
proof -
  obtain s0 s1 where s: "be16 seq = [s0, s1]"
    by (rule length_2E [OF length_be16])
  then show ?thesis
    using un16_be16 [of seq] by (simp add: decodeEchoRequest_def encodeEchoRequest_def)
qed

lemma udp_request_roundtrip [codec_simps]:
  "decodeUDPRequest (encodeUDPRequest ttl payload) = Inr (ttl, payload)"
  by (simp add: decodeUDPRequest_def encodeUDPRequest_def)

lemma udp_data_roundtrip [codec_simps]:
  "decodeUDPReply (encodeUDPData payload) = Inr \<lparr>ur_Payload = payload, ur_Error = None\<rparr>"
  by (simp add: decodeUDPReply_def encodeUDPData_def)



section \<open>Streams of messages\<close>

text \<open>The destination as the helper sees it.\<close>

definition wire_dest :: "addr_port \<Rightarrow> addr_port" where
  "wire_dest d = d\<lparr>ap_addr := wire_addr (ap_addr d)\<rparr>"

lemma readDest_writeDest [codec_simps]:
  assumes "IsValid (ap_addr d)"
  shows "readDest (writeDest d @ r) = Inr (wire_dest d, r)"
  using assms
  by (rule AsSlice_Unmap_cases)
     (simp_all add: readDest_def writeDest_def wire_dest_def wire_addr_def ReadFull_def Let_def)

definition frame_bytes :: "bytes \<Rightarrow> bytes" where
  "frame_bytes p = be16 (word_of_nat (length p)) @ p"

lemma readFrame_frame_bytes [codec_simps]:
  assumes "length p \<le> maxUDPFrame"
  shows "readFrame (frame_bytes p @ r) = Inr (p, r)"
proof -
  have u: "unat (word_of_nat (length p) :: 16 word) = length p"
    using assms by (simp add: unat_of_nat maxUDPFrame_def)
  have "ReadFull 2 (frame_bytes p @ r) = Inr (be16 (word_of_nat (length p)), p @ r)"
    by (simp add: frame_bytes_def)
  then show ?thesis by (cases "p = []") (simp_all add: readFrame_def u)
qed

definition line_ok :: "bytes \<Rightarrow> bool" where
  "line_ok l \<longleftrightarrow> 10 \<notin> set l \<and> length l \<le> maxLineLen \<and> (l \<noteq> [] \<longrightarrow> last l \<noteq> 13)"

lemma readLine_loop_append:
  "10 \<notin> set l \<Longrightarrow> length buf + length l \<le> limit \<Longrightarrow>
   readLine_loop limit buf (l @ 10 # r) =
     Inr (if buf @ l \<noteq> [] \<and> last (buf @ l) = 13 then butlast (buf @ l) else buf @ l, r)"
  by (induction l arbitrary: buf) auto

lemma readLine_line [codec_simps]:
  "line_ok l \<Longrightarrow> readLine (l @ 10 # r) maxLineLen = Inr (l, r)"
  by (auto simp: readLine_def line_ok_def readLine_loop_append)

interpretation dest: stream_codec "\<lambda>d. IsValid (ap_addr d)" writeDest readDest wire_dest
  by unfold_locales (rule readDest_writeDest)

interpretation frame: stream_codec "\<lambda>p. length p \<le> maxUDPFrame" frame_bytes readFrame "\<lambda>p. p"
  by unfold_locales (rule readFrame_frame_bytes)

interpretation line: stream_codec line_ok "\<lambda>l. l @ [10]" "\<lambda>r. readLine r maxLineLen" "\<lambda>l. l"
  by unfold_locales (simp add: readLine_line)

text \<open>
  C29: a flow is a destination and then frames on one stream. Whatever the client writes,
  the helper reads the same destination and the same frames, in order, and stops at the
  first byte after them.
\<close>

theorem flow_stream_roundtrip:
  assumes "IsValid (ap_addr dst)" "\<forall>p \<in> set ps. length p \<le> maxUDPFrame"
  shows "(case readDest (writeDest dst @ concat (map (\<lambda>p. case writeFrame p of Inr b \<Rightarrow> b | Inl _ \<Rightarrow> []) ps) @ r)
          of Inl e \<Rightarrow> False
           | Inr (d, r') \<Rightarrow> d = wire_dest dst \<and> read_n readFrame (length ps) r' = Inr (ps, r))"
proof -
  have w: "(case writeFrame p of Inr b \<Rightarrow> b | Inl _ \<Rightarrow> []) = frame_bytes p" if "p \<in> set ps" for p
    using assms(2) that by (auto simp: writeFrame_def frame_bytes_def)
  then have "concat (map (\<lambda>p. case writeFrame p of Inr b \<Rightarrow> b | Inl _ \<Rightarrow> []) ps)
      = concat (map frame_bytes ps)"
    by (metis (mono_tags, lifting) map_eq_conv)
  with readDest_writeDest [OF assms(1)] frame.read_all [of ps r] assms(2)
  show ?thesis by (simp add: list_all_iff)
qed

theorem flow_stream_roundtrip_witness:
  "(case readDest (writeDest \<lparr>ap_addr = V4 0x0a000001, ap_port = 53\<rparr>
       @ concat (map (\<lambda>p. case writeFrame p of Inr b \<Rightarrow> b | Inl _ \<Rightarrow> []) [[1, 2], [], [3]]) @ [9])
    of Inl e \<Rightarrow> False
     | Inr (d, r') \<Rightarrow> d = \<lparr>ap_addr = V4 0x0a000001, ap_port = 53\<rparr>
         \<and> read_n readFrame (length [[1, 2], [], [3 :: byte]]) r' = Inr ([[1, 2], [], [3]], [9]))"
proof -
  have d: "wire_dest \<lparr>ap_addr = V4 0x0a000001, ap_port = 53\<rparr> = \<lparr>ap_addr = V4 0x0a000001, ap_port = 53\<rparr>"
    by (simp add: wire_dest_def wire_addr_def)
  show ?thesis
    by (rule flow_stream_roundtrip
          [of "\<lparr>ap_addr = V4 0x0a000001, ap_port = 53\<rparr>" "[[1, 2], [], [3]]" "[9]", unfolded d])
       (simp_all add: IsValid_def maxUDPFrame_def)
qed

lemma readLine_loop_Inr:
  "readLine_loop limit buf r = Inr (l, r') \<Longrightarrow> length buf \<le> limit \<Longrightarrow>
   \<exists>pre. r = pre @ 10 # r' \<and> 10 \<notin> set pre \<and> length (buf @ pre) \<le> limit
       \<and> (buf @ pre = l \<or> buf @ pre = l @ [13])"
proof (induction limit buf r rule: readLine_loop.induct)
  case (2 limit buf b r)
  show ?case
  proof (cases "b = 10")
    case True
    with "2.prems" show ?thesis
      by (intro exI [of _ "[]"]) (auto split: if_splits dest: append_butlast_last_id)
  next
    case False
    with "2.prems" have "length buf < limit" "readLine_loop limit (buf @ [b]) r = Inr (l, r')"
      by (auto split: if_splits)
    with "2.IH" [OF False] obtain pre where
      "r = pre @ 10 # r'" "10 \<notin> set pre" "length ((buf @ [b]) @ pre) \<le> limit"
      "(buf @ [b]) @ pre = l \<or> (buf @ [b]) @ pre = l @ [13]" by fastforce
    with False show ?thesis by (intro exI [of _ "b # pre"]) auto
  qed
qed simp

text \<open>
  C36: \<open>readLine\<close> consumes exactly the line and its newline, whatever follows on the
  transport, drops at most a carriage return, and never returns more than its limit; on a
  longer line it fails instead of reading on.
\<close>

theorem readLine_exact:
  assumes "readLine r limit = Inr (l, r')"
  shows "(r = l @ 10 # r' \<or> r = l @ 13 # 10 # r') \<and> 10 \<notin> set l \<and> length l \<le> limit"
proof -
  from readLine_loop_Inr [OF assms [unfolded readLine_def]]
  obtain pre where "r = pre @ 10 # r'" "10 \<notin> set pre" "length pre \<le> limit"
    "pre = l \<or> pre = l @ [13]" by auto
  then show ?thesis by auto
qed

theorem readLine_exact_witness:
  "readLine [84, 74, 53, 13, 10, 1, 2] 4096 = Inr ([84, 74, 53], [1, 2])
   \<and> length [84, 74, 53 :: byte] \<le> 4096"
proof -
  have r: "readLine [84, 74, 53, 13, 10, 1, 2] 4096 = Inr ([84, 74, 53], [1, 2])"
    by (simp add: readLine_def)
  show ?thesis using r readLine_exact [OF r] by simp
qed

text \<open>
  What the client reports for a dial the helper refused agrees with the helper's
  error: a timeout stays a timeout, refused and unreachable stay themselves, and no error
  is reported as success.
\<close>

theorem dial_status_agrees:
  "statusFor err \<noteq> statusOK \<and>
   statusError (statusFor err) =
     (if is_net_timeout err then ErrDialTimeout
      else if is_ECONNREFUSED err then ErrRefused
      else if is_ENETUNREACH err \<or> is_EHOSTUNREACH err then ErrUnreachable
      else if is_DeadlineExceeded err then ErrDialTimeout else ErrDialFailed)"
  by (simp add: statusFor_def statusError_def status_defs)

end
