(* ===== verification/Negotiate.thy ===== *)
theory Negotiate
  imports Netip_Text Transport Mux_Wire
begin

text \<open>
  The lines of the control stream, \<open>internal/mux/negotiate.go\<close> and the answer to the icmp
  verb in \<open>internal/mux/echo.go\<close>: what the client asks, what the helper answers, and the
  parsers of both ends.
\<close>

section \<open>The quic verb\<close>

record quic_request =
  qr_BindAddr :: addr
  qr_Ports :: port_range
  qr_Controller :: controller
  qr_Fingerprint :: string

record quic_reply =
  qy_Port :: "16 word"
  qy_Fingerprint :: string

datatype negotiate_error =
    WantFields nat nat
  | BindAddress string
  | PortsError port_error
  | ControllerError controller_error
  | FingerprintShape
  | FingerprintDigits
  | Unavailable string
  | ReplyPort string
  | UnexpectedLine string

definition newline :: string where "newline = [CHR 0x0A]"

text \<open>The fingerprint is ranged over as characters; a byte above ASCII is no hex digit.\<close>

definition checkFingerprint :: "string \<Rightarrow> negotiate_error option" where
  "checkFingerprint s =
     (case CutPrefix s ''sha256:'' of (hexPart, ok) \<Rightarrow>
        if \<not> ok \<or> length hexPart \<noteq> 64 then Some FingerprintShape
        else if list_all (\<lambda>c. CHR ''0'' \<le> c \<and> c \<le> CHR ''9'' \<or> CHR ''a'' \<le> c \<and> c \<le> CHR ''f'') hexPart
        then None else Some FingerprintDigits)"

definition QUICRequest_encode :: "quic_request \<Rightarrow> string" where
  "QUICRequest_encode r =
     Join [''quic'', Addr_String (qr_BindAddr r), PortRange_String (qr_Ports r),
           Controller_String (qr_Controller r), qr_Fingerprint r] '' '' @ newline"

definition parseQUICRequest :: "string list \<Rightarrow> negotiate_error + quic_request" where
  "parseQUICRequest flds =
     (if length flds \<noteq> 4 then Inl (WantFields 4 (length flds))
      else case ParseAddr (flds ! 0) of
        None \<Rightarrow> Inl (BindAddress (flds ! 0))
      | Some addr \<Rightarrow>
          (case ParsePortRange (flds ! 1) of
             Inl e \<Rightarrow> Inl (PortsError e)
           | Inr ports \<Rightarrow>
               (case ParseController (flds ! 2) of
                  Inl e \<Rightarrow> Inl (ControllerError e)
                | Inr ctl \<Rightarrow>
                    (case checkFingerprint (flds ! 3) of
                       Some e \<Rightarrow> Inl e
                     | None \<Rightarrow> Inr \<lparr>qr_BindAddr = addr, qr_Ports = ports,
                                     qr_Controller = ctl, qr_Fingerprint = flds ! 3\<rparr>))))"

definition QUICReply_encode :: "quic_reply \<Rightarrow> string" where
  "QUICReply_encode r =
     Join [''quic'', show_nat (unat (qy_Port r)), qy_Fingerprint r] '' '' @ newline"

text \<open>\<open>strings.ReplaceAll(s, "\\n", " ")\<close>.\<close>

definition one_line :: "string \<Rightarrow> string" where
  "one_line s = map (\<lambda>c. if c = CHR 0x0A then CHR '' '' else c) s"

definition encodeUnlinkReply :: "string \<Rightarrow> string" where
  "encodeUnlinkReply result = ''unlink '' @ one_line result @ newline"

definition parseUnlinkReply :: "string \<Rightarrow> negotiate_error option" where
  "parseUnlinkReply line =
     (case Cut (TrimSpace line) CHR '' '' of (verb, rest, _) \<Rightarrow>
        if verb \<noteq> ''unlink'' then Some (UnexpectedLine line)
        else if TrimSpace rest \<noteq> ''ok'' then Some (Unavailable (TrimSpace rest)) else None)"

definition encodeUnavailable :: "string \<Rightarrow> string" where
  "encodeUnavailable reason = ''quic-unavailable '' @ one_line reason @ newline"

definition parseQUICReply :: "string \<Rightarrow> negotiate_error + quic_reply" where
  "parseQUICReply line =
     (case Cut (TrimSpace line) CHR '' '' of (verb, rest, _) \<Rightarrow>
        if verb = ''quic-unavailable'' then Inl (Unavailable (TrimSpace rest))
        else if verb = ''quic'' then
          (let flds = Fields rest in
           if length flds \<noteq> 2 then Inl (WantFields 2 (length flds))
           else case ParseUint 16 (flds ! 0) of
             None \<Rightarrow> Inl (ReplyPort (flds ! 0))
           | Some port \<Rightarrow>
               if port = 0 then Inl (ReplyPort (flds ! 0))
               else (case checkFingerprint (flds ! 1) of
                       Some e \<Rightarrow> Inl e
                     | None \<Rightarrow> Inr \<lparr>qy_Port = word_of_nat port, qy_Fingerprint = flds ! 1\<rparr>))
        else Inl (UnexpectedLine line))"


section \<open>The icmp verb\<close>

record echo_socket_info =
  es_Socket :: string
  es_PingGroupRange :: string

definition EchoSocketInfo_encode :: "echo_socket_info \<Rightarrow> string" where
  "EchoSocketInfo_encode i =
     (if es_PingGroupRange i = [] then Join [''icmp'', es_Socket i] '' '' @ newline
      else Join [''icmp'', es_Socket i, es_PingGroupRange i] '' '' @ newline)"

datatype echo_info_error = EchoLine string | EchoSocketUnknown string

definition parseEchoSocketInfo :: "string \<Rightarrow> echo_info_error + echo_socket_info" where
  "parseEchoSocketInfo line =
     (let flds = Fields line in
      if length flds < 2 \<or> length flds > 3 \<or> flds ! 0 \<noteq> ''icmp'' then Inl (EchoLine line)
      else if flds ! 1 \<notin> {''raw'', ''ping'', ''none''} then Inl (EchoSocketUnknown (flds ! 1))
      else Inr \<lparr>es_Socket = flds ! 1,
                es_PingGroupRange = (if length flds = 3 then flds ! 2 else [])\<rparr>)"



section \<open>Round trips\<close>

definition fp_ok :: "string \<Rightarrow> bool" where
  "fp_ok s \<longleftrightarrow> checkFingerprint s = None"

lemma fp_ok_plain: "fp_ok s \<Longrightarrow> s \<noteq> [] \<and> list_all plain s"
proof -
  assume "fp_ok s"
  then obtain h where s: "s = ''sha256:'' @ h"
    and h: "list_all (\<lambda>c. CHR ''0'' \<le> c \<and> c \<le> CHR ''9'' \<or> CHR ''a'' \<le> c \<and> c \<le> CHR ''f'') h"
    by (auto simp: fp_ok_def checkFingerprint_def CutPrefix_def HasPrefix_iff split: if_splits)
  have "plain c" if "c \<in> set h" for c
    using h that by (auto simp: list_all_iff plain_def less_eq_char_def)
  then show ?thesis by (auto simp: s list_all_iff plain_def)
qed

definition request_ok :: "quic_request \<Rightarrow> bool" where
  "request_ok r \<longleftrightarrow> Is4 (qr_BindAddr r) \<and> 0 < pr_First (qr_Ports r)
     \<and> pr_First (qr_Ports r) \<le> pr_Last (qr_Ports r)
     \<and> (\<exists>name bps. bps < 2 ^ 64 \<and> qr_Controller r = ControllerNamed name bps)
     \<and> fp_ok (qr_Fingerprint r)"

lemma Fields_Join_newline:
  assumes "ws \<noteq> []" "\<forall>w \<in> set ws. w \<noteq> [] \<and> list_all plain w"
  shows "Fields (Join ws '' '' @ newline) = ws"
proof -
  have *: "fields_from [] (Join ws '' '' @ newline) = ws"
    using assms
  proof (induction ws "'' ''" rule: Join.induct)
    case (2 w)
    then show ?case
      using fields_from_plain [of w "[]" newline]
      by (simp add: newline_def match_len_def go_spaces_def)
  next
    case (3 w v va)
    then show ?case
      using fields_from_plain [of w "[]" "'' '' @ Join (v # va) '' '' @ newline"] by simp
  qed simp
  then show ?thesis by (simp add: Fields_def)
qed

text \<open>The words of the request line, which the helper's \<open>strings.Fields\<close> gives back.\<close>

definition request_words :: "quic_request \<Rightarrow> string list" where
  "request_words r =
     [''quic'', Addr_String (qr_BindAddr r), PortRange_String (qr_Ports r),
      Controller_String (qr_Controller r), qr_Fingerprint r]"

lemma request_words:
  assumes "request_ok r"
  shows "\<forall>w \<in> set (request_words r). w \<noteq> [] \<and> list_all plain w"
    and "parseQUICRequest (tl (request_words r)) = Inr r"
proof -
  from assms obtain w name bps where w: "qr_BindAddr r = V4 w"
    and c: "bps < 2 ^ 64" "qr_Controller r = ControllerNamed name bps"
    and fp: "fp_ok (qr_Fingerprint r)"
    by (cases "qr_BindAddr r") (auto simp: request_ok_def)
  show "\<forall>w \<in> set (request_words r). w \<noteq> [] \<and> list_all plain w"
    using fp_ok_plain [OF fp] port_string_plain controller_string_plain
    by (auto simp: request_words_def w plain_def)
  have "ParsePortRange (PortRange_String (qr_Ports r)) = Inr (qr_Ports r)"
    using assms by (intro port_parse_print) (auto simp: request_ok_def)
  moreover have "ParseController (Controller_String (qr_Controller r)) = Inr (qr_Controller r)"
    using c by (intro controller_parse_print) (auto simp: ControllerNamed_def ControllerFor_def)
  ultimately show "parseQUICRequest (tl (request_words r)) = Inr r"
    using fp w by (simp add: request_words_def parseQUICRequest_def fp_ok_def)
qed

lemma encode_words: "QUICRequest_encode r = Join (request_words r) '' '' @ newline"
  by (simp add: QUICRequest_encode_def request_words_def)

text \<open>
  The helper parses out of the client's quic line exactly the request the client made:
  the bind address, the port range, the controller and the fingerprint of the client's
  certificate.
\<close>

theorem quic_request_roundtrip:
  assumes "request_ok r"
  shows "hd (Fields (QUICRequest_encode r)) = ''quic''
       \<and> parseQUICRequest (tl (Fields (QUICRequest_encode r))) = Inr r"
proof -
  have "Fields (QUICRequest_encode r) = request_words r"
    unfolding encode_words using request_words(1) [OF assms]
    by (intro Fields_Join_newline) (simp add: request_words_def)
  then show ?thesis using request_words(2) [OF assms] by (simp add: request_words_def)
qed

theorem quic_request_roundtrip_witness:
  "let r = \<lparr>qr_BindAddr = V4 0x64400001, qr_Ports = DefaultPorts, qr_Controller = ControllerFor 0,
            qr_Fingerprint = ''sha256:'' @ replicate 64 CHR ''a''\<rparr>
   in hd (Fields (QUICRequest_encode r)) = ''quic''
      \<and> parseQUICRequest (tl (Fields (QUICRequest_encode r))) = Inr r"
  unfolding Let_def
  by (rule quic_request_roundtrip)
     (auto simp: request_ok_def DefaultPorts_def fp_ok_def checkFingerprint_def less_eq_char_def
       CutPrefix_def HasPrefix_def ControllerNamed_def list_all_iff
       intro!: exI [of _ "''bbr''"] exI [of _ 0])


lemma TrimSpace_Join_newline:
  assumes "ws \<noteq> []" "\<forall>w \<in> set ws. w \<noteq> [] \<and> list_all plain w"
  shows "TrimSpace (Join ws '' '' @ newline) = Join ws '' ''"
proof -
  have "Join ws '' '' \<noteq> [] \<and> plain (hd (Join ws '' '')) \<and> plain (last (Join ws '' ''))"
    using assms
  proof (induction ws "'' ''" rule: Join.induct)
    case (3 w v va)
    then show ?case using list_all_plain_hd_last [of w] by simp
  qed (auto simp: list_all_plain_hd_last)
  then show ?thesis by (simp add: newline_def trim_newline)
qed

lemma reply_parse_print:
  assumes "qy_Port r \<noteq> 0" "fp_ok (qy_Fingerprint r)"
  shows "parseQUICReply (QUICReply_encode r) = Inr r"
proof -
  let ?ws = "[''quic'', show_nat (unat (qy_Port r)), qy_Fingerprint r]"
  have ok: "\<forall>w \<in> set ?ws. w \<noteq> [] \<and> list_all plain w"
    using fp_ok_plain [OF assms(2)] by (simp add: plain_def)
  have t: "TrimSpace (QUICReply_encode r) = Join ?ws '' ''"
    unfolding QUICReply_encode_def by (rule TrimSpace_Join_newline [OF _ ok]) simp
  have c: "Cut (Join ?ws '' '') CHR '' ''
      = (''quic'', Join [show_nat (unat (qy_Port r)), qy_Fingerprint r] '' '', True)"
    using Cut_found [of "CHR '' ''" "''quic''"] by simp
  have f: "Fields (Join [show_nat (unat (qy_Port r)), qy_Fingerprint r] '' '')
      = [show_nat (unat (qy_Port r)), qy_Fingerprint r]"
    by (rule Fields_Join) (use ok in simp)
  have "unat (qy_Port r) < 2 ^ 16" using unsigned_less [of "qy_Port r"] by simp
  with assms show ?thesis
    by (simp add: parseQUICReply_def t c f fp_ok_def unat_eq_zero del: Join.simps)
qed

text \<open>
  The helper's positive answer, read as a line and parsed by the client, is the port
  it bound and the fingerprint of its certificate.
\<close>

theorem quic_reply_roundtrip:
  assumes "qy_Port r \<noteq> 0" "fp_ok (qy_Fingerprint r)"
  shows "parseQUICReply (QUICReply_encode r) = Inr r"
  using assms by (rule reply_parse_print)

theorem quic_reply_roundtrip_witness:
  "parseQUICReply (QUICReply_encode \<lparr>qy_Port = 7443, qy_Fingerprint = ''sha256:'' @ replicate 64 CHR ''0''\<rparr>)
     = Inr \<lparr>qy_Port = 7443, qy_Fingerprint = ''sha256:'' @ replicate 64 CHR ''0''\<rparr>"
  by (rule quic_reply_roundtrip)
     (simp_all add: fp_ok_def checkFingerprint_def CutPrefix_def HasPrefix_def list_all_iff)

lemma one_line_no_newline [simp]: "CHR 0x0A \<notin> set (one_line s)"
  by (auto simp: one_line_def)

text \<open>
  Whatever text an error of the remote carries, the helper's answers are one line: the
  only newline is the last byte, so the text cannot inject a second answer into the control
  stream, and the client never mistakes it for a positive answer.
\<close>

theorem negative_answers_are_one_line:
  "(\<exists>l. encodeUnavailable reason = l @ newline \<and> CHR 0x0A \<notin> set l)
   \<and> (\<exists>l. encodeUnlinkReply reason = l @ newline \<and> CHR 0x0A \<notin> set l)
   \<and> (\<forall>r. parseQUICReply (encodeUnavailable reason) \<noteq> Inr r)"
proof (intro conjI allI notI)
  show "\<exists>l. encodeUnavailable reason = l @ newline \<and> CHR 0x0A \<notin> set l"
    by (intro exI [of _ "''quic-unavailable '' @ one_line reason"]) (simp add: encodeUnavailable_def)
  show "\<exists>l. encodeUnlinkReply reason = l @ newline \<and> CHR 0x0A \<notin> set l"
    by (intro exI [of _ "''unlink '' @ one_line reason"]) (simp add: encodeUnlinkReply_def)
next
  fix r assume r: "parseQUICReply (encodeUnavailable reason) = Inr r"
  obtain t where t: "prefix t (CHR '' '' # one_line reason @ newline)"
    "TrimSpace (encodeUnavailable reason) = ''quic-unavailable'' @ t"
    using TrimSpace_word [of "''quic-unavailable''" "CHR '' '' # one_line reason @ newline"]
    by (auto simp: encodeUnavailable_def plain_def)
  have "fst (Cut (''quic-unavailable'' @ t) CHR '' '') = ''quic-unavailable''"
    using t(1) by (cases t) (auto split: prod.splits)
  then show False using r
    by (auto simp: parseQUICReply_def t(2) split: prod.splits if_splits)
qed

end
