(* ===== verification/Helper_Server.thy ===== *)
theory Helper_Server
  imports Negotiate
begin

text \<open>
  The helper side of the mux, \<open>internal/mux/server.go\<close> and \<open>internal/mux/quic_server.go\<close>:
  the dispatch on the kind byte, the control loop, and the QUIC listener it starts and
  stops. What the helper asks of the operating system and of the QUIC library is the record
  \<open>env\<close>, one per control line, so that every answer may differ from line to line.
\<close>

section \<open>Dispatch\<close>

datatype stream_action =
  ActControl bytes | ActTCP bytes | ActUDP bytes | ActICMP bytes | ActBench bytes | ActProbe | ActClose

definition handle :: "bytes \<Rightarrow> stream_action" where
  "handle stream =
     (case ReadFull 1 stream of
        Inl _ \<Rightarrow> ActClose
      | Inr (kind, r) \<Rightarrow>
          if kind ! 0 = 0 then ActControl r
          else if kind ! 0 = 1 then ActTCP r
          else if kind ! 0 = 2 then ActUDP r
          else if kind ! 0 = 4 then ActICMP r
          else if kind ! 0 = 5 then ActBench r
          else ActClose)"

definition handleFlow :: "bytes \<Rightarrow> stream_action" where
  "handleFlow stream =
     (case ReadFull 1 stream of
        Inl _ \<Rightarrow> ActClose
      | Inr (kind, r) \<Rightarrow>
          if kind ! 0 = 1 then ActTCP r
          else if kind ! 0 = 2 then ActUDP r
          else if kind ! 0 = 4 then ActICMP r
          else if kind ! 0 = 3 then ActProbe
          else if kind ! 0 = 5 then ActBench r
          else ActClose)"

text \<open>The bytes \<open>openStream\<close> of the client writes on a new stream.\<close>

definition openStream :: "byte \<Rightarrow> addr_port \<Rightarrow> bytes" where
  "openStream kind dst = [kind] @ writeDest dst"


section \<open>The QUIC listener\<close>

record listener =
  ln_bind :: addr
  ln_port :: "16 word"
  ln_client_fp :: string
  ln_ctl :: controller

record server =
  sv_quic :: "listener option"
  sv_stopped :: bool

datatype start_error = ListenerExists | CertificateFailed | NoFreePort port_range | ListenFailed

record env =
  env_cert :: "string option"
  env_free :: "addr \<Rightarrow> nat \<Rightarrow> bool"
  env_listen :: bool
  env_unlink :: "string option"
  env_echo :: echo_socket_info
  env_write :: bool
  env_request_text :: "negotiate_error \<Rightarrow> string"
  env_start_text :: "start_error \<Rightarrow> string"

function bind_from :: "(nat \<Rightarrow> bool) \<Rightarrow> nat \<Rightarrow> nat \<Rightarrow> nat option" where
  "bind_from free p hi =
     (if p \<le> hi then (if free p then Some p else bind_from free (Suc p) hi) else None)"
  by pat_completeness auto
termination
  by (relation "measure (\<lambda>(free, p, hi). Suc hi - p)") auto

declare bind_from.simps [simp del]

definition bindInRange :: "env \<Rightarrow> addr \<Rightarrow> port_range \<Rightarrow> start_error + 16 word" where
  "bindInRange e ip ports =
     (case bind_from (env_free e ip) (unat (pr_First ports)) (unat (pr_Last ports)) of
        Some p \<Rightarrow> Inr (word_of_nat p)
      | None \<Rightarrow> Inl (NoFreePort ports))"

definition startQUIC :: "env \<Rightarrow> quic_request \<Rightarrow> server \<Rightarrow> (start_error + quic_reply) \<times> server" where
  "startQUIC e req s =
     (if sv_quic s \<noteq> None then (Inl ListenerExists, s)
      else case env_cert e of
        None \<Rightarrow> (Inl CertificateFailed, s)
      | Some fp \<Rightarrow>
          (case bindInRange e (qr_BindAddr req) (qr_Ports req) of
             Inl err \<Rightarrow> (Inl err, s)
           | Inr port \<Rightarrow>
               if \<not> env_listen e then (Inl ListenFailed, s)
               else (Inr \<lparr>qy_Port = port, qy_Fingerprint = fp\<rparr>,
                     s\<lparr>sv_quic := Some \<lparr>ln_bind = qr_BindAddr req, ln_port = port,
                                        ln_client_fp = qr_Fingerprint req,
                                        ln_ctl = qr_Controller req\<rparr>\<rparr>)))"

definition stopQUIC :: "server \<Rightarrow> server" where
  "stopQUIC s = s\<lparr>sv_quic := None\<rparr>"


section \<open>The control loop\<close>

definition answerUnlink :: "env \<Rightarrow> string" where
  "answerUnlink e =
     (case env_unlink e of Some err \<Rightarrow> encodeUnlinkReply err | None \<Rightarrow> encodeUnlinkReply ''ok'')"

definition answerQUIC :: "env \<Rightarrow> string list \<Rightarrow> server \<Rightarrow> string \<times> server" where
  "answerQUIC e flds s =
     (case parseQUICRequest flds of
        Inl err \<Rightarrow> (encodeUnavailable (env_request_text e err), s)
      | Inr req \<Rightarrow>
          (case startQUIC e req s of
             (Inl err, s') \<Rightarrow> (encodeUnavailable (env_start_text e err), s')
           | (Inr reply, s') \<Rightarrow> (QUICReply_encode reply, s')))"

text \<open>
  One line of the loop: the line's answer, if it has one, the new state, and whether the
  loop goes on. A failed write ends the loop after the state change.
\<close>

definition control_line :: "env \<Rightarrow> string \<Rightarrow> server \<Rightarrow> string option \<times> server \<times> bool" where
  "control_line e line s =
     (case Fields line of
        [] \<Rightarrow> (None, s, True)
      | verb # flds \<Rightarrow>
          if verb = ''quit'' then (None, (stopQUIC s)\<lparr>sv_stopped := True\<rparr>, False)
          else if verb = ''quic'' then
            (case answerQUIC e flds s of (a, s') \<Rightarrow> (Some a, s', env_write e))
          else if verb = ''quic-abandon'' then (None, stopQUIC s, True)
          else if verb = ''icmp'' then (Some (EchoSocketInfo_encode (env_echo e)), s, env_write e)
          else if verb = ''unlink'' then (Some (answerUnlink e), s, env_write e)
          else (None, s, True))"

lemma readLine_loop_shorter: "readLine_loop limit buf r = Inr (l, r') \<Longrightarrow> length r' < length r"
  by (induction limit buf r rule: readLine_loop.induct) (auto split: if_splits)

lemma readLine_shorter: "readLine r limit = Inr (l, r') \<Longrightarrow> length r' < length r"
  by (simp add: readLine_def readLine_loop_shorter)

function control_loop :: "(nat \<Rightarrow> env) \<Rightarrow> nat \<Rightarrow> bytes \<Rightarrow> server \<Rightarrow> string list \<times> server" where
  "control_loop ev k r s =
     (case readLine r maxLineLen of
        Inl _ \<Rightarrow> ([], s)
      | Inr (line, r') \<Rightarrow>
          (case control_line (ev k) (bytes_str line) s of (a, s', go) \<Rightarrow>
             (let out = (case a of None \<Rightarrow> [] | Some x \<Rightarrow> [x]) in
              if go then (case control_loop ev (Suc k) r' s' of (out', s'') \<Rightarrow> (out @ out', s''))
              else (out, s'))))"
  by pat_completeness auto
termination
  by (relation "measure (\<lambda>(ev, k, r, s). length r)") (auto dest: readLine_shorter)

declare control_loop.simps [simp del]

text \<open>\<open>Serve\<close> closes the listener when the control stream or the transport ends.\<close>

definition serve_control :: "(nat \<Rightarrow> env) \<Rightarrow> bytes \<Rightarrow> string list \<times> server" where
  "serve_control ev input =
     (case control_loop ev 0 input \<lparr>sv_quic = None, sv_stopped = False\<rparr> of
        (out, s) \<Rightarrow> (out, stopQUIC s))"


section \<open>The accepted connection\<close>

text \<open>
  \<open>verifyPinned\<close> and \<open>helperTLSConfig\<close>: the fingerprint of the first certificate must be
  the pinned one, and no handshake passes once a connection was accepted. \<open>fp\<close> is
  \<open>fingerprint\<close>, the SHA-256 digest of the certificate in hex.
\<close>

datatype tls_error = NoPeerCertificate | FingerprintMismatch | ConnectionExists

definition verifyPinned :: "('cert \<Rightarrow> string) \<Rightarrow> string \<Rightarrow> 'cert list \<Rightarrow> tls_error option" where
  "verifyPinned fp want rawCerts =
     (case rawCerts of
        [] \<Rightarrow> Some NoPeerCertificate
      | c # _ \<Rightarrow> if fp c \<noteq> want then Some FingerprintMismatch else None)"

definition helperVerify :: "('cert \<Rightarrow> string) \<Rightarrow> string \<Rightarrow> bool \<Rightarrow> 'cert list \<Rightarrow> tls_error option" where
  "helperVerify fp clientFP accepted rawCerts =
     (if accepted then Some ConnectionExists else verifyPinned fp clientFP rawCerts)"

text \<open>
  The listener between handshakes: the connections that finished the handshake and wait
  for \<open>Accept\<close>, and the one connection \<open>serveQUIC\<close> took.
\<close>

record 'cert quic_conns =
  qc_accepted :: bool
  qc_pending :: "'cert list list"
  qc_conn :: "'cert list option"

inductive quic_step :: "('cert \<Rightarrow> string) \<Rightarrow> string \<Rightarrow> 'cert quic_conns \<Rightarrow> 'cert quic_conns \<Rightarrow> bool"
  for fp :: "'cert \<Rightarrow> string" and pin :: string where
  handshake: "helperVerify fp pin (qc_accepted q) certs = None \<Longrightarrow>
     quic_step fp pin q (q\<lparr>qc_pending := qc_pending q @ [certs]\<rparr>)"
| refused: "helperVerify fp pin (qc_accepted q) certs = Some err \<Longrightarrow> quic_step fp pin q q"
| accept: "qc_conn q = None \<Longrightarrow> qc_pending q = c # rest \<Longrightarrow>
     quic_step fp pin q (q\<lparr>qc_accepted := True, qc_pending := rest, qc_conn := Some c\<rparr>)"

definition quic_init :: "'cert quic_conns" where
  "quic_init = \<lparr>qc_accepted = False, qc_pending = [], qc_conn = None\<rparr>"



section \<open>Dispatch meets the client's streams\<close>

text \<open>
  The helper routes a stream the client opens to the handler of its kind with exactly
  the destination the client wrote; on the QUIC transport the control kind is refused and
  on the SSH transport the probe kind is.
\<close>

theorem dispatch_agrees:
  "handle (openStream 1 dst @ r) = ActTCP (writeDest dst @ r)
   \<and> handle (openStream 2 dst @ r) = ActUDP (writeDest dst @ r)
   \<and> handle (openStream 4 dst @ r) = ActICMP (writeDest dst @ r)
   \<and> handleFlow (openStream 1 dst @ r) = ActTCP (writeDest dst @ r)
   \<and> handleFlow (openStream 2 dst @ r) = ActUDP (writeDest dst @ r)
   \<and> handleFlow (openStream 4 dst @ r) = ActICMP (writeDest dst @ r)
   \<and> handleFlow (0 # r) = ActClose \<and> handle (3 # r) = ActClose"
  by (simp add: handle_def handleFlow_def openStream_def ReadFull_def)


section \<open>The port of the listener\<close>

lemma bind_from_Some:
  "bind_from free p hi = Some q \<Longrightarrow> p \<le> q \<and> q \<le> hi \<and> free q \<and> (\<forall>j. p \<le> j \<and> j < q \<longrightarrow> \<not> free j)"
proof (induction free p hi rule: bind_from.induct)
  case (1 free p hi)
  show ?case
  proof (cases "p \<le> hi \<and> \<not> free p")
    case True
    with "1.prems" have "bind_from free (Suc p) hi = Some q" by (simp add: bind_from.simps [of free p])
    with 1 True have "Suc p \<le> q \<and> q \<le> hi \<and> free q \<and> (\<forall>j. Suc p \<le> j \<and> j < q \<longrightarrow> \<not> free j)" by simp
    with True show ?thesis by (metis Suc_leD Suc_leI le_neq_implies_less)
  next
    case False
    with "1.prems" show ?thesis by (auto simp: bind_from.simps [of free p] split: if_splits)
  qed
qed

lemma bind_from_None: "bind_from free p hi = None \<longleftrightarrow> (\<forall>j. p \<le> j \<and> j \<le> hi \<longrightarrow> \<not> free j)"
proof (induction free p hi rule: bind_from.induct)
  case (1 free p hi)
  show ?case
  proof (cases "p \<le> hi \<and> \<not> free p")
    case True
    with 1 have "bind_from free (Suc p) hi = None \<longleftrightarrow> (\<forall>j. Suc p \<le> j \<and> j \<le> hi \<longrightarrow> \<not> free j)" by simp
    with True show ?thesis
      by (simp add: bind_from.simps [of free p]) (metis Suc_leD Suc_leI le_neq_implies_less)
  next
    case False
    then show ?thesis by (auto simp: bind_from.simps [of free p])
  qed
qed

lemma bindInRange_cases:
  "(case bindInRange e ip ports of
      Inr p \<Rightarrow> PortRange_Contains ports p \<and> env_free e ip (unat p)
               \<and> (\<forall>q. PortRange_Contains ports q \<and> q < p \<longrightarrow> \<not> env_free e ip (unat q))
    | Inl err \<Rightarrow> err = NoFreePort ports
               \<and> (\<forall>q. PortRange_Contains ports q \<longrightarrow> \<not> env_free e ip (unat q)))"
proof (cases "bind_from (env_free e ip) (unat (pr_First ports)) (unat (pr_Last ports))")
  case None
  with bind_from_None [THEN iffD1, OF None] show ?thesis
    by (auto simp: bindInRange_def PortRange_Contains_def word_le_nat_alt)
next
  case (Some p)
  note b = bind_from_Some [OF Some]
  have "unat (pr_Last ports) < 65536" using unsigned_less [of "pr_Last ports"] by simp
  with b have "unat (word_of_nat p :: 16 word) = p" by (simp add: unat_of_nat)
  with b Some show ?thesis
    by (auto simp: bindInRange_def PortRange_Contains_def word_le_nat_alt word_less_nat_alt)
qed

lemma bindInRange_total:
  assumes "PortRange_Contains ports q" "env_free e ip (unat q)"
  shows "\<exists>p. bindInRange e ip ports = Inr p \<and> PortRange_Contains ports p \<and> env_free e ip (unat p)"
  using bindInRange_cases [where e = e and ip = ip and ports = ports] assms by (auto split: sum.splits)

text \<open>
  C25: \<open>bindInRange\<close> terminates and is complete: it returns the lowest free port of the
  range, and fails exactly when the range has no free port.
\<close>

theorem bindInRange_first_free:
  "(case bindInRange e ip ports of
      Inr p \<Rightarrow> PortRange_Contains ports p \<and> env_free e ip (unat p)
               \<and> (\<forall>q. PortRange_Contains ports q \<and> q < p \<longrightarrow> \<not> env_free e ip (unat q))
    | Inl err \<Rightarrow> err = NoFreePort ports
               \<and> (\<forall>q. PortRange_Contains ports q \<longrightarrow> \<not> env_free e ip (unat q)))"
  by (rule bindInRange_cases)

theorem bindInRange_first_free_witness:
  "\<exists>p. bindInRange \<lparr>env_cert = None, env_free = (\<lambda>_ p. p = 7445), env_listen = True, env_unlink = None,
         env_echo = \<lparr>es_Socket = ''none'', es_PingGroupRange = []\<rparr>, env_write = True,
         env_request_text = (\<lambda>_. []), env_start_text = (\<lambda>_. [])\<rparr> (V4 1) DefaultPorts = Inr p
       \<and> unat p = 7445"
  (is "\<exists>p. bindInRange ?e _ _ = _ \<and> _")
proof -
  have "PortRange_Contains DefaultPorts 7445 \<and> env_free ?e (V4 1) (unat (7445 :: 16 word))"
    by (simp add: DefaultPorts_def PortRange_Contains_def)
  then show ?thesis
    using bindInRange_first_free [where e = ?e and ip = "V4 1" and ports = DefaultPorts]
    by (cases "bindInRange ?e (V4 1) DefaultPorts") auto
qed



section \<open>Negotiation over the control stream\<close>

lemma hex_lengths: "fp_ok s \<Longrightarrow> length s = 71"
  by (auto simp: fp_ok_def checkFingerprint_def CutPrefix_def HasPrefix_iff split: if_splits)

lemma length_Join: "length (Join ws '' '') \<le> sum_list (map length ws) + length ws"
  by (induction ws "'' ''" rule: Join.induct) auto

lemma length_port_string: "length (show_nat (unat (p :: 16 word))) \<le> 5"
proof (rule length_show_nat)
  have "unat p < 65536" using unsigned_less [of p] by simp
  then show "unat p < 10 ^ 5" by simp
qed simp

lemma length_show_v4: "length (show_v4 w) \<le> 15"
proof -
  have b: "length (show_nat (unat (x :: byte))) \<le> 3" for x
    using le_less_trans [OF unat_byte_le [of x], of 1000] by (intro length_show_nat) simp_all
  obtain a b c d where "As4 w = [a, b, c, d]" by (rule length_4E [OF length_As4])
  then show ?thesis using b [of a] b [of b] b [of c] b [of d] by (simp add: show_v4_def)
qed

lemma length_controller_string: "bps < 2 ^ 64 \<Longrightarrow> length (Controller_String (ControllerNamed name bps)) \<le> 27"
  using length_show_nat [of 20 bps]
  by (simp add: Controller_String_def ControllerNamed_def ControllerFor_def)

text \<open>The request line always fits the helper's line limit and has no newline inside.\<close>

lemma plain_byte:
  assumes "plain ch \<or> ch = CHR '' ''"
  shows "word_of_nat (of_char ch) \<noteq> (10 :: byte)" "word_of_nat (of_char ch) \<noteq> (13 :: byte)"
proof -
  have "unat (word_of_nat (of_char ch) :: byte) = of_char ch"
    using of_char_mod_256 [of ch, where 'a = nat] by (simp add: unat_byte_of_nat)
  moreover have "of_char ch \<noteq> (10 :: nat) \<and> of_char ch \<noteq> (13 :: nat)"
    using assms by (auto simp: plain_def)
  ultimately show "word_of_nat (of_char ch) \<noteq> (10 :: byte)" "word_of_nat (of_char ch) \<noteq> (13 :: byte)"
    by auto
qed

lemma line_ok_words:
  assumes "\<forall>w \<in> set ws. list_all plain w" "length (Join ws '' '') \<le> maxLineLen"
  shows "line_ok (str_bytes (Join ws '' ''))"
proof -
  have "list_all (\<lambda>ch. plain ch \<or> ch = CHR '' '') (Join ws '' '')"
    using assms(1) by (intro list_all_Join) (auto simp: list_all_iff)
  then have *: "b \<noteq> 10 \<and> b \<noteq> 13" if "b \<in> set (str_bytes (Join ws '' ''))" for b
    using that plain_byte by (auto simp: list_all_iff str_bytes_def)
  have "last (str_bytes (Join ws '' '')) \<noteq> 13" if "str_bytes (Join ws '' '') \<noteq> []"
    using * [OF last_in_set [OF that]] by simp
  with * assms(2) show ?thesis by (auto simp: line_ok_def)
qed

lemma request_line_ok:
  assumes "request_ok r"
  shows "line_ok (str_bytes (Join (request_words r) '' ''))"
proof (rule line_ok_words)
  from assms obtain w name bps where w: "qr_BindAddr r = V4 w"
    and c: "bps < 2 ^ 64" "qr_Controller r = ControllerNamed name bps" and fp: "fp_ok (qr_Fingerprint r)"
    by (cases "qr_BindAddr r") (auto simp: request_ok_def)
  have "length (PortRange_String (qr_Ports r)) \<le> 11"
    using length_port_string [of "pr_First (qr_Ports r)"] length_port_string [of "pr_Last (qr_Ports r)"]
    by (simp add: PortRange_String_def)
  then show "length (Join (request_words r) '' '') \<le> maxLineLen"
    using length_Join [of "request_words r"] length_show_v4 [of w]
      length_controller_string [OF c(1), of name] hex_lengths [OF fp]
    by (simp add: request_words_def w c(2) maxLineLen_def)
qed (use request_words(1) [OF assms] in blast)

lemma control_loop_line:
  assumes "line_ok l"
  shows "control_loop ev k (l @ 10 # r) s =
    (case control_line (ev k) (bytes_str l) s of (a, s', go) \<Rightarrow>
       (let out = (case a of None \<Rightarrow> [] | Some x \<Rightarrow> [x]) in
        if go then (case control_loop ev (Suc k) r s' of (out', s'') \<Rightarrow> (out @ out', s'')) else (out, s')))"
  by (subst control_loop.simps) (simp add: readLine_line [OF assms])

lemma str_bytes_newline: "str_bytes [CHR 0x0A] = [10]"
  by (simp add: str_bytes_def)

lemma control_loop_Nil: "control_loop ev k [] x = ([], x)"
  by (subst control_loop.simps) (simp add: readLine_def)

lemma negotiation_answer:
  assumes r: "request_ok r" and s: "sv_quic s = None"
    and e: "env_cert (ev k) = Some fp" "fp_ok fp" "env_listen (ev k)"
    and free: "PortRange_Contains (qr_Ports r) q" "env_free (ev k) (qr_BindAddr r) (unat q)"
  shows "\<exists>p. PortRange_Contains (qr_Ports r) p \<and> env_free (ev k) (qr_BindAddr r) (unat p)
    \<and> parseQUICReply (hd (fst (control_loop ev k (str_bytes (QUICRequest_encode r)) s)))
        = Inr \<lparr>qy_Port = p, qy_Fingerprint = fp\<rparr>
    \<and> sv_quic (snd (control_loop ev k (str_bytes (QUICRequest_encode r)) s))
        = Some \<lparr>ln_bind = qr_BindAddr r, ln_port = p, ln_client_fp = qr_Fingerprint r,
                ln_ctl = qr_Controller r\<rparr>"
proof -
  from bindInRange_total [OF free] obtain p where p: "bindInRange (ev k) (qr_BindAddr r) (qr_Ports r) = Inr p"
    and pc: "PortRange_Contains (qr_Ports r) p" "env_free (ev k) (qr_BindAddr r) (unat p)" by blast
  have p0: "p \<noteq> 0" using r pc(1) by (auto simp: request_ok_def PortRange_Contains_def)
  let ?s' = "s\<lparr>sv_quic := Some \<lparr>ln_bind = qr_BindAddr r, ln_port = p,
                ln_client_fp = qr_Fingerprint r, ln_ctl = qr_Controller r\<rparr>\<rparr>"
  let ?reply = "QUICReply_encode \<lparr>qy_Port = p, qy_Fingerprint = fp\<rparr>"
  have f: "Fields (Join (request_words r) '' '') = request_words r"
    using request_words(1) [OF r] by (rule Fields_Join)
  have "control_line (ev k) (Join (request_words r) '' '') s = (Some ?reply, ?s', env_write (ev k))"
    using request_words(2) [OF r] s e p
    by (simp add: control_line_def f) (simp add: request_words_def answerQUIC_def startQUIC_def)
  then have "control_loop ev k (str_bytes (QUICRequest_encode r)) s = ([?reply], ?s')"
    using control_loop_line [OF request_line_ok [OF r], of ev k "[]" s]
    by (simp add: encode_words newline_def str_bytes_newline control_loop_Nil Let_def)
  moreover have "parseQUICReply ?reply = Inr \<lparr>qy_Port = p, qy_Fingerprint = fp\<rparr>"
    using p0 e(2) by (simp add: reply_parse_print)
  ultimately show ?thesis using pc by auto
qed

text \<open>
  C2: the negotiation works end to end. When the client writes its request line on the
  control stream of a helper that has no listener and has a free port in the range, the
  first answer parses at the client to a port of the requested range that was free, the
  helper listens on that port of the requested address with the client's certificate
  pinned, and the client learns the fingerprint of the helper's certificate.
\<close>

theorem negotiation_end_to_end:
  assumes r: "request_ok r" and s: "sv_quic s = None"
    and e: "env_cert (ev k) = Some fp" "fp_ok fp" "env_listen (ev k)"
    and free: "PortRange_Contains (qr_Ports r) q" "env_free (ev k) (qr_BindAddr r) (unat q)"
  shows "\<exists>p. PortRange_Contains (qr_Ports r) p \<and> env_free (ev k) (qr_BindAddr r) (unat p)
    \<and> parseQUICReply (hd (fst (control_loop ev k (str_bytes (QUICRequest_encode r)) s)))
        = Inr \<lparr>qy_Port = p, qy_Fingerprint = fp\<rparr>
    \<and> sv_quic (snd (control_loop ev k (str_bytes (QUICRequest_encode r)) s))
        = Some \<lparr>ln_bind = qr_BindAddr r, ln_port = p, ln_client_fp = qr_Fingerprint r,
                ln_ctl = qr_Controller r\<rparr>"
  using assms by (rule negotiation_answer)


definition example_request :: quic_request where
  "example_request = \<lparr>qr_BindAddr = V4 0x64400001, qr_Ports = DefaultPorts,
     qr_Controller = ControllerNamed ''bbr'' 0, qr_Fingerprint = ''sha256:'' @ replicate 64 CHR ''a''\<rparr>"

definition example_env :: env where
  "example_env = \<lparr>env_cert = Some (''sha256:'' @ replicate 64 CHR ''b''), env_free = (\<lambda>_ p. p = 7445),
     env_listen = True, env_unlink = None, env_echo = \<lparr>es_Socket = ''none'', es_PingGroupRange = []\<rparr>,
     env_write = True, env_request_text = (\<lambda>_. []), env_start_text = (\<lambda>_. [])\<rparr>"

lemma example_fp: "c = CHR ''a'' \<or> c = CHR ''b'' \<Longrightarrow> fp_ok (''sha256:'' @ replicate 64 c)"
  by (auto simp: fp_ok_def checkFingerprint_def CutPrefix_def HasPrefix_def list_all_iff less_eq_char_def)

lemma example_request_ok: "request_ok example_request"
  using example_fp [of "CHR ''a''"]
  by (auto simp: request_ok_def example_request_def DefaultPorts_def
      intro!: exI [of _ "''bbr''"] exI [of _ 0])

lemma example_listens:
  "\<exists>l. sv_quic (snd (control_loop (\<lambda>_. example_env) 0 (str_bytes (QUICRequest_encode example_request))
        \<lparr>sv_quic = None, sv_stopped = False\<rparr>)) = Some l"
  using negotiation_answer [of example_request "\<lparr>sv_quic = None, sv_stopped = False\<rparr>"
      "\<lambda>_. example_env" 0 "''sha256:'' @ replicate 64 CHR ''b''" 7445]
    example_request_ok example_fp [of "CHR ''b''"]
  by (auto simp: example_env_def example_request_def DefaultPorts_def PortRange_Contains_def)

theorem negotiation_end_to_end_witness:
  "\<exists>p. PortRange_Contains DefaultPorts p \<and> unat p = 7445
    \<and> sv_quic (snd (control_loop (\<lambda>_. example_env) 0 (str_bytes (QUICRequest_encode example_request))
        \<lparr>sv_quic = None, sv_stopped = False\<rparr>))
      = Some \<lparr>ln_bind = V4 0x64400001, ln_port = p, ln_client_fp = ''sha256:'' @ replicate 64 CHR ''a'',
              ln_ctl = ControllerNamed ''bbr'' 0\<rparr>"
  using negotiation_end_to_end [of example_request "\<lparr>sv_quic = None, sv_stopped = False\<rparr>"
      "\<lambda>_. example_env" 0 "''sha256:'' @ replicate 64 CHR ''b''" 7445]
    example_request_ok example_fp [of "CHR ''b''"]
  by (auto simp: example_env_def example_request_def DefaultPorts_def PortRange_Contains_def)


section \<open>Invariants of the control loop\<close>

text \<open>Every listener was asked for by a request that parsed.\<close>

definition server_inv :: "server \<Rightarrow> bool" where
  "server_inv s \<longleftrightarrow> (case sv_quic s of None \<Rightarrow> True
     | Some l \<Rightarrow> ln_port l \<noteq> 0 \<and> fp_ok (ln_client_fp l) \<and> ln_bind l \<noteq> AddrZero)"

lemma parsed_ports_pos: "ParsePortRange s = Inr r \<Longrightarrow> \<not> PortRange_Contains r 0"
  using ports_pos [of s r] by (auto simp: PortRange_Contains_def)

lemma parseQUICRequest_facts:
  "parseQUICRequest flds = Inr req \<Longrightarrow>
   qr_BindAddr req \<noteq> AddrZero \<and> fp_ok (qr_Fingerprint req) \<and> (\<exists>s. ParsePortRange s = Inr (qr_Ports req))"
  by (auto simp: parseQUICRequest_def fp_ok_def dest: ParseAddr_valid
      split: if_splits option.splits sum.splits)

lemma startQUIC_inv:
  assumes "server_inv s" "parseQUICRequest flds = Inr req" "startQUIC e req s = (a, s')"
  shows "server_inv s'"
  using assms parseQUICRequest_facts [OF assms(2)]
    bindInRange_cases [where e = e and ip = "qr_BindAddr req" and ports = "qr_Ports req"]
  by (auto simp: startQUIC_def server_inv_def parsed_ports_pos
      split: if_splits option.splits sum.splits)

lemma control_line_inv:
  assumes "server_inv s" "control_line e line s = (a, s', go)"
  shows "server_inv s'"
  using assms
  by (auto simp: control_line_def answerQUIC_def stopQUIC_def dest: startQUIC_inv
      split: list.splits if_splits sum.splits prod.splits)
     (auto simp: server_inv_def)

lemma control_loop_inv: "server_inv s \<Longrightarrow> server_inv (snd (control_loop ev k r s))"
proof (induction ev k r s rule: control_loop.induct)
  case (1 ev k r s)
  show ?case
  proof (cases "readLine r maxLineLen")
    case (Inl err)
    then show ?thesis using "1.prems" by (simp add: control_loop.simps [of ev k r])
  next
    case (Inr lr)
    obtain line r' where lr: "lr = (line, r')" by (cases lr)
    obtain a s' go where c: "control_line (ev k) (bytes_str line) s = (a, s', go)"
      by (metis prod_cases3)
    have s': "server_inv s'" using control_line_inv [OF "1.prems" c] .
    show ?thesis
    proof (cases go)
      case True
      then have "server_inv (snd (control_loop ev (Suc k) r' s'))"
        using "1.IH" [OF Inr lr [symmetric] c [symmetric] refl refl _ s'] by simp
      with True show ?thesis
        by (auto simp: control_loop.simps [of ev k r] Inr lr c split: prod.splits)
    next
      case False
      with s' show ?thesis by (simp add: control_loop.simps [of ev k r] Inr lr c)
    qed
  qed
qed

lemma control_loop_listener:
  assumes "sv_quic (snd (control_loop ev 0 input \<lparr>sv_quic = None, sv_stopped = False\<rparr>)) = Some l"
  shows "ln_port l \<noteq> 0 \<and> fp_ok (ln_client_fp l) \<and> ln_bind l \<noteq> AddrZero"
  using control_loop_inv [of "\<lparr>sv_quic = None, sv_stopped = False\<rparr>" ev 0 input] assms
  by (simp add: server_inv_def)

text \<open>
  At every moment of a control session the helper's listener, if there is one, is bound
  to a real address and a non-zero port and pins a well-formed client fingerprint, whatever
  bytes the client sends and however the operating system answers.
\<close>

theorem listener_well_formed:
  assumes "sv_quic (snd (control_loop ev 0 input \<lparr>sv_quic = None, sv_stopped = False\<rparr>)) = Some l"
  shows "ln_port l \<noteq> 0 \<and> fp_ok (ln_client_fp l) \<and> ln_bind l \<noteq> AddrZero"
  using assms by (rule control_loop_listener)

theorem listener_well_formed_witness:
  "\<exists>p. sv_quic (snd (control_loop (\<lambda>_. example_env) 0 (str_bytes (QUICRequest_encode example_request))
        \<lparr>sv_quic = None, sv_stopped = False\<rparr>)) = Some p \<and> ln_port p \<noteq> 0"
proof -
  let ?c = "control_loop (\<lambda>_. example_env) 0 (str_bytes (QUICRequest_encode example_request))
        \<lparr>sv_quic = None, sv_stopped = False\<rparr>"
  obtain l where l: "sv_quic (snd ?c) = Some l"
    using example_listens by blast
  with listener_well_formed [OF l] show ?thesis by blast
qed


section \<open>Who the helper serves over QUIC\<close>

inductive_cases quic_stepE: "quic_step fp pin q q'"

definition quic_inv :: "('cert \<Rightarrow> string) \<Rightarrow> string \<Rightarrow> 'cert quic_conns \<Rightarrow> bool" where
  "quic_inv fp pin q \<longleftrightarrow>
     list_all (\<lambda>cs. verifyPinned fp pin cs = None) (qc_pending q)
     \<and> (case qc_conn q of None \<Rightarrow> \<not> qc_accepted q
        | Some cs \<Rightarrow> qc_accepted q \<and> verifyPinned fp pin cs = None)"

lemma quic_step_inv: "quic_step fp pin q q' \<Longrightarrow> quic_inv fp pin q \<Longrightarrow> quic_inv fp pin q'"
  by (erule quic_stepE) (auto simp: quic_inv_def helperVerify_def split: option.splits if_splits)

lemma quic_inv_init: "quic_inv fp pin quic_init"
  by (simp add: quic_init_def quic_inv_def)

lemma quic_reach_inv: "(quic_step fp pin)\<^sup>*\<^sup>* quic_init q \<Longrightarrow> quic_inv fp pin q"
  by (induction rule: rtranclp_induct) (auto intro: quic_step_inv quic_inv_init)

lemma quic_step_conn: "quic_step fp pin q q' \<Longrightarrow> qc_conn q = Some cs \<Longrightarrow> qc_conn q' = Some cs"
  by (erule quic_stepE) auto

lemma quic_steps_conn:
  "(quic_step fp pin)\<^sup>*\<^sup>* q q' \<Longrightarrow> qc_conn q = Some cs \<Longrightarrow> qc_conn q' = Some cs"
  by (induction rule: rtranclp_induct) (auto dest: quic_step_conn)

text \<open>
  C19: in every reachable state of a listener, the connection the helper serves presented a
  certificate with the pinned fingerprint, it is never replaced by a later one, and no
  further handshake passes whatever certificates the peer shows.
\<close>

theorem served_connection_pinned:
  assumes "(quic_step fp pin)\<^sup>*\<^sup>* quic_init q" "qc_conn q = Some cs"
  shows "(\<exists>c rest. cs = c # rest \<and> fp c = pin)
    \<and> (\<forall>q'. (quic_step fp pin)\<^sup>*\<^sup>* q q' \<longrightarrow> qc_conn q' = Some cs)
    \<and> (\<forall>certs. helperVerify fp pin (qc_accepted q) certs = Some ConnectionExists)"
  using quic_reach_inv [OF assms(1)] assms(2) quic_steps_conn [of fp pin q _ cs]
  by (auto simp: quic_inv_def verifyPinned_def helperVerify_def split: list.splits if_splits)

theorem served_connection_pinned_witness:
  "(quic_step id ''p'')\<^sup>*\<^sup>* quic_init
     \<lparr>qc_accepted = True, qc_pending = [], qc_conn = Some [''p'']\<rparr>
   \<and> helperVerify id ''p'' True [''p''] = Some ConnectionExists"
proof -
  let ?q1 = "\<lparr>qc_accepted = False, qc_pending = [[''p'']], qc_conn = None\<rparr>"
  let ?q2 = "\<lparr>qc_accepted = True, qc_pending = [], qc_conn = Some [''p'']\<rparr>"
  have "quic_step id ''p'' quic_init ?q1"
    using quic_step.handshake [of id "''p''" quic_init "[''p'']"]
    by (simp add: quic_init_def helperVerify_def verifyPinned_def)
  moreover have "quic_step id ''p'' ?q1 ?q2"
    using quic_step.accept [of ?q1 "[''p'']" "[]" id "''p''"] by simp
  ultimately have r: "(quic_step id ''p'')\<^sup>*\<^sup>* quic_init ?q2" by simp
  with served_connection_pinned [OF r] show ?thesis by simp
qed

end
