(* ===== verification/Ring_Buffer.thy ===== *)
theory Ring_Buffer
  imports Prelude
begin

text \<open>
  The growable ring buffer of \<open>internal/congestion/bbr/ringbuffer.go\<close>. A panic of the source,
  explicit or an index out of range, is \<open>None\<close>. \<open>zero\<close> is the zero value of the element type.
  The locale \<open>deque\<close> is what the clients of the buffer rely on; \<open>rb\<close> interprets it.
\<close>

section \<open>The double-ended queue its clients see\<close>

locale deque =
  fixes inv :: "'q \<Rightarrow> bool"
    and abs :: "'q \<Rightarrow> 'a list"
    and push :: "'q \<Rightarrow> 'a \<Rightarrow> 'q option"
    and pop :: "'q \<Rightarrow> ('a \<times> 'q) option"
    and len :: "'q \<Rightarrow> nat"
  assumes push_law: "inv q \<Longrightarrow> \<exists>q'. push q x = Some q' \<and> inv q' \<and> abs q' = abs q @ [x]"
    and pop_empty: "inv q \<Longrightarrow> abs q = [] \<Longrightarrow> pop q = None"
    and pop_law: "inv q \<Longrightarrow> abs q = x # xs \<Longrightarrow> \<exists>q'. pop q = Some (x, q') \<and> inv q' \<and> abs q' = xs"
    and len_law: "inv q \<Longrightarrow> len q = length (abs q)"
begin

primrec push_all :: "'q \<Rightarrow> 'a list \<Rightarrow> 'q option" where
  "push_all q [] = Some q"
| "push_all q (x # xs) = Option.bind (push q x) (\<lambda>q'. push_all q' xs)"

primrec pop_many :: "nat \<Rightarrow> 'q \<Rightarrow> ('a list \<times> 'q) option" where
  "pop_many 0 q = Some ([], q)"
| "pop_many (Suc n) q =
     Option.bind (pop q) (\<lambda>(x, q'). Option.bind (pop_many n q') (\<lambda>(xs, q''). Some (x # xs, q'')))"

lemma push_all_law: "inv q \<Longrightarrow> \<exists>q'. push_all q xs = Some q' \<and> inv q' \<and> abs q' = abs q @ xs"
proof (induction xs arbitrary: q)
  case (Cons x xs)
  obtain q1 where "push q x = Some q1" "inv q1" "abs q1 = abs q @ [x]"
    using push_law [OF Cons.prems] by blast
  with Cons.IH [of q1] show ?case by auto
qed simp

lemma pop_many_law:
  "inv q \<Longrightarrow> n \<le> len q \<Longrightarrow>
   \<exists>q'. pop_many n q = Some (take n (abs q), q') \<and> inv q' \<and> abs q' = drop n (abs q)"
proof (induction n arbitrary: q)
  case (Suc n)
  then obtain x xs where "abs q = x # xs" by (cases "abs q") (auto simp: len_law)
  moreover from pop_law [OF Suc.prems(1) this]
  obtain q' where "pop q = Some (x, q')" "inv q'" "abs q' = xs" by blast
  ultimately show ?case using Suc.IH [of q'] Suc.prems len_law [of q] len_law [of q'] by auto
qed simp

text \<open>First in, first out: what was pushed comes out in order once the older elements are out.\<close>

lemma fifo:
  assumes "inv q" "push_all q xs = Some q'"
  shows "\<exists>q''. pop_many (len q + length xs) q' = Some (abs q @ xs, q'') \<and> inv q'' \<and> abs q'' = []"
proof -
  have "inv q' \<and> abs q' = abs q @ xs" using push_all_law [OF assms(1), of xs] assms(2) by auto
  then show ?thesis using pop_many_law [of q' "len q + length xs"] assms(1) by (simp add: len_law)
qed

end


section \<open>The buffer\<close>

record 'a ring_buffer =
  ring :: "'a list"
  headPos :: nat
  tailPos :: nat
  full :: bool

definition rb_zero :: "'a ring_buffer" where
  "rb_zero = \<lparr>ring = [], headPos = 0, tailPos = 0, full = False\<rparr>"

definition rb_Init :: "'a \<Rightarrow> nat \<Rightarrow> 'a ring_buffer \<Rightarrow> 'a ring_buffer" where
  "rb_Init zero n r = r\<lparr>ring := replicate n zero\<rparr>"

definition rb_Len :: "'a ring_buffer \<Rightarrow> nat" where
  "rb_Len r =
     (if full r then length (ring r)
      else if tailPos r \<ge> headPos r then tailPos r - headPos r
      else tailPos r + length (ring r) - headPos r)"

definition rb_Empty :: "'a ring_buffer \<Rightarrow> bool" where
  "rb_Empty r \<longleftrightarrow> \<not> full r \<and> headPos r = tailPos r"

definition rb_grow :: "'a \<Rightarrow> 'a ring_buffer \<Rightarrow> 'a ring_buffer" where
  "rb_grow zero r =
     (let old = ring r;
          newSize = (if length old * 2 = 0 then 1 else length old * 2);
          moved = drop (headPos r) old @ take (headPos r) old
      in \<lparr>ring = moved @ replicate (newSize - length moved) zero,
          headPos = 0, tailPos = length old, full = False\<rparr>)"

definition rb_PushBack :: "'a \<Rightarrow> 'a ring_buffer \<Rightarrow> 'a \<Rightarrow> 'a ring_buffer option" where
  "rb_PushBack zero r0 t =
     (let r = (if full r0 \<or> length (ring r0) = 0 then rb_grow zero r0 else r0) in
      if tailPos r < length (ring r) then
        (let tl = (if Suc (tailPos r) = length (ring r) then 0 else Suc (tailPos r)) in
         Some (r\<lparr>ring := (ring r)[tailPos r := t], tailPos := tl,
                 full := (if tl = headPos r then True else full r)\<rparr>))
      else None)"

definition rb_PopFront :: "'a \<Rightarrow> 'a ring_buffer \<Rightarrow> ('a \<times> 'a ring_buffer) option" where
  "rb_PopFront zero r =
     (if rb_Empty r then None
      else if headPos r < length (ring r) then
        Some (ring r ! headPos r,
              r\<lparr>full := False, ring := (ring r)[headPos r := zero],
                headPos := (if Suc (headPos r) = length (ring r) then 0 else Suc (headPos r))\<rparr>)
      else None)"

text \<open>
  \<open>Offset\<close> returns a pointer into the ring; here it is the index the pointer refers to. The
  remainder is Go's, truncated towards zero, so a negative result panics at the indexing.
\<close>

definition rb_Offset :: "'a ring_buffer \<Rightarrow> int \<Rightarrow> nat option" where
  "rb_Offset r index =
     (if rb_Empty r \<or> index \<ge> int (rb_Len r) then None
      else if length (ring r) = 0 then None
      else let x = int (headPos r) + index;
               offset = (if x < 0 then - ((- x) mod int (length (ring r))) else x mod int (length (ring r)))
           in if offset < 0 then None else Some (nat offset))"

definition rb_Front :: "'a ring_buffer \<Rightarrow> nat option" where
  "rb_Front r =
     (if rb_Empty r then None else if headPos r < length (ring r) then Some (headPos r) else None)"

definition rb_Back :: "'a ring_buffer \<Rightarrow> nat option" where
  "rb_Back r = (if rb_Empty r then None else rb_Offset r (int (rb_Len r) - 1))"

definition rb_Clear :: "'a \<Rightarrow> 'a ring_buffer \<Rightarrow> 'a ring_buffer" where
  "rb_Clear zero r =
     r\<lparr>ring := replicate (length (ring r)) zero, headPos := 0, tailPos := 0, full := False\<rparr>"


section \<open>Invariant and abstraction\<close>

definition rb_inv :: "'a ring_buffer \<Rightarrow> bool" where
  "rb_inv r \<longleftrightarrow>
     (if ring r = [] then headPos r = 0 \<and> tailPos r = 0 \<and> \<not> full r
      else headPos r < length (ring r) \<and> tailPos r < length (ring r))
     \<and> (full r \<longrightarrow> headPos r = tailPos r)"

definition rb_list :: "'a ring_buffer \<Rightarrow> 'a list" where
  "rb_list r = take (rb_Len r) (drop (headPos r) (ring r) @ take (headPos r) (ring r))"

text \<open>The invariant splits into the three layouts of the ring.\<close>

lemma rb_cases [consumes 1, case_names Blank Straight Wrapped]:
  assumes "rb_inv r"
  obtains "ring r = []" "headPos r = 0" "tailPos r = 0" "\<not> full r"
  | "ring r \<noteq> []" "\<not> full r" "headPos r \<le> tailPos r" "tailPos r < length (ring r)"
  | "ring r \<noteq> []" "headPos r < length (ring r)" "tailPos r \<le> headPos r" "full r = (tailPos r = headPos r)"
  using assms unfolding rb_inv_def by (metis nat_le_linear le_neq_implies_less)

lemma rb_Len_list: "rb_inv r \<Longrightarrow> rb_Len r = length (rb_list r)"
  by (cases r rule: rb_cases) (auto simp: rb_list_def rb_Len_def)

lemma rb_Empty_list: "rb_inv r \<Longrightarrow> rb_Empty r \<longleftrightarrow> rb_list r = []"
  by (cases r rule: rb_cases) (auto simp: rb_list_def rb_Len_def rb_Empty_def)

lemma rb_inv_zero: "rb_inv (rb_Init zero n rb_zero)" "rb_list (rb_Init zero n rb_zero) = []"
  by (simp_all add: rb_inv_def rb_Init_def rb_zero_def rb_list_def rb_Len_def)

lemma rb_Clear_law: "rb_inv r \<Longrightarrow> rb_inv (rb_Clear zero r) \<and> rb_list (rb_Clear zero r) = []"
  by (auto simp: rb_inv_def rb_Clear_def rb_list_def rb_Len_def)

lemma rb_grow_law:
  assumes "rb_inv r" "full r \<or> ring r = []"
  shows "rb_inv (rb_grow zero r)" "rb_list (rb_grow zero r) = rb_list r"
    "\<not> full (rb_grow zero r)" "ring (rb_grow zero r) \<noteq> []"
  using assms by (auto simp: rb_inv_def rb_grow_def rb_list_def rb_Len_def Let_def)

lemma update_last: "Suc i = length xs \<Longrightarrow> xs[i := t] = take i xs @ [t]"
  by (simp add: upd_conv_take_nth_drop)

lemma take_update_last: "Suc i = n \<Longrightarrow> n \<le> length xs \<Longrightarrow> take n (xs[i := t]) = take i xs @ [t]"
  by (auto simp: take_Suc_conv_app_nth)

lemma rb_push_space:
  assumes "rb_inv r" "\<not> full r" "ring r \<noteq> []"
  shows "\<exists>r'. rb_PushBack zero r t = Some r' \<and> rb_inv r' \<and> rb_list r' = rb_list r @ [t]"
  using assms
proof (cases r rule: rb_cases)
  case Straight
  from Straight assms show ?thesis
    by (auto simp: rb_PushBack_def rb_inv_def rb_list_def rb_Len_def Let_def drop_update_swap
        take_Suc_conv_app_nth take_update_swap Suc_diff_le nth_list_update update_last list_update_append)
next
  case Wrapped
  with assms show ?thesis
    by (auto simp: rb_PushBack_def rb_inv_def rb_list_def rb_Len_def Let_def drop_update_cancel
        take_Suc_conv_app_nth nth_list_update Suc_diff_le take_update_last)
qed simp

lemma rb_push_law:
  assumes "rb_inv r"
  shows "\<exists>r'. rb_PushBack zero r t = Some r' \<and> rb_inv r' \<and> rb_list r' = rb_list r @ [t]"
proof (cases "full r \<or> ring r = []")
  case True
  note g = rb_grow_law [OF assms True, of zero]
  have "rb_PushBack zero r t = rb_PushBack zero (rb_grow zero r) t"
    using True g(3,4) by (simp add: rb_PushBack_def)
  with rb_push_space [OF g(1,3,4), of zero t] g(2) show ?thesis by simp
qed (use assms rb_push_space in auto)

text \<open>Popping rotates the ring by one: the head becomes a zero value at the far end.\<close>

lemma rotated_pop:
  assumes "h < length xs"
  shows "drop (if Suc h = length xs then 0 else Suc h) (xs[h := z])
           @ take (if Suc h = length xs then 0 else Suc h) (xs[h := z])
         = tl (drop h xs @ take h xs) @ [z]"
proof -
  have d: "drop h xs = xs ! h # drop (Suc h) xs" using assms by (rule Cons_nth_drop_Suc [symmetric])
  have t: "take (Suc h) (xs[h := z]) = take h xs @ [z]" using assms by (simp add: take_Suc_conv_app_nth)
  from t have "Suc h = length xs \<Longrightarrow> xs[h := z] = take h xs @ [z]" by simp
  with d t show ?thesis by auto
qed

lemma rb_Len_le: "rb_inv r \<Longrightarrow> rb_Len r \<le> length (ring r)"
  by (cases r rule: rb_cases) (auto simp: rb_Len_def)

lemma rb_Len_pop:
  assumes "rb_inv r" "\<not> rb_Empty r" "length ys = length (ring r)"
  shows "headPos r < length (ring r)"
    "rb_Len (r\<lparr>full := False, ring := ys,
        headPos := (if Suc (headPos r) = length (ring r) then 0 else Suc (headPos r))\<rparr>) = rb_Len r - 1"
  using assms by (auto simp: rb_inv_def rb_Empty_def rb_Len_def split: if_splits)

lemma rb_inv_pop:
  assumes "rb_inv r" "\<not> rb_Empty r" "length ys = length (ring r)"
  shows "rb_inv (r\<lparr>full := False, ring := ys,
        headPos := (if Suc (headPos r) = length (ring r) then 0 else Suc (headPos r))\<rparr>)"
  using assms by (auto simp: rb_inv_def rb_Empty_def split: if_splits)

lemma rb_pop_law:
  assumes "rb_inv r" "rb_list r = x # xs"
  shows "\<exists>r'. rb_PopFront zero r = Some (x, r') \<and> rb_inv r' \<and> rb_list r' = xs"
proof -
  let ?h = "if Suc (headPos r) = length (ring r) then 0 else Suc (headPos r)"
  let ?r' = "r\<lparr>full := False, ring := (ring r)[headPos r := zero], headPos := ?h\<rparr>"
  have ne: "\<not> rb_Empty r" using assms by (simp add: rb_Empty_list)
  note h = rb_Len_pop(1) [OF assms(1) ne refl]
  have len: "rb_Len ?r' = rb_Len r - 1" by (rule rb_Len_pop(2) [OF assms(1) ne]) simp
  let ?rot = "drop (headPos r) (ring r) @ take (headPos r) (ring r)"
  have rot: "?rot = ring r ! headPos r # tl ?rot" using h by (simp add: Cons_nth_drop_Suc [symmetric])
  have lr: "rb_list r = take (rb_Len r) ?rot" by (simp add: rb_list_def)
  have l0: "rb_Len r = Suc (length xs)" using assms rb_Len_list [OF assms(1)] by simp
  have "rb_list r = ring r ! headPos r # take (length xs) (tl ?rot)"
    by (subst lr, subst rot) (simp add: l0)
  with assms(2) have x: "x = ring r ! headPos r" and xs: "xs = take (length xs) (tl ?rot)" by simp_all
  have "rb_list ?r' = take (length xs) (tl ?rot @ [zero])"
    using rotated_pop [OF h, of zero] len l0 by (simp add: rb_list_def)
  also have "\<dots> = take (length xs) (tl ?rot)"
    using rb_Len_le [OF assms(1)] l0 h by simp
  finally have "rb_list ?r' = xs" using xs by simp
  moreover have "rb_inv ?r'" by (rule rb_inv_pop [OF assms(1) ne]) simp
  moreover have "rb_PopFront zero r = Some (x, ?r')" using ne h x by (simp add: rb_PopFront_def)
  ultimately show ?thesis by blast
qed

lemma rb_pop_empty: "rb_inv r \<Longrightarrow> rb_list r = [] \<Longrightarrow> rb_PopFront zero r = None"
  by (simp add: rb_PopFront_def rb_Empty_list)

interpretation rb: deque rb_inv rb_list "rb_PushBack zero" "rb_PopFront zero" rb_Len for zero
  by unfold_locales (auto intro: rb_push_law rb_pop_law rb_pop_empty rb_Len_list)


section \<open>Pointers into the buffer\<close>

definition rb_index :: "'a ring_buffer \<Rightarrow> nat \<Rightarrow> nat" where
  "rb_index r i = (headPos r + i) mod length (ring r)"

lemma rb_list_nonempty:
  assumes "rb_inv r" "i < rb_Len r"
  shows "headPos r < length (ring r)" "i < length (ring r)"
  using assms rb_Len_le [OF assms(1)] by (auto simp: rb_inv_def split: if_splits)

lemma rb_list_nth:
  assumes "rb_inv r" "i < rb_Len r"
  shows "rb_list r ! i = ring r ! rb_index r i"
proof -
  note b = rb_list_nonempty [OF assms]
  have "drop (headPos r) (ring r) @ take (headPos r) (ring r) = rotate (headPos r) (ring r)"
    using b by (simp add: rotate_drop_take)
  then show ?thesis using assms(2) b nth_rotate [OF b(2), of "headPos r"]
    by (simp add: rb_list_def rb_index_def)
qed

lemma rb_Offset_law:
  assumes "rb_inv r" "i < rb_Len r"
  shows "rb_Offset r (int i) = Some (rb_index r i)" "rb_index r i < length (ring r)"
proof -
  have "ring r \<noteq> []" "\<not> rb_Empty r"
    using assms rb_list_nonempty [OF assms] by (auto simp: rb_Empty_list rb_Len_list)
  then show "rb_Offset r (int i) = Some (rb_index r i)" "rb_index r i < length (ring r)"
    using assms(2) by (auto simp: rb_Offset_def rb_index_def Let_def nat_mod_distrib zmod_int [symmetric]
        simp flip: of_nat_add)
qed

lemma rb_Front_law: "rb_inv r \<Longrightarrow> rb_list r \<noteq> [] \<Longrightarrow> rb_Front r = Some (rb_index r 0)"
  using rb_list_nonempty [of r 0] by (simp add: rb_Front_def rb_Empty_list rb_index_def rb_Len_list)

lemma rb_Back_law: "rb_inv r \<Longrightarrow> rb_list r \<noteq> [] \<Longrightarrow> rb_Back r = Some (rb_index r (rb_Len r - 1))"
  using rb_Offset_law(1) [of r "rb_Len r - 1"]
  by (simp add: rb_Back_def rb_Empty_list rb_Len_list int_ops(6) Suc_leI split: if_splits)

lemma rb_index_inj:
  assumes "rb_inv r" "i < rb_Len r" "j < rb_Len r" "rb_index r i = rb_index r j"
  shows "i = j"
proof -
  have m: "(h + k) mod n = (if h + k < n then h + k else h + k - n)" if "h < n" "k < n" for h k n :: nat
    using that by (simp add: mod_if)
  show ?thesis using assms(4) rb_list_nonempty [OF assms(1,2)] rb_list_nonempty [OF assms(1,3)]
    by (auto simp: rb_index_def m split: if_splits)
qed

text \<open>A write through the pointer \<open>Offset\<close> returned changes that element and nothing else.\<close>

lemma rb_write_law:
  assumes "rb_inv r" "i < rb_Len r"
  shows "rb_inv (r\<lparr>ring := (ring r)[rb_index r i := v]\<rparr>)"
    "rb_list (r\<lparr>ring := (ring r)[rb_index r i := v]\<rparr>) = (rb_list r)[i := v]"
proof -
  let ?r = "r\<lparr>ring := (ring r)[rb_index r i := v]\<rparr>"
  show inv: "rb_inv ?r" using assms(1) by (auto simp: rb_inv_def)
  have len: "rb_Len ?r = rb_Len r" "rb_index ?r = rb_index r" by (auto simp: rb_Len_def rb_index_def fun_eq_iff)
  show "rb_list ?r = (rb_list r)[i := v]"
  proof (rule nth_equalityI)
    show l: "length (rb_list ?r) = length ((rb_list r)[i := v])"
      using rb_Len_list [OF inv] rb_Len_list [OF assms(1)] len by simp
    fix j assume "j < length (rb_list ?r)"
    then have j: "j < rb_Len r" using rb_Len_list [OF inv] len by simp
    then show "rb_list ?r ! j = (rb_list r)[i := v] ! j"
      using assms rb_list_nth [OF inv, of j] rb_list_nth [OF assms(1) j] len rb_index_inj [OF assms j]
        rb_Offset_law(2) [OF assms] rb_Len_list [OF assms(1)]
      by (auto simp: nth_list_update)
  qed
qed


section \<open>Refinement of a list\<close>

datatype 'a rb_op = OpPush 'a | OpPop | OpFront | OpBack | OpOffset nat | OpSet nat 'a | OpLen | OpClear

datatype 'a rb_out = OutElem 'a | OutLen nat

text \<open>One operation of a client: its output, if it has one, and the new state; \<open>None\<close> is a panic.\<close>

fun rb_do :: "'a \<Rightarrow> 'a rb_op \<Rightarrow> 'a ring_buffer \<Rightarrow> ('a rb_out list \<times> 'a ring_buffer) option" where
  "rb_do zero (OpPush x) r = map_option (Pair []) (rb_PushBack zero r x)"
| "rb_do zero OpPop r = map_option (\<lambda>(x, r'). ([OutElem x], r')) (rb_PopFront zero r)"
| "rb_do zero OpFront r = map_option (\<lambda>i. ([OutElem (ring r ! i)], r)) (rb_Front r)"
| "rb_do zero OpBack r = map_option (\<lambda>i. ([OutElem (ring r ! i)], r)) (rb_Back r)"
| "rb_do zero (OpOffset i) r = map_option (\<lambda>i. ([OutElem (ring r ! i)], r)) (rb_Offset r (int i))"
| "rb_do zero (OpSet i x) r = map_option (\<lambda>j. ([], r\<lparr>ring := (ring r)[j := x]\<rparr>)) (rb_Offset r (int i))"
| "rb_do zero OpLen r = Some ([OutLen (rb_Len r)], r)"
| "rb_do zero OpClear r = Some ([], rb_Clear zero r)"

fun list_do :: "'a rb_op \<Rightarrow> 'a list \<Rightarrow> ('a rb_out list \<times> 'a list) option" where
  "list_do (OpPush x) xs = Some ([], xs @ [x])"
| "list_do OpPop xs = (case xs of [] \<Rightarrow> None | x # ys \<Rightarrow> Some ([OutElem x], ys))"
| "list_do OpFront xs = (if xs = [] then None else Some ([OutElem (hd xs)], xs))"
| "list_do OpBack xs = (if xs = [] then None else Some ([OutElem (last xs)], xs))"
| "list_do (OpOffset i) xs = (if i < length xs then Some ([OutElem (xs ! i)], xs) else None)"
| "list_do (OpSet i x) xs = (if i < length xs then Some ([], xs[i := x]) else None)"
| "list_do OpLen xs = Some ([OutLen (length xs)], xs)"
| "list_do OpClear xs = Some ([], [])"

lemma rb_Offset_bad: "rb_inv r \<Longrightarrow> \<not> i < rb_Len r \<Longrightarrow> rb_Offset r (int i) = None"
  by (simp add: rb_Offset_def)

lemma rb_do_sim:
  assumes "rb_inv r"
  shows "case rb_do zero a r of
      None \<Rightarrow> list_do a (rb_list r) = None
    | Some (out, r') \<Rightarrow> rb_inv r' \<and> list_do a (rb_list r) = Some (out, rb_list r')"
proof (cases a)
  case (OpPush x)
  with rb_push_law [OF assms, of zero x] show ?thesis by auto
next
  case OpPop
  show ?thesis
  proof (cases "rb_list r")
    case Nil
    then show ?thesis using OpPop rb_pop_empty [OF assms Nil, of zero] by simp
  next
    case (Cons x xs)
    then show ?thesis using OpPop rb_pop_law [OF assms Cons, of zero] by auto
  qed
next
  case OpFront
  with assms rb_list_nth [OF assms, of 0] rb_Front_law [OF assms] show ?thesis
    by (cases "rb_list r = []") (auto simp: rb_Front_def rb_Empty_list rb_Len_list hd_conv_nth)
next
  case OpBack
  with assms rb_list_nth [OF assms, of "rb_Len r - 1"] rb_Back_law [OF assms] show ?thesis
    by (cases "rb_list r = []") (auto simp: rb_Back_def rb_Empty_list rb_Len_list last_conv_nth)
next
  case (OpOffset i)
  with assms rb_list_nth [OF assms, of i] rb_Offset_law [OF assms, of i] rb_Offset_bad [OF assms, of i]
  show ?thesis by (cases "i < rb_Len r") (auto simp: rb_Len_list)
next
  case (OpSet i x)
  with assms rb_write_law [OF assms, of i] rb_Offset_law [OF assms, of i] rb_Offset_bad [OF assms, of i]
  show ?thesis by (cases "i < rb_Len r") (auto simp: rb_Len_list)
qed (use assms rb_Clear_law [OF assms] in \<open>auto simp: rb_Len_list\<close>)

interpretation rb_data: data_refinement rb_inv rb_list "\<lambda>_. True" "rb_do zero" list_do for zero
  by unfold_locales (rule rb_do_sim)

text \<open>
  C28: the ring buffer is a list. For every initial size and every sequence of operations,
  writes through the returned pointers included, the buffer gives the outputs of the list it
  stands for and panics exactly where the list operation is undefined, across every
  wrap-around and every growth of the ring.
\<close>

theorem ring_buffer_refines_list:
  "run_steps (rb_do zero) as (rb_Init zero n rb_zero) = run_steps list_do as []"
  using rb_data.run_refines [OF rb_inv_zero(1), of as zero zero n] by (simp add: rb_inv_zero(2) list_all_iff)

end
