(* ===== verification/Packet_Queue.thy ===== *)
theory Packet_Queue
  imports Ring_Buffer
begin

text \<open>
  The queue of \<open>internal/congestion/bbr/packet_number_indexed_queue.go\<close>, on the ring buffer.
  Packet numbers are Go \<open>int64\<close> values, so the additions on them wrap; \<open>int\<close> lengths never
  reach that bound. A panic is \<open>None\<close>, and so is a loop that would not end.
\<close>

record 'a entry_wrapper =
  present :: bool
  entry :: 'a

record 'a packet_queue =
  pq_entries :: "'a entry_wrapper ring_buffer"
  numberOfPresentEntries :: int
  firstPacket :: int

definition invalidPacketNumber :: int where
  "invalidPacketNumber = - 1"

definition zero_wrapper :: "'a \<Rightarrow> 'a entry_wrapper" where
  "zero_wrapper z = \<lparr>present = False, entry = z\<rparr>"

definition newPacketNumberIndexedQueue :: "'a \<Rightarrow> nat \<Rightarrow> 'a packet_queue" where
  "newPacketNumberIndexedQueue z sz =
     \<lparr>pq_entries = rb_Init (zero_wrapper z) sz rb_zero, numberOfPresentEntries = 0,
      firstPacket = invalidPacketNumber\<rparr>"

definition pq_IsEmpty :: "'a packet_queue \<Rightarrow> bool" where
  "pq_IsEmpty p \<longleftrightarrow> numberOfPresentEntries p = 0"

definition pq_EntrySlotsUsed :: "'a packet_queue \<Rightarrow> nat" where
  "pq_EntrySlotsUsed p = rb_Len (pq_entries p)"

definition LastPacket :: "'a packet_queue \<Rightarrow> int" where
  "LastPacket p =
     (if pq_IsEmpty p then invalidPacketNumber
      else i64 (firstPacket p + (int (rb_Len (pq_entries p)) - 1)))"

primrec push_gap :: "'a \<Rightarrow> nat \<Rightarrow> 'a entry_wrapper ring_buffer \<Rightarrow> 'a entry_wrapper ring_buffer option" where
  "push_gap z 0 r = Some r"
| "push_gap z (Suc n) r =
     Option.bind (rb_PushBack (zero_wrapper z) r (zero_wrapper z)) (push_gap z n)"

text \<open>The entry is a pointer: \<open>None\<close> is \<open>nil\<close>.\<close>

definition Emplace :: "'a \<Rightarrow> int \<Rightarrow> 'a option \<Rightarrow> 'a packet_queue \<Rightarrow> (bool \<times> 'a packet_queue) option" where
  "Emplace z packetNumber ent p =
     (case ent of
        None \<Rightarrow> Some (False, p)
      | Some x \<Rightarrow>
          if packetNumber = invalidPacketNumber then Some (False, p)
          else if pq_IsEmpty p then
            Option.bind (rb_PushBack (zero_wrapper z) (pq_entries p) \<lparr>present = True, entry = x\<rparr>)
              (\<lambda>es. Some (True, p\<lparr>pq_entries := es, numberOfPresentEntries := 1, firstPacket := packetNumber\<rparr>))
          else if packetNumber \<le> LastPacket p then Some (False, p)
          else
            (let gap = i64 (packetNumber - firstPacket p) - int (rb_Len (pq_entries p)) in
             Option.bind (push_gap z (nat gap) (pq_entries p)) (\<lambda>es.
             Option.bind (rb_PushBack (zero_wrapper z) es \<lparr>present = True, entry = x\<rparr>)
               (\<lambda>es'. Some (True, p\<lparr>pq_entries := es', numberOfPresentEntries := numberOfPresentEntries p + 1\<rparr>)))))"

text \<open>\<open>getEntryWraper\<close> returns a pointer into the ring, \<open>Some None\<close> when it is \<open>nil\<close>.\<close>

definition getEntryWraper :: "int \<Rightarrow> 'a packet_queue \<Rightarrow> nat option option" where
  "getEntryWraper packetNumber p =
     (if packetNumber = invalidPacketNumber \<or> pq_IsEmpty p \<or> packetNumber < firstPacket p then Some None
      else let offset = i64 (packetNumber - firstPacket p) in
        if offset \<ge> int (rb_Len (pq_entries p)) then Some None
        else Option.bind (rb_Offset (pq_entries p) offset)
          (\<lambda>i. Some (if present (ring (pq_entries p) ! i) then Some i else None)))"

definition GetEntry :: "int \<Rightarrow> 'a packet_queue \<Rightarrow> 'a option option" where
  "GetEntry packetNumber p =
     map_option (map_option (\<lambda>i. entry (ring (pq_entries p) ! i))) (getEntryWraper packetNumber p)"

partial_function (option) clearup :: "'a \<Rightarrow> 'a packet_queue \<Rightarrow> 'a packet_queue option" where
  "clearup z p =
     (if rb_Empty (pq_entries p) then Some (p\<lparr>firstPacket := invalidPacketNumber\<rparr>)
      else Option.bind (rb_Front (pq_entries p)) (\<lambda>i.
        if present (ring (pq_entries p) ! i) then Some p
        else Option.bind (rb_PopFront (zero_wrapper z) (pq_entries p)) (\<lambda>(_, es).
          clearup z (p\<lparr>pq_entries := es, firstPacket := i64 (firstPacket p + 1)\<rparr>))))"

text \<open>\<open>Remove\<close> hands the removed entry to the callback; here it is part of the result.\<close>

definition pq_Remove :: "'a \<Rightarrow> int \<Rightarrow> 'a packet_queue \<Rightarrow> ('a option \<times> 'a packet_queue) option" where
  "pq_Remove z packetNumber p =
     Option.bind (getEntryWraper packetNumber p) (\<lambda>ew.
       case ew of
         None \<Rightarrow> Some (None, p)
       | Some i \<Rightarrow>
           (let w = ring (pq_entries p) ! i;
                p' = p\<lparr>pq_entries := (pq_entries p)\<lparr>ring := (ring (pq_entries p))[i := w\<lparr>present := False\<rparr>]\<rparr>,
                       numberOfPresentEntries := numberOfPresentEntries p - 1\<rparr>
            in if packetNumber = firstPacket p'
               then map_option (Pair (Some (entry w))) (clearup z p')
               else Some (Some (entry w), p')))"

partial_function (option) drop_up_to :: "'a \<Rightarrow> int \<Rightarrow> 'a packet_queue \<Rightarrow> 'a packet_queue option" where
  "drop_up_to z packetNumber p =
     (if \<not> rb_Empty (pq_entries p) \<and> firstPacket p \<noteq> invalidPacketNumber \<and> firstPacket p < packetNumber
      then Option.bind (rb_Front (pq_entries p)) (\<lambda>i.
        Option.bind (rb_PopFront (zero_wrapper z) (pq_entries p)) (\<lambda>(_, es).
          drop_up_to z packetNumber
            (p\<lparr>pq_entries := es,
               numberOfPresentEntries :=
                 (if present (ring (pq_entries p) ! i) then numberOfPresentEntries p - 1
                  else numberOfPresentEntries p),
               firstPacket := i64 (firstPacket p + 1)\<rparr>)))
      else Some p)"

definition RemoveUpTo :: "'a \<Rightarrow> int \<Rightarrow> 'a packet_queue \<Rightarrow> 'a packet_queue option" where
  "RemoveUpTo z packetNumber p = Option.bind (drop_up_to z packetNumber p) (clearup z)"


section \<open>The map the queue stands for\<close>

definition slot_map :: "int \<Rightarrow> 'a entry_wrapper list \<Rightarrow> int \<Rightarrow> 'a option" where
  "slot_map f xs n =
     (if f \<le> n \<and> n < f + int (length xs) \<and> present (xs ! nat (n - f))
      then Some (entry (xs ! nat (n - f))) else None)"

definition pq_slots :: "'a packet_queue \<Rightarrow> 'a entry_wrapper list" where
  "pq_slots p = rb_list (pq_entries p)"

definition pq_map :: "'a packet_queue \<Rightarrow> int \<Rightarrow> 'a option" where
  "pq_map p = slot_map (firstPacket p) (pq_slots p)"

definition pq_end :: "'a packet_queue \<Rightarrow> int" where
  "pq_end p = firstPacket p + int (length (pq_slots p))"

text \<open>
  QUIC packet numbers are below \<open>2 ^ 62\<close>. \<open>pq_slots_ok\<close> holds inside the loops too; \<open>pq_inv\<close>
  adds that the front is present, which \<open>clearup\<close> restores.
\<close>

definition pn_ok :: "int \<Rightarrow> bool" where
  "pn_ok n \<longleftrightarrow> 0 \<le> n \<and> n < 2 ^ 62"

definition pq_slots_ok :: "'a packet_queue \<Rightarrow> bool" where
  "pq_slots_ok p \<longleftrightarrow>
     rb_inv (pq_entries p)
     \<and> numberOfPresentEntries p = int (length (filter present (pq_slots p)))
     \<and> (pq_slots p \<noteq> [] \<longrightarrow> 0 \<le> firstPacket p \<and> firstPacket p + int (length (pq_slots p)) \<le> 2 ^ 62)"

definition pq_inv :: "'a packet_queue \<Rightarrow> bool" where
  "pq_inv p \<longleftrightarrow> pq_slots_ok p
     \<and> (if pq_slots p = [] then firstPacket p = invalidPacketNumber else present (hd (pq_slots p)))"

lemma slot_map_Nil [simp]: "slot_map f [] = Map.empty"
  by (auto simp: slot_map_def fun_eq_iff)

lemma slot_map_Cons:
  "slot_map f (x # xs) n =
     (if n = f then (if present x then Some (entry x) else None) else slot_map (f + 1) xs n)"
proof -
  have "nat (n - f) - Suc 0 = nat (n - (f + 1))" by simp
  then show ?thesis by (auto simp: slot_map_def nth_Cons')
qed

lemma slot_map_below [simp]: "n < f \<Longrightarrow> slot_map f xs n = None"
  by (simp add: slot_map_def)

lemma slot_map_beyond [simp]: "f + int (length xs) \<le> n \<Longrightarrow> slot_map f xs n = None"
  by (simp add: slot_map_def)

lemma slot_map_absent_head: "\<not> present x \<Longrightarrow> slot_map f (x # xs) = slot_map (f + 1) xs"
  by (auto simp: slot_map_Cons fun_eq_iff)

lemma slot_map_append:
  "slot_map f (xs @ ys) n =
     (if n < f + int (length xs) then slot_map f xs n else slot_map (f + int (length xs)) ys n)"
  by (induction xs arbitrary: f) (auto simp: slot_map_Cons algebra_simps)

lemma slot_map_absent: "\<forall>x \<in> set xs. \<not> present x \<Longrightarrow> slot_map f xs = Map.empty"
  by (induction xs arbitrary: f) (auto simp: slot_map_absent_head)

lemma slot_map_update:
  "i < length xs \<Longrightarrow>
   slot_map f (xs[i := w]) = (slot_map f xs)(f + int i := (if present w then Some (entry w) else None))"
  by (auto simp: slot_map_def fun_eq_iff nth_list_update)

lemma slot_map_dom_finite: "finite (dom (slot_map f xs))"
  by (rule finite_subset [of _ "{f ..< f + int (length xs)}"]) (auto simp: slot_map_def split: if_splits)

lemma slot_map_card: "card (dom (slot_map f xs)) = length (filter present xs)"
proof (induction xs arbitrary: f)
  case (Cons x xs)
  have "f \<notin> dom (slot_map (f + 1) xs)" by auto
  moreover have "dom (slot_map f (x # xs)) =
      (if present x then insert f (dom (slot_map (f + 1) xs)) else dom (slot_map (f + 1) xs))"
    by (auto simp: slot_map_Cons split: if_splits)
  ultimately show ?case using Cons.IH [of "f + 1"] by (simp add: slot_map_dom_finite)
qed simp


section \<open>The operations on the map\<close>

lemma pq_inv_slots: "pq_inv p \<Longrightarrow> pq_slots_ok p"
  by (simp add: pq_inv_def)

lemma pq_slots_ok_inv: "pq_slots_ok p \<Longrightarrow> rb_inv (pq_entries p)"
  by (simp add: pq_slots_ok_def)

lemma pq_IsEmpty_iff: "pq_inv p \<Longrightarrow> pq_IsEmpty p \<longleftrightarrow> pq_slots p = []"
  by (cases "pq_slots p") (auto simp: pq_inv_def pq_slots_ok_def pq_IsEmpty_def)

lemma pq_Len: "pq_slots_ok p \<Longrightarrow> rb_Len (pq_entries p) = length (pq_slots p)"
  by (simp add: pq_slots_ok_def pq_slots_def rb_Len_list)

lemma pq_map_empty: "pq_slots p = [] \<Longrightarrow> pq_map p = Map.empty"
  by (simp add: pq_map_def)

lemma new_queue: "pq_inv (newPacketNumberIndexedQueue z k)" "pq_map (newPacketNumberIndexedQueue z k) = Map.empty"
  by (simp_all add: newPacketNumberIndexedQueue_def pq_inv_def pq_slots_ok_def pq_slots_def pq_map_def rb_inv_zero)

lemma LastPacket_eq:
  assumes "pq_inv p" "pq_slots p \<noteq> []"
  shows "LastPacket p = firstPacket p + int (length (pq_slots p)) - 1"
proof -
  have "0 \<le> firstPacket p" "firstPacket p + int (length (pq_slots p)) \<le> 2 ^ 62"
    using assms by (auto simp: pq_inv_def pq_slots_ok_def)
  then show ?thesis using assms pq_Len [OF pq_inv_slots [OF assms(1)]]
    by (simp add: LastPacket_def pq_IsEmpty_iff)
qed

lemma push_gap_law:
  "rb_inv r \<Longrightarrow> \<exists>r'. push_gap z n r = Some r' \<and> rb_inv r' \<and> rb_list r' = rb_list r @ replicate n (zero_wrapper z)"
proof (induction n arbitrary: r)
  case (Suc n)
  obtain r1 where "rb_PushBack (zero_wrapper z) r (zero_wrapper z) = Some r1" "rb_inv r1"
    "rb_list r1 = rb_list r @ [zero_wrapper z]"
    using rb.push_law [OF Suc.prems] by blast
  with Suc.IH [of r1] show ?case by (auto simp: replicate_app_Cons_same)
qed simp

lemma Emplace_first:
  assumes "pq_inv p" "pn_ok n" "pq_slots p = []"
  shows "\<exists>p'. Emplace z n (Some x) p = Some (True, p') \<and> pq_inv p' \<and> pq_map p' = (pq_map p)(n \<mapsto> x)
    \<and> pq_slots p' \<noteq> [] \<and> pq_end p' = n + 1"
proof -
  have "rb_inv (pq_entries p)" "rb_list (pq_entries p) = []"
    using assms by (auto simp: pq_inv_def pq_slots_ok_def pq_slots_def)
  with rb.push_law [of "pq_entries p" "zero_wrapper z" "\<lparr>present = True, entry = x\<rparr>"]
  obtain r where r: "rb_PushBack (zero_wrapper z) (pq_entries p) \<lparr>present = True, entry = x\<rparr> = Some r"
    "rb_inv r" "rb_list r = [\<lparr>present = True, entry = x\<rparr>]" by auto
  have "n \<noteq> invalidPacketNumber" using assms(2) by (auto simp: pn_ok_def invalidPacketNumber_def)
  with r assms show ?thesis
    by (auto simp: Emplace_def pq_IsEmpty_iff pq_inv_def pq_slots_ok_def pq_slots_def pq_map_def
        slot_map_Cons pn_ok_def fun_eq_iff pq_end_def)
qed

lemma Emplace_later:
  assumes "pq_inv p" "pn_ok n" "pq_slots p \<noteq> []" "LastPacket p < n"
  shows "\<exists>p'. Emplace z n (Some x) p = Some (True, p') \<and> pq_inv p' \<and> pq_map p' = (pq_map p)(n \<mapsto> x)
    \<and> pq_slots p' \<noteq> [] \<and> pq_end p' = n + 1"
proof -
  let ?w = "\<lparr>present = True, entry = x\<rparr>" and ?xs = "pq_slots p" and ?f = "firstPacket p"
  have ok: "rb_inv (pq_entries p)" "0 \<le> ?f"
    and num: "numberOfPresentEntries p = int (length (filter present ?xs))"
    and hd: "present (hd ?xs)" using assms by (auto simp: pq_inv_def pq_slots_ok_def)
  define g where "g = nat (n - ?f - int (length ?xs))"
  have n: "n = ?f + int (length ?xs) + int g"
    using assms(4) LastPacket_eq [OF assms(1,3)] by (simp add: g_def)
  have gap: "nat (i64 (n - ?f) - int (rb_Len (pq_entries p))) = g"
    using n assms(2) ok(2) pq_Len [OF pq_inv_slots [OF assms(1)]] by (simp add: pn_ok_def)
  obtain r1 where r1: "push_gap z g (pq_entries p) = Some r1" "rb_inv r1"
    "rb_list r1 = ?xs @ replicate g (zero_wrapper z)"
    using push_gap_law [OF ok(1)] by (auto simp: pq_slots_def)
  obtain r2 where r2: "rb_PushBack (zero_wrapper z) r1 ?w = Some r2" "rb_inv r2"
    "rb_list r2 = (?xs @ replicate g (zero_wrapper z)) @ [?w]"
    using rb.push_law [OF r1(2), of "zero_wrapper z" ?w] r1(3) by auto
  let ?p' = "p\<lparr>pq_entries := r2, numberOfPresentEntries := numberOfPresentEntries p + 1\<rparr>"
  have "n \<noteq> invalidPacketNumber" using assms(2) by (auto simp: pn_ok_def invalidPacketNumber_def)
  then have "Emplace z n (Some x) p = Some (True, ?p')"
    using assms r1(1) r2(1) gap by (simp add: Emplace_def pq_IsEmpty_iff Let_def)
  moreover have "pq_slots ?p' = (?xs @ replicate g (zero_wrapper z)) @ [?w]"
    using r2(3) by (simp add: pq_slots_def)
  moreover have "filter present (replicate g (zero_wrapper z)) = []" by (simp add: zero_wrapper_def)
  ultimately show ?thesis
    using assms(2,3) ok(2) num hd r2(2) n
    by (auto simp: pq_inv_def pq_slots_ok_def pn_ok_def pq_map_def slot_map_append slot_map_Cons
        slot_map_absent zero_wrapper_def fun_eq_iff pq_end_def)
qed

lemma Emplace_refused:
  assumes "pq_inv p" "n = invalidPacketNumber \<or> pq_slots p \<noteq> [] \<and> n \<le> LastPacket p"
  shows "Emplace z n (Some x) p = Some (False, p)"
  using assms by (auto simp: Emplace_def pq_IsEmpty_iff)

text \<open>The pointer \<open>getEntryWraper\<close> returns refers to the slot of the packet number.\<close>

lemma getEntryWraper_cases:
  assumes "pq_inv p" "pn_ok n"
  shows "case pq_map p n of
      None \<Rightarrow> getEntryWraper n p = Some None
    | Some x \<Rightarrow> firstPacket p \<le> n \<and> nat (n - firstPacket p) < length (pq_slots p)
        \<and> getEntryWraper n p = Some (Some (rb_index (pq_entries p) (nat (n - firstPacket p))))
        \<and> present (pq_slots p ! nat (n - firstPacket p))
        \<and> ring (pq_entries p) ! rb_index (pq_entries p) (nat (n - firstPacket p)) = pq_slots p ! nat (n - firstPacket p)
        \<and> x = entry (pq_slots p ! nat (n - firstPacket p))"
proof (cases "pq_slots p \<noteq> [] \<and> firstPacket p \<le> n \<and> n - firstPacket p < int (length (pq_slots p))")
  case False
  then have "pq_map p n = None" by (auto simp: pq_map_def slot_map_def)
  moreover have "getEntryWraper n p = Some None"
    using False assms pq_Len [OF pq_inv_slots [OF assms(1)]]
    by (auto simp: getEntryWraper_def pq_IsEmpty_iff pn_ok_def Let_def pq_inv_def pq_slots_ok_def)
  ultimately show ?thesis by simp
next
  case True
  define i where "i = nat (n - firstPacket p)"
  have n: "n = firstPacket p + int i" "i < length (pq_slots p)" using True by (auto simp: i_def)
  have ok: "rb_inv (pq_entries p)" "0 \<le> firstPacket p" using assms True by (auto simp: pq_inv_def pq_slots_ok_def)
  have l: "i < rb_Len (pq_entries p)" using n pq_Len [OF pq_inv_slots [OF assms(1)]] by simp
  have nth: "ring (pq_entries p) ! rb_index (pq_entries p) i = pq_slots p ! i"
    using rb_list_nth [OF ok(1) l] by (simp add: pq_slots_def)
  have "getEntryWraper n p = Some (if present (pq_slots p ! i) then Some (rb_index (pq_entries p) i) else None)"
    using assms True n l ok rb_Offset_law(1) [OF ok(1) l] nth
    by (auto simp: getEntryWraper_def pq_IsEmpty_iff pn_ok_def invalidPacketNumber_def)
  then show ?thesis using n nth by (auto simp: pq_map_def slot_map_def split: if_splits)
qed

lemma GetEntry_law: "pq_inv p \<Longrightarrow> pn_ok n \<Longrightarrow> GetEntry n p = Some (pq_map p n)"
  using getEntryWraper_cases [of p n] by (auto simp: GetEntry_def split: option.splits)

lemma pop_slots:
  assumes "pq_slots_ok p" "pq_slots p = x # xs"
  shows "\<exists>es. rb_PopFront (zero_wrapper z) (pq_entries p) = Some (x, es) \<and> rb_inv es \<and> rb_list es = xs
    \<and> rb_Front (pq_entries p) = Some (rb_index (pq_entries p) 0)
    \<and> ring (pq_entries p) ! rb_index (pq_entries p) 0 = x \<and> \<not> rb_Empty (pq_entries p)
    \<and> i64 (firstPacket p + 1) = firstPacket p + 1"
proof -
  note inv = pq_slots_ok_inv [OF assms(1)]
  have l: "rb_list (pq_entries p) = x # xs" using assms(2) by (simp add: pq_slots_def)
  have "i64 (firstPacket p + 1) = firstPacket p + 1"
    using assms by (intro i64_id) (auto simp: pq_slots_ok_def)
  with rb.pop_law [OF inv l, of "zero_wrapper z"] rb_Front_law [OF inv] rb_list_nth [OF inv, of 0] l inv
  show ?thesis by (auto simp: rb_Empty_list rb_Len_list)
qed

lemma clearup_law:
  "pq_slots_ok p \<Longrightarrow> \<exists>p'. clearup z p = Some p' \<and> pq_inv p' \<and> pq_map p' = pq_map p
     \<and> (pq_slots p' \<noteq> [] \<longrightarrow> pq_end p' = pq_end p)"
proof (induction "pq_slots p" arbitrary: p)
  case Nil
  then have "rb_Empty (pq_entries p)" by (simp add: rb_Empty_list pq_slots_ok_def pq_slots_def)
  with Nil show ?case
    by (subst clearup.simps) (auto simp: pq_inv_def pq_slots_ok_def pq_slots_def pq_map_def)
next
  case (Cons x xs)
  from pop_slots [OF Cons.prems Cons.hyps(2) [symmetric], of z]
  obtain es where es: "rb_PopFront (zero_wrapper z) (pq_entries p) = Some (x, es)" "rb_inv es" "rb_list es = xs"
    "rb_Front (pq_entries p) = Some (rb_index (pq_entries p) 0)"
    "ring (pq_entries p) ! rb_index (pq_entries p) 0 = x" "\<not> rb_Empty (pq_entries p)"
    "i64 (firstPacket p + 1) = firstPacket p + 1" by blast
  show ?case
  proof (cases "present x")
    case True
    with es Cons show ?thesis
      by (subst clearup.simps) (auto simp: pq_inv_def Cons.hyps(2) [symmetric])
  next
    case False
    let ?p = "p\<lparr>pq_entries := es, firstPacket := firstPacket p + 1\<rparr>"
    have sl: "pq_slots ?p = xs" using es by (simp add: pq_slots_def)
    have "pq_slots_ok ?p"
      using Cons.prems es False sl Cons.hyps(2) [symmetric] by (auto simp: pq_slots_ok_def)
    with Cons.hyps(1) [of ?p] sl
    obtain p' where "clearup z ?p = Some p'" "pq_inv p'" "pq_map p' = pq_map ?p"
      "pq_slots p' \<noteq> [] \<longrightarrow> pq_end p' = pq_end ?p" by auto
    moreover have "pq_map ?p = pq_map p"
      using False sl Cons.hyps(2) [symmetric] by (simp add: pq_map_def slot_map_absent_head)
    moreover have "clearup z p = clearup z ?p"
      using es False by (subst clearup.simps) simp
    moreover have "pq_end ?p = pq_end p" using sl Cons.hyps(2) [symmetric] by (simp add: pq_end_def)
    ultimately show ?thesis by simp
  qed
qed

lemma mark_absent:
  assumes "pq_inv p" "i < length (pq_slots p)" "present (pq_slots p ! i)"
  defines "p' \<equiv> p\<lparr>pq_entries := (pq_entries p)\<lparr>ring := (ring (pq_entries p))[rb_index (pq_entries p) i
                     := (pq_slots p ! i)\<lparr>present := False\<rparr>]\<rparr>,
                   numberOfPresentEntries := numberOfPresentEntries p - 1\<rparr>"
  shows "pq_slots_ok p'" "pq_slots p' = (pq_slots p)[i := (pq_slots p ! i)\<lparr>present := False\<rparr>]"
    "pq_map p' = (pq_map p)(firstPacket p + int i := None)"
proof -
  note ok = pq_inv_slots [OF assms(1)]
  have l: "i < rb_Len (pq_entries p)" using assms(2) pq_Len [OF ok] by simp
  note w = rb_write_law [OF pq_slots_ok_inv [OF ok] l, of "(pq_slots p ! i)\<lparr>present := False\<rparr>"]
  show sl: "pq_slots p' = (pq_slots p)[i := (pq_slots p ! i)\<lparr>present := False\<rparr>]"
    using w(2) by (simp add: p'_def pq_slots_def)
  have "pq_slots p = take i (pq_slots p) @ (pq_slots p ! i) # drop (Suc i) (pq_slots p)"
    using assms(2) by (simp add: id_take_nth_drop [symmetric])
  then have "length (filter present (pq_slots p)) = Suc (length (filter present (pq_slots p')))"
    using assms(2,3) by (simp add: sl upd_conv_take_nth_drop)
       (metis (no_types, lifting) append_Cons add_Suc_right filter.simps(2) filter_append length_Cons length_append)
  then show "pq_slots_ok p'" using ok w(1) sl by (auto simp: pq_slots_ok_def p'_def)
  show "pq_map p' = (pq_map p)(firstPacket p + int i := None)"
    using assms(2) by (simp add: pq_map_def sl slot_map_update) (simp add: p'_def)
qed

lemma Remove_absent: "pq_inv p \<Longrightarrow> pn_ok n \<Longrightarrow> pq_map p n = None \<Longrightarrow> pq_Remove z n p = Some (None, p)"
  using getEntryWraper_cases [of p n] by (simp add: pq_Remove_def)

lemma Remove_present:
  assumes "pq_inv p" "pn_ok n" "pq_map p n = Some x"
  shows "\<exists>p'. pq_Remove z n p = Some (Some x, p') \<and> pq_inv p' \<and> pq_map p' = (pq_map p)(n := None)
    \<and> (pq_slots p' \<noteq> [] \<longrightarrow> pq_end p' = pq_end p)"
proof -
  define i where "i = nat (n - firstPacket p)"
  from getEntryWraper_cases [OF assms(1,2)] assms(3)
  have g: "getEntryWraper n p = Some (Some (rb_index (pq_entries p) i))"
    and b: "i < length (pq_slots p)" "n = firstPacket p + int i"
    and w: "ring (pq_entries p) ! rb_index (pq_entries p) i = pq_slots p ! i" "x = entry (pq_slots p ! i)"
      "present (pq_slots p ! i)" by (auto simp: i_def)
  let ?p = "p\<lparr>pq_entries := (pq_entries p)\<lparr>ring := (ring (pq_entries p))[rb_index (pq_entries p) i
              := (pq_slots p ! i)\<lparr>present := False\<rparr>]\<rparr>,
              numberOfPresentEntries := numberOfPresentEntries p - 1\<rparr>"
  note m = mark_absent [OF assms(1) b(1) w(3)]
  have e: "pq_end ?p = pq_end p" by (simp add: pq_end_def m(2))
  show ?thesis
  proof (cases "n = firstPacket p")
    case True
    from clearup_law [OF m(1), of z] obtain p' where
      "clearup z ?p = Some p'" "pq_inv p'" "pq_map p' = pq_map ?p" "pq_slots p' \<noteq> [] \<longrightarrow> pq_end p' = pq_end ?p" by blast
    then show ?thesis using True g w b m(3) e by (auto simp: pq_Remove_def Let_def)
  next
    case False
    then have "0 < i" using b by simp
    then have "pq_inv ?p" using m(1,2) assms(1) b(1)
      by (auto simp: pq_inv_def hd_conv_nth)
    then show ?thesis using False g w b m(3) e by (auto simp: pq_Remove_def Let_def)
  qed
qed

lemma drop_up_to_law:
  "pq_slots_ok p \<Longrightarrow> \<exists>p'. drop_up_to z n p = Some p' \<and> pq_slots_ok p' \<and> pq_map p' = pq_map p |` {n..}
     \<and> pq_end p' = pq_end p"
proof (induction "pq_slots p" arbitrary: p)
  case Nil
  then have "rb_Empty (pq_entries p)" by (simp add: rb_Empty_list pq_slots_ok_def pq_slots_def)
  with Nil show ?case by (subst drop_up_to.simps) (simp add: pq_map_def)
next
  case (Cons x xs)
  note sl = Cons.hyps(2) [symmetric]
  from pop_slots [OF Cons.prems sl, of z]
  obtain es where es: "rb_PopFront (zero_wrapper z) (pq_entries p) = Some (x, es)" "rb_inv es" "rb_list es = xs"
    "rb_Front (pq_entries p) = Some (rb_index (pq_entries p) 0)"
    "ring (pq_entries p) ! rb_index (pq_entries p) 0 = x" "\<not> rb_Empty (pq_entries p)"
    "i64 (firstPacket p + 1) = firstPacket p + 1" by blast
  have f: "0 \<le> firstPacket p" using Cons.prems sl by (simp add: pq_slots_ok_def)
  show ?case
  proof (cases "firstPacket p < n")
    case True
    let ?p = "p\<lparr>pq_entries := es, numberOfPresentEntries :=
                (if present x then numberOfPresentEntries p - 1 else numberOfPresentEntries p),
                firstPacket := firstPacket p + 1\<rparr>"
    have sl': "pq_slots ?p = xs" using es by (simp add: pq_slots_def)
    have "pq_slots_ok ?p" using Cons.prems es sl sl' by (auto simp: pq_slots_ok_def)
    with Cons.hyps(1) [of ?p] sl' obtain p' where
      "drop_up_to z n ?p = Some p'" "pq_slots_ok p'" "pq_map p' = pq_map ?p |` {n..}" "pq_end p' = pq_end ?p" by auto
    moreover have "pq_map ?p |` {n..} = pq_map p |` {n..}"
      using True sl sl' by (auto simp: pq_map_def slot_map_Cons restrict_map_def fun_eq_iff)
    moreover have "drop_up_to z n p = drop_up_to z n ?p"
      using es f True by (subst drop_up_to.simps) (simp add: invalidPacketNumber_def)
    moreover have "pq_end ?p = pq_end p" using sl sl' by (simp add: pq_end_def)
    ultimately show ?thesis by simp
  next
    case False
    then have "pq_map p |` {n..} = pq_map p" by (auto simp: pq_map_def restrict_map_def fun_eq_iff)
    with False Cons.prems show ?thesis by (subst drop_up_to.simps) simp
  qed
qed

lemma RemoveUpTo_law:
  assumes "pq_inv p"
  shows "\<exists>p'. RemoveUpTo z n p = Some p' \<and> pq_inv p' \<and> pq_map p' = pq_map p |` {n..}
     \<and> (pq_slots p' \<noteq> [] \<longrightarrow> pq_end p' = pq_end p)"
proof -
  from drop_up_to_law [OF pq_inv_slots [OF assms], of z n] obtain p1 where
    p1: "drop_up_to z n p = Some p1" "pq_slots_ok p1" "pq_map p1 = pq_map p |` {n..}" "pq_end p1 = pq_end p" by blast
  from clearup_law [OF p1(2), of z] p1 show ?thesis by (auto simp: RemoveUpTo_def)
qed


section \<open>The specification: a map and the last number inserted\<close>

datatype 'a pq_op = PEmplace int 'a | PGet int | PRemove int | PRemoveUpTo int | PCount | PLast

datatype 'a pq_out = OutBool bool | OutEntry "'a option" | OutInt int | OutUnit

fun pq_do :: "'a \<Rightarrow> 'a pq_op \<Rightarrow> 'a packet_queue \<Rightarrow> ('a pq_out \<times> 'a packet_queue) option" where
  "pq_do z (PEmplace n x) p = map_option (\<lambda>(b, p'). (OutBool b, p')) (Emplace z n (Some x) p)"
| "pq_do z (PGet n) p = map_option (\<lambda>x. (OutEntry x, p)) (GetEntry n p)"
| "pq_do z (PRemove n) p = map_option (\<lambda>(x, p'). (OutEntry x, p')) (pq_Remove z n p)"
| "pq_do z (PRemoveUpTo n) p = map_option (Pair OutUnit) (RemoveUpTo z n p)"
| "pq_do z PCount p = Some (OutInt (numberOfPresentEntries p), p)"
| "pq_do z PLast p = Some (OutInt (LastPacket p), p)"

definition forget_last :: "(int \<Rightarrow> 'a option) \<times> int \<Rightarrow> (int \<Rightarrow> 'a option) \<times> int" where
  "forget_last = (\<lambda>(m, l). (m, if dom m = {} then invalidPacketNumber else l))"

fun map_do :: "'a pq_op \<Rightarrow> (int \<Rightarrow> 'a option) \<times> int \<Rightarrow> ('a pq_out \<times> (int \<Rightarrow> 'a option) \<times> int) option" where
  "map_do (PEmplace n x) (m, l) =
     (if dom m = {} \<or> l < n then Some (OutBool True, m(n \<mapsto> x), n) else Some (OutBool False, m, l))"
| "map_do (PGet n) (m, l) = Some (OutEntry (m n), m, l)"
| "map_do (PRemove n) (m, l) = Some (OutEntry (m n), forget_last (m(n := None), l))"
| "map_do (PRemoveUpTo n) (m, l) = Some (OutUnit, forget_last (m |` {n..}, l))"
| "map_do PCount (m, l) = Some (OutInt (int (card (dom m))), m, l)"
| "map_do PLast (m, l) = Some (OutInt l, m, l)"

fun pq_op_ok :: "'a pq_op \<Rightarrow> bool" where
  "pq_op_ok (PEmplace n x) = pn_ok n"
| "pq_op_ok (PGet n) = pn_ok n"
| "pq_op_ok (PRemove n) = pn_ok n"
| "pq_op_ok _ = True"

definition pq_abs :: "'a packet_queue \<Rightarrow> (int \<Rightarrow> 'a option) \<times> int" where
  "pq_abs p = (pq_map p, LastPacket p)"

lemma pq_map_dom: "pq_inv p \<Longrightarrow> dom (pq_map p) = {} \<longleftrightarrow> pq_slots p = []"
  by (cases "pq_slots p") (auto simp: pq_map_def pq_inv_def slot_map_Cons fun_eq_iff split: if_splits)

lemma pq_LastPacket: "pq_inv p \<Longrightarrow> LastPacket p = (if pq_slots p = [] then invalidPacketNumber else pq_end p - 1)"
  using LastPacket_eq [of p] by (auto simp: LastPacket_def pq_IsEmpty_iff pq_end_def)

lemma pq_abs_shrunk:
  assumes "pq_inv p" "pq_inv p'" "pq_map p' = m" "pq_slots p' \<noteq> [] \<longrightarrow> pq_end p' = pq_end p"
    and "dom m \<noteq> {} \<longrightarrow> pq_slots p \<noteq> []"
  shows "pq_abs p' = forget_last (m, LastPacket p)"
  using assms pq_map_dom [OF assms(2)] by (auto simp: pq_abs_def forget_last_def pq_LastPacket)

lemma pq_emplace_sim:
  assumes "pq_inv p" "pn_ok n"
  shows "case Emplace z n (Some x) p of
      None \<Rightarrow> False
    | Some (b, p') \<Rightarrow> pq_inv p' \<and> map_do (PEmplace n x) (pq_abs p) = Some (OutBool b, pq_abs p')"
proof (cases "pq_slots p = [] \<or> LastPacket p < n")
  case True
  then have "\<exists>p'. Emplace z n (Some x) p = Some (True, p') \<and> pq_inv p' \<and> pq_map p' = (pq_map p)(n \<mapsto> x)
    \<and> pq_slots p' \<noteq> [] \<and> pq_end p' = n + 1"
    using Emplace_first [OF assms] Emplace_later [OF assms] by blast
  with True show ?thesis using pq_map_dom [OF assms(1)] by (auto simp: pq_abs_def pq_LastPacket)
next
  case False
  then have "Emplace z n (Some x) p = Some (False, p)" by (intro Emplace_refused [OF assms(1)]) auto
  with False assms(1) show ?thesis using pq_map_dom [OF assms(1)] by (simp add: pq_abs_def)
qed

lemma pq_remove_sim:
  assumes "pq_inv p" "pn_ok n"
  shows "case pq_Remove z n p of
      None \<Rightarrow> False
    | Some (x, p') \<Rightarrow> pq_inv p' \<and> map_do (PRemove n) (pq_abs p) = Some (OutEntry x, pq_abs p')"
proof (cases "pq_map p n")
  case None
  moreover have "(pq_map p)(n := None) = pq_map p" using None by auto
  moreover have "forget_last (pq_map p, LastPacket p) = (pq_map p, LastPacket p)"
    using assms(1) pq_map_dom [OF assms(1)] by (auto simp: forget_last_def pq_LastPacket)
  ultimately show ?thesis using Remove_absent [OF assms None, of z] assms(1) by (simp add: pq_abs_def)
next
  case (Some x)
  from Remove_present [OF assms Some, of z] obtain p' where
    p': "pq_Remove z n p = Some (Some x, p')" "pq_inv p'" "pq_map p' = (pq_map p)(n := None)"
      "pq_slots p' \<noteq> [] \<longrightarrow> pq_end p' = pq_end p" by blast
  from pq_abs_shrunk [OF assms(1) p'(2-4)] have "pq_abs p' = forget_last ((pq_map p)(n := None), LastPacket p)"
    using Some pq_map_dom [OF assms(1)] by (auto simp: dom_def)
  with p' Some show ?thesis by (simp add: pq_abs_def)
qed

lemma pq_upto_sim:
  assumes "pq_inv p"
  shows "case RemoveUpTo z n p of
      None \<Rightarrow> False
    | Some p' \<Rightarrow> pq_inv p' \<and> map_do (PRemoveUpTo n) (pq_abs p) = Some (OutUnit, pq_abs p')"
proof -
  from RemoveUpTo_law [OF assms, of z n] obtain p' where
    p': "RemoveUpTo z n p = Some p'" "pq_inv p'" "pq_map p' = pq_map p |` {n..}"
      "pq_slots p' \<noteq> [] \<longrightarrow> pq_end p' = pq_end p" by blast
  from pq_abs_shrunk [OF assms p'(2-4)] have "pq_abs p' = forget_last (pq_map p |` {n..}, LastPacket p)"
    using pq_map_dom [OF assms] by fastforce
  with p' show ?thesis by (simp add: pq_abs_def)
qed

lemma pq_do_sim:
  assumes "pq_inv p" "pq_op_ok a"
  shows "case pq_do z a p of
      None \<Rightarrow> map_do a (pq_abs p) = None
    | Some (out, p') \<Rightarrow> pq_inv p' \<and> map_do a (pq_abs p) = Some (out, pq_abs p')"
proof (cases a)
  case (PEmplace n x)
  with assms pq_emplace_sim [where p = p and n = n and z = z and x = x] show ?thesis by (auto split: option.splits)
next
  case (PRemove n)
  with assms pq_remove_sim [where p = p and n = n and z = z] show ?thesis by (auto split: option.splits)
next
  case (PRemoveUpTo n)
  with assms pq_upto_sim [where p = p and z = z and n = n] show ?thesis by (auto split: option.splits)
next
  case PCount
  with assms show ?thesis by (simp add: pq_abs_def pq_map_def slot_map_card pq_inv_def pq_slots_ok_def)
qed (use assms GetEntry_law [of p] in \<open>auto simp: pq_abs_def\<close>)

lemma map_run_total: "run_steps map_do ops s \<noteq> None"
proof (induction ops arbitrary: s)
  case (Cons a ops)
  have "\<exists>out s'. map_do a s = Some (out, s')" by (cases "(a, s)" rule: map_do.cases) auto
  then obtain out s' where "map_do a s = Some (out, s')" by blast
  with Cons show ?case by simp
qed simp

interpretation pq_data: data_refinement pq_inv pq_abs pq_op_ok "pq_do z" map_do for z
  by unfold_locales (rule pq_do_sim)



end
