(* ===== verification/Windowed_Filter.thy ===== *)
theory Windowed_Filter
  imports Prelude
begin

text \<open>
  The windowed maximum of \<open>internal/congestion/bbr/windowed_filter.go\<close>. Its times are
  \<open>roundTripCount\<close> values (\<open>uint64\<close>), so a difference of times wraps. The comparator is a
  parameter of the source's type; the locale \<open>filter_order\<close> states what the filter needs of it
  and is interpreted for the comparators the code passes.
\<close>

section \<open>The filter\<close>

type_synonym 'v estimate = "'v \<times> int"

record 'v windowed_filter =
  windowLength :: int
  est0 :: "'v estimate"
  est1 :: "'v estimate"
  est2 :: "'v estimate"

definition MaxFilter :: "'v :: linorder \<Rightarrow> 'v \<Rightarrow> int" where
  "MaxFilter a b = (if a > b then 1 else if a < b then - 1 else 0)"

definition MinFilter :: "'v :: linorder \<Rightarrow> 'v \<Rightarrow> int" where
  "MinFilter a b = (if a < b then 1 else if a > b then - 1 else 0)"

definition NewWindowedFilter :: "'v \<Rightarrow> int \<Rightarrow> 'v windowed_filter" where
  "NewWindowedFilter z w = \<lparr>windowLength = w, est0 = (z, 0), est1 = (z, 0), est2 = (z, 0)\<rparr>"

definition SetWindowLength :: "int \<Rightarrow> 'v windowed_filter \<Rightarrow> 'v windowed_filter" where
  "SetWindowLength w f = f\<lparr>windowLength := w\<rparr>"

definition GetBest :: "'v windowed_filter \<Rightarrow> 'v" where "GetBest f = fst (est0 f)"

definition GetSecondBest :: "'v windowed_filter \<Rightarrow> 'v" where "GetSecondBest f = fst (est1 f)"

definition GetThirdBest :: "'v windowed_filter \<Rightarrow> 'v" where "GetThirdBest f = fst (est2 f)"

definition wf_Reset :: "'v \<Rightarrow> int \<Rightarrow> 'v windowed_filter \<Rightarrow> 'v windowed_filter" where
  "wf_Reset v t f = f\<lparr>est0 := (v, t), est1 := (v, t), est2 := (v, t)\<rparr>"

definition wf_Clear :: "'v \<Rightarrow> 'v windowed_filter \<Rightarrow> 'v windowed_filter" where
  "wf_Clear z f = f\<lparr>est0 := (z, 0), est1 := (z, 0), est2 := (z, 0)\<rparr>"

definition wf_Update :: "('v \<Rightarrow> 'v \<Rightarrow> int) \<Rightarrow> 'v \<Rightarrow> 'v \<Rightarrow> int \<Rightarrow> 'v windowed_filter \<Rightarrow> 'v windowed_filter" where
  "wf_Update cmp z newSample newTime f =
     (if cmp (fst (est0 f)) z = 0 \<or> cmp newSample (fst (est0 f)) \<ge> 0
         \<or> u64 (newTime - snd (est2 f)) > windowLength f
      then wf_Reset newSample newTime f
      else
        let new = (newSample, newTime);
            f1 = (if cmp newSample (fst (est1 f)) \<ge> 0 then f\<lparr>est1 := new, est2 := new\<rparr>
                  else if cmp newSample (fst (est2 f)) \<ge> 0 then f\<lparr>est2 := new\<rparr> else f)
        in if u64 (newTime - snd (est0 f1)) > windowLength f then
             (let f2 = f1\<lparr>est0 := est1 f1, est1 := est2 f1, est2 := new\<rparr> in
              if u64 (newTime - snd (est0 f2)) > windowLength f
              then f2\<lparr>est0 := est1 f2, est1 := est2 f2\<rparr> else f2)
           else if cmp (fst (est1 f1)) (fst (est0 f1)) = 0
                   \<and> u64 (newTime - snd (est1 f1)) > windowLength f div 4
             then f1\<lparr>est1 := new, est2 := new\<rparr>
           else if cmp (fst (est2 f1)) (fst (est1 f1)) = 0
                   \<and> u64 (newTime - snd (est2 f1)) > windowLength f div 2
             then f1\<lparr>est2 := new\<rparr>
           else f1)"


section \<open>What the filter needs of its comparator\<close>

text \<open>
  A history lists the samples with the newest first. An estimate dominates the history when
  it is one of the samples and no sample recorded since then is better.
\<close>

locale filter_order =
  fixes cmp :: "'v \<Rightarrow> 'v \<Rightarrow> int"
  assumes cmp_self: "cmp a a = 0"
    and cmp_total: "cmp a b \<ge> 0 \<or> cmp b a \<ge> 0"
    and cmp_trans: "cmp a b \<ge> 0 \<Longrightarrow> cmp b c \<ge> 0 \<Longrightarrow> cmp a c \<ge> 0"
begin

fun dominates :: "'v estimate list \<Rightarrow> 'v estimate \<Rightarrow> bool" where
  "dominates [] e = False"
| "dominates (h # hs) e \<longleftrightarrow> cmp (fst e) (fst h) \<ge> 0 \<and> (e = h \<or> dominates hs e)"

fun falling :: "'v estimate list \<Rightarrow> bool" where
  "falling (h # h' # hs) \<longleftrightarrow> snd h' \<le> snd h \<and> falling (h' # hs)"
| "falling _ = True"

definition filter_inv :: "'v estimate list \<Rightarrow> 'v windowed_filter \<Rightarrow> bool" where
  "filter_inv hs f \<longleftrightarrow>
     dominates hs (est0 f) \<and> dominates hs (est1 f) \<and> dominates hs (est2 f)
     \<and> cmp (fst (est0 f)) (fst (est1 f)) \<ge> 0 \<and> cmp (fst (est1 f)) (fst (est2 f)) \<ge> 0
     \<and> snd (est0 f) \<le> snd (est1 f) \<and> snd (est1 f) \<le> snd (est2 f)
     \<and> snd (hd hs) - snd (est0 f) \<le> windowLength f"

lemma cmp_refl: "cmp a a \<ge> 0"
  by (simp add: cmp_self)

lemma dominates_new: "dominates ((v, t) # hs) (v, t)"
  by (simp add: cmp_refl)

lemma dominates_old: "dominates hs e \<Longrightarrow> cmp v (fst e) < 0 \<Longrightarrow> dominates ((v, t) # hs) e"
  using cmp_total [of v "fst e"] by auto

lemma dominates_hist: "dominates hs e \<Longrightarrow> e \<in> set hs"
  by (induction hs e rule: dominates.induct) auto

lemma dominates_newest: "dominates hs e \<Longrightarrow> cmp (fst e) (fst (hd hs)) \<ge> 0"
  by (cases hs) auto

lemma falling_hd: "falling (h # hs) \<Longrightarrow> e \<in> set (h # hs) \<Longrightarrow> snd e \<le> snd h"
proof (induction "h # hs" arbitrary: h hs rule: falling.induct)
  case (1 h h' hs)
  then show ?case by fastforce
qed auto

text \<open>Samples recorded later than the estimate are never better than it.\<close>

lemma dominates_later:
  assumes "dominates hs e" "falling hs" "s \<in> set hs" "snd e < snd s"
  shows "cmp (fst e) (fst s) \<ge> 0"
  using assms
proof (induction hs e rule: dominates.induct)
  case (2 h hs e)
  show ?case
  proof (cases "e = h")
    case True
    with 2 show ?thesis using falling_hd [of h hs s] by auto
  next
    case False
    with 2 show ?thesis by (cases hs) auto
  qed
qed simp

lemma reset_inv: "0 \<le> windowLength f \<Longrightarrow> filter_inv ((v, t) # hs) (wf_Reset v t f)"
  by (simp add: filter_inv_def wf_Reset_def cmp_refl)

text \<open>
  The three estimates after one update, by the branch taken: the dominance facts of the
  estimates kept, and of the new sample, carry over.
\<close>

lemma update_inv:
  assumes inv: "filter_inv hs f" and hs: "hs \<noteq> []" "falling ((v, t) # hs)"
    and t: "\<forall>e \<in> set hs. 0 \<le> snd e" "t < 2 ^ 64" and w: "0 \<le> windowLength f"
  shows "filter_inv ((v, t) # hs) (wf_Update cmp z v t f)"
proof -
  obtain v0 t0 v1 t1 v2 t2 where e: "est0 f = (v0, t0)" "est1 f = (v1, t1)" "est2 f = (v2, t2)"
    by (metis surj_pair)
  have d: "dominates hs (v0, t0)" "dominates hs (v1, t1)" "dominates hs (v2, t2)"
    and o: "cmp v0 v1 \<ge> 0" "cmp v1 v2 \<ge> 0" "t0 \<le> t1" "t1 \<le> t2"
    using inv by (auto simp: filter_inv_def e)
  have "t2 \<le> t" using falling_hd [OF hs(2), of "(v2, t2)"] dominates_hist [OF d(3)] by simp
  moreover have "0 \<le> t0" using dominates_hist [OF d(1)] t(1) by auto
  ultimately have u: "u64 (t - t0) = t - t0" "u64 (t - t1) = t - t1" "u64 (t - t2) = t - t2" "u64 (t - t) = 0"
    and ts: "t0 \<le> t" "t1 \<le> t" "t2 \<le> t"
    using o t(2) by (auto intro!: u64_id simp: u64_def)
  have new: "dominates ((v, t) # hs) (v, t)" by (rule dominates_new)
  show ?thesis
  proof (cases "cmp v0 z = 0 \<or> cmp v v0 \<ge> 0 \<or> t - t2 > windowLength f")
    case True
    then have "wf_Update cmp z v t f = wf_Reset v t f" by (auto simp: wf_Update_def e u)
    with reset_inv [OF w] show ?thesis by simp
  next
    case False
    then have lt: "cmp v v0 < 0" "t - t2 \<le> windowLength f" and ge: "cmp v0 v \<ge> 0"
      using cmp_total [of v v0] by auto
    note d0 = dominates_old [OF d(1), of v t] and d1 = dominates_old [OF d(2), of v t]
      and d2 = dominates_old [OF d(3), of v t]
    have c1: "cmp v v1 < 0 \<Longrightarrow> cmp v1 v \<ge> 0" and c2: "cmp v v2 < 0 \<Longrightarrow> cmp v2 v \<ge> 0"
      and c12: "cmp v v1 \<ge> 0 \<Longrightarrow> cmp v v2 \<ge> 0"
      using cmp_total [of v v1] cmp_total [of v v2] cmp_trans [OF _ o(2), of v] by auto
    from False have upd: "wf_Update cmp z v t f = (
        let f1 = (if cmp v v1 \<ge> 0 then f\<lparr>est1 := (v, t), est2 := (v, t)\<rparr>
                  else if cmp v v2 \<ge> 0 then f\<lparr>est2 := (v, t)\<rparr> else f)
        in if u64 (t - snd (est0 f1)) > windowLength f then
             (let f2 = f1\<lparr>est0 := est1 f1, est1 := est2 f1, est2 := (v, t)\<rparr> in
              if u64 (t - snd (est0 f2)) > windowLength f
              then f2\<lparr>est0 := est1 f2, est1 := est2 f2\<rparr> else f2)
           else if cmp (fst (est1 f1)) (fst (est0 f1)) = 0 \<and> u64 (t - snd (est1 f1)) > windowLength f div 4
             then f1\<lparr>est1 := (v, t), est2 := (v, t)\<rparr>
           else if cmp (fst (est2 f1)) (fst (est1 f1)) = 0 \<and> u64 (t - snd (est2 f1)) > windowLength f div 2
             then f1\<lparr>est2 := (v, t)\<rparr>
           else f1)"
      by (simp add: wf_Update_def e u Let_def)
    consider (second) "cmp v v1 \<ge> 0" | (third) "cmp v v1 < 0" "cmp v v2 \<ge> 0" | (none) "cmp v v1 < 0" "cmp v v2 < 0"
      by linarith
    then show ?thesis
    proof cases
      case second
      then show ?thesis using d0 lt ge new ts w
        by (auto simp: upd e u filter_inv_def Let_def cmp_refl simp del: dominates.simps)
    next
      case third
      then show ?thesis using d0 d1 lt ge new ts w o c1
        by (auto simp: upd e u filter_inv_def Let_def cmp_refl simp del: dominates.simps)
    next
      case none
      then show ?thesis using d0 d1 d2 lt ge new ts w o c1 c2
        by (auto simp: upd e u filter_inv_def Let_def cmp_refl simp del: dominates.simps)
    qed
  qed
qed

definition feed :: "'v \<Rightarrow> 'v estimate list \<Rightarrow> 'v windowed_filter \<Rightarrow> 'v windowed_filter" where
  "feed z samples f = fold (\<lambda>(v, t). wf_Update cmp z v t) samples f"

lemma windowLength_Update [simp]: "windowLength (wf_Update cmp z v t f) = windowLength f"
  by (simp add: wf_Update_def wf_Reset_def Let_def)

lemma falling_rev: "falling (rev samples) \<longleftrightarrow> sorted (map snd samples)"
proof -
  have "falling hs \<longleftrightarrow> sorted_wrt (\<ge>) (map snd hs)" for hs
  proof (induction hs rule: falling.induct)
    case (1 h h' hs)
    then show ?case using order_trans by fastforce
  qed auto
  then show ?thesis by (simp add: rev_map [symmetric] sorted_wrt_rev)
qed

lemma feed_inv:
  assumes "0 \<le> w" "samples \<noteq> []" "sorted (map snd samples)" "\<forall>e \<in> set samples. 0 \<le> snd e \<and> snd e < 2 ^ 64"
  shows "filter_inv (rev samples) (feed z samples (NewWindowedFilter z w))
    \<and> windowLength (feed z samples (NewWindowedFilter z w)) = w"
  using assms
proof (induction samples rule: rev_induct)
  case (snoc s samples)
  obtain v t where s: "s = (v, t)" by (cases s)
  show ?case
  proof (cases "samples = []")
    case True
    then show ?thesis using reset_inv [of "NewWindowedFilter z w" v t "[]"] snoc.prems(1)
      by (simp add: s feed_def wf_Update_def NewWindowedFilter_def cmp_self wf_Reset_def)
  next
    case False
    with snoc have "filter_inv (rev samples) (feed z samples (NewWindowedFilter z w))"
      "windowLength (feed z samples (NewWindowedFilter z w)) = w" by (auto simp: sorted_append)
    moreover have "falling ((v, t) # rev samples)"
      using snoc.prems(3) falling_rev [of "samples @ [s]"] by (simp add: s)
    ultimately show ?thesis
      using update_inv [of "rev samples" "feed z samples (NewWindowedFilter z w)" v t z] snoc.prems False
      by (simp add: s feed_def)
  qed
qed simp

lemma feed_best:
  assumes "0 \<le> w" "samples \<noteq> []" "sorted (map snd samples)" "\<forall>e \<in> set samples. 0 \<le> snd e \<and> snd e < 2 ^ 64"
  shows "\<exists>t. (GetBest (feed z samples (NewWindowedFilter z w)), t) \<in> set samples
    \<and> snd (last samples) - t \<le> w
    \<and> (\<forall>s \<in> set samples. t < snd s \<or> s = last samples
         \<longrightarrow> cmp (GetBest (feed z samples (NewWindowedFilter z w))) (fst s) \<ge> 0)"
proof -
  let ?f = "feed z samples (NewWindowedFilter z w)"
  have inv: "filter_inv (rev samples) ?f" "windowLength ?f = w" using feed_inv [OF assms] by auto
  then have d: "dominates (rev samples) (est0 ?f)" by (simp add: filter_inv_def)
  show ?thesis
  proof (intro exI [of _ "snd (est0 ?f)"] conjI ballI impI)
    show "(GetBest ?f, snd (est0 ?f)) \<in> set samples" using dominates_hist [OF d] by (simp add: GetBest_def)
    show "snd (last samples) - snd (est0 ?f) \<le> w" using inv by (simp add: filter_inv_def hd_rev)
    show "cmp (GetBest ?f) (fst s) \<ge> 0"
      if "s \<in> set samples" "snd (est0 ?f) < snd s \<or> s = last samples" for s
      using that dominates_later [OF d, of s] dominates_newest [OF d] assms(3)
      by (auto simp: GetBest_def falling_rev hd_rev)
  qed
qed

end

interpretation max_filter: filter_order "MaxFilter :: 'v :: linorder \<Rightarrow> 'v \<Rightarrow> int"
  by unfold_locales (auto simp: MaxFilter_def split: if_splits)

interpretation min_filter: filter_order "MinFilter :: 'v :: linorder \<Rightarrow> 'v \<Rightarrow> int"
  by unfold_locales (auto simp: MinFilter_def split: if_splits)

text \<open>
  The filter behind the bandwidth estimate. After any samples with rising times, the
  best estimate is one of the samples, it is no older than the window, no sample recorded
  after it is larger, and it is at least the newest sample.
\<close>

theorem max_filter_tracks_window:
  assumes "0 \<le> w" "samples \<noteq> []" "sorted (map snd samples)" "\<forall>e \<in> set samples. 0 \<le> snd e \<and> snd e < 2 ^ 64"
    and "best = GetBest (fold (\<lambda>(v, t). wf_Update MaxFilter z v t) samples (NewWindowedFilter (z :: 'v :: linorder) w))"
  shows "\<exists>t. (best, t) \<in> set samples \<and> snd (last samples) - t \<le> w \<and> fst (last samples) \<le> best
    \<and> (\<forall>s \<in> set samples. t < snd s \<longrightarrow> fst s \<le> best)"
proof -
  have le: "MaxFilter a b \<ge> 0 \<longleftrightarrow> b \<le> a" for a b :: 'v by (auto simp: MaxFilter_def)
  from max_filter.feed_best [OF assms(1-4), of z, unfolded max_filter.feed_def, folded assms(5)]
  obtain t where "(best, t) \<in> set samples" "snd (last samples) - t \<le> w"
    "\<forall>s \<in> set samples. t < snd s \<or> s = last samples \<longrightarrow> fst s \<le> best" unfolding le by blast
  with last_in_set [OF assms(2)] show ?thesis by blast
qed

theorem max_filter_tracks_window_witness:
  "\<exists>t. (GetBest (fold (\<lambda>(v, t). wf_Update MaxFilter 0 v t) [(5, 1), (9, 2), (4, 20)]
          (NewWindowedFilter (0 :: int) 10)), t) \<in> {(5, 1), (9, 2), (4, 20)} \<and> 20 - t \<le> (10 :: int)"
  using max_filter_tracks_window [of 10 "[(5, 1), (9, 2), (4, 20)]" _ 0, OF _ _ _ _ refl] by auto

end
