(* ===== verification/Go_Float.thy ===== *)
theory Go_Float
  imports Prelude "HOL-Library.Log_Nat"
begin

text \<open>
  The \<open>float64\<close> arithmetic the congestion code uses, on rationals: \<open>f64\<close> rounds to the nearest
  value with a 53-bit significand, ties to even. Exponents stay far inside the range of the
  format there, so neither infinities nor subnormal numbers occur. A conversion to \<open>int64\<close>
  truncates; out of range it gives the least \<open>int64\<close>, what the code gets on amd64.
\<close>

definition round_even :: "rat \<Rightarrow> int" where
  "round_even x =
     (let n = \<lfloor>x\<rfloor>; d = x - of_int n in
      if d < 1/2 then n else if d > 1/2 then n + 1 else if even n then n else n + 1)"

definition pow2 :: "int \<Rightarrow> rat" where
  "pow2 k = (if 0 \<le> k then 2 ^ nat k else 1 / 2 ^ nat (- k))"

definition bitlen_int :: "int \<Rightarrow> int" where
  "bitlen_int n = int (floorlog 2 (nat n))"

text \<open>The exponent is the one that brings the magnitude into \<open>[2^52, 2^53)\<close>.\<close>

definition f64 :: "rat \<Rightarrow> rat" where
  "f64 x =
     (if x = 0 then 0
      else let (p, q) = quotient_of \<bar>x\<bar>;
               k = 53 + bitlen_int q - bitlen_int p;
               e = (if \<bar>x\<bar> * pow2 k \<ge> 2 ^ 53 then k - 1 else k)
           in sgn x * (of_int (round_even (\<bar>x\<bar> * pow2 e)) / pow2 e))"

definition f64_to_i64 :: "rat \<Rightarrow> int" where
  "f64_to_i64 x = (let n = (if x < 0 then \<lceil>x\<rceil> else \<lfloor>x\<rfloor>) in if in_i64 n then n else - (2 ^ 63))"

text \<open>
  A conversion to \<open>uint64\<close>. What an out of range value gives differs between the processors the
  program runs on, so it is an argument.
\<close>

definition f64_to_u64 :: "(rat \<Rightarrow> int) \<Rightarrow> rat \<Rightarrow> int" where
  "f64_to_u64 oor x =
     (let n = (if x < 0 then \<lceil>x\<rceil> else \<lfloor>x\<rfloor>) in if 0 \<le> n \<and> n < 2 ^ 64 then n else u64 (oor x))"

lemma round_even_int [simp]: "round_even (of_int n) = n"
  by (simp add: round_even_def)

lemma pow2_pos [simp]: "0 < pow2 k"
  by (simp add: pow2_def)

text \<open>An integer of at most 53 bits is exact.\<close>

lemma bitlen_bounds:
  assumes "0 < n"
  shows "2 ^ nat (bitlen_int n - 1) \<le> n" "n < 2 ^ nat (bitlen_int n)" "1 \<le> bitlen_int n"
proof -
  have "floorlog 2 (nat n) > 0" using assms by (simp add: floorlog_def)
  then show "1 \<le> bitlen_int n" by (simp add: bitlen_int_def)
  have b: "2 ^ (floorlog 2 (nat n) - 1) \<le> nat n \<and> nat n < 2 ^ floorlog 2 (nat n)"
    using assms by (intro floorlog_bounds) auto
  then have "int (2 ^ (floorlog 2 (nat n) - 1)) \<le> int (nat n)" "int (nat n) < int (2 ^ floorlog 2 (nat n))"
    by (simp_all only: of_nat_le_iff of_nat_less_iff)
  then show "2 ^ nat (bitlen_int n - 1) \<le> n" "n < 2 ^ nat (bitlen_int n)"
    using assms \<open>floorlog 2 (nat n) > 0\<close> by (simp_all add: bitlen_int_def nat_diff_distrib)
qed

lemma f64_int_exact:
  assumes "0 \<le> n" "n < 2 ^ 53"
  shows "f64 (of_int n) = of_int n"
proof (cases "n = 0")
  case False
  then have pos: "0 < n" using assms(1) by simp
  note b = bitlen_bounds [OF pos]
  have "(2 :: int) ^ nat (bitlen_int n - 1) < 2 ^ 53" using b(1) assms(2) by linarith
  then have "nat (bitlen_int n - 1) < 53" by (rule power_less_imp_less_exp [rotated]) simp
  then have len: "bitlen_int n \<le> 53" using b(3) by simp
  have q: "quotient_of (of_int n) = (n, 1)" using quotient_of_int [of n] by (simp add: Rat.of_int_def)
  have one: "bitlen_int 1 = 1" by (simp add: bitlen_int_def floorlog_def)
  define k where "k = 54 - bitlen_int n"
  have k1: "1 \<le> k" using len by (simp add: k_def)
  have "(2 :: rat) ^ 53 \<le> of_int n * pow2 k"
  proof -
    have "(2 :: rat) ^ nat (bitlen_int n - 1) * 2 ^ nat k = 2 ^ (nat (bitlen_int n - 1) + nat k)"
      by (simp add: power_add)
    also have "nat (bitlen_int n - 1) + nat k = 53" using b(3) len by (simp add: k_def)
    finally have "(2 :: rat) ^ 53 = 2 ^ nat (bitlen_int n - 1) * 2 ^ nat k" by simp
    also have "\<dots> = of_int (2 ^ nat (bitlen_int n - 1)) * 2 ^ nat k" by simp
    also have "\<dots> \<le> of_int n * 2 ^ nat k" using b(1) by (intro mult_right_mono) (simp_all only: of_int_le_iff zero_le_power zero_le_numeral)
    finally show ?thesis using k1 by (simp add: pow2_def)
  qed
  then have "f64 (of_int n) = of_int (round_even (of_int n * pow2 (k - 1))) / pow2 (k - 1)"
    using pos by (simp add: f64_def q one k_def Let_def)
  also have "of_int n * pow2 (k - 1) = of_int (n * 2 ^ nat (k - 1))" using k1 by (simp add: pow2_def)
  also have "of_int (round_even (of_int (n * 2 ^ nat (k - 1)))) / pow2 (k - 1) = (of_int n :: rat)"
    unfolding round_even_int using k1 by (simp add: pow2_def)
  finally show ?thesis .
qed (simp add: f64_def)

lemma f64_to_i64_int [simp]: "in_i64 n \<Longrightarrow> f64_to_i64 (of_int n) = n"
  by (simp add: f64_to_i64_def Let_def)


text \<open>The scaled magnitude has 53 bits, so rounding moves a value by at most half a unit.\<close>

definition f64_exp :: "rat \<Rightarrow> int" where
  "f64_exp x =
     (let (p, q) = quotient_of \<bar>x\<bar>; k = 53 + bitlen_int q - bitlen_int p
      in if \<bar>x\<bar> * pow2 k \<ge> 2 ^ 53 then k - 1 else k)"

lemma f64_exp: "x \<noteq> 0 \<Longrightarrow> f64 x = sgn x * (of_int (round_even (\<bar>x\<bar> * pow2 (f64_exp x))) / pow2 (f64_exp x))"
  by (simp add: f64_def f64_exp_def Let_def split: prod.splits)

lemma pow2_add: "pow2 (a + b) = pow2 a * pow2 b"
proof -
  have p: "pow2 k = 2 powi k" for k
    by (auto simp: pow2_def power_int_def power_one_over inverse_eq_divide)
  show ?thesis unfolding p by (rule power_int_add) simp
qed

lemma pow2_int: "pow2 (int n) = 2 ^ n"
  by (simp add: pow2_def)

lemma f64_exp_bounds:
  assumes "0 < x"
  shows "2 ^ 52 \<le> x * pow2 (f64_exp x)" "x * pow2 (f64_exp x) < 2 ^ 53"
proof -
  obtain p q where pq: "quotient_of x = (p, q)" by (cases "quotient_of x")
  have q: "0 < q" using quotient_of_denom_pos [OF pq] .
  have x: "x = of_int p / of_int q" using quotient_of_div [OF pq] .
  have p: "0 < p" using assms q by (simp add: x zero_less_divide_iff)
  define k where "k = 53 + bitlen_int q - bitlen_int p"
  have up: "of_int n < pow2 (bitlen_int n)" and lo: "pow2 (bitlen_int n - 1) \<le> of_int n" if "0 < n" for n
  proof -
    note b = bitlen_bounds [OF that]
    have "of_int n < (of_int (2 ^ nat (bitlen_int n)) :: rat)" using b(2) by (simp only: of_int_less_iff)
    then show "of_int n < pow2 (bitlen_int n)" using b(3) by (simp add: pow2_def)
    have "(of_int (2 ^ nat (bitlen_int n - 1)) :: rat) \<le> of_int n" using b(1) by (simp only: of_int_le_iff)
    then show "pow2 (bitlen_int n - 1) \<le> of_int n" using b(3) by (simp add: pow2_def)
  qed
  have q0: "(0 :: rat) < of_int q" using q by simp
  have "pow2 (bitlen_int p - 1) * pow2 k = pow2 (52 + bitlen_int q)"
    by (simp add: k_def flip: pow2_add)
  also have "\<dots> = 2 ^ 52 * pow2 (bitlen_int q)" by (simp add: pow2_add) (simp add: pow2_def)
  also have "\<dots> \<ge> 2 ^ 52 * of_int q" using up [OF q] by simp
  finally have "2 ^ 52 * of_int q \<le> pow2 (bitlen_int p - 1) * pow2 k" .
  also have "\<dots> \<le> of_int p * pow2 k" using lo [OF p] by (simp add: mult_right_mono less_imp_le)
  finally have lower: "2 ^ 52 \<le> x * pow2 k" using q0 by (simp add: x pos_le_divide_eq)
  have "of_int p * pow2 k < pow2 (bitlen_int p) * pow2 k" using up [OF p] by simp
  also have "\<dots> = pow2 (54 + (bitlen_int q - 1))" by (simp add: k_def flip: pow2_add)
  also have "\<dots> = 2 ^ 54 * pow2 (bitlen_int q - 1)" unfolding pow2_add by (simp add: pow2_def)
  also have "\<dots> \<le> 2 ^ 54 * of_int q" using lo [OF q] by simp
  finally have upper: "x * pow2 k < 2 ^ 54" using q0 by (simp add: x pos_divide_less_eq)
  have "pow2 k = pow2 (k - 1) * 2" using pow2_add [of "k - 1" 1] by (simp add: pow2_def)
  then have half: "x * pow2 k = 2 * (x * pow2 (k - 1))" by simp
  have "f64_exp x = (if x * pow2 k \<ge> 2 ^ 53 then k - 1 else k)"
    using assms pq by (simp add: f64_exp_def k_def)
  then consider "f64_exp x = k - 1" "2 ^ 53 \<le> x * pow2 k" | "f64_exp x = k" "x * pow2 k < 2 ^ 53"
    by (cases "2 ^ 53 \<le> x * pow2 k") (simp_all only: if_True if_False not_le)
  then have "2 ^ 52 \<le> x * pow2 (f64_exp x) \<and> x * pow2 (f64_exp x) < 2 ^ 53"
  proof cases
    case 1
    define m where "m = x * pow2 (k - 1)"
    have "2 ^ 53 \<le> 2 * m" "2 * m < 2 ^ 54" using half 1(2) upper by (simp_all only: m_def)
    then show ?thesis unfolding 1(1) m_def [symmetric] by simp
  next
    case 2
    with lower show ?thesis unfolding 2(1) by blast
  qed
  then show "2 ^ 52 \<le> x * pow2 (f64_exp x)" "x * pow2 (f64_exp x) < 2 ^ 53" by blast+
qed

lemma round_even_bounds: "of_int (round_even x) \<le> x + 1/2" "x - 1/2 \<le> of_int (round_even x)"
proof -
  define d where "d = x - of_int \<lfloor>x\<rfloor>"
  have x: "x = of_int \<lfloor>x\<rfloor> + d" by (simp add: d_def)
  have d: "0 \<le> d" "d < 1" unfolding d_def by linarith+
  have "of_int (round_even x) - x = (if d < 1/2 then - d else if d > 1/2 then 1 - d
      else if even \<lfloor>x\<rfloor> then - d else 1 - d)"
    by (simp add: round_even_def Let_def d_def)
  with d have "\<bar>of_int (round_even x) - x\<bar> \<le> 1/2" by (auto split: if_splits)
  then show "of_int (round_even x) \<le> x + 1/2" "x - 1/2 \<le> of_int (round_even x)" by linarith+
qed

lemma round_even_mono: "of_int n \<le> x \<Longrightarrow> n \<le> round_even x" "x \<le> of_int n \<Longrightarrow> round_even x \<le> n"
proof -
  show "n \<le> round_even x" if "of_int n \<le> x"
  proof -
    have "n \<le> \<lfloor>x\<rfloor>" using that by (simp add: le_floor_iff)
    then show ?thesis by (auto simp: round_even_def Let_def)
  qed
  show "round_even x \<le> n" if "x \<le> of_int n"
  proof (cases "x = of_int n")
    case False
    then have "x < of_int n" using that by simp
    then have "\<lfloor>x\<rfloor> < n" by (simp add: floor_less_iff)
    then show ?thesis by (auto simp: round_even_def Let_def)
  qed simp
qed

text \<open>Rounding does not cross a power of two, and is relatively exact to 53 bits.\<close>

lemma f64_0 [simp]: "f64 0 = 0"
  by (simp add: f64_def)

lemma f64_nonneg: "0 \<le> x \<Longrightarrow> 0 \<le> f64 x"
proof (cases "x = 0")
  case False
  assume "0 \<le> x"
  with False have "0 < x" by simp
  from f64_exp_bounds(1) [OF this] have "0 \<le> round_even (x * pow2 (f64_exp x))" by (intro round_even_mono(1)) simp
  then show ?thesis using \<open>0 < x\<close> by (simp add: f64_exp less_imp_le)
qed simp

lemma f64_error:
  assumes "0 < x"
  shows "\<bar>f64 x - x\<bar> \<le> x / 2 ^ 53"
proof -
  let ?s = "pow2 (f64_exp x)"
  have f: "f64 x = of_int (round_even (x * ?s)) / ?s" using assms by (simp add: f64_exp)
  have "f64 x - x = (of_int (round_even (x * ?s)) - x * ?s) / ?s"
    using less_imp_neq [OF pow2_pos [of "f64_exp x"]] by (simp add: f field_simps)
  then have "\<bar>f64 x - x\<bar> = \<bar>of_int (round_even (x * ?s)) - x * ?s\<bar> / ?s"
    by (simp add: abs_divide abs_of_pos [OF pow2_pos])
  also have "\<dots> \<le> 1/2 / ?s" using round_even_bounds [of "x * ?s"] less_imp_le [OF pow2_pos]
    by (intro divide_right_mono abs_leI) linarith+
  also have "\<dots> \<le> x / 2 ^ 53" using f64_exp_bounds(1) [OF assms] by (simp add: field_simps)
  finally show ?thesis .
qed

lemma f64_le_pow2:
  assumes "0 \<le> x" "x \<le> pow2 n"
  shows "f64 x \<le> pow2 n"
proof (cases "x = 0")
  case False
  then have x: "0 < x" using assms(1) by simp
  let ?e = "f64_exp x"
  have m: "x * pow2 ?e \<le> pow2 (n + ?e)" using assms(2) by (simp add: pow2_add mult_right_mono less_imp_le)
  have ge: "52 \<le> n + ?e"
  proof (rule ccontr)
    assume "\<not> 52 \<le> n + ?e"
    then have "pow2 52 = pow2 (52 - (n + ?e)) * pow2 (n + ?e)" "1 < pow2 (52 - (n + ?e))"
      by (simp_all flip: pow2_add) (simp add: pow2_def one_less_power)
    then have "pow2 (n + ?e) < pow2 52" by simp
    then show False using m f64_exp_bounds(1) [OF x] by (simp add: pow2_def)
  qed
  then have i: "pow2 (n + ?e) = of_int (2 ^ nat (n + ?e))" by (simp add: pow2_def)
  have "round_even (x * pow2 ?e) \<le> 2 ^ nat (n + ?e)" using m by (intro round_even_mono(2)) (simp only: i)
  then have "(of_int (round_even (x * pow2 ?e)) :: rat) \<le> pow2 (n + ?e)" unfolding i by (simp only: of_int_le_iff)
  then show ?thesis using x by (simp add: f64_exp pow2_add pos_divide_le_eq)
qed (simp add: less_imp_le)


lemma f64_ge_pow2:
  assumes "pow2 n \<le> x"
  shows "pow2 n \<le> f64 x"
proof -
  have x: "0 < x" using assms pow2_pos [of n] by linarith
  let ?e = "f64_exp x"
  have m: "pow2 (n + ?e) \<le> x * pow2 ?e" using assms by (simp add: pow2_add mult_right_mono less_imp_le)
  have "pow2 (n + ?e) \<le> of_int (round_even (x * pow2 ?e))"
  proof (cases "0 \<le> n + ?e")
    case True
    then have i: "pow2 (n + ?e) = of_int (2 ^ nat (n + ?e))" by (simp add: pow2_def)
    have "2 ^ nat (n + ?e) \<le> round_even (x * pow2 ?e)" using m by (intro round_even_mono(1)) (simp only: i)
    then show ?thesis unfolding i by (simp only: of_int_le_iff)
  next
    case False
    have "2 ^ 52 \<le> round_even (x * pow2 ?e)"
      using f64_exp_bounds(1) [OF x] by (intro round_even_mono(1)) simp
    then have "1 \<le> round_even (x * pow2 ?e)" by simp
    then have "(1 :: rat) \<le> of_int (round_even (x * pow2 ?e))" by simp
    moreover have "pow2 (n + ?e) \<le> 1" using False by (simp add: pow2_def)
    ultimately show ?thesis by linarith
  qed
  then show ?thesis using x by (simp add: f64_exp pow2_add pos_le_divide_eq)
qed

lemma round_even_le: "x \<le> y \<Longrightarrow> round_even x \<le> round_even y"
proof (cases "\<lfloor>x\<rfloor> = \<lfloor>y\<rfloor>")
  case True
  assume "x \<le> y"
  then have "x - of_int \<lfloor>y\<rfloor> \<le> y - of_int \<lfloor>y\<rfloor>" by simp
  then show ?thesis unfolding round_even_def Let_def True by (auto split: if_splits)
next
  case False
  assume "x \<le> y"
  then have "\<lfloor>x\<rfloor> \<le> \<lfloor>y\<rfloor>" by (rule floor_mono)
  with False have "\<lfloor>x\<rfloor> + 1 \<le> \<lfloor>y\<rfloor>" by simp
  moreover have "round_even x \<le> \<lfloor>x\<rfloor> + 1" "\<lfloor>y\<rfloor> \<le> round_even y" by (simp_all add: round_even_def Let_def)
  ultimately show ?thesis by linarith
qed

lemma pow2_mono: "a \<le> b \<Longrightarrow> pow2 a \<le> pow2 b"
proof -
  assume "a \<le> b"
  then have "pow2 b = pow2 a * pow2 (b - a)" "1 \<le> pow2 (b - a)"
    by (simp_all flip: pow2_add) (simp add: pow2_def)
  then show ?thesis using mult_left_mono [of 1 "pow2 (b - a)" "pow2 a"] less_imp_le [OF pow2_pos] by simp
qed

lemma f64_scale:
  assumes "0 < x"
  shows "pow2 (52 - f64_exp x) \<le> x" "x < pow2 (53 - f64_exp x)"
proof -
  have p: "pow2 (n - f64_exp x) * pow2 (f64_exp x) = pow2 n" for n by (simp flip: pow2_add)
  show "pow2 (52 - f64_exp x) \<le> x"
    using f64_exp_bounds(1) [OF assms] mult_le_cancel_right_pos [OF pow2_pos [of "f64_exp x"], of "pow2 (52 - f64_exp x)" x]
    by (simp add: p) (simp add: pow2_def)
  show "x < pow2 (53 - f64_exp x)"
    using f64_exp_bounds(2) [OF assms] mult_less_cancel_right_pos [OF pow2_pos [of "f64_exp x"], of x "pow2 (53 - f64_exp x)"]
    by (simp add: p) (simp add: pow2_def)
qed

text \<open>Rounding is monotone: below the same power of two it is the rounding of integers.\<close>

lemma f64_mono:
  assumes "0 \<le> x" "x \<le> y"
  shows "f64 x \<le> f64 y"
proof (cases "x = 0")
  case False
  then have x: "0 < x" and y: "0 < y" using assms by simp_all
  note sx = f64_scale [OF x] and sy = f64_scale [OF y]
  show ?thesis
  proof (cases "f64_exp y < f64_exp x")
    case True
    have "pow2 (53 - f64_exp x) \<le> y"
      using sy(1) pow2_mono [of "53 - f64_exp x" "52 - f64_exp y"] True by simp
    then have "pow2 (53 - f64_exp x) \<le> f64 y" by (rule f64_ge_pow2)
    moreover have "f64 x \<le> pow2 (53 - f64_exp x)" using sx(2) x by (intro f64_le_pow2) simp_all
    ultimately show ?thesis by linarith
  next
    case False
    have "\<not> f64_exp x < f64_exp y"
    proof
      assume "f64_exp x < f64_exp y"
      then have "pow2 (53 - f64_exp y) \<le> pow2 (52 - f64_exp x)" by (intro pow2_mono) simp
      then show False using sx(1) sy(2) assms(2) by linarith
    qed
    with False have e: "f64_exp x = f64_exp y" by simp
    have "x * pow2 (f64_exp y) \<le> y * pow2 (f64_exp y)" using assms(2) by (simp add: mult_right_mono less_imp_le)
    then have "round_even (x * pow2 (f64_exp y)) \<le> round_even (y * pow2 (f64_exp y))" by (rule round_even_le)
    then show ?thesis using x y e by (simp add: f64_exp divide_right_mono less_imp_le)
  qed
qed (use assms f64_nonneg in simp)

lemma f64_range: "0 \<le> x \<Longrightarrow> x \<le> 2 ^ n \<Longrightarrow> 0 \<le> f64 x \<and> f64 x \<le> 2 ^ n"
  using f64_nonneg [of x] f64_le_pow2 [of x "int n"] by (simp add: pow2_int)

lemma f64_to_i64_range:
  assumes "0 \<le> x" "x \<le> 2 ^ n" "n < 63"
  shows "0 \<le> f64_to_i64 x \<and> f64_to_i64 x \<le> 2 ^ n \<and> f64_to_i64 x = \<lfloor>x\<rfloor>"
proof -
  have f: "0 \<le> \<lfloor>x\<rfloor>" using assms(1) by simp
  have "\<lfloor>x\<rfloor> \<le> \<lfloor>(2 :: rat) ^ n\<rfloor>" using assms(2) by (rule floor_mono)
  also have "\<lfloor>(2 :: rat) ^ n\<rfloor> = 2 ^ n" using floor_of_int [of "2 ^ n", where ?'a = rat] by simp
  finally have le: "\<lfloor>x\<rfloor> \<le> 2 ^ n" .
  have "(2 :: int) ^ n < 2 ^ 63" using assms(3) by (intro power_strict_increasing) simp_all
  then have "f64_to_i64 x = \<lfloor>x\<rfloor>" using f le assms(1) unfolding f64_to_i64_def Let_def by (auto simp del: floor_less_iff floor_less_numeral)
  then show ?thesis using f le by simp
qed

lemma f64_to_u64_range: "0 \<le> f64_to_u64 oor x \<and> f64_to_u64 oor x < 2 ^ 64"
  by (simp add: f64_to_u64_def Let_def u64_def)

text \<open>\<open>time.Duration.Seconds\<close>: the whole seconds and the rest are converted apart.\<close>

definition Seconds :: "int \<Rightarrow> rat" where
  "Seconds d = f64 (f64 (of_int (quo d 1000000000)) + f64 (f64 (of_int (d - quo d 1000000000 * 1000000000)) / 1000000000))"

end
