(* ===== verification/Bandwidth_Sampler.thy ===== *)
theory Bandwidth_Sampler
  imports Packet_Queue Windowed_Filter Go_Float
begin

text \<open>
  The bandwidth sampler of \<open>internal/congestion/bbr/bandwidth_sampler.go\<close> with the
  conversions of \<open>bandwidth.go\<close>. Byte counts, times and durations are \<open>int64\<close> values and
  bandwidths and round counts \<open>uint64\<close> values, kept as integers with the wrap-around written
  out. A time point of the connection's monotonic clock is its number of nanoseconds, zero
  being the unset value. The containers are those of the two theories below, and a panic in
  them is \<open>None\<close> here.
\<close>

section \<open>Bandwidth\<close>

definition infBandwidth :: int where "infBandwidth = 2 ^ 64 - 1"

definition infRTT :: int where "infRTT = 2 ^ 63 - 1"

definition second :: int where "second = 1000000000"

text \<open>Division of \<open>uint64\<close> values; a zero delta panics and the callers exclude it.\<close>

definition BandwidthFromDelta :: "int \<Rightarrow> int \<Rightarrow> int" where
  "BandwidthFromDelta bytes delta = u64 (u64 (u64 bytes * second) div u64 delta * 8)"

definition bytesFromBandwidthAndTimeDelta :: "int \<Rightarrow> int \<Rightarrow> int" where
  "bytesFromBandwidthAndTimeDelta bandwidth delta = quo (i64 (i64 bandwidth * delta)) (second * 8)"


section \<open>The tracker of the ack height\<close>

record send_time_state =
  isValid :: bool
  st_isAppLimited :: bool
  st_totalBytesSent :: int
  st_totalBytesAcked :: int
  st_totalBytesLost :: int
  st_bytesInFlight :: int

definition zero_send_time_state :: send_time_state where
  "zero_send_time_state =
     \<lparr>isValid = False, st_isAppLimited = False, st_totalBytesSent = 0, st_totalBytesAcked = 0,
      st_totalBytesLost = 0, st_bytesInFlight = 0\<rparr>"

definition newSendTimeState :: "bool \<Rightarrow> int \<Rightarrow> int \<Rightarrow> int \<Rightarrow> int \<Rightarrow> send_time_state" where
  "newSendTimeState appLimited sent acked lost inFlight =
     \<lparr>isValid = True, st_isAppLimited = appLimited, st_totalBytesSent = sent,
      st_totalBytesAcked = acked, st_totalBytesLost = lost, st_bytesInFlight = inFlight\<rparr>"

record extra_acked_event =
  extraAcked :: int
  ev_bytesAcked :: int
  timeDelta :: int
  ev_round :: int

definition zero_event :: extra_acked_event where
  "zero_event = \<lparr>extraAcked = 0, ev_bytesAcked = 0, timeDelta = 0, ev_round = 0\<rparr>"

definition maxExtraAckedEventFunc :: "extra_acked_event \<Rightarrow> extra_acked_event \<Rightarrow> int" where
  "maxExtraAckedEventFunc a b =
     (if extraAcked a > extraAcked b then 1 else if extraAcked a < extraAcked b then - 1 else 0)"

record bandwidth_sample =
  bs_bandwidth :: int
  bs_rtt :: int
  bs_sendRate :: int
  stateAtSend :: send_time_state

definition newBandwidthSample :: bandwidth_sample where
  "newBandwidthSample =
     \<lparr>bs_bandwidth = 0, bs_rtt = 0, bs_sendRate = infBandwidth, stateAtSend = zero_send_time_state\<rparr>"

record max_ack_height_tracker =
  maxAckHeightFilter :: "extra_acked_event windowed_filter"
  aggregationEpochStartTime :: int
  aggregationEpochBytes :: int
  lastSentPacketNumberBeforeEpoch :: int
  numAckAggregationEpochs :: int
  ackAggregationBandwidthThreshold :: rat
  startNewAggregationEpochAfterFullRound :: bool
  reduceExtraAckedOnBandwidthIncrease :: bool

definition newMaxAckHeightTracker :: "int \<Rightarrow> max_ack_height_tracker" where
  "newMaxAckHeightTracker w =
     \<lparr>maxAckHeightFilter = NewWindowedFilter zero_event w, aggregationEpochStartTime = 0,
      aggregationEpochBytes = 0, lastSentPacketNumberBeforeEpoch = invalidPacketNumber,
      numAckAggregationEpochs = 0, ackAggregationBandwidthThreshold = 1,
      startNewAggregationEpochAfterFullRound = False, reduceExtraAckedOnBandwidthIncrease = False\<rparr>"

definition mah_Get :: "max_ack_height_tracker \<Rightarrow> int" where
  "mah_Get m = extraAcked (GetBest (maxAckHeightFilter m))"

text \<open>One saved estimate put back under the new bandwidth estimate.\<close>

definition reinsert :: "int \<Rightarrow> extra_acked_event \<Rightarrow> extra_acked_event windowed_filter \<Rightarrow> extra_acked_event windowed_filter" where
  "reinsert bandwidthEstimate e f =
     (let expected = bytesFromBandwidthAndTimeDelta bandwidthEstimate (timeDelta e) in
      if expected < ev_bytesAcked e
      then wf_Update maxExtraAckedEventFunc zero_event
             (e\<lparr>extraAcked := i64 (ev_bytesAcked e - expected)\<rparr>) (ev_round e) f
      else f)"

definition start_epoch :: "int \<Rightarrow> int \<Rightarrow> int \<Rightarrow> max_ack_height_tracker \<Rightarrow> max_ack_height_tracker" where
  "start_epoch bytesAcked ackTime lastSentPacketNumber m =
     m\<lparr>aggregationEpochBytes := bytesAcked, aggregationEpochStartTime := ackTime,
       lastSentPacketNumberBeforeEpoch := lastSentPacketNumber,
       numAckAggregationEpochs := u64 (numAckAggregationEpochs m + 1)\<rparr>"

definition mah_Update ::
  "int \<Rightarrow> bool \<Rightarrow> int \<Rightarrow> int \<Rightarrow> int \<Rightarrow> int \<Rightarrow> int \<Rightarrow> max_ack_height_tracker \<Rightarrow> int \<times> max_ack_height_tracker" where
  "mah_Update bandwidthEstimate isNewMaxBandwidth rtc lastSentPacketNumber lastAckedPacketNumber
       ackTime bytesAcked m0 =
     (let m = (if reduceExtraAckedOnBandwidthIncrease m0 \<and> isNewMaxBandwidth then
                 (let f = maxAckHeightFilter m0 in
                  m0\<lparr>maxAckHeightFilter :=
                       reinsert bandwidthEstimate (GetThirdBest f)
                         (reinsert bandwidthEstimate (GetSecondBest f)
                           (reinsert bandwidthEstimate (GetBest f) (wf_Clear zero_event f)))\<rparr>)
               else m0);
          forceNewEpoch = (startNewAggregationEpochAfterFullRound m
            \<and> lastSentPacketNumberBeforeEpoch m \<noteq> invalidPacketNumber
            \<and> lastAckedPacketNumber \<noteq> invalidPacketNumber
            \<and> lastAckedPacketNumber > lastSentPacketNumberBeforeEpoch m)
      in if aggregationEpochStartTime m = 0 \<or> forceNewEpoch
         then (0, start_epoch bytesAcked ackTime lastSentPacketNumber m)
         else let aggregationDelta = i64 (ackTime - aggregationEpochStartTime m);
                  expected = bytesFromBandwidthAndTimeDelta bandwidthEstimate aggregationDelta
              in if aggregationEpochBytes m
                    \<le> f64_to_i64 (f64 (ackAggregationBandwidthThreshold m * f64 (of_int expected)))
                 then (0, start_epoch bytesAcked ackTime lastSentPacketNumber m)
                 else let epochBytes = i64 (aggregationEpochBytes m + bytesAcked);
                          extra = i64 (epochBytes - expected);
                          ev = \<lparr>extraAcked = extra, ev_bytesAcked = epochBytes,
                                timeDelta = aggregationDelta, ev_round = 0\<rparr>
                      in (extra, m\<lparr>aggregationEpochBytes := epochBytes,
                                   maxAckHeightFilter :=
                                     wf_Update maxExtraAckedEventFunc zero_event ev rtc (maxAckHeightFilter m)\<rparr>))"

definition mah_Reset :: "int \<Rightarrow> int \<Rightarrow> max_ack_height_tracker \<Rightarrow> max_ack_height_tracker" where
  "mah_Reset newHeight newTime m =
     m\<lparr>maxAckHeightFilter :=
         wf_Reset \<lparr>extraAcked = newHeight, ev_bytesAcked = 0, timeDelta = 0, ev_round = newTime\<rparr> newTime
           (maxAckHeightFilter m)\<rparr>"


section \<open>Ack points\<close>

record ack_point =
  ap_ackTime :: int
  ap_totalBytesAcked :: int

definition zero_ack_point :: ack_point where
  "zero_ack_point = \<lparr>ap_ackTime = 0, ap_totalBytesAcked = 0\<rparr>"

type_synonym recent_ack_points = "ack_point \<times> ack_point"

definition rap_Update :: "int \<Rightarrow> int \<Rightarrow> recent_ack_points \<Rightarrow> recent_ack_points" where
  "rap_Update ackTime totalAcked r =
     (if ackTime < ap_ackTime (snd r) then (fst r, \<lparr>ap_ackTime = ackTime, ap_totalBytesAcked = totalAcked\<rparr>)
      else if ackTime > ap_ackTime (snd r) then (snd r, \<lparr>ap_ackTime = ackTime, ap_totalBytesAcked = totalAcked\<rparr>)
      else (fst r, (snd r)\<lparr>ap_totalBytesAcked := totalAcked\<rparr>))"

definition rap_Clear :: "recent_ack_points" where
  "rap_Clear = (zero_ack_point, zero_ack_point)"

definition MostRecentPoint :: "recent_ack_points \<Rightarrow> ack_point" where
  "MostRecentPoint r = snd r"

definition LessRecentPoint :: "recent_ack_points \<Rightarrow> ack_point" where
  "LessRecentPoint r = (if ap_totalBytesAcked (fst r) \<noteq> 0 then fst r else snd r)"


section \<open>The sampler\<close>

record connection_state =
  sentTime :: int
  cs_size :: int
  cs_totalBytesSentAtLastAckedPacket :: int
  cs_lastAckedPacketSentTime :: int
  cs_lastAckedPacketAckTime :: int
  cs_sendTimeState :: send_time_state

definition zero_connection_state :: connection_state where
  "zero_connection_state =
     \<lparr>sentTime = 0, cs_size = 0, cs_totalBytesSentAtLastAckedPacket = 0,
      cs_lastAckedPacketSentTime = 0, cs_lastAckedPacketAckTime = 0,
      cs_sendTimeState = zero_send_time_state\<rparr>"

record congestion_event_sample =
  sampleMaxBandwidth :: int
  sampleIsAppLimited :: bool
  sampleRtt :: int
  sampleMaxInflight :: int
  lastPacketSendState :: send_time_state
  ce_extraAcked :: int

definition newCongestionEventSample :: congestion_event_sample where
  "newCongestionEventSample =
     \<lparr>sampleMaxBandwidth = 0, sampleIsAppLimited = False, sampleRtt = infRTT,
      sampleMaxInflight = 0, lastPacketSendState = zero_send_time_state, ce_extraAcked = 0\<rparr>"

record bandwidth_sampler =
  totalBytesSent :: int
  totalBytesAcked :: int
  totalBytesLost :: int
  totalBytesNeutered :: int
  totalBytesSentAtLastAckedPacket :: int
  lastAckedPacketSentTime :: int
  lastAckedPacketAckTime :: int
  lastSentPacket :: int
  lastAckedPacket :: int
  isAppLimited :: bool
  endOfAppLimitedPhase :: int
  connectionStateMap :: "connection_state packet_queue"
  recentAckPoints :: recent_ack_points
  a0Candidates :: "ack_point ring_buffer"
  maxAckHeightTracker :: max_ack_height_tracker
  totalBytesAckedAfterLastAckEvent :: int
  overestimateAvoidance :: bool
  limitMaxAckHeightTrackerBySendRate :: bool

definition newBandwidthSampler :: "int \<Rightarrow> bandwidth_sampler" where
  "newBandwidthSampler w =
     \<lparr>totalBytesSent = 0, totalBytesAcked = 0, totalBytesLost = 0, totalBytesNeutered = 0,
      totalBytesSentAtLastAckedPacket = 0, lastAckedPacketSentTime = 0, lastAckedPacketAckTime = 0,
      lastSentPacket = invalidPacketNumber, lastAckedPacket = invalidPacketNumber,
      isAppLimited = False, endOfAppLimitedPhase = invalidPacketNumber,
      connectionStateMap = newPacketNumberIndexedQueue zero_connection_state 256,
      recentAckPoints = rap_Clear, a0Candidates = rb_Init zero_ack_point 256 rb_zero,
      maxAckHeightTracker = newMaxAckHeightTracker w, totalBytesAckedAfterLastAckEvent = 0,
      overestimateAvoidance = False, limitMaxAckHeightTrackerBySendRate = False\<rparr>"

definition ResetMaxAckHeightTracker :: "int \<Rightarrow> int \<Rightarrow> bandwidth_sampler \<Rightarrow> bandwidth_sampler" where
  "ResetMaxAckHeightTracker newHeight newTime b =
     b\<lparr>maxAckHeightTracker := mah_Reset newHeight newTime (maxAckHeightTracker b)\<rparr>"

definition EnableOverestimateAvoidance :: "bandwidth_sampler \<Rightarrow> bandwidth_sampler" where
  "EnableOverestimateAvoidance b =
     (if overestimateAvoidance b then b
      else b\<lparr>overestimateAvoidance := True,
             maxAckHeightTracker := (maxAckHeightTracker b)\<lparr>ackAggregationBandwidthThreshold := 2\<rparr>\<rparr>)"

definition MaxAckHeight :: "bandwidth_sampler \<Rightarrow> int" where
  "MaxAckHeight b = mah_Get (maxAckHeightTracker b)"

definition SetMaxAckHeightTrackerWindowLength :: "int \<Rightarrow> bandwidth_sampler \<Rightarrow> bandwidth_sampler" where
  "SetMaxAckHeightTrackerWindowLength len b =
     b\<lparr>maxAckHeightTracker := (maxAckHeightTracker b)
         \<lparr>maxAckHeightFilter := SetWindowLength len (maxAckHeightFilter (maxAckHeightTracker b))\<rparr>\<rparr>"

definition SetStartNewAggregationEpochAfterFullRound :: "bool \<Rightarrow> bandwidth_sampler \<Rightarrow> bandwidth_sampler" where
  "SetStartNewAggregationEpochAfterFullRound v b =
     b\<lparr>maxAckHeightTracker := (maxAckHeightTracker b)\<lparr>startNewAggregationEpochAfterFullRound := v\<rparr>\<rparr>"

definition SetLimitMaxAckHeightTrackerBySendRate :: "bool \<Rightarrow> bandwidth_sampler \<Rightarrow> bandwidth_sampler" where
  "SetLimitMaxAckHeightTrackerBySendRate v b = b\<lparr>limitMaxAckHeightTrackerBySendRate := v\<rparr>"

definition SetReduceExtraAckedOnBandwidthIncrease :: "bool \<Rightarrow> bandwidth_sampler \<Rightarrow> bandwidth_sampler" where
  "SetReduceExtraAckedOnBandwidthIncrease v b =
     b\<lparr>maxAckHeightTracker := (maxAckHeightTracker b)\<lparr>reduceExtraAckedOnBandwidthIncrease := v\<rparr>\<rparr>"

definition newConnectionStateOnSentPacket :: "int \<Rightarrow> int \<Rightarrow> int \<Rightarrow> bandwidth_sampler \<Rightarrow> connection_state" where
  "newConnectionStateOnSentPacket t bytes inFlight b =
     \<lparr>sentTime = t, cs_size = bytes,
      cs_totalBytesSentAtLastAckedPacket = totalBytesSentAtLastAckedPacket b,
      cs_lastAckedPacketSentTime = lastAckedPacketSentTime b,
      cs_lastAckedPacketAckTime = lastAckedPacketAckTime b,
      cs_sendTimeState = newSendTimeState (isAppLimited b) (totalBytesSent b) (totalBytesAcked b)
        (totalBytesLost b) inFlight\<rparr>"

text \<open>With nothing in flight the send opens a new transmission, whose start serves as the A0 point.\<close>

definition open_transmission :: "int \<Rightarrow> bandwidth_sampler \<Rightarrow> bandwidth_sampler option" where
  "open_transmission t b =
     (let c1 = b\<lparr>lastAckedPacketAckTime := t\<rparr> in do {
        c2 \<leftarrow> (if overestimateAvoidance c1 then
                 let c3 = c1\<lparr>recentAckPoints := rap_Update t (totalBytesAcked c1) rap_Clear\<rparr> in do {
                   es \<leftarrow> rb_PushBack zero_ack_point (rb_Clear zero_ack_point (a0Candidates c3))
                          (MostRecentPoint (recentAckPoints c3));
                   Some (c3\<lparr>a0Candidates := es\<rparr>)
                 }
               else Some c1);
        Some (c2\<lparr>totalBytesSentAtLastAckedPacket := totalBytesSent c2, lastAckedPacketSentTime := t\<rparr>)
      })"

definition sampler_OnPacketSent :: "int \<Rightarrow> int \<Rightarrow> int \<Rightarrow> int \<Rightarrow> bool \<Rightarrow> bandwidth_sampler \<Rightarrow> bandwidth_sampler option" where
  "sampler_OnPacketSent t packetNumber bytes bytesInFlight isRetransmittable b0 =
     (let b1 = b0\<lparr>lastSentPacket := packetNumber\<rparr> in
      if \<not> isRetransmittable then Some b1
      else let b2 = b1\<lparr>totalBytesSent := i64 (totalBytesSent b1 + bytes)\<rparr> in do {
        b3 \<leftarrow> (if bytesInFlight = 0 then open_transmission t b2 else Some b2);
        (ok, q) \<leftarrow> Emplace zero_connection_state packetNumber
                   (Some (newConnectionStateOnSentPacket t bytes (i64 (bytesInFlight + bytes)) b3))
                   (connectionStateMap b3);
        Some (b3\<lparr>connectionStateMap := q\<rparr>)
      })"

definition sentPacketToSendTimeState :: "connection_state \<Rightarrow> send_time_state" where
  "sentPacketToSendTimeState p = (cs_sendTimeState p)\<lparr>isValid := True\<rparr>"

definition sampler_OnPacketLost :: "int \<Rightarrow> int \<Rightarrow> bandwidth_sampler \<Rightarrow> (send_time_state \<times> bandwidth_sampler) option" where
  "sampler_OnPacketLost packetNumber bytesLost b =
     (let b' = b\<lparr>totalBytesLost := i64 (totalBytesLost b + bytesLost)\<rparr> in
      map_option (\<lambda>r. (case r of None \<Rightarrow> zero_send_time_state | Some p \<Rightarrow> sentPacketToSendTimeState p, b'))
        (GetEntry packetNumber (connectionStateMap b')))"

definition OnPacketNeutered :: "int \<Rightarrow> bandwidth_sampler \<Rightarrow> bandwidth_sampler option" where
  "OnPacketNeutered packetNumber b =
     map_option (\<lambda>(r, q). (case r of None \<Rightarrow> b | Some p \<Rightarrow> b\<lparr>totalBytesNeutered := i64 (totalBytesNeutered b + cs_size p)\<rparr>)
                           \<lparr>connectionStateMap := q\<rparr>)
       (pq_Remove zero_connection_state packetNumber (connectionStateMap b))"

definition sampler_OnAppLimited :: "bandwidth_sampler \<Rightarrow> bandwidth_sampler" where
  "sampler_OnAppLimited b = b\<lparr>isAppLimited := True, endOfAppLimitedPhase := lastSentPacket b\<rparr>"

definition RemoveObsoletePackets :: "int \<Rightarrow> bandwidth_sampler \<Rightarrow> bandwidth_sampler option" where
  "RemoveObsoletePackets leastUnacked b =
     map_option (\<lambda>q. b\<lparr>connectionStateMap := q\<rparr>)
       (RemoveUpTo zero_connection_state leastUnacked (connectionStateMap b))"


text \<open>The loops of \<open>chooseA0Point\<close>: the search, and the two that pop from the front.\<close>

definition rb_at :: "'a ring_buffer \<Rightarrow> nat option \<Rightarrow> 'a option" where
  "rb_at r ptr = map_option (\<lambda>i. ring r ! i) ptr"

function a0_search :: "int \<Rightarrow> ack_point ring_buffer \<Rightarrow> nat \<Rightarrow> nat option option" where
  "a0_search tot r i =
     (if i < rb_Len r then do {
        c \<leftarrow> rb_at r (rb_Offset r (int i));
        if ap_totalBytesAcked c > tot then Some (Some i) else a0_search tot r (Suc i)
      } else Some None)"
  by pat_completeness auto
termination
  by (relation "measure (\<lambda>(tot, r, i). rb_Len r - i)") auto

declare a0_search.simps [simp del]

primrec pop_times :: "nat \<Rightarrow> ack_point ring_buffer \<Rightarrow> ack_point ring_buffer option" where
  "pop_times 0 r = Some r"
| "pop_times (Suc n) r = Option.bind (rb_PopFront zero_ack_point r) (\<lambda>(_, r'). pop_times n r')"

partial_function (option) pop_shrinking :: "nat \<Rightarrow> ack_point ring_buffer \<Rightarrow> ack_point ring_buffer option" where
  "pop_shrinking k r =
     (if int k < int (rb_Len r) - 1
      then Option.bind (rb_PopFront zero_ack_point r) (\<lambda>(_, r'). pop_shrinking (Suc k) r')
      else Some r)"

definition chooseA0Point :: "int \<Rightarrow> ack_point ring_buffer \<Rightarrow> (ack_point option \<times> ack_point ring_buffer) option" where
  "chooseA0Point tot r =
     (if rb_Empty r then Some (None, r)
      else if rb_Len r = 1 then do { c \<leftarrow> rb_at r (rb_Front r); Some (Some c, r) }
      else do {
        found \<leftarrow> a0_search tot r 1;
        (case found of
           Some i \<Rightarrow> do {
             c \<leftarrow> rb_at r (rb_Offset r (int i - 1));
             r' \<leftarrow> (if i > 1 then pop_times (i - 1) r else Some r);
             Some (Some c, r') }
         | None \<Rightarrow> do {
             c \<leftarrow> rb_at r (rb_Back r);
             r' \<leftarrow> pop_shrinking 0 r;
             Some (Some c, r') })
      })"

definition ack_exit_app_limited :: "int \<Rightarrow> bandwidth_sampler \<Rightarrow> bandwidth_sampler" where
  "ack_exit_app_limited packetNumber b =
     (if isAppLimited b \<and> (endOfAppLimitedPhase b = invalidPacketNumber \<or> packetNumber > endOfAppLimitedPhase b)
      then b\<lparr>isAppLimited := False\<rparr> else b)"

text \<open>The part of \<open>onPacketAcknowledged\<close> that changes the totals, and the part that takes the sample.\<close>

definition ack_totals :: "int \<Rightarrow> int \<Rightarrow> connection_state \<Rightarrow> bandwidth_sampler \<Rightarrow> bandwidth_sampler" where
  "ack_totals ackTime packetNumber p b0 =
     (let b1 = b0\<lparr>totalBytesAcked := i64 (totalBytesAcked b0 + cs_size p),
                  totalBytesSentAtLastAckedPacket := st_totalBytesSent (cs_sendTimeState p),
                  lastAckedPacketSentTime := sentTime p, lastAckedPacketAckTime := ackTime\<rparr>;
          b2 = (if overestimateAvoidance b1
                then b1\<lparr>recentAckPoints := rap_Update ackTime (totalBytesAcked b1) (recentAckPoints b1)\<rparr> else b1)
      in ack_exit_app_limited packetNumber b2)"

definition send_rate :: "connection_state \<Rightarrow> int" where
  "send_rate p =
     (if sentTime p > cs_lastAckedPacketSentTime p
      then BandwidthFromDelta (i64 (st_totalBytesSent (cs_sendTimeState p) - cs_totalBytesSentAtLastAckedPacket p))
             (i64 (sentTime p - cs_lastAckedPacketSentTime p))
      else infBandwidth)"

definition onPacketAcknowledged :: "int \<Rightarrow> int \<Rightarrow> bandwidth_sampler \<Rightarrow> (bandwidth_sample \<times> bandwidth_sampler) option" where
  "onPacketAcknowledged ackTime packetNumber b0 =
     (let b1 = b0\<lparr>lastAckedPacket := packetNumber\<rparr> in do {
        r \<leftarrow> GetEntry packetNumber (connectionStateMap b1);
        (case r of
           None \<Rightarrow> Some (newBandwidthSample, b1)
         | Some p \<Rightarrow>
             (let b2 = ack_totals ackTime packetNumber p b1 in
              if cs_lastAckedPacketSentTime p = 0 then Some (newBandwidthSample, b2)
              else do {
                (chosen, es) \<leftarrow> (if overestimateAvoidance b2
                                 then chooseA0Point (st_totalBytesAcked (cs_sendTimeState p)) (a0Candidates b2)
                                 else Some (None, a0Candidates b2));
                let b3 = b2\<lparr>a0Candidates := es\<rparr>;
                    a0 = (case chosen of Some a \<Rightarrow> a
                          | None \<Rightarrow> \<lparr>ap_ackTime = cs_lastAckedPacketAckTime p,
                                     ap_totalBytesAcked = st_totalBytesAcked (cs_sendTimeState p)\<rparr>)
                in if i64 (ackTime - ap_ackTime a0) \<le> 0 then Some (newBandwidthSample, b3)
                   else let ackRate = BandwidthFromDelta (i64 (totalBytesAcked b3 - ap_totalBytesAcked a0))
                                        (i64 (ackTime - ap_ackTime a0))
                        in Some (\<lparr>bs_bandwidth = min (send_rate p) ackRate, bs_rtt = i64 (ackTime - sentTime p),
                                  bs_sendRate = send_rate p, stateAtSend = sentPacketToSendTimeState p\<rparr>, b3)
              }))
      })"

definition onAckEventEnd :: "int \<Rightarrow> bool \<Rightarrow> int \<Rightarrow> bandwidth_sampler \<Rightarrow> (int \<times> bandwidth_sampler) option" where
  "onAckEventEnd bandwidthEstimate isNewMaxBandwidth rtc b =
     (let newlyAckedBytes = i64 (totalBytesAcked b - totalBytesAckedAfterLastAckEvent b) in
      if newlyAckedBytes = 0 then Some (0, b)
      else let (extra, m) = mah_Update bandwidthEstimate isNewMaxBandwidth rtc (lastSentPacket b)
                              (lastAckedPacket b) (lastAckedPacketAckTime b) newlyAckedBytes (maxAckHeightTracker b);
               b1 = b\<lparr>totalBytesAckedAfterLastAckEvent := totalBytesAcked b, maxAckHeightTracker := m\<rparr>
           in if overestimateAvoidance b1 \<and> extra = 0
              then map_option (\<lambda>es. (extra, b1\<lparr>a0Candidates := es\<rparr>))
                     (rb_PushBack zero_ack_point (a0Candidates b1) (LessRecentPoint (recentAckPoints b1)))
              else Some (extra, b1))"

text \<open>The two loops of \<open>OnCongestionEvent\<close>; packets are pairs of number and bytes.\<close>

fun lost_loop :: "(int \<times> int) list \<Rightarrow> send_time_state \<Rightarrow> bandwidth_sampler \<Rightarrow> (send_time_state \<times> bandwidth_sampler) option" where
  "lost_loop [] s b = Some (s, b)"
| "lost_loop ((n, bytes) # ps) s b = do {
     (st, b') \<leftarrow> sampler_OnPacketLost n bytes b;
     lost_loop ps (if isValid st then st else s) b' }"

definition merge_sample :: "bandwidth_sample \<Rightarrow> int \<Rightarrow> congestion_event_sample \<Rightarrow> congestion_event_sample" where
  "merge_sample sample inflight ev0 =
     (let ev1 = (if bs_rtt sample \<noteq> 0 then ev0\<lparr>sampleRtt := min (sampleRtt ev0) (bs_rtt sample)\<rparr> else ev0);
          ev2 = (if bs_bandwidth sample > sampleMaxBandwidth ev1
                 then ev1\<lparr>sampleMaxBandwidth := bs_bandwidth sample,
                          sampleIsAppLimited := st_isAppLimited (stateAtSend sample)\<rparr> else ev1)
      in if inflight > sampleMaxInflight ev2 then ev2\<lparr>sampleMaxInflight := inflight\<rparr> else ev2)"

fun acked_loop ::
  "int \<Rightarrow> (int \<times> int) list \<Rightarrow> congestion_event_sample \<Rightarrow> send_time_state \<Rightarrow> int \<Rightarrow> bandwidth_sampler
   \<Rightarrow> (congestion_event_sample \<times> send_time_state \<times> int \<times> bandwidth_sampler) option" where
  "acked_loop ackTime [] ev s maxSendRate b = Some (ev, s, maxSendRate, b)"
| "acked_loop ackTime ((n, bytes) # ps) ev s maxSendRate b = do {
     (sample, b') \<leftarrow> onPacketAcknowledged ackTime n b;
     if \<not> isValid (stateAtSend sample) then acked_loop ackTime ps ev s maxSendRate b'
     else acked_loop ackTime ps
            (merge_sample sample (i64 (totalBytesAcked b' - st_totalBytesAcked (stateAtSend sample))) ev)
            (stateAtSend sample)
            (if bs_sendRate sample \<noteq> infBandwidth then max maxSendRate (bs_sendRate sample) else maxSendRate) b' }"

definition pick_send_state ::
  "(int \<times> int) list \<Rightarrow> (int \<times> int) list \<Rightarrow> send_time_state \<Rightarrow> send_time_state \<Rightarrow> send_time_state" where
  "pick_send_state acked lost lastAcked lastLost =
     (if \<not> isValid lastLost then lastAcked
      else if \<not> isValid lastAcked then lastLost
      else if fst (last lost) > fst (last acked) then lastLost else lastAcked)"

definition sampler_OnCongestionEvent ::
  "int \<Rightarrow> (int \<times> int) list \<Rightarrow> (int \<times> int) list \<Rightarrow> int \<Rightarrow> int \<Rightarrow> int \<Rightarrow> bandwidth_sampler
   \<Rightarrow> (congestion_event_sample \<times> bandwidth_sampler) option" where
  "sampler_OnCongestionEvent ackTime acked lost maxBandwidth0 upper rtc b0 = do {
     (lastLost, b1) \<leftarrow> lost_loop lost zero_send_time_state b0;
     if acked = [] then Some (newCongestionEventSample\<lparr>lastPacketSendState := lastLost\<rparr>, b1)
     else do {
       (ev, lastAcked, maxSendRate, b2) \<leftarrow>
          acked_loop ackTime acked newCongestionEventSample zero_send_time_state 0 b1;
       let ev1 = ev\<lparr>lastPacketSendState := pick_send_state acked lost lastAcked lastLost\<rparr>;
           isNew = sampleMaxBandwidth ev1 > maxBandwidth0;
           mb1 = max maxBandwidth0 (sampleMaxBandwidth ev1);
           mb2 = (if limitMaxAckHeightTrackerBySendRate b2 then max mb1 maxSendRate else mb1)
       in map_option (\<lambda>(extra, b3). (ev1\<lparr>ce_extraAcked := extra\<rparr>, b3))
            (onAckEventEnd (min upper mb2) isNew rtc b2)
     } }"



section \<open>The comparator of the ack height filter\<close>

interpretation ack_filter: filter_order maxExtraAckedEventFunc
  by unfold_locales (auto simp: maxExtraAckedEventFunc_def split: if_splits)


section \<open>Choosing the A0 point\<close>

text \<open>
  The candidates in order of their acked bytes: the point chosen is the last one before the
  first candidate, past the head, that was acked later than the packet was sent.
\<close>

fun a0_pick :: "int \<Rightarrow> ack_point list \<Rightarrow> ack_point option" where
  "a0_pick tot [] = None"
| "a0_pick tot (x # xs) = Some (last (x # takeWhile (\<lambda>c. ap_totalBytesAcked c \<le> tot) xs))"

lemma rb_at_Offset:
  assumes "rb_inv r" "i < length (rb_list r)"
  shows "rb_at r (rb_Offset r (int i)) = Some (rb_list r ! i)"
  using assms rb_Offset_law(1) [of r i] rb_list_nth [of r i] by (simp add: rb_at_def rb_Len_list)

lemma a0_search_law:
  "rb_inv r \<Longrightarrow> i \<le> length (rb_list r) \<Longrightarrow>
   a0_search tot r i =
     (let n = i + length (takeWhile (\<lambda>c. ap_totalBytesAcked c \<le> tot) (drop i (rb_list r)))
      in Some (if n < length (rb_list r) then Some n else None))"
proof (induction tot r i rule: a0_search.induct)
  case (1 tot r i)
  show ?case
  proof (cases "i < length (rb_list r)")
    case True
    then have d: "drop i (rb_list r) = rb_list r ! i # drop (Suc i) (rb_list r)" by (rule Cons_nth_drop_Suc [symmetric])
    have at: "rb_at r (rb_Offset r (int i)) = Some (rb_list r ! i)" by (rule rb_at_Offset [OF "1.prems"(1) True])
    show ?thesis
    proof (cases "ap_totalBytesAcked (rb_list r ! i) > tot")
      case gt: True
      then show ?thesis using at True "1.prems" by (subst a0_search.simps) (simp add: d rb_Len_list)
    next
      case False
      then have "a0_search tot r i = a0_search tot r (Suc i)"
        using at True "1.prems" by (subst a0_search.simps) (simp add: rb_Len_list)
      then show ?thesis using "1.IH" [OF _ at False] True "1.prems" False by (simp add: d rb_Len_list Let_def)
    qed
  next
    case False
    with "1.prems" show ?thesis by (subst a0_search.simps) (simp add: rb_Len_list)
  qed
qed

lemma pop_times_law:
  "rb_inv r \<Longrightarrow> n \<le> length (rb_list r) \<Longrightarrow> \<exists>r'. pop_times n r = Some r' \<and> rb_inv r' \<and> rb_list r' = drop n (rb_list r)"
proof (induction n arbitrary: r)
  case (Suc n)
  then obtain x xs where l: "rb_list r = x # xs" by (cases "rb_list r") auto
  from rb.pop_law [OF Suc.prems(1) l, of zero_ack_point]
  obtain r1 where "rb_PopFront zero_ack_point r = Some (x, r1)" "rb_inv r1" "rb_list r1 = xs" by blast
  with Suc.IH [of r1] Suc.prems l show ?case by simp
qed simp

lemma pop_shrinking_law:
  "rb_inv r \<Longrightarrow> \<exists>r'. pop_shrinking k r = Some r' \<and> rb_inv r'
     \<and> rb_list r' = drop ((length (rb_list r) - k) div 2) (rb_list r)"
proof (induction "length (rb_list r) - k" arbitrary: k r rule: less_induct)
  case less
  let ?n = "length (rb_list r)"
  show ?case
  proof (cases "Suc k < ?n")
    case True
    then obtain x xs where l: "rb_list r = x # xs" by (cases "rb_list r") auto
    from rb.pop_law [OF less.prems l, of zero_ack_point]
    obtain r1 where r1: "rb_PopFront zero_ack_point r = Some (x, r1)" "rb_inv r1" "rb_list r1 = xs" by blast
    have "pop_shrinking k r = pop_shrinking (Suc k) r1"
      using True less.prems r1 by (subst pop_shrinking.simps) (simp add: rb_Len_list)
    moreover have "length (rb_list r1) - Suc k < ?n - k" using True l r1 by simp
    moreover have "(?n - k) div 2 = Suc ((length xs - Suc k) div 2)"
    proof -
      have "?n - k = Suc (Suc (length xs - Suc k))" using True l by simp
      then show ?thesis by simp
    qed
    ultimately show ?thesis using less.hyps [of r1 "Suc k"] r1 l by simp
  next
    case False
    then have "(?n - k) div 2 = 0" by simp
    with False less.prems show ?thesis by (subst pop_shrinking.simps) (simp add: rb_Len_list)
  qed
qed

definition a0_left :: "int \<Rightarrow> ack_point list \<Rightarrow> ack_point list" where
  "a0_left tot xs =
     (let n = length (takeWhile (\<lambda>c. ap_totalBytesAcked c \<le> tot) (tl xs)) in
      if xs = [] then [] else if Suc n < length xs then drop n xs else drop (length xs div 2) xs)"

lemma a0_pick_nth:
  assumes "n = length (takeWhile (\<lambda>c. ap_totalBytesAcked c \<le> tot) xs)"
  shows "a0_pick tot (x # xs) = Some ((x # xs) ! n)"
proof -
  have t: "takeWhile (\<lambda>c. ap_totalBytesAcked c \<le> tot) xs = take n xs"
    unfolding assms by (rule takeWhile_eq_take)
  have "n \<le> length xs" using assms length_takeWhile_le by simp
  then show ?thesis
    by (cases n) (auto simp: t last_conv_nth nth_Cons' min_def)
qed

lemma chooseA0Point_law:
  assumes "rb_inv r"
  shows "\<exists>r'. chooseA0Point tot r = Some (a0_pick tot (rb_list r), r') \<and> rb_inv r' \<and> rb_list r' = a0_left tot (rb_list r)"
proof (cases "rb_list r")
  case Nil
  then show ?thesis using assms by (simp add: chooseA0Point_def rb_Empty_list a0_left_def)
next
  case (Cons x xs)
  let ?n = "length (takeWhile (\<lambda>c. ap_totalBytesAcked c \<le> tot) xs)"
  have ne: "\<not> rb_Empty r" using Cons assms by (simp add: rb_Empty_list)
  have nle: "?n \<le> length xs" by (rule length_takeWhile_le)
  have pick: "a0_pick tot (rb_list r) = Some (rb_list r ! ?n)" using a0_pick_nth [OF refl] Cons by simp
  show ?thesis
  proof (cases "xs = []")
    case True
    have "rb_Front r = Some (rb_index r 0)" "ring r ! rb_index r 0 = x"
      using rb_Front_law [OF assms] rb_list_nth [OF assms, of 0] Cons assms by (simp_all add: rb_Len_list)
    then show ?thesis using True ne Cons assms
      by (simp add: chooseA0Point_def rb_Len_list rb_at_def a0_left_def)
  next
    case False
    have len: "rb_Len r \<noteq> 1" using False Cons assms by (simp add: rb_Len_list)
    have srch: "a0_search tot r 1 = Some (if Suc ?n < length (rb_list r) then Some (Suc ?n) else None)"
      using a0_search_law [OF assms, of 1 tot] Cons by (simp add: Let_def)
    show ?thesis
    proof (cases "Suc ?n < length (rb_list r)")
      case True
      have "rb_at r (rb_Offset r (int ?n)) = Some (rb_list r ! ?n)"
        using True by (intro rb_at_Offset [OF assms]) simp
      moreover obtain r' where "pop_times ?n r = Some r'" "rb_inv r'" "rb_list r' = drop ?n (rb_list r)"
        using pop_times_law [OF assms, of ?n] True by auto
      ultimately show ?thesis using True ne len srch pick Cons
        by (auto simp: chooseA0Point_def a0_left_def Let_def)
    next
      case f: False
      then have n: "?n = length xs" using nle Cons by simp
      have "rb_at r (rb_Back r) = Some (rb_list r ! ?n)"
        using rb_Back_law [OF assms] rb_list_nth [OF assms, of "length xs"] Cons n assms
        by (simp add: rb_at_def rb_Len_list)
      moreover obtain r' where "pop_shrinking 0 r = Some r'" "rb_inv r'"
        "rb_list r' = drop (length (rb_list r) div 2) (rb_list r)"
        using pop_shrinking_law [OF assms, of 0] by auto
      ultimately show ?thesis using f ne len srch pick Cons n
        by (auto simp: chooseA0Point_def a0_left_def Let_def)
    qed
  qed
qed

end
