(* ===== verification/Sampler_Laws.thy ===== *)
theory Sampler_Laws
  imports Bandwidth_Sampler
begin

text \<open>
  The properties of the bandwidth sampler: it never panics, its app-limited phase ends
  exactly at the acknowledgement the code's comment describes, its byte totals, the A0 point
  it chooses, and the range in which its conversions are exact.
\<close>

section \<open>The sampler never panics\<close>

definition sampler_inv :: "bandwidth_sampler \<Rightarrow> bool" where
  "sampler_inv b \<longleftrightarrow> pq_inv (connectionStateMap b) \<and> rb_inv (a0Candidates b) \<and> in_i64 (totalBytesAcked b)"

text \<open>The state recorded for a packet that is still tracked.\<close>

definition tracked :: "bandwidth_sampler \<Rightarrow> int \<Rightarrow> connection_state option" where
  "tracked b = pq_map (connectionStateMap b)"

definition acked_size :: "bandwidth_sampler \<Rightarrow> int \<Rightarrow> int" where
  "acked_size b n = (case tracked b n of None \<Rightarrow> 0 | Some p \<Rightarrow> cs_size p)"

text \<open>What acknowledging one packet changes of the state the rest of the event depends on.\<close>

definition ack_effect :: "bandwidth_sampler \<Rightarrow> int \<Rightarrow> bandwidth_sampler \<Rightarrow> bool" where
  "ack_effect b n b' \<longleftrightarrow>
     tracked b' = tracked b \<and> endOfAppLimitedPhase b' = endOfAppLimitedPhase b
     \<and> isAppLimited b' = (isAppLimited b \<and> (tracked b n \<noteq> None \<longrightarrow>
          endOfAppLimitedPhase b \<noteq> invalidPacketNumber \<and> n \<le> endOfAppLimitedPhase b))
     \<and> totalBytesAcked b' = i64 (totalBytesAcked b + acked_size b n)"

lemma ack_totals_simps [simp]:
  "connectionStateMap (ack_totals t n p b) = connectionStateMap b"
  "a0Candidates (ack_totals t n p b) = a0Candidates b"
  "endOfAppLimitedPhase (ack_totals t n p b) = endOfAppLimitedPhase b"
  "overestimateAvoidance (ack_totals t n p b) = overestimateAvoidance b"
  "totalBytesAcked (ack_totals t n p b) = i64 (totalBytesAcked b + cs_size p)"
  "isAppLimited (ack_totals t n p b) =
     (isAppLimited b \<and> endOfAppLimitedPhase b \<noteq> invalidPacketNumber \<and> n \<le> endOfAppLimitedPhase b)"
  by (auto simp: ack_totals_def ack_exit_app_limited_def Let_def)

lemma onPacketAcknowledged_law:
  assumes "sampler_inv b" "pn_ok n"
  shows "\<exists>s b'. onPacketAcknowledged t n b = Some (s, b') \<and> sampler_inv b' \<and> ack_effect b n b'"
proof -
  have g: "GetEntry n (connectionStateMap b) = Some (tracked b n)"
    using assms by (simp add: GetEntry_law sampler_inv_def tracked_def)
  show ?thesis
  proof (cases "tracked b n")
    case None
    with g assms show ?thesis
      by (auto simp: onPacketAcknowledged_def sampler_inv_def ack_effect_def acked_size_def tracked_def)
  next
    case (Some p)
    let ?b = "ack_totals t n p (b\<lparr>lastAckedPacket := n\<rparr>)"
    have inv: "sampler_inv (?b\<lparr>a0Candidates := es\<rparr>)" if "rb_inv es" for es
      using assms(1) that in_i64_i64 by (simp add: sampler_inv_def)
    have eff: "ack_effect b n (?b\<lparr>a0Candidates := es\<rparr>)" for es
      using Some by (auto simp: ack_effect_def acked_size_def tracked_def)
    have self: "?b\<lparr>a0Candidates := a0Candidates b\<rparr> = ?b"
      using ack_totals_simps(2) [of t n p "b\<lparr>lastAckedPacket := n\<rparr>"] by simp
    have rb: "rb_inv (a0Candidates b)" using assms(1) by (simp add: sampler_inv_def)
    have inv0: "sampler_inv ?b" and eff0: "ack_effect b n ?b" using inv [OF rb] eff [of "a0Candidates b"] self by auto
    obtain chosen es where c: "(if overestimateAvoidance ?b
        then chooseA0Point (st_totalBytesAcked (cs_sendTimeState p)) (a0Candidates ?b)
        else Some (None, a0Candidates ?b)) = Some (chosen, es)" "rb_inv es"
      using chooseA0Point_law [OF rb, of "st_totalBytesAcked (cs_sendTimeState p)"] rb by (cases "overestimateAvoidance b") auto
    show ?thesis using g Some c inv0 eff0 inv [OF c(2)] eff [of es]
      by (auto simp: onPacketAcknowledged_def Let_def)
  qed
qed

lemma i64_add_i64: "i64 (i64 x + y) = i64 (x + y)"
proof -
  have "i64 x + y + 2 ^ 63 = (x + 2 ^ 63) mod 2 ^ 64 + y" by (simp add: i64_def)
  then have "(i64 x + y + 2 ^ 63) mod 2 ^ 64 = (x + y + 2 ^ 63) mod 2 ^ 64"
    by (simp only: mod_add_left_eq) (simp add: ac_simps)
  then show ?thesis by (simp add: i64_def)
qed

definition pkts_ok :: "(int \<times> int) list \<Rightarrow> bool" where
  "pkts_ok ps \<longleftrightarrow> list_all (\<lambda>(n, _). pn_ok n) ps"

definition acks_effect :: "bandwidth_sampler \<Rightarrow> (int \<times> int) list \<Rightarrow> bandwidth_sampler \<Rightarrow> bool" where
  "acks_effect b ps b' \<longleftrightarrow>
     tracked b' = tracked b \<and> endOfAppLimitedPhase b' = endOfAppLimitedPhase b
     \<and> isAppLimited b' = (isAppLimited b \<and> (\<forall>(n, _) \<in> set ps. tracked b n \<noteq> None \<longrightarrow>
          endOfAppLimitedPhase b \<noteq> invalidPacketNumber \<and> n \<le> endOfAppLimitedPhase b))
     \<and> totalBytesAcked b' = i64 (totalBytesAcked b + (\<Sum>(n, _)\<leftarrow>ps. acked_size b n))"

lemma acks_effect_Cons:
  assumes "ack_effect b n b1" "acks_effect b1 ps b2"
  shows "acks_effect b ((n, x) # ps) b2"
proof -
  have "acked_size b1 = acked_size b"
    using assms(1) by (auto simp: ack_effect_def acked_size_def fun_eq_iff)
  then show ?thesis using assms
    by (auto simp: ack_effect_def acks_effect_def i64_add_i64 algebra_simps)
qed

lemma acked_loop_law:
  "sampler_inv b \<Longrightarrow> pkts_ok ps \<Longrightarrow>
   \<exists>ev' s' m' b'. acked_loop t ps ev s m b = Some (ev', s', m', b') \<and> sampler_inv b' \<and> acks_effect b ps b'"
proof (induction ps arbitrary: ev s m b)
  case Nil
  then show ?case by (simp add: acks_effect_def sampler_inv_def)
next
  case (Cons x ps)
  obtain n y where x: "x = (n, y)" by (cases x)
  have "pn_ok n" "pkts_ok ps" using Cons.prems(2) by (auto simp: x pkts_ok_def)
  from onPacketAcknowledged_law [OF Cons.prems(1) this(1), of t] obtain sm b1 where
    b1: "onPacketAcknowledged t n b = Some (sm, b1)" "sampler_inv b1" "ack_effect b n b1" by blast
  from acks_effect_Cons [OF b1(3)] Cons.IH [OF b1(2) \<open>pkts_ok ps\<close>] b1(1) show ?case
    by (simp add: x) blast
qed

lemma lost_loop_law:
  "sampler_inv b \<Longrightarrow> pkts_ok ps \<Longrightarrow>
   \<exists>s' b'. lost_loop ps s b = Some (s', b') \<and> sampler_inv b' \<and> acks_effect b [] b'"
proof (induction ps arbitrary: s b)
  case Nil
  then show ?case by (simp add: acks_effect_def sampler_inv_def)
next
  case (Cons x ps)
  obtain n y where x: "x = (n, y)" by (cases x)
  let ?b = "b\<lparr>totalBytesLost := i64 (totalBytesLost b + y)\<rparr>"
  have "pn_ok n" "pkts_ok ps" using Cons.prems(2) by (auto simp: x pkts_ok_def)
  then obtain st where "sampler_OnPacketLost n y b = Some (st, ?b)"
    using Cons.prems(1) by (auto simp: sampler_OnPacketLost_def Let_def GetEntry_law sampler_inv_def)
  moreover have "sampler_inv ?b" using Cons.prems(1) by (simp add: sampler_inv_def)
  moreover have "acks_effect b [] c" if "acks_effect ?b [] c" for c
    using that by (simp add: acks_effect_def tracked_def)
  ultimately show ?case using Cons.IH [of ?b] \<open>pkts_ok ps\<close> by (fastforce simp: x)
qed

lemma onAckEventEnd_law:
  assumes "sampler_inv b"
  shows "\<exists>x b'. onAckEventEnd bw isNew rtc b = Some (x, b') \<and> sampler_inv b' \<and> acks_effect b [] b'"
proof -
  have rb: "rb_inv (a0Candidates b)" using assms by (simp add: sampler_inv_def)
  obtain extra m where m: "mah_Update bw isNew rtc (lastSentPacket b) (lastAckedPacket b) (lastAckedPacketAckTime b)
      (i64 (totalBytesAcked b - totalBytesAckedAfterLastAckEvent b)) (maxAckHeightTracker b) = (extra, m)" by fastforce
  let ?b = "b\<lparr>totalBytesAckedAfterLastAckEvent := totalBytesAcked b, maxAckHeightTracker := m\<rparr>"
  obtain es where es: "rb_PushBack zero_ack_point (a0Candidates b) (LessRecentPoint (recentAckPoints b)) = Some es" "rb_inv es"
    using rb.push_law [OF rb] by blast
  have keeps: "sampler_inv c \<and> acks_effect b [] c"
    if "c = b \<or> c = ?b \<or> c = ?b\<lparr>a0Candidates := es\<rparr>" for c
    using that assms es(2) by (auto simp: sampler_inv_def acks_effect_def tracked_def)
  have "onAckEventEnd bw isNew rtc b =
      (if i64 (totalBytesAcked b - totalBytesAckedAfterLastAckEvent b) = 0 then Some (0, b)
       else if overestimateAvoidance b \<and> extra = 0 then Some (extra, ?b\<lparr>a0Candidates := es\<rparr>)
       else Some (extra, ?b))"
    using es(1) m by (simp add: onAckEventEnd_def Let_def)
  then show ?thesis using keeps by (auto split: if_splits)
qed

lemma acks_effect_trans:
  assumes "acks_effect b [] b1" "acks_effect b1 ps b2"
  shows "acks_effect b ps b2"
proof -
  have "acked_size b1 = acked_size b"
    using assms(1) by (auto simp: acks_effect_def acked_size_def fun_eq_iff)
  then show ?thesis using assms by (auto simp: acks_effect_def i64_add_i64)
qed

lemma acks_effect_then:
  assumes "acks_effect b ps b1" "acks_effect b1 [] b2" "sampler_inv b1"
  shows "acks_effect b ps b2"
  using assms by (auto simp: acks_effect_def sampler_inv_def)

lemma OnCongestionEvent_law:
  assumes "sampler_inv b" "pkts_ok acked" "pkts_ok lost"
  shows "\<exists>ev b'. sampler_OnCongestionEvent t acked lost mb up rtc b = Some (ev, b')
    \<and> sampler_inv b' \<and> acks_effect b acked b'"
proof -
  from lost_loop_law [OF assms(1,3), of zero_send_time_state] obtain s b1 where
    b1: "lost_loop lost zero_send_time_state b = Some (s, b1)" "sampler_inv b1" "acks_effect b [] b1" by blast
  show ?thesis
  proof (cases "acked = []")
    case True
    with b1 show ?thesis by (simp add: sampler_OnCongestionEvent_def)
  next
    case False
    from acked_loop_law [OF b1(2) assms(2), of t newCongestionEventSample zero_send_time_state 0]
    obtain ev la m b2 where b2: "acked_loop t acked newCongestionEventSample zero_send_time_state 0 b1 = Some (ev, la, m, b2)"
      "sampler_inv b2" "acks_effect b1 acked b2" by blast
    have e: "acks_effect b acked c" if "acks_effect b2 [] c" for c
      using acks_effect_then [OF acks_effect_trans [OF b1(3) b2(3)] that b2(2)] .
    have "\<exists>x b'. onAckEventEnd u v rtc b2 = Some (x, b') \<and> sampler_inv b' \<and> acks_effect b acked b'" for u v
      using onAckEventEnd_law [OF b2(2), of u v rtc] e by blast
    then show ?thesis using False b1(1) b2(1)
      by (simp add: sampler_OnCongestionEvent_def Let_def) (metis (no_types, lifting) case_prod_conv option.simps(9))
  qed
qed

lemma open_transmission_law:
  assumes "sampler_inv b"
  shows "\<exists>b'. open_transmission t b = Some b' \<and> sampler_inv b'"
proof -
  have "rb_inv (rb_Clear zero_ack_point (a0Candidates b))"
    using rb_Clear_law [of "a0Candidates b"] assms by (simp add: sampler_inv_def)
  from rb.push_law [OF this, of zero_ack_point "MostRecentPoint (rap_Update t (totalBytesAcked b) rap_Clear)"]
  show ?thesis using assms
    by (cases "overestimateAvoidance b") (auto simp: open_transmission_def sampler_inv_def Let_def)
qed

lemma OnPacketSent_law:
  assumes "sampler_inv b" "pn_ok n"
  shows "\<exists>b'. sampler_OnPacketSent t n bytes inFlight rt b = Some b' \<and> sampler_inv b'"
proof (cases rt)
  case False
  then show ?thesis using assms by (simp add: sampler_OnPacketSent_def sampler_inv_def Let_def)
next
  case True
  let ?b2 = "b\<lparr>lastSentPacket := n, totalBytesSent := i64 (totalBytesSent b + bytes)\<rparr>"
  have "sampler_inv ?b2" using assms(1) by (simp add: sampler_inv_def)
  from open_transmission_law [OF this, of t] this
  obtain b3 where b3: "(if inFlight = 0 then open_transmission t ?b2 else Some ?b2) = Some b3" "sampler_inv b3"
    by (cases "inFlight = 0") auto
  then have "pq_inv (connectionStateMap b3)" by (simp add: sampler_inv_def)
  from pq_emplace_sim [OF this assms(2), where z = zero_connection_state
      and x = "newConnectionStateOnSentPacket t bytes (i64 (inFlight + bytes)) b3"]
  obtain ok q where q: "Emplace zero_connection_state n
      (Some (newConnectionStateOnSentPacket t bytes (i64 (inFlight + bytes)) b3)) (connectionStateMap b3) = Some (ok, q)" "pq_inv q"
    by (auto split: option.splits)
  have "sampler_OnPacketSent t n bytes inFlight rt b =
      Option.bind (if inFlight = 0 then open_transmission t ?b2 else Some ?b2) (\<lambda>b3.
        Option.bind (Emplace zero_connection_state n
          (Some (newConnectionStateOnSentPacket t bytes (i64 (inFlight + bytes)) b3)) (connectionStateMap b3))
          (\<lambda>(ok, q). Some (b3\<lparr>connectionStateMap := q\<rparr>)))"
    using True by (simp add: sampler_OnPacketSent_def Let_def)
  also have "\<dots> = Some (b3\<lparr>connectionStateMap := q\<rparr>)" unfolding b3(1) by (simp add: q(1))
  finally show ?thesis using b3(2) q(2) by (simp add: sampler_inv_def)
qed

lemma OnPacketNeutered_law:
  assumes "sampler_inv b" "pn_ok n"
  shows "\<exists>b'. OnPacketNeutered n b = Some b' \<and> sampler_inv b'"
proof -
  have "pq_inv (connectionStateMap b)" using assms(1) by (simp add: sampler_inv_def)
  from pq_remove_sim [OF this assms(2), of zero_connection_state] obtain r q where
    "pq_Remove zero_connection_state n (connectionStateMap b) = Some (r, q)" "pq_inv q" by (auto split: option.splits)
  with assms(1) show ?thesis by (cases r) (simp_all add: OnPacketNeutered_def sampler_inv_def)
qed

lemma RemoveObsoletePackets_law:
  assumes "sampler_inv b"
  shows "\<exists>b'. RemoveObsoletePackets n b = Some b' \<and> sampler_inv b'"
proof -
  have "pq_inv (connectionStateMap b)" using assms(1) by (simp add: sampler_inv_def)
  from pq_upto_sim [OF this, where z = zero_connection_state and n = n] obtain q where
    "RemoveUpTo zero_connection_state n (connectionStateMap b) = Some q" "pq_inv q" by (auto split: option.splits)
  with assms(1) show ?thesis by (simp add: RemoveObsoletePackets_def sampler_inv_def)
qed

lemma sampler_inv_new: "sampler_inv (newBandwidthSampler w)"
  by (simp add: sampler_inv_def newBandwidthSampler_def new_queue rb_inv_zero)


section \<open>Sorted lists of candidates\<close>

lemma takeWhile_sorted_mem:
  "c \<in> set xs \<Longrightarrow> f c \<le> t \<Longrightarrow> sorted (map f xs) \<Longrightarrow> c \<in> set (takeWhile (\<lambda>c. f c \<le> (t :: int)) xs)"
  by (induction xs) fastforce+

lemma takeWhile_map_sorted: "sorted (map f xs) \<Longrightarrow> sorted (map f (takeWhile P xs))"
  by (induction xs) (auto dest: set_takeWhileD)

lemma sorted_map_last: "sorted (map f xs) \<Longrightarrow> c \<in> set xs \<Longrightarrow> f c \<le> f (last xs)"
  by (induction xs) auto


section \<open>Properties\<close>

text \<open>The calls a congestion controller makes on the sampler.\<close>

datatype sampler_op =
    SSent int int int int bool
  | SEvent int "(int \<times> int) list" "(int \<times> int) list" int int int
  | SNeutered int
  | SObsolete int
  | SAppLimited
  | SResetHeight int int
  | SAvoidOverestimate
  | SWindowLength int
  | SNewEpochAfterRound bool
  | SLimitBySendRate bool
  | SReduceExtraAcked bool

fun sampler_do :: "sampler_op \<Rightarrow> bandwidth_sampler \<Rightarrow> bandwidth_sampler option" where
  "sampler_do (SSent t n bytes inFlight rt) b = sampler_OnPacketSent t n bytes inFlight rt b"
| "sampler_do (SEvent t acked lost mb up rtc) b = map_option snd (sampler_OnCongestionEvent t acked lost mb up rtc b)"
| "sampler_do (SNeutered n) b = OnPacketNeutered n b"
| "sampler_do (SObsolete n) b = RemoveObsoletePackets n b"
| "sampler_do SAppLimited b = Some (sampler_OnAppLimited b)"
| "sampler_do (SResetHeight h t) b = Some (ResetMaxAckHeightTracker h t b)"
| "sampler_do SAvoidOverestimate b = Some (EnableOverestimateAvoidance b)"
| "sampler_do (SWindowLength len) b = Some (SetMaxAckHeightTrackerWindowLength len b)"
| "sampler_do (SNewEpochAfterRound v) b = Some (SetStartNewAggregationEpochAfterFullRound v b)"
| "sampler_do (SLimitBySendRate v) b = Some (SetLimitMaxAckHeightTrackerBySendRate v b)"
| "sampler_do (SReduceExtraAcked v) b = Some (SetReduceExtraAckedOnBandwidthIncrease v b)"

fun sampler_op_ok :: "sampler_op \<Rightarrow> bool" where
  "sampler_op_ok (SSent t n bytes inFlight rt) = pn_ok n"
| "sampler_op_ok (SEvent t acked lost mb up rtc) = (pkts_ok acked \<and> pkts_ok lost)"
| "sampler_op_ok (SNeutered n) = pn_ok n"
| "sampler_op_ok _ = True"

primrec sampler_run :: "sampler_op list \<Rightarrow> bandwidth_sampler \<Rightarrow> bandwidth_sampler option" where
  "sampler_run [] b = Some b"
| "sampler_run (a # as) b = Option.bind (sampler_do a b) (sampler_run as)"

lemma sampler_do_law:
  assumes "sampler_inv b" "sampler_op_ok a"
  shows "\<exists>b'. sampler_do a b = Some b' \<and> sampler_inv b'"
proof (cases a)
  case (SSent t n bytes inFlight rt)
  with OnPacketSent_law [OF assms(1)] assms(2) show ?thesis by simp
next
  case (SEvent t acked lost mb up rtc)
  with OnCongestionEvent_law [OF assms(1), of acked lost t mb up rtc] assms(2) show ?thesis by force
next
  case (SNeutered n)
  with OnPacketNeutered_law [OF assms(1)] assms(2) show ?thesis by simp
next
  case (SObsolete n)
  with RemoveObsoletePackets_law [OF assms(1)] show ?thesis by simp
qed (use assms in \<open>auto simp: sampler_inv_def sampler_OnAppLimited_def ResetMaxAckHeightTracker_def
       EnableOverestimateAvoidance_def SetMaxAckHeightTrackerWindowLength_def
       SetStartNewAggregationEpochAfterFullRound_def SetLimitMaxAckHeightTrackerBySendRate_def
       SetReduceExtraAckedOnBandwidthIncrease_def\<close>)

lemma sampler_run_law:
  "sampler_inv b \<Longrightarrow> list_all sampler_op_ok as \<Longrightarrow> \<exists>b'. sampler_run as b = Some b' \<and> sampler_inv b'"
proof (induction as arbitrary: b)
  case (Cons a as)
  with sampler_do_law [of b a] show ?case by fastforce
qed simp



text \<open>
  The app-limited phase. A congestion event ends the phase exactly when it acknowledges
  a tracked packet sent after the call that started the phase, or the phase has no end
  packet, and it adds the sizes of the tracked acknowledged packets to the acked total.
\<close>

theorem app_limited_phase_exit:
  assumes "sampler_inv b" "pkts_ok acked" "pkts_ok lost"
    and "sampler_OnCongestionEvent t acked lost mb up rtc (sampler_OnAppLimited b) = Some (ev, b')"
  shows "(isAppLimited b' \<longleftrightarrow>
      (\<forall>(n, _) \<in> set acked. tracked b n \<noteq> None \<longrightarrow> lastSentPacket b \<noteq> invalidPacketNumber \<and> n \<le> lastSentPacket b))
    \<and> totalBytesAcked b' = i64 (totalBytesAcked b + (\<Sum>(n, _)\<leftarrow>acked. acked_size b n))"
proof -
  let ?b = "sampler_OnAppLimited b"
  have "sampler_inv ?b" using assms(1) by (simp add: sampler_inv_def sampler_OnAppLimited_def)
  from OnCongestionEvent_law [OF this assms(2,3), of t mb up rtc] assms(4)
  have e: "acks_effect ?b acked b'" by auto
  have "tracked ?b = tracked b" "acked_size ?b = acked_size b"
    by (auto simp: sampler_OnAppLimited_def tracked_def acked_size_def fun_eq_iff)
  with e show ?thesis by (simp add: acks_effect_def sampler_OnAppLimited_def)
qed

lemma tracked_new: "tracked (newBandwidthSampler w) n = None"
  by (simp add: tracked_def newBandwidthSampler_def new_queue)

theorem app_limited_phase_exit_witness:
  "\<exists>ev b'. sampler_OnCongestionEvent 9 [(1, 1200)] [] 0 7 1 (sampler_OnAppLimited (newBandwidthSampler 10)) = Some (ev, b')
     \<and> isAppLimited b'"
proof -
  let ?n = "newBandwidthSampler 10"
  have ok: "pkts_ok [(1, 1200)]" "pkts_ok []" by (simp_all add: pkts_ok_def pn_ok_def)
  have "sampler_inv (sampler_OnAppLimited ?n)"
    using sampler_inv_new [of 10] by (simp add: sampler_inv_def sampler_OnAppLimited_def)
  from OnCongestionEvent_law [OF this ok, of 9 0 7 1]
  obtain ev b' where e: "sampler_OnCongestionEvent 9 [(1, 1200)] [] 0 7 1 (sampler_OnAppLimited ?n) = Some (ev, b')" by blast
  from app_limited_phase_exit [OF sampler_inv_new ok e] e show ?thesis by (auto simp: tracked_new)
qed

text \<open>
  C38: \<open>chooseA0Point\<close> returns the candidate with the most acked bytes among those acked no
  later than the packet was sent, whenever the candidates are in order and the oldest is not
  later than that; the candidates stay in order.
\<close>

theorem a0_choice_is_latest:
  assumes "rb_inv r" "rb_list r = x # xs" "sorted (map ap_totalBytesAcked (rb_list r))" "ap_totalBytesAcked x \<le> tot"
  shows "\<exists>a r'. chooseA0Point tot r = Some (Some a, r') \<and> a \<in> set (rb_list r) \<and> ap_totalBytesAcked a \<le> tot
    \<and> (\<forall>c \<in> set (rb_list r). ap_totalBytesAcked c \<le> tot \<longrightarrow> ap_totalBytesAcked c \<le> ap_totalBytesAcked a)
    \<and> sorted (map ap_totalBytesAcked (rb_list r')) \<and> rb_inv r'"
proof -
  let ?P = "\<lambda>c. ap_totalBytesAcked c \<le> tot"
  let ?w = "x # takeWhile ?P xs"
  have so: "sorted (map ap_totalBytesAcked (x # xs))" using assms by simp
  have tw: "?w = takeWhile ?P (x # xs)" using assms(4) by simp
  have mem: "c \<in> set ?w" if "c \<in> set (x # xs)" "?P c" for c
    unfolding tw using that so by (rule takeWhile_sorted_mem)
  have "last ?w \<in> set ?w" by (rule last_in_set) simp
  then have "last ?w \<in> set (takeWhile ?P (x # xs))" by (simp only: tw)
  from set_takeWhileD [OF this] have l: "last ?w \<in> set (x # xs)" "?P (last ?w)" by blast+
  have "sorted (map ap_totalBytesAcked ?w)"
    unfolding tw using so by (rule takeWhile_map_sorted)
  then have mx: "ap_totalBytesAcked c \<le> ap_totalBytesAcked (last ?w)" if "c \<in> set ?w" for c
    using that by (rule sorted_map_last)
  obtain r' where r': "chooseA0Point tot r = Some (Some (last ?w), r')" "rb_inv r'" "rb_list r' = a0_left tot (x # xs)"
    using chooseA0Point_law [OF assms(1), of tot] assms(2) by auto
  have "sorted (map ap_totalBytesAcked (a0_left tot (x # xs)))"
  proof -
    have "sorted (map ap_totalBytesAcked (drop k (x # xs)))" for k
      using sorted_wrt_drop [OF so, of k] by (simp only: drop_map)
    then show ?thesis unfolding a0_left_def Let_def by (simp del: drop_Cons')
  qed
  with r' l mem mx assms(2) show ?thesis by auto
qed

theorem a0_choice_is_latest_witness:
  "\<exists>a r'. chooseA0Point 5 \<lparr>ring = [\<lparr>ap_ackTime = 1, ap_totalBytesAcked = 2\<rparr>, \<lparr>ap_ackTime = 3, ap_totalBytesAcked = 9\<rparr>],
       headPos = 0, tailPos = 0, full = True\<rparr> = Some (Some a, r') \<and> ap_totalBytesAcked a \<le> 5"
  (is "\<exists>a r'. chooseA0Point 5 ?r = _ \<and> _")
proof -
  have "rb_list ?r = [\<lparr>ap_ackTime = 1, ap_totalBytesAcked = 2\<rparr>, \<lparr>ap_ackTime = 3, ap_totalBytesAcked = 9\<rparr>]"
    by (simp add: rb_list_def rb_Len_def)
  moreover have "rb_inv ?r" by (simp add: rb_inv_def)
  ultimately show ?thesis using a0_choice_is_latest [of ?r _ _ 5] by fastforce
qed

text \<open>
  With no candidate past the packet's send point, \<open>chooseA0Point\<close> keeps about half of
  the candidates instead of only the last one: the bound of its popping loop falls while the
  loop counts up.
\<close>

theorem a0_leaves_half:
  assumes "rb_inv r" "rb_list r = x # xs" "\<forall>c \<in> set xs. ap_totalBytesAcked c \<le> tot"
  shows "\<exists>r'. chooseA0Point tot r = Some (Some (last (rb_list r)), r')
    \<and> rb_list r' = drop (length (rb_list r) div 2) (rb_list r)"
proof -
  have t: "takeWhile (\<lambda>c. ap_totalBytesAcked c \<le> tot) xs = xs" using assms(3) by (simp add: takeWhile_eq_all_conv)
  show ?thesis using chooseA0Point_law [OF assms(1), of tot] by (auto simp: assms(2) a0_left_def Let_def t)
qed

theorem a0_leaves_half_witness:
  "\<exists>r'. chooseA0Point 5 \<lparr>ring = [zero_ack_point, zero_ack_point, zero_ack_point, zero_ack_point],
       headPos = 0, tailPos = 0, full = True\<rparr> = Some (Some zero_ack_point, r') \<and> length (rb_list r') = 2"
  (is "\<exists>r'. chooseA0Point 5 ?r = _ \<and> _")
proof -
  have l: "rb_list ?r = [zero_ack_point, zero_ack_point, zero_ack_point, zero_ack_point]"
    by (simp add: rb_list_def rb_Len_def)
  moreover have "rb_inv ?r" by (simp add: rb_inv_def)
  ultimately show ?thesis
    using a0_leaves_half [of ?r zero_ack_point "[zero_ack_point, zero_ack_point, zero_ack_point]" 5]
    by (auto simp: zero_ack_point_def)
qed

text \<open>
  C38: \<open>bytesFromBandwidthAndTimeDelta\<close> is the exact number of whole bytes while bandwidth
  times nanoseconds stays below \<open>2 ^ 63\<close>.
\<close>

theorem bytesFromBandwidth_exact:
  assumes "0 \<le> bw" "0 \<le> delta" "bw * delta < 2 ^ 63" "bw < 2 ^ 63"
  shows "bytesFromBandwidthAndTimeDelta bw delta = bw * delta div 8000000000"
proof -
  have p: "0 \<le> bw * delta" using assms by simp
  then have "i64 (bw * delta) = bw * delta" using assms(3) by (intro i64_id) linarith
  with p assms show ?thesis by (simp add: bytesFromBandwidthAndTimeDelta_def second_def)
qed

theorem bytesFromBandwidth_exact_witness: "bytesFromBandwidthAndTimeDelta 80000000 1000000000 = 10000000"
  using bytesFromBandwidth_exact [of 80000000 1000000000] by simp

text \<open>
  Past that bound the product wraps. Ten gigabits per second over one second give a
  negative number of expected bytes.
\<close>

theorem bytesFromBandwidth_wraps: "bytesFromBandwidthAndTimeDelta 10000000000 1000000000 < 0"
  by (simp add: bytesFromBandwidthAndTimeDelta_def second_def i64_def quo_def)

end
