(* ===== verification/Pacer.thy ===== *)
theory Pacer
  imports Prelude
begin

text \<open>
  The token bucket of \<open>internal/congestion/common/pacer.go\<close>. Byte counts and times are
  \<open>int64\<close> values with the wrap-around written out. The callback \<open>getBandwidth\<close> reads the state of
  the sender, which no call of the pacer changes, so its value \<open>bw\<close> is an argument. The
  constants of quic-go are the record \<open>quic_consts\<close>, an argument of what uses them.
\<close>

section \<open>The pacer\<close>

record quic_consts =
  InitialPacketSize :: int
  MinInitialPacketSize :: int
  MaxPacketBufferSize :: int
  MaxCongestionWindowPackets :: int
  MinPacingDelay :: int

record pacer =
  budgetAtLastSent :: int
  pc_maxDatagramSize :: int
  lastSentTime :: int

definition maxBurstPackets :: int where "maxBurstPackets = 10"

definition maxBurstPacingDelayMultiplier :: int where "maxBurstPacingDelayMultiplier = 4"

definition NewPacer :: "quic_consts \<Rightarrow> pacer" where
  "NewPacer k =
     \<lparr>budgetAtLastSent = i64 (maxBurstPackets * InitialPacketSize k),
      pc_maxDatagramSize = InitialPacketSize k, lastSentTime = 0\<rparr>"

definition maxBurstSize :: "quic_consts \<Rightarrow> int \<Rightarrow> pacer \<Rightarrow> int" where
  "maxBurstSize k bw p =
     max (quo (i64 (i64 (maxBurstPacingDelayMultiplier * MinPacingDelay k) * bw)) 1000000000)
         (i64 (maxBurstPackets * pc_maxDatagramSize p))"

definition Budget :: "quic_consts \<Rightarrow> int \<Rightarrow> int \<Rightarrow> pacer \<Rightarrow> int" where
  "Budget k bw t p =
     (if lastSentTime p = 0 then maxBurstSize k bw p
      else let b = i64 (budgetAtLastSent p + quo (i64 (bw * i64 (t - lastSentTime p))) 1000000000);
               b' = (if b < 0 then 2 ^ 62 - 1 else b)
           in min (maxBurstSize k bw p) b')"

definition SentPacket :: "quic_consts \<Rightarrow> int \<Rightarrow> int \<Rightarrow> int \<Rightarrow> pacer \<Rightarrow> pacer" where
  "SentPacket k bw sendTime sz p =
     (let b = Budget k bw sendTime p in
      p\<lparr>budgetAtLastSent := (if sz > b then 0 else i64 (b - sz)), lastSentTime := sendTime\<rparr>)"

text \<open>The time is zero when a packet can go at once; a bandwidth of zero panics.\<close>

definition TimeUntilSend :: "quic_consts \<Rightarrow> int \<Rightarrow> pacer \<Rightarrow> int option" where
  "TimeUntilSend k bw p =
     (if budgetAtLastSent p \<ge> pc_maxDatagramSize p then Some 0
      else let diff = u64 (1000000000 * u64 (i64 (pc_maxDatagramSize p - budgetAtLastSent p)));
               bwu = u64 bw
           in if bwu = 0 then None
              else let d = (if diff mod bwu > 0 then u64 (diff div bwu + 1) else diff div bwu)
                   in Some (i64 (lastSentTime p + max (MinPacingDelay k) (i64 d))))"

definition pc_SetMaxDatagramSize :: "int \<Rightarrow> pacer \<Rightarrow> pacer" where
  "pc_SetMaxDatagramSize s p = p\<lparr>pc_maxDatagramSize := s\<rparr>"


section \<open>The bucket never runs negative and never exceeds the burst\<close>

definition size_ok :: "int \<Rightarrow> bool" where
  "size_ok s \<longleftrightarrow> 0 < s \<and> s \<le> 65535"

definition pacer_inv :: "pacer \<Rightarrow> bool" where
  "pacer_inv p \<longleftrightarrow> 0 \<le> budgetAtLastSent p \<and> in_i64 (budgetAtLastSent p) \<and> size_ok (pc_maxDatagramSize p)"

lemma quo_i64_bound: "\<bar>quo (i64 x) 1000000000\<bar> < 2 ^ 62"
proof -
  have "\<bar>i64 x\<bar> \<le> 2 ^ 63" using in_i64_i64 [of x] by linarith
  then have "\<bar>i64 x\<bar> div 1000000000 \<le> 2 ^ 63 div 1000000000" by (rule zdiv_mono1) simp
  also have "\<dots> < 2 ^ 62" by simp
  finally show ?thesis by (simp add: quo_def abs_mult)
qed

lemma maxBurstSize_bounds:
  assumes "size_ok (pc_maxDatagramSize p)"
  shows "10 * pc_maxDatagramSize p \<le> maxBurstSize k bw p" "maxBurstSize k bw p < 2 ^ 62"
proof -
  have i: "i64 (maxBurstPackets * pc_maxDatagramSize p) = 10 * pc_maxDatagramSize p"
    using assms by (simp add: size_ok_def maxBurstPackets_def)
  show "10 * pc_maxDatagramSize p \<le> maxBurstSize k bw p" by (simp add: maxBurstSize_def i)
  show "maxBurstSize k bw p < 2 ^ 62"
    using quo_i64_bound [of "i64 (maxBurstPacingDelayMultiplier * MinPacingDelay k) * bw"] assms
    by (simp add: maxBurstSize_def i size_ok_def)
qed

lemma Budget_bounds:
  assumes "pacer_inv p"
  shows "0 \<le> Budget k bw t p" "Budget k bw t p \<le> maxBurstSize k bw p"
proof -
  have "size_ok (pc_maxDatagramSize p)" using assms by (simp add: pacer_inv_def)
  with maxBurstSize_bounds [OF this, of k bw]
  show "0 \<le> Budget k bw t p" "Budget k bw t p \<le> maxBurstSize k bw p"
    by (auto simp: Budget_def Let_def size_ok_def)
qed

lemma SentPacket_inv:
  assumes "pacer_inv p" "0 \<le> sz"
  shows "pacer_inv (SentPacket k bw t sz p)"
    and "sz \<le> Budget k bw t p \<Longrightarrow> budgetAtLastSent (SentPacket k bw t sz p) = Budget k bw t p - sz"
    and "lastSentTime (SentPacket k bw t sz p) = t"
    and "pc_maxDatagramSize (SentPacket k bw t sz p) = pc_maxDatagramSize p"
proof -
  have "size_ok (pc_maxDatagramSize p)" using assms by (simp add: pacer_inv_def)
  from Budget_bounds [OF assms(1), of k bw t] maxBurstSize_bounds(2) [OF this, of k bw]
  have b: "0 \<le> Budget k bw t p" "Budget k bw t p < 2 ^ 62" by simp_all
  then show "pacer_inv (SentPacket k bw t sz p)"
    using assms by (auto simp: SentPacket_def Let_def pacer_inv_def)
  show "budgetAtLastSent (SentPacket k bw t sz p) = Budget k bw t p - sz" if "sz \<le> Budget k bw t p"
    using that b assms(2) by (simp add: SentPacket_def Let_def)
qed (simp_all add: SentPacket_def Let_def)

lemma NewPacer_inv:
  assumes "size_ok (InitialPacketSize k)"
  shows "pacer_inv (NewPacer k)" "budgetAtLastSent (NewPacer k) = 10 * InitialPacketSize k"
  using assms by (simp_all add: NewPacer_def pacer_inv_def maxBurstPackets_def size_ok_def)

lemma Budget_refill:
  assumes "pacer_inv p" "lastSentTime p \<noteq> 0" "0 \<le> bw" "lastSentTime p \<le> t" "in_i64 (t - lastSentTime p)"
    and "bw * (t - lastSentTime p) < 2 ^ 63" "budgetAtLastSent p < 2 ^ 62"
  shows "Budget k bw t p
     = min (maxBurstSize k bw p) (budgetAtLastSent p + bw * (t - lastSentTime p) div 1000000000)"
proof -
  let ?x = "bw * (t - lastSentTime p)"
  have x: "0 \<le> ?x" using assms(3,4) by simp
  then have "i64 ?x = ?x" using assms(6) by simp
  moreover have "?x div 1000000000 \<le> 2 ^ 63 div 1000000000" using assms(6) by (intro zdiv_mono1) simp_all
  moreover have "0 \<le> ?x div 1000000000" using x by (simp add: pos_imp_zdiv_nonneg_iff)
  ultimately show ?thesis using assms x by (simp add: Budget_def pacer_inv_def)
qed


section \<open>Runs of sends\<close>

text \<open>
  A run of sends that the pacer allows: times do not go back, and each packet fits the budget
  of its moment. \<open>paced\<close> follows the bucket through the run.
\<close>

fun paced :: "quic_consts \<Rightarrow> int \<Rightarrow> pacer \<Rightarrow> (int \<times> int) list \<Rightarrow> bool" where
  "paced k bw p [] = True"
| "paced k bw p ((t, sz) # ps) =
     (lastSentTime p \<le> t \<and> 0 \<le> sz \<and> sz \<le> Budget k bw t p \<and> paced k bw (SentPacket k bw t sz p) ps)"

lemma div_superadd:
  fixes a b c :: int
  assumes "0 < c"
  shows "a div c + b div c \<le> (a + b) div c"
proof -
  have "(a div c + b div c) * c \<le> a + b"
    using div_mult_mod_eq [of a c] div_mult_mod_eq [of b c]
      pos_mod_sign [OF assms, of a] pos_mod_sign [OF assms, of b] unfolding distrib_right by linarith
  with zdiv_mono1 [of "(a div c + b div c) * c" "a + b" c] assms show ?thesis by simp
qed

lemma paced_bound:
  "paced k bw p ps \<Longrightarrow> pacer_inv p \<Longrightarrow> 0 < lastSentTime p \<Longrightarrow> 0 \<le> bw \<Longrightarrow> budgetAtLastSent p < 2 ^ 62 \<Longrightarrow>
   (\<And>t sz. (t, sz) \<in> set ps \<Longrightarrow> t < 2 ^ 63 \<and> bw * (t - lastSentTime p) < 2 ^ 63) \<Longrightarrow>
   (\<Sum>(t, sz)\<leftarrow>ps. sz)
     \<le> budgetAtLastSent p + bw * ((if ps = [] then lastSentTime p else fst (last ps)) - lastSentTime p) div 1000000000"
proof (induction ps arbitrary: p)
  case Nil
  then show ?case by (simp add: pacer_inv_def)
next
  case (Cons a ps)
  obtain t sz where a: "a = (t, sz)" by (cases a)
  let ?q = "SentPacket k bw t sz p" and ?l = "lastSentTime p"
  let ?T = "if ps = [] then t else fst (last ps)"
  note prems = Cons.prems [unfolded a]
  have t: "?l \<le> t" "0 \<le> sz" "sz \<le> Budget k bw t p" "paced k bw ?q ps" using prems(1) by simp_all
  have tb: "t < 2 ^ 63" "bw * (t - ?l) < 2 ^ 63" using prems(6) [of t sz] by simp_all
  note q = SentPacket_inv [OF prems(2) t(2), of k bw t]
  have sz: "size_ok (pc_maxDatagramSize p)" using prems(2) by (simp add: pacer_inv_def)
  have B: "Budget k bw t p < 2 ^ 62"
    using Budget_bounds(2) [OF prems(2), of k bw t] maxBurstSize_bounds(2) [OF sz, of k bw] by simp
  have later: "u < 2 ^ 63 \<and> bw * (u - t) < 2 ^ 63" if "(u, x) \<in> set ps" for u x
  proof -
    have "bw * (u - t) \<le> bw * (u - ?l)" using t(1) prems(4) by (intro mult_left_mono) simp_all
    moreover have "u < 2 ^ 63" "bw * (u - ?l) < 2 ^ 63" using prems(6) [of u x] that by simp_all
    ultimately show ?thesis by simp
  qed
  have "(\<Sum>(t, sz)\<leftarrow>ps. sz) \<le> budgetAtLastSent ?q
      + bw * ((if ps = [] then lastSentTime ?q else fst (last ps)) - lastSentTime ?q) div 1000000000"
    by (rule Cons.IH) (use q t prems(3,4) B later in auto)
  then have ih: "(\<Sum>(t, sz)\<leftarrow>ps. sz) \<le> Budget k bw t p - sz + bw * (?T - t) div 1000000000"
    using q t by (cases "ps = []") simp_all
  have "Budget k bw t p \<le> budgetAtLastSent p + bw * (t - ?l) div 1000000000"
    using Budget_refill [OF prems(2) _ prems(4) t(1), of k] prems(3,5) tb t(1) by simp
  moreover have "bw * (t - ?l) div 1000000000 + bw * (?T - t) div 1000000000 \<le> bw * (?T - ?l) div 1000000000"
    using div_superadd [of 1000000000 "bw * (t - ?l)" "bw * (?T - t)"] by (simp add: algebra_simps)
  ultimately show ?case using ih by (auto simp: a)
qed


lemma ceil_div:
  fixes x c :: int
  assumes "0 \<le> x" "0 < c"
  defines "d \<equiv> (if x mod c > 0 then x div c + 1 else x div c)"
  shows "x \<le> c * d" "c * d < x + c" "0 \<le> d" "0 \<le> e \<Longrightarrow> e < d \<Longrightarrow> c * e < x"
proof -
  have m: "c * (x div c) + x mod c = x" by simp
  have r: "0 \<le> x mod c" "x mod c < c" using assms by simp_all
  have d: "c * d = c * (x div c) + (if x mod c > 0 then c else 0)" by (simp add: d_def distrib_left)
  show "x \<le> c * d" "c * d < x + c" unfolding d using m r by (simp_all only: split: if_splits) linarith+
  show "0 \<le> d" using assms by (simp add: d_def pos_imp_zdiv_nonneg_iff)
  show "c * e < x" if "0 \<le> e" "e < d"
  proof -
    have "c * e \<le> c * (d - 1)" using that assms by (intro mult_left_mono) simp_all
    also have "\<dots> = c * d - c" by (simp add: algebra_simps)
    finally show ?thesis using \<open>c * d < x + c\<close> by simp
  qed
qed

text \<open>Without wrap-around the wake-up time is the last send plus the rounded-up delay.\<close>

lemma TimeUntilSend_value:
  assumes "pacer_inv p" "budgetAtLastSent p < pc_maxDatagramSize p" "0 < bw" "bw < 2 ^ 62"
    and "0 < lastSentTime p" "lastSentTime p < 2 ^ 61" "0 \<le> MinPacingDelay k" "MinPacingDelay k < 2 ^ 61"
  defines "x \<equiv> 1000000000 * (pc_maxDatagramSize p - budgetAtLastSent p)"
  shows "TimeUntilSend k bw p
     = Some (lastSentTime p + max (MinPacingDelay k) (if x mod bw > 0 then x div bw + 1 else x div bw))"
proof -
  let ?d = "if x mod bw > 0 then x div bw + 1 else x div bw"
  have gap: "0 < pc_maxDatagramSize p - budgetAtLastSent p" "pc_maxDatagramSize p - budgetAtLastSent p \<le> 65535"
    using assms(1,2) by (simp_all add: pacer_inv_def size_ok_def)
  then have x: "0 < x" "x < 2 ^ 50" by (simp_all add: x_def)
  have u: "u64 (1000000000 * u64 (i64 (pc_maxDatagramSize p - budgetAtLastSent p))) = x" "u64 bw = bw"
    using gap x assms(3,4) by (simp_all add: x_def)
  have "x div bw \<le> x" using zdiv_mono2 [of x 1 bw] x assms(3) by simp
  then have d: "0 \<le> ?d" "?d < 2 ^ 51" using x assms(3) by (simp_all add: pos_imp_zdiv_nonneg_iff)
  then have e: "(if x mod bw > 0 then u64 (x div bw + 1) else x div bw) = ?d" by (auto split: if_splits)
  show ?thesis unfolding TimeUntilSend_def Let_def u e using assms(2-8) d by (simp add: max_def)
qed

lemma wakes_up:
  assumes "pacer_inv p" "0 < bw" "bw < 2 ^ 62" "0 < lastSentTime p" "lastSentTime p < 2 ^ 61"
    and "0 \<le> MinPacingDelay k" "MinPacingDelay k < 2 ^ 61" "bw * MinPacingDelay k < 2 ^ 63"
  shows "\<exists>t. TimeUntilSend k bw p = Some t
    \<and> (t = 0 \<longrightarrow> pc_maxDatagramSize p \<le> Budget k bw (lastSentTime p) p)
    \<and> (t \<noteq> 0 \<longrightarrow> lastSentTime p \<le> t \<and> pc_maxDatagramSize p \<le> Budget k bw t p
         \<and> (t \<noteq> lastSentTime p + MinPacingDelay k \<longrightarrow>
              (\<forall>t'. lastSentTime p \<le> t' \<and> t' < t \<longrightarrow> Budget k bw t' p < pc_maxDatagramSize p)))"
proof -
  let ?m = "pc_maxDatagramSize p" and ?b = "budgetAtLastSent p" and ?l = "lastSentTime p"
  have sz: "size_ok ?m" using assms(1) by (simp add: pacer_inv_def)
  then have burst: "?m \<le> maxBurstSize k bw p" using maxBurstSize_bounds(1) [OF sz, of k bw] by (simp add: size_ok_def)
  show ?thesis
  proof (cases "?m \<le> ?b")
    case True
    have "Budget k bw ?l p = min (maxBurstSize k bw p) ?b"
      using assms(1,4) by (simp add: Budget_def pacer_inv_def)
    with True burst show ?thesis by (simp add: TimeUntilSend_def)
  next
    case False
    define x where "x = 1000000000 * (?m - ?b)"
    define d where "d = (if x mod bw > 0 then x div bw + 1 else x div bw)"
    have x: "0 < x" "x < 2 ^ 50" "?b < 2 ^ 62"
      using False sz assms(1) by (simp_all add: x_def size_ok_def pacer_inv_def)
    note c = ceil_div [of x bw, folded d_def]
    let ?t = "?l + max (MinPacingDelay k) d"
    have t: "TimeUntilSend k bw p = Some ?t"
      using TimeUntilSend_value [OF assms(1) _ assms(2-7)] False by (simp add: x_def d_def)
    have d: "0 \<le> d" "bw * d < 2 ^ 63" "x \<le> bw * d" using c x assms(2,3) by simp_all
    have d51: "d < 2 ^ 51"
    proof -
      have "x div bw \<le> x" using zdiv_mono2 [of x 1 bw] x assms(2) by simp
      then show ?thesis using x by (simp add: d_def)
    qed
    have budget: "Budget k bw (?l + e) p = min (maxBurstSize k bw p) (?b + bw * e div 1000000000)"
      if "0 \<le> e" "e < 2 ^ 61" "bw * e < 2 ^ 63" for e
      using Budget_refill [OF assms(1), of bw "?l + e" k] that x assms(2,4) by simp
    have "bw * max (MinPacingDelay k) d < 2 ^ 63" using assms(8) d by (simp add: max_def)
    then have bt: "Budget k bw ?t p = min (maxBurstSize k bw p) (?b + bw * max (MinPacingDelay k) d div 1000000000)"
      using assms(6,7) d(1) d51 by (intro budget) simp_all
    have "x \<le> bw * max (MinPacingDelay k) d"
      using d(3) assms(2) by (auto simp: max_def intro: order.trans mult_left_mono)
    then have "x div 1000000000 \<le> bw * max (MinPacingDelay k) d div 1000000000" by (rule zdiv_mono1) simp
    then have enough: "?m \<le> Budget k bw ?t p" using bt burst by (simp add: x_def)
    have early: "Budget k bw t' p < ?m" if t': "?l \<le> t'" "t' < ?t" "?t \<noteq> ?l + MinPacingDelay k" for t'
    proof -
      define e where "e = t' - ?l"
      have e: "0 \<le> e" "e < d" "e < 2 ^ 51" using t' d51 by (auto simp: e_def max_def split: if_splits)
      then have lt: "bw * e < x" using c(4) x assms(2) by simp
      then have "bw * e div 1000000000 < ?m - ?b" unfolding x_def by (simp add: div_less_iff_less_mult mult.commute)
      moreover have "Budget k bw (?l + e) p = min (maxBurstSize k bw p) (?b + bw * e div 1000000000)"
        using e lt x by (intro budget) simp_all
      ultimately show ?thesis using burst by (simp add: e_def)
    qed
    show ?thesis using t enough early assms(4,6) d(1) by auto
  qed
qed


section \<open>Properties\<close>

text \<open>
  C39: the rate of the pacer. Whatever packets a sender passes the pacer, as long as each fits
  the budget of its moment, any run of them from a first send at \<open>t\<^sub>0\<close> to a last one at
  \<open>t\<^sub>n\<close> holds at most one burst plus what the bandwidth gives in the time between.
\<close>

theorem pacer_rate:
  assumes "pacer_inv p" "0 \<le> bw" "0 < t0" "paced k bw p ((t0, s0) # ps)"
    and "\<forall>(t, sz) \<in> set ps. t < 2 ^ 63 \<and> bw * (t - t0) < 2 ^ 63"
  shows "(\<Sum>(t, sz)\<leftarrow>(t0, s0) # ps. sz)
     \<le> maxBurstSize k bw p + bw * (fst (last ((t0, s0) # ps)) - t0) div 1000000000"
proof -
  let ?q = "SentPacket k bw t0 s0 p"
  have s: "0 \<le> s0" "s0 \<le> Budget k bw t0 p" "paced k bw ?q ps" using assms(4) by simp_all
  note q = SentPacket_inv [OF assms(1) s(1), of k bw t0]
  have "size_ok (pc_maxDatagramSize p)" using assms(1) by (simp add: pacer_inv_def)
  note B = Budget_bounds [OF assms(1), of k bw t0] maxBurstSize_bounds(2) [OF this, of k bw]
  have "(\<Sum>(t, sz)\<leftarrow>ps. sz) \<le> budgetAtLastSent ?q
      + bw * ((if ps = [] then lastSentTime ?q else fst (last ps)) - lastSentTime ?q) div 1000000000"
    by (rule paced_bound [OF s(3) q(1)]) (use q s assms B in auto)
  then show ?thesis using q s B by (cases "ps = []") simp_all
qed

theorem pacer_rate_witness:
  "(\<Sum>(t, sz)\<leftarrow>[(1000 :: int, 1200 :: int), (2001000, 1200)]. sz)
     \<le> maxBurstSize (\<lparr>InitialPacketSize = 1280, MinInitialPacketSize = 1200, MaxPacketBufferSize = 1452,
           MaxCongestionWindowPackets = 10000, MinPacingDelay = 1000000\<rparr>) 65536
         \<lparr>budgetAtLastSent = 12800, pc_maxDatagramSize = 1280, lastSentTime = 0\<rparr>
       + 65536 * (fst (last [(1000 :: int, 1200 :: int), (2001000, 1200)]) - 1000) div 1000000000"
proof (rule pacer_rate)
  show "paced \<lparr>InitialPacketSize = 1280, MinInitialPacketSize = 1200, MaxPacketBufferSize = 1452,
           MaxCongestionWindowPackets = 10000, MinPacingDelay = 1000000\<rparr> 65536
         \<lparr>budgetAtLastSent = 12800, pc_maxDatagramSize = 1280, lastSentTime = 0\<rparr> [(1000, 1200), (2001000, 1200)]"
    by (simp add: Budget_def SentPacket_def maxBurstSize_def maxBurstPackets_def maxBurstPacingDelayMultiplier_def Let_def)
qed (simp_all add: pacer_inv_def size_ok_def)

text \<open>
  The wake-up time is right. \<open>TimeUntilSend\<close> does not panic for a positive bandwidth; when
  it returns zero a full datagram fits at once; otherwise a full datagram fits at the time it
  returns, and, unless the least delay of quic-go set the time, at no earlier moment. So the
  send loop neither spins on a timer that fires without budget nor waits too long.
\<close>

theorem pacer_wakes_in_time:
  assumes "pacer_inv p" "0 < bw" "bw < 2 ^ 62" "0 < lastSentTime p" "lastSentTime p < 2 ^ 61"
    and "0 \<le> MinPacingDelay k" "MinPacingDelay k < 2 ^ 61" "bw * MinPacingDelay k < 2 ^ 63"
  shows "\<exists>t. TimeUntilSend k bw p = Some t
    \<and> (t = 0 \<longrightarrow> pc_maxDatagramSize p \<le> Budget k bw (lastSentTime p) p)
    \<and> (t \<noteq> 0 \<longrightarrow> lastSentTime p \<le> t \<and> pc_maxDatagramSize p \<le> Budget k bw t p
         \<and> (t \<noteq> lastSentTime p + MinPacingDelay k \<longrightarrow>
              (\<forall>t'. lastSentTime p \<le> t' \<and> t' < t \<longrightarrow> Budget k bw t' p < pc_maxDatagramSize p)))"
  using assms by (rule wakes_up)

theorem pacer_wakes_in_time_witness:
  "\<exists>t. TimeUntilSend \<lparr>InitialPacketSize = 1280, MinInitialPacketSize = 1200, MaxPacketBufferSize = 1452,
           MaxCongestionWindowPackets = 10000, MinPacingDelay = 1000000\<rparr> 65536
         \<lparr>budgetAtLastSent = 100, pc_maxDatagramSize = 1280, lastSentTime = 5000\<rparr> = Some t
     \<and> t \<noteq> 0 \<and> 1280 \<le> Budget \<lparr>InitialPacketSize = 1280, MinInitialPacketSize = 1200, MaxPacketBufferSize = 1452,
           MaxCongestionWindowPackets = 10000, MinPacingDelay = 1000000\<rparr> 65536 t
         \<lparr>budgetAtLastSent = 100, pc_maxDatagramSize = 1280, lastSentTime = 5000\<rparr>"
proof -
  let ?k = "\<lparr>InitialPacketSize = 1280, MinInitialPacketSize = 1200, MaxPacketBufferSize = 1452,
           MaxCongestionWindowPackets = 10000, MinPacingDelay = 1000000\<rparr>"
  let ?p = "\<lparr>budgetAtLastSent = 100, pc_maxDatagramSize = 1280, lastSentTime = 5000\<rparr>"
  have t: "TimeUntilSend ?k 65536 ?p = Some 18010372" by (simp add: TimeUntilSend_def)
  have "\<exists>t. TimeUntilSend ?k 65536 ?p = Some t
    \<and> (t = 0 \<longrightarrow> pc_maxDatagramSize ?p \<le> Budget ?k 65536 (lastSentTime ?p) ?p)
    \<and> (t \<noteq> 0 \<longrightarrow> lastSentTime ?p \<le> t \<and> pc_maxDatagramSize ?p \<le> Budget ?k 65536 t ?p
         \<and> (t \<noteq> lastSentTime ?p + MinPacingDelay ?k \<longrightarrow>
              (\<forall>t'. lastSentTime ?p \<le> t' \<and> t' < t \<longrightarrow> Budget ?k 65536 t' ?p < pc_maxDatagramSize ?p)))"
    by (rule pacer_wakes_in_time) (simp_all add: pacer_inv_def size_ok_def)
  with t show ?thesis by auto
qed


section \<open>Senders on the pacer\<close>

text \<open>
  What a congestion controller promises the pacer it owns: in every state of its invariant it
  has a bandwidth for the pacer, positive and far below the range of \<open>int64\<close>, and the datagram
  size it tests the budget against is not above the one the pacer knows. Then the send loop of
  quic-go, which sleeps until \<open>TimeUntilSend\<close> and then asks \<open>HasPacingBudget\<close>, always gets on.
\<close>

locale paced_sender =
  fixes inv :: "'s \<Rightarrow> bool"
    and env_ok :: "'e \<Rightarrow> bool"
    and consts_of :: "'e \<Rightarrow> quic_consts"
    and bandwidth_of :: "'e \<Rightarrow> 's \<Rightarrow> int option"
    and pacer_of :: "'s \<Rightarrow> pacer"
    and size_of :: "'s \<Rightarrow> int"
  assumes bandwidth_law: "inv s \<Longrightarrow> env_ok e \<Longrightarrow> \<exists>bw. bandwidth_of e s = Some bw \<and> 0 < bw \<and> bw < 2 ^ 62"
    and pacer_law: "inv s \<Longrightarrow> pacer_inv (pacer_of s)"
    and size_law: "inv s \<Longrightarrow> size_of s \<le> pc_maxDatagramSize (pacer_of s)"
begin

definition wake_up :: "'e \<Rightarrow> 's \<Rightarrow> int option" where
  "wake_up e s = Option.bind (bandwidth_of e s) (\<lambda>bw. TimeUntilSend (consts_of e) bw (pacer_of s))"

definition has_budget :: "'e \<Rightarrow> int \<Rightarrow> 's \<Rightarrow> bool option" where
  "has_budget e t s =
     map_option (\<lambda>bw. Budget (consts_of e) bw t (pacer_of s) \<ge> size_of s) (bandwidth_of e s)"

lemma never_stuck:
  assumes "inv s" "env_ok e" "0 < lastSentTime (pacer_of s)" "lastSentTime (pacer_of s) < 2 ^ 61"
    and "0 \<le> MinPacingDelay (consts_of e)" "MinPacingDelay (consts_of e) < 2 ^ 61"
    and "\<And>bw. bandwidth_of e s = Some bw \<Longrightarrow> bw * MinPacingDelay (consts_of e) < 2 ^ 63"
  shows "\<exists>t. wake_up e s = Some t
    \<and> has_budget e (if t = 0 then lastSentTime (pacer_of s) else t) s = Some True"
proof -
  obtain bw where bw: "bandwidth_of e s = Some bw" "0 < bw" "bw < 2 ^ 62" using bandwidth_law [OF assms(1,2)] by blast
  from wakes_up [OF pacer_law [OF assms(1)] bw(2,3) assms(3-6) assms(7) [OF bw(1)]]
  obtain t where t: "TimeUntilSend (consts_of e) bw (pacer_of s) = Some t"
    "t = 0 \<longrightarrow> pc_maxDatagramSize (pacer_of s) \<le> Budget (consts_of e) bw (lastSentTime (pacer_of s)) (pacer_of s)"
    "t \<noteq> 0 \<longrightarrow> pc_maxDatagramSize (pacer_of s) \<le> Budget (consts_of e) bw t (pacer_of s)" by blast
  then have "pc_maxDatagramSize (pacer_of s)
       \<le> Budget (consts_of e) bw (if t = 0 then lastSentTime (pacer_of s) else t) (pacer_of s)" by simp
  with t(1) size_law [OF assms(1)] bw(1) show ?thesis by (simp add: wake_up_def has_budget_def)
qed

end

end
