(* ===== verification/Bbr_Sender.thy ===== *)
theory Bbr_Sender
  imports Sampler_Laws Pacer
begin

text \<open>
  The BBR congestion controller of \<open>internal/congestion/bbr/bbr_sender.go\<close>, on the sampler, the
  windowed filter and the pacer. A panic is \<open>None\<close>. Gains are \<open>float64\<close> values. What a call reads
  from outside is the record \<open>bbr_env\<close>: the constants of quic-go, the least round-trip time its
  statistics report, the random number, and what the processor makes of a conversion out of the
  range of \<open>uint64\<close>. The debug output and the fields the source marks as not used are left out.
\<close>

section \<open>Settings\<close>

record bbr_env =
  env_consts :: quic_consts
  env_MinRTT :: int
  env_Int31n :: nat
  env_oor :: "rat \<Rightarrow> int"

definition minBps :: int where "minBps = 65536"

definition initialCongestionWindowPackets :: int where "initialCongestionWindowPackets = 32"

definition minCongestionWindowPackets :: int where "minCongestionWindowPackets = 4"

definition defaultHighGain :: rat where "defaultHighGain = f64 (2885 / 1000)"

definition derivedHighCWNDGain :: rat where "derivedHighCWNDGain = 2"

definition pacingGains :: "rat list" where
  "pacingGains = [5/4, 3/4, 1, 1, 1, 1, 1, 1]"

definition gainCycleLength :: nat where "gainCycleLength = length pacingGains"

definition bandwidthWindowSize :: nat where "bandwidthWindowSize = gainCycleLength + 2"

definition minRttExpiry :: int where "minRttExpiry = 10 * second"

definition probeRttTime :: int where "probeRttTime = 200000000"

definition startupGrowthTarget :: rat where "startupGrowthTarget = 5/4"

definition roundTripsWithoutGrowthBeforeExitingStartup :: int where
  "roundTripsWithoutGrowthBeforeExitingStartup = 3"

definition defaultStartupFullLossCount :: int where "defaultStartupFullLossCount = 8"

definition quicBbr2DefaultLossThreshold :: rat where "quicBbr2DefaultLossThreshold = f64 (2 / 100)"

datatype bbr_mode = bbrModeStartup | bbrModeDrain | bbrModeProbeBw | bbrModeProbeRtt

datatype bbr_recovery_state =
  bbrRecoveryStateNotInRecovery | bbrRecoveryStateConservation | bbrRecoveryStateGrowth

record profile_config =
  cfg_highGain :: rat
  cfg_highCwndGain :: rat
  cfg_congestionWindowGainConstant :: rat
  cfg_numStartupRtts :: int
  cfg_drainToTarget :: bool
  cfg_detectOvershooting :: bool
  cfg_bytesLostMultiplier :: int
  cfg_enableAckAggregationStartup :: bool
  cfg_expireAckAggregationStartup :: bool
  cfg_enableOverestimateAvoidance :: bool
  cfg_reduceExtraAckedOnBandwidthIncrease :: bool

definition ParseProfile :: "string \<Rightarrow> string option" where
  "ParseProfile p =
     (let n = ToLower p in
      if n = '''' \<or> n = ''standard'' then Some ''standard''
      else if n = ''conservative'' then Some ''conservative''
      else if n = ''aggressive'' then Some ''aggressive''
      else None)"

definition configForProfile :: "string \<Rightarrow> profile_config" where
  "configForProfile p =
     (if p = ''conservative'' then
        \<lparr>cfg_highGain = 9/4, cfg_highCwndGain = 7/4, cfg_congestionWindowGainConstant = 7/4,
         cfg_numStartupRtts = 2, cfg_drainToTarget = True, cfg_detectOvershooting = True,
         cfg_bytesLostMultiplier = 1, cfg_enableAckAggregationStartup = False,
         cfg_expireAckAggregationStartup = False, cfg_enableOverestimateAvoidance = True,
         cfg_reduceExtraAckedOnBandwidthIncrease = True\<rparr>
      else if p = ''aggressive'' then
        \<lparr>cfg_highGain = 3, cfg_highCwndGain = 9/4, cfg_congestionWindowGainConstant = 5/2,
         cfg_numStartupRtts = 4, cfg_drainToTarget = False, cfg_detectOvershooting = False,
         cfg_bytesLostMultiplier = 2, cfg_enableAckAggregationStartup = True,
         cfg_expireAckAggregationStartup = True, cfg_enableOverestimateAvoidance = False,
         cfg_reduceExtraAckedOnBandwidthIncrease = False\<rparr>
      else
        \<lparr>cfg_highGain = defaultHighGain, cfg_highCwndGain = derivedHighCWNDGain,
         cfg_congestionWindowGainConstant = 2,
         cfg_numStartupRtts = roundTripsWithoutGrowthBeforeExitingStartup, cfg_drainToTarget = False,
         cfg_detectOvershooting = False, cfg_bytesLostMultiplier = 2,
         cfg_enableAckAggregationStartup = False, cfg_expireAckAggregationStartup = False,
         cfg_enableOverestimateAvoidance = False, cfg_reduceExtraAckedOnBandwidthIncrease = False\<rparr>)"


section \<open>The sender\<close>

record bbr_sender =
  bb_pacer :: pacer
  mode :: bbr_mode
  sampler :: bandwidth_sampler
  roundTripCount :: int
  bb_lastSentPacket :: int
  currentRoundTripEnd :: int
  numLossEventsInRound :: int
  bytesLostInRound :: int
  maxBandwidth :: "int windowed_filter"
  minRtt :: int
  minRttTimestamp :: int
  congestionWindow :: int
  initialCongestionWindow :: int
  maxCongestionWindow :: int
  minCongestionWindow :: int
  bb_profile :: string
  highGain :: rat
  highCwndGain :: rat
  drainGain :: rat
  pacingRate :: int
  pacingGain :: rat
  congestionWindowGain :: rat
  congestionWindowGainConstant :: rat
  numStartupRtts :: int
  cycleCurrentOffset :: nat
  lastCycleStart :: int
  isAtFullBandwidth :: bool
  roundsWithoutBandwidthGain :: int
  bandwidthAtLastRound :: int
  exitingQuiescence :: bool
  exitProbeRttAt :: int
  probeRttRoundPassed :: bool
  lastSampleIsAppLimited :: bool
  hasNoAppLimitedSample :: bool
  recoveryState :: bbr_recovery_state
  endRecoveryAt :: int
  recoveryWindow :: int
  enableAckAggregationDuringStartup :: bool
  expireAckAggregationInStartup :: bool
  drainToTarget :: bool
  detectOvershooting :: bool
  bytesLostWhileDetectingOvershooting :: int
  bytesLostMultiplierWhileDetectingOvershooting :: int
  cwndToCalculateMinPacingRate :: int
  maxCongestionWindowWithNetworkParametersAdjusted :: int
  maxDatagramSize :: int
  bb_bytesInFlight :: int

definition minCongestionWindowForMaxDatagramSize :: "int \<Rightarrow> int" where
  "minCongestionWindowForMaxDatagramSize s = i64 (minCongestionWindowPackets * s)"

definition applyProfile :: "string \<Rightarrow> bbr_sender \<Rightarrow> bbr_sender" where
  "applyProfile p0 b =
     (let p = (if p0 = '''' then ''standard'' else p0); cfg = configForProfile p;
          s1 = (if cfg_enableOverestimateAvoidance cfg then EnableOverestimateAvoidance (sampler b) else sampler b)
      in b\<lparr>bb_profile := p, highGain := cfg_highGain cfg, highCwndGain := cfg_highCwndGain cfg,
           drainGain := f64 (1 / cfg_highGain cfg),
           congestionWindowGainConstant := cfg_congestionWindowGainConstant cfg,
           numStartupRtts := cfg_numStartupRtts cfg, drainToTarget := cfg_drainToTarget cfg,
           detectOvershooting := cfg_detectOvershooting cfg,
           bytesLostMultiplierWhileDetectingOvershooting := cfg_bytesLostMultiplier cfg,
           enableAckAggregationDuringStartup := cfg_enableAckAggregationStartup cfg,
           expireAckAggregationInStartup := cfg_expireAckAggregationStartup cfg,
           sampler := SetReduceExtraAckedOnBandwidthIncrease (cfg_reduceExtraAckedOnBandwidthIncrease cfg) s1\<rparr>)"

definition enterStartupMode :: "bbr_sender \<Rightarrow> bbr_sender" where
  "enterStartupMode b =
     b\<lparr>mode := bbrModeStartup, pacingGain := highGain b, congestionWindowGain := highCwndGain b\<rparr>"

definition newBbrSender :: "quic_consts \<Rightarrow> int \<Rightarrow> int \<Rightarrow> int \<Rightarrow> string \<Rightarrow> bbr_sender" where
  "newBbrSender k mds initCwnd maxCwnd profile =
     enterStartupMode (applyProfile profile
       \<lparr>bb_pacer = NewPacer k, mode = bbrModeStartup,
        sampler = newBandwidthSampler (int bandwidthWindowSize), roundTripCount = 0,
        bb_lastSentPacket = invalidPacketNumber, currentRoundTripEnd = invalidPacketNumber,
        numLossEventsInRound = 0, bytesLostInRound = 0,
        maxBandwidth = NewWindowedFilter 0 (int bandwidthWindowSize),
        minRtt = 0, minRttTimestamp = 0, congestionWindow = initCwnd, initialCongestionWindow = initCwnd,
        maxCongestionWindow = maxCwnd, minCongestionWindow = minCongestionWindowForMaxDatagramSize mds,
        bb_profile = ''standard'', highGain = defaultHighGain, highCwndGain = derivedHighCWNDGain,
        drainGain = f64 (1 / (2885 / 1000)), pacingRate = 0, pacingGain = 1, congestionWindowGain = 1,
        congestionWindowGainConstant = 2, numStartupRtts = roundTripsWithoutGrowthBeforeExitingStartup,
        cycleCurrentOffset = 0, lastCycleStart = 0, isAtFullBandwidth = False,
        roundsWithoutBandwidthGain = 0, bandwidthAtLastRound = 0, exitingQuiescence = False,
        exitProbeRttAt = 0, probeRttRoundPassed = False, lastSampleIsAppLimited = False,
        hasNoAppLimitedSample = False, recoveryState = bbrRecoveryStateNotInRecovery,
        endRecoveryAt = invalidPacketNumber, recoveryWindow = maxCwnd,
        enableAckAggregationDuringStartup = False, expireAckAggregationInStartup = False,
        drainToTarget = False, detectOvershooting = False, bytesLostWhileDetectingOvershooting = 0,
        bytesLostMultiplierWhileDetectingOvershooting = 2, cwndToCalculateMinPacingRate = initCwnd,
        maxCongestionWindowWithNetworkParametersAdjusted = maxCwnd, maxDatagramSize = mds,
        bb_bytesInFlight = 0\<rparr>)"

definition NewBbrSender :: "quic_consts \<Rightarrow> int \<Rightarrow> string \<Rightarrow> bbr_sender" where
  "NewBbrSender k mds profile =
     newBbrSender k mds (i64 (initialCongestionWindowPackets * mds))
       (i64 (MaxCongestionWindowPackets k * mds)) profile"

definition scaleByteWindowForDatagramSize :: "int \<Rightarrow> int \<Rightarrow> int \<Rightarrow> int option" where
  "scaleByteWindowForDatagramSize window oldSize newSize =
     (if oldSize = newSize then Some window
      else if u64 oldSize = 0 then None
      else Some (i64 (u64 (u64 window * u64 newSize) div u64 oldSize)))"

definition rescalePacketSizedWindows :: "int \<Rightarrow> bbr_sender \<Rightarrow> bbr_sender option" where
  "rescalePacketSizedWindows s b = do {
     ini \<leftarrow> scaleByteWindowForDatagramSize (initialCongestionWindow b) (maxDatagramSize b) s;
     mx \<leftarrow> scaleByteWindowForDatagramSize (maxCongestionWindow b) (maxDatagramSize b) s;
     cp \<leftarrow> scaleByteWindowForDatagramSize (cwndToCalculateMinPacingRate b) (maxDatagramSize b) s;
     ma \<leftarrow> scaleByteWindowForDatagramSize (maxCongestionWindowWithNetworkParametersAdjusted b) (maxDatagramSize b) s;
     Some (b\<lparr>maxDatagramSize := s, initialCongestionWindow := ini, maxCongestionWindow := mx,
             minCongestionWindow := minCongestionWindowForMaxDatagramSize s,
             cwndToCalculateMinPacingRate := cp, maxCongestionWindowWithNetworkParametersAdjusted := ma\<rparr>) }"

definition bb_SetMaxDatagramSize :: "int \<Rightarrow> bbr_sender \<Rightarrow> bbr_sender option" where
  "bb_SetMaxDatagramSize s b =
     (if s < maxDatagramSize b then None
      else do {
        c \<leftarrow> rescalePacketSizedWindows s b;
        let w = (if congestionWindow c = minCongestionWindow b then minCongestionWindow c
                 else if congestionWindow c = initialCongestionWindow b then initialCongestionWindow c
                 else min (maxCongestionWindow c) (max (congestionWindow c) (minCongestionWindow c)))
        in Some (c\<lparr>congestionWindow := w,
                   recoveryWindow := min (maxCongestionWindow c) (max (recoveryWindow c) (minCongestionWindow c)),
                   bb_pacer := pc_SetMaxDatagramSize s (bb_pacer c)\<rparr>)
      })"


section \<open>Estimates\<close>

definition InSlowStart :: "bbr_sender \<Rightarrow> bool" where
  "InSlowStart b \<longleftrightarrow> mode b = bbrModeStartup"

definition InRecovery :: "bbr_sender \<Rightarrow> bool" where
  "InRecovery b \<longleftrightarrow> recoveryState b \<noteq> bbrRecoveryStateNotInRecovery"

definition probeRttCongestionWindow :: "bbr_sender \<Rightarrow> int" where
  "probeRttCongestionWindow b = minCongestionWindow b"

definition GetCongestionWindow :: "bbr_sender \<Rightarrow> int" where
  "GetCongestionWindow b =
     (if mode b = bbrModeProbeRtt then probeRttCongestionWindow b
      else if InRecovery b then min (congestionWindow b) (recoveryWindow b)
      else congestionWindow b)"

definition CanSend :: "int \<Rightarrow> bbr_sender \<Rightarrow> bool" where
  "CanSend inFlight b \<longleftrightarrow> inFlight < GetCongestionWindow b"

definition bandwidthEstimate :: "bbr_sender \<Rightarrow> int" where
  "bandwidthEstimate b = GetBest (maxBandwidth b)"

definition getMinRtt :: "bbr_env \<Rightarrow> bbr_sender \<Rightarrow> int" where
  "getMinRtt E b =
     (if minRtt b \<noteq> 0 then minRtt b else if env_MinRTT E = 0 then 100000000 else env_MinRTT E)"

text \<open>\<open>BandwidthFromDelta\<close> with the panic of its division.\<close>

definition bandwidth_from_delta :: "int \<Rightarrow> int \<Rightarrow> int option" where
  "bandwidth_from_delta bytes delta = (if u64 delta = 0 then None else Some (BandwidthFromDelta bytes delta))"

definition PacingRate :: "bbr_env \<Rightarrow> bbr_sender \<Rightarrow> int option" where
  "PacingRate E b =
     (if pacingRate b = 0 then
        map_option (\<lambda>bw. f64_to_u64 (env_oor E) (f64 (highGain b * f64 (of_int bw))))
          (bandwidth_from_delta (initialCongestionWindow b) (getMinRtt E b))
      else Some (pacingRate b))"

definition bandwidthForPacer :: "bbr_env \<Rightarrow> bbr_sender \<Rightarrow> int option" where
  "bandwidthForPacer E b =
     map_option (\<lambda>r. let bps = f64_to_i64 (f64 (f64 (of_int r) / 8)) in if bps < minBps then minBps else bps)
       (PacingRate E b)"

definition bdpFromRttAndBandwidth :: "int \<Rightarrow> int \<Rightarrow> int" where
  "bdpFromRttAndBandwidth rtt bw = quo (quo (i64 (rtt * i64 bw)) 8) second"

definition getTargetCongestionWindow :: "bbr_env \<Rightarrow> rat \<Rightarrow> bbr_sender \<Rightarrow> int" where
  "getTargetCongestionWindow E gain b =
     (let bdp = bdpFromRttAndBandwidth (getMinRtt E b) (bandwidthEstimate b);
          w = f64_to_i64 (f64 (gain * f64 (of_int bdp)));
          w' = (if w = 0 then f64_to_i64 (f64 (gain * f64 (of_int (initialCongestionWindow b)))) else w)
      in max w' (minCongestionWindow b))"

definition bb_TimeUntilSend :: "bbr_env \<Rightarrow> bbr_sender \<Rightarrow> int option" where
  "bb_TimeUntilSend E b =
     Option.bind (bandwidthForPacer E b) (\<lambda>bw. TimeUntilSend (env_consts E) bw (bb_pacer b))"

definition bb_HasPacingBudget :: "bbr_env \<Rightarrow> int \<Rightarrow> bbr_sender \<Rightarrow> bool option" where
  "bb_HasPacingBudget E t b =
     map_option (\<lambda>bw. Budget (env_consts E) bw t (bb_pacer b) \<ge> maxDatagramSize b) (bandwidthForPacer E b)"


section \<open>The steps of a congestion event\<close>

definition setHighCwndGain :: "rat \<Rightarrow> bbr_sender \<Rightarrow> bbr_sender" where
  "setHighCwndGain g b =
     (let c = b\<lparr>highCwndGain := g\<rparr> in if mode b = bbrModeStartup then c\<lparr>congestionWindowGain := g\<rparr> else c)"

definition bb_OnPacketSent :: "bbr_env \<Rightarrow> int \<Rightarrow> int \<Rightarrow> int \<Rightarrow> int \<Rightarrow> bool \<Rightarrow> bbr_sender \<Rightarrow> bbr_sender option" where
  "bb_OnPacketSent E t inFlight packetNumber bytes isRetransmittable b = do {
     bw \<leftarrow> bandwidthForPacer E b;
     s \<leftarrow> sampler_OnPacketSent t packetNumber bytes inFlight isRetransmittable (sampler b);
     Some (b\<lparr>bb_pacer := SentPacket (env_consts E) bw t bytes (bb_pacer b),
             bb_lastSentPacket := packetNumber, bb_bytesInFlight := inFlight,
             exitingQuiescence := (exitingQuiescence b \<or> inFlight = 0), sampler := s\<rparr>) }"

definition maybeAppLimited :: "bbr_env \<Rightarrow> int \<Rightarrow> bbr_sender \<Rightarrow> bbr_sender" where
  "maybeAppLimited E inFlight b =
     (if inFlight < getTargetCongestionWindow E 1 b then b\<lparr>sampler := sampler_OnAppLimited (sampler b)\<rparr> else b)"

definition updateRoundTripCounter :: "int \<Rightarrow> bbr_sender \<Rightarrow> bool \<times> bbr_sender" where
  "updateRoundTripCounter acked b =
     (if currentRoundTripEnd b = invalidPacketNumber \<or> acked > currentRoundTripEnd b
      then (True, b\<lparr>roundTripCount := u64 (roundTripCount b + 1), currentRoundTripEnd := bb_lastSentPacket b\<rparr>)
      else (False, b))"

text \<open>The last two cases of the switch; the second falls through to the third.\<close>

definition maybe_exit_recovery :: "int \<Rightarrow> bool \<Rightarrow> bbr_sender \<Rightarrow> bbr_sender" where
  "maybe_exit_recovery acked hasLosses b =
     (if \<not> hasLosses \<and> acked > endRecoveryAt b then b\<lparr>recoveryState := bbrRecoveryStateNotInRecovery\<rparr> else b)"

definition updateRecoveryState :: "int \<Rightarrow> bool \<Rightarrow> bool \<Rightarrow> bbr_sender \<Rightarrow> bbr_sender" where
  "updateRecoveryState acked hasLosses isRoundStart b =
     (if \<not> isAtFullBandwidth b then b
      else let c = (if hasLosses then b\<lparr>endRecoveryAt := bb_lastSentPacket b\<rparr> else b) in
        (case recoveryState c of
           bbrRecoveryStateNotInRecovery \<Rightarrow>
             if hasLosses
             then c\<lparr>recoveryState := bbrRecoveryStateConservation, recoveryWindow := 0,
                    currentRoundTripEnd := bb_lastSentPacket c\<rparr>
             else c
         | bbrRecoveryStateConservation \<Rightarrow>
             maybe_exit_recovery acked hasLosses
               (if isRoundStart then c\<lparr>recoveryState := bbrRecoveryStateGrowth\<rparr> else c)
         | bbrRecoveryStateGrowth \<Rightarrow> maybe_exit_recovery acked hasLosses c))"

definition maybeUpdateMinRtt :: "int \<Rightarrow> int \<Rightarrow> bbr_sender \<Rightarrow> bool \<times> bbr_sender" where
  "maybeUpdateMinRtt t sampleMinRtt b =
     (let expired = (minRtt b \<noteq> 0 \<and> t > i64 (minRttTimestamp b + minRttExpiry)) in
      (expired, if expired \<or> sampleMinRtt < minRtt b \<or> minRtt b = 0
                then b\<lparr>minRtt := sampleMinRtt, minRttTimestamp := t\<rparr> else b))"

definition enterProbeBandwidthMode :: "bbr_env \<Rightarrow> int \<Rightarrow> bbr_sender \<Rightarrow> bbr_sender" where
  "enterProbeBandwidthMode E t b =
     (let o1 = env_Int31n E mod (gainCycleLength - 1); o2 = (if o1 \<ge> 1 then o1 + 1 else o1) in
      b\<lparr>mode := bbrModeProbeBw, congestionWindowGain := congestionWindowGainConstant b,
        cycleCurrentOffset := o2, lastCycleStart := t, pacingGain := pacingGains ! o2\<rparr>)"

definition updateGainCyclePhase :: "bbr_env \<Rightarrow> int \<Rightarrow> int \<Rightarrow> bool \<Rightarrow> bbr_sender \<Rightarrow> bbr_sender" where
  "updateGainCyclePhase E t priorInFlight hasLosses b =
     (let a1 = (t > i64 (lastCycleStart b + getMinRtt E b));
          a2 = (if pacingGain b > 1 \<and> \<not> hasLosses \<and> priorInFlight < getTargetCongestionWindow E (pacingGain b) b
                then False else a1);
          a3 = (if pacingGain b < 1 \<and> bb_bytesInFlight b \<le> getTargetCongestionWindow E 1 b then True else a2)
      in if a3 then
           let c = b\<lparr>cycleCurrentOffset := (cycleCurrentOffset b + 1) mod gainCycleLength, lastCycleStart := t\<rparr> in
           if drainToTarget c \<and> pacingGain c < 1 \<and> pacingGains ! cycleCurrentOffset c = 1
              \<and> bb_bytesInFlight c > getTargetCongestionWindow E 1 c
           then c else c\<lparr>pacingGain := pacingGains ! cycleCurrentOffset c\<rparr>
         else b)"

definition shouldExitStartupDueToLoss :: "send_time_state \<Rightarrow> bbr_sender \<Rightarrow> bool" where
  "shouldExitStartupDueToLoss st b =
     (if numLossEventsInRound b < defaultStartupFullLossCount \<or> \<not> isValid st then False
      else let inflight = st_bytesInFlight st in
        if inflight > 0 \<and> bytesLostInRound b > 0
        then bytesLostInRound b > f64_to_i64 (f64 (f64 (of_int inflight) * quicBbr2DefaultLossThreshold))
        else False)"

definition checkIfFullBandwidthReached :: "bbr_env \<Rightarrow> send_time_state \<Rightarrow> bbr_sender \<Rightarrow> bbr_sender" where
  "checkIfFullBandwidthReached E st b =
     (if lastSampleIsAppLimited b then b
      else let target = f64_to_u64 (env_oor E) (f64 (f64 (of_int (bandwidthAtLastRound b)) * startupGrowthTarget)) in
        if bandwidthEstimate b \<ge> target then
          let c = b\<lparr>bandwidthAtLastRound := bandwidthEstimate b, roundsWithoutBandwidthGain := 0\<rparr> in
          if expireAckAggregationInStartup c
          then c\<lparr>sampler := ResetMaxAckHeightTracker 0 (roundTripCount c) (sampler c)\<rparr> else c
        else
          let c = b\<lparr>roundsWithoutBandwidthGain := i64 (roundsWithoutBandwidthGain b + 1)\<rparr> in
          if roundsWithoutBandwidthGain c \<ge> numStartupRtts c \<or> shouldExitStartupDueToLoss st c
          then c\<lparr>isAtFullBandwidth := True\<rparr> else c)"

definition maybeExitStartupOrDrain :: "bbr_env \<Rightarrow> int \<Rightarrow> bbr_sender \<Rightarrow> bbr_sender" where
  "maybeExitStartupOrDrain E t b =
     (let c = (if mode b = bbrModeStartup \<and> isAtFullBandwidth b
               then b\<lparr>mode := bbrModeDrain, pacingGain := drainGain b, congestionWindowGain := highCwndGain b\<rparr>
               else b)
      in if mode c = bbrModeDrain \<and> bb_bytesInFlight c \<le> getTargetCongestionWindow E 1 c
         then enterProbeBandwidthMode E t c else c)"

text \<open>The three parts of \<open>maybeEnterOrExitProbeRtt\<close>: entering, the mode's own logic, and its exit.\<close>

definition enter_probe_rtt :: "bool \<Rightarrow> bbr_sender \<Rightarrow> bbr_sender" where
  "enter_probe_rtt minRttExpired b =
     (if minRttExpired \<and> \<not> exitingQuiescence b \<and> mode b \<noteq> bbrModeProbeRtt
      then b\<lparr>mode := bbrModeProbeRtt, pacingGain := 1, exitProbeRttAt := 0\<rparr> else b)"

definition exit_probe_rtt :: "bbr_env \<Rightarrow> int \<Rightarrow> bbr_sender \<Rightarrow> bbr_sender" where
  "exit_probe_rtt E t b =
     (if i64 (t - exitProbeRttAt b) \<ge> 0 \<and> probeRttRoundPassed b then
        let c = b\<lparr>minRttTimestamp := t\<rparr> in
        if \<not> isAtFullBandwidth c then enterStartupMode c else enterProbeBandwidthMode E t c
      else b)"

definition in_probe_rtt :: "bbr_env \<Rightarrow> int \<Rightarrow> bool \<Rightarrow> bbr_sender \<Rightarrow> bbr_sender" where
  "in_probe_rtt E t isRoundStart b =
     (if mode b = bbrModeProbeRtt then
        let c = b\<lparr>sampler := sampler_OnAppLimited (sampler b)\<rparr> in
        if exitProbeRttAt c = 0 then
          (if bb_bytesInFlight c < i64 (probeRttCongestionWindow c + MaxPacketBufferSize (env_consts E))
           then c\<lparr>exitProbeRttAt := i64 (t + probeRttTime), probeRttRoundPassed := False\<rparr> else c)
        else exit_probe_rtt E t (if isRoundStart then c\<lparr>probeRttRoundPassed := True\<rparr> else c)
      else b)"

definition maybeEnterOrExitProbeRtt :: "bbr_env \<Rightarrow> int \<Rightarrow> bool \<Rightarrow> bool \<Rightarrow> bbr_sender \<Rightarrow> bbr_sender" where
  "maybeEnterOrExitProbeRtt E t isRoundStart minRttExpired b =
     (in_probe_rtt E t isRoundStart (enter_probe_rtt minRttExpired b))\<lparr>exitingQuiescence := False\<rparr>"

text \<open>The check for overshooting, a part of \<open>calculatePacingRate\<close>.\<close>

definition slow_overshooting :: "bbr_env \<Rightarrow> int \<Rightarrow> int \<Rightarrow> bbr_sender \<Rightarrow> bbr_sender option" where
  "slow_overshooting E targetRate bytesLost b =
     (if detectOvershooting b then
        let c = b\<lparr>bytesLostWhileDetectingOvershooting := i64 (bytesLostWhileDetectingOvershooting b + bytesLost)\<rparr> in
        if pacingRate c > targetRate \<and> bytesLostWhileDetectingOvershooting c > 0
           \<and> (hasNoAppLimitedSample c
              \<or> i64 (bytesLostWhileDetectingOvershooting c * bytesLostMultiplierWhileDetectingOvershooting c)
                > initialCongestionWindow c)
        then map_option (\<lambda>r. c\<lparr>pacingRate := max targetRate r, bytesLostWhileDetectingOvershooting := 0,
                               detectOvershooting := False\<rparr>)
               (bandwidth_from_delta (cwndToCalculateMinPacingRate c) (env_MinRTT E))
        else Some c
      else Some b)"

definition calculatePacingRate :: "bbr_env \<Rightarrow> int \<Rightarrow> bbr_sender \<Rightarrow> bbr_sender option" where
  "calculatePacingRate E bytesLost b =
     (if bandwidthEstimate b = 0 then Some b
      else let targetRate = f64_to_u64 (env_oor E) (f64 (pacingGain b * f64 (of_int (bandwidthEstimate b)))) in
        if isAtFullBandwidth b then Some (b\<lparr>pacingRate := targetRate\<rparr>)
        else if pacingRate b = 0 \<and> env_MinRTT E \<noteq> 0 then
          map_option (\<lambda>r. b\<lparr>pacingRate := r\<rparr>) (bandwidth_from_delta (initialCongestionWindow b) (env_MinRTT E))
        else map_option (\<lambda>c. c\<lparr>pacingRate := max (pacingRate c) targetRate\<rparr>)
               (slow_overshooting E targetRate bytesLost b))"

definition calculateCongestionWindow :: "bbr_env \<Rightarrow> int \<Rightarrow> int \<Rightarrow> bbr_sender \<Rightarrow> bbr_sender" where
  "calculateCongestionWindow E bytesAcked excessAcked b =
     (if mode b = bbrModeProbeRtt then b
      else let t0 = getTargetCongestionWindow E (congestionWindowGain b) b;
               t1 = (if isAtFullBandwidth b then i64 (t0 + MaxAckHeight (sampler b))
                     else if enableAckAggregationDuringStartup b then i64 (t0 + excessAcked) else t0);
               w = (if isAtFullBandwidth b then min t1 (i64 (congestionWindow b + bytesAcked))
                    else if congestionWindow b < t1 \<or> totalBytesAcked (sampler b) < initialCongestionWindow b
                    then i64 (congestionWindow b + bytesAcked) else congestionWindow b)
           in b\<lparr>congestionWindow := min (max w (minCongestionWindow b)) (maxCongestionWindow b)\<rparr>)"

definition calculateRecoveryWindow :: "int \<Rightarrow> int \<Rightarrow> bbr_sender \<Rightarrow> bbr_sender" where
  "calculateRecoveryWindow bytesAcked bytesLost b =
     (if recoveryState b = bbrRecoveryStateNotInRecovery then b
      else if recoveryWindow b = 0 then
        b\<lparr>recoveryWindow := max (minCongestionWindow b) (i64 (bb_bytesInFlight b + bytesAcked))\<rparr>
      else let w1 = (if recoveryWindow b \<ge> bytesLost then i64 (recoveryWindow b - bytesLost) else maxDatagramSize b);
               w2 = (if recoveryState b = bbrRecoveryStateGrowth then i64 (w1 + bytesAcked) else w1)
           in b\<lparr>recoveryWindow := max (minCongestionWindow b) (max w2 (i64 (bb_bytesInFlight b + bytesAcked)))\<rparr>)"


section \<open>The congestion event\<close>

definition less_in_flight :: "int \<Rightarrow> (int \<times> int) list \<Rightarrow> int" where
  "less_in_flight = foldl (\<lambda>f (_, bytes). i64 (f - bytes))"

text \<open>What an event does to the rounds and the recovery, before the sampler sees it.\<close>

definition event_rounds :: "(int \<times> int) list \<Rightarrow> (int \<times> int) list \<Rightarrow> bbr_sender \<Rightarrow> bool \<times> bbr_sender" where
  "event_rounds acked lost b =
     (if acked \<noteq> [] then
        let (isRoundStart, c) = updateRoundTripCounter (fst (last acked)) b
        in (isRoundStart, updateRecoveryState (fst (last acked)) (lost \<noteq> []) isRoundStart c)
      else (False, b))"

text \<open>What the event makes of the sample, up to the loss counters.\<close>

definition event_sample ::
  "int \<Rightarrow> int \<Rightarrow> int \<Rightarrow> (int \<times> int) list \<Rightarrow> congestion_event_sample \<Rightarrow> bbr_sender \<Rightarrow> bool \<times> bbr_sender" where
  "event_sample t ackedBefore lostBefore lost ev b0 =
     (let b1 = (if isValid (lastPacketSendState ev) then
                  b0\<lparr>lastSampleIsAppLimited := st_isAppLimited (lastPacketSendState ev),
                     hasNoAppLimitedSample := (hasNoAppLimitedSample b0 \<or> \<not> st_isAppLimited (lastPacketSendState ev))\<rparr>
                else b0);
          b2 = (if ackedBefore \<noteq> totalBytesAcked (sampler b1)
                   \<and> (\<not> sampleIsAppLimited ev \<or> sampleMaxBandwidth ev > bandwidthEstimate b1)
                then b1\<lparr>maxBandwidth := wf_Update MaxFilter 0 (sampleMaxBandwidth ev) (roundTripCount b1) (maxBandwidth b1)\<rparr>
                else b1);
          (expired, b3) = (if sampleRtt ev \<noteq> infRTT then maybeUpdateMinRtt t (sampleRtt ev) b2 else (False, b2));
          bytesLost = i64 (totalBytesLost (sampler b3) - lostBefore)
      in (expired, if lost \<noteq> []
                   then b3\<lparr>numLossEventsInRound := u64 (numLossEventsInRound b3 + 1),
                           bytesLostInRound := i64 (bytesLostInRound b3 + bytesLost)\<rparr>
                   else b3))"

text \<open>The modes, in the order of the source.\<close>

definition event_modes ::
  "bbr_env \<Rightarrow> int \<Rightarrow> int \<Rightarrow> (int \<times> int) list \<Rightarrow> send_time_state \<Rightarrow> bool \<Rightarrow> bool \<Rightarrow> bbr_sender \<Rightarrow> bbr_sender" where
  "event_modes E t priorInFlight lost st isRoundStart expired b0 =
     (let b1 = (if mode b0 = bbrModeProbeBw then updateGainCyclePhase E t priorInFlight (lost \<noteq> []) b0 else b0);
          b2 = (if isRoundStart \<and> \<not> isAtFullBandwidth b1 then checkIfFullBandwidthReached E st b1 else b1)
      in maybeEnterOrExitProbeRtt E t isRoundStart expired (maybeExitStartupOrDrain E t b2))"

definition OnCongestionEventEx ::
  "bbr_env \<Rightarrow> int \<Rightarrow> int \<Rightarrow> (int \<times> int) list \<Rightarrow> (int \<times> int) list \<Rightarrow> bbr_sender \<Rightarrow> bbr_sender option" where
  "OnCongestionEventEx E priorInFlight t acked lost b0 =
     (let ackedBefore = totalBytesAcked (sampler b0); lostBefore = totalBytesLost (sampler b0);
          b1 = (maybeAppLimited E priorInFlight b0)
                 \<lparr>bb_bytesInFlight := less_in_flight (less_in_flight priorInFlight acked) lost\<rparr>;
          (isRoundStart, b2) = event_rounds acked lost b1
      in do {
        (ev, s) \<leftarrow> sampler_OnCongestionEvent t acked lost (bandwidthEstimate b2) infBandwidth (roundTripCount b2) (sampler b2);
        let (expired, b3) = event_sample t ackedBefore lostBefore lost ev (b2\<lparr>sampler := s\<rparr>);
            b4 = event_modes E t priorInFlight lost (lastPacketSendState ev) isRoundStart expired b3;
            bytesLost = i64 (totalBytesLost (sampler b3) - lostBefore);
            bytesAcked = i64 (totalBytesAcked (sampler b4) - ackedBefore)
        in do {
          b5 \<leftarrow> calculatePacingRate E bytesLost b4;
          let b6 = calculateRecoveryWindow bytesAcked bytesLost
                     (calculateCongestionWindow E bytesAcked (ce_extraAcked ev) b5)
          in do {
            leastUnacked \<leftarrow> (if acked \<noteq> [] then Some (i64 (fst (last acked) - 2))
                              else if lost \<noteq> [] then Some (i64 (fst (last lost) + 1)) else None);
            s' \<leftarrow> RemoveObsoletePackets leastUnacked (sampler b6);
            let b7 = b6\<lparr>sampler := s'\<rparr>
            in Some (if isRoundStart then b7\<lparr>numLossEventsInRound := 0, bytesLostInRound := 0\<rparr> else b7)
          }
        }
      })"

end
