(* ===== verification/Bbr_Laws.thy ===== *)
theory Bbr_Laws
  imports Bbr_Sender
begin

text \<open>
  The properties of the BBR sender. The invariant \<open>bbr_inv\<close> collects what every call keeps: the
  windows are the source's multiples of the datagram size, the gain fits the mode, recovery
  happens at full bandwidth only, and the values handed to the pacer are in range. \<open>bbr_mid\<close> is
  the part that holds in the middle of an event, where the recovery window may be unset.
\<close>

section \<open>Invariants\<close>

definition consts_ok :: "quic_consts \<Rightarrow> bool" where
  "consts_ok k \<longleftrightarrow> size_ok (InitialPacketSize k)
     \<and> 32 \<le> MaxCongestionWindowPackets k \<and> MaxCongestionWindowPackets k \<le> 2 ^ 20"

definition windows_ok :: "quic_consts \<Rightarrow> bbr_sender \<Rightarrow> bool" where
  "windows_ok k b \<longleftrightarrow>
     size_ok (maxDatagramSize b)
     \<and> initialCongestionWindow b = 32 * maxDatagramSize b
     \<and> maxCongestionWindow b = MaxCongestionWindowPackets k * maxDatagramSize b
     \<and> minCongestionWindow b = 4 * maxDatagramSize b
     \<and> cwndToCalculateMinPacingRate b = 32 * maxDatagramSize b
     \<and> maxCongestionWindowWithNetworkParametersAdjusted b = MaxCongestionWindowPackets k * maxDatagramSize b
     \<and> 4 * maxDatagramSize b \<le> congestionWindow b
     \<and> congestionWindow b \<le> MaxCongestionWindowPackets k * maxDatagramSize b"

definition modes_ok :: "bbr_sender \<Rightarrow> bool" where
  "modes_ok b \<longleftrightarrow>
     (mode b = bbrModeStartup \<longrightarrow> pacingGain b = highGain b)
     \<and> (mode b = bbrModeDrain \<longrightarrow> isAtFullBandwidth b \<and> pacingGain b = drainGain b)
     \<and> (mode b = bbrModeProbeBw \<longrightarrow> isAtFullBandwidth b \<and> pacingGain b \<in> set pacingGains)
     \<and> (mode b = bbrModeProbeRtt \<longrightarrow> pacingGain b = 1)
     \<and> (InRecovery b \<longrightarrow> isAtFullBandwidth b) \<and> cycleCurrentOffset b < gainCycleLength"

definition values_ok :: "bbr_sender \<Rightarrow> bool" where
  "values_ok b \<longleftrightarrow>
     sampler_inv (sampler b) \<and> pacer_inv (bb_pacer b) \<and> maxDatagramSize b \<le> pc_maxDatagramSize (bb_pacer b)
     \<and> in_i64 (minRtt b) \<and> 0 \<le> pacingRate b \<and> pacingRate b < 2 ^ 64"

definition bbr_mid :: "quic_consts \<Rightarrow> bbr_sender \<Rightarrow> bool" where
  "bbr_mid k b \<longleftrightarrow> windows_ok k b \<and> modes_ok b \<and> values_ok b
     \<and> (4 * maxDatagramSize b \<le> recoveryWindow b \<or> recoveryWindow b = 0 \<and> InRecovery b)"

definition bbr_inv :: "quic_consts \<Rightarrow> bbr_sender \<Rightarrow> bool" where
  "bbr_inv k b \<longleftrightarrow> bbr_mid k b \<and> 4 * maxDatagramSize b \<le> recoveryWindow b
     \<and> (mode b = bbrModeStartup \<longrightarrow> \<not> isAtFullBandwidth b)"

lemmas bbr_defs = bbr_mid_def windows_ok_def modes_ok_def values_ok_def InRecovery_def

lemma gainCycleLength_8 [simp]: "gainCycleLength = 8"
  by (simp add: gainCycleLength_def pacingGains_def)

lemma gain_at: "n < 8 \<Longrightarrow> pacingGains ! n \<in> set pacingGains"
  by (rule nth_mem) (simp add: pacingGains_def)

lemma sampler_inv_AppLimited: "sampler_inv s \<Longrightarrow> sampler_inv (sampler_OnAppLimited s)"
  by (simp add: sampler_inv_def sampler_OnAppLimited_def)

lemma sampler_inv_ResetHeight: "sampler_inv s \<Longrightarrow> sampler_inv (ResetMaxAckHeightTracker h t s)"
  by (simp add: sampler_inv_def ResetMaxAckHeightTracker_def)


section \<open>Each step keeps the invariant\<close>

lemma maybeAppLimited_mid: "bbr_mid k b \<Longrightarrow> bbr_mid k (maybeAppLimited E f b)"
  by (simp add: bbr_defs maybeAppLimited_def sampler_inv_AppLimited)

lemma in_flight_mid: "bbr_mid k b \<Longrightarrow> bbr_mid k (b\<lparr>bb_bytesInFlight := f\<rparr>)"
  by (simp add: bbr_defs)

lemma sampler_mid: "bbr_mid k b \<Longrightarrow> sampler_inv s \<Longrightarrow> bbr_mid k (b\<lparr>sampler := s\<rparr>)"
  by (simp add: bbr_defs)

lemma updateRoundTripCounter_mid: "bbr_mid k b \<Longrightarrow> bbr_mid k (snd (updateRoundTripCounter n b))"
  by (simp add: bbr_defs updateRoundTripCounter_def)

lemma updateRecoveryState_mid:
  assumes "bbr_mid k b" "4 * maxDatagramSize b \<le> recoveryWindow b"
  shows "bbr_mid k (updateRecoveryState n l r b)"
  using assms
  by (cases "recoveryState b")
     (auto simp: bbr_defs updateRecoveryState_def maybe_exit_recovery_def Let_def)

lemma maybeUpdateMinRtt_mid:
  "bbr_mid k b \<Longrightarrow> in_i64 r \<Longrightarrow> bbr_mid k (snd (maybeUpdateMinRtt t r b))"
  by (simp add: bbr_defs maybeUpdateMinRtt_def Let_def)

lemma enterProbeBandwidthMode_mid:
  assumes "bbr_mid k b" "isAtFullBandwidth b"
  shows "bbr_mid k (enterProbeBandwidthMode E t b)"
proof -
  have o: "n mod 7 \<ge> 1 \<Longrightarrow> n mod 7 + 1 < 8" "n mod 7 < 8" for n :: nat
    using mod_less_divisor [of 7 n] by simp_all
  show ?thesis using assms
    by (auto simp: bbr_defs enterProbeBandwidthMode_def Let_def intro!: gain_at o)
qed

lemma enterStartupMode_mid: "bbr_mid k b \<Longrightarrow> bbr_mid k (enterStartupMode b)"
  by (simp add: bbr_defs enterStartupMode_def)

lemma updateGainCyclePhase_mid:
  assumes "bbr_mid k b" "mode b = bbrModeProbeBw"
  shows "bbr_mid k (updateGainCyclePhase E t f l b)"
proof -
  have "bbr_mid k (b\<lparr>cycleCurrentOffset := n, lastCycleStart := t\<rparr>)"
    "g \<in> set pacingGains \<Longrightarrow> bbr_mid k (b\<lparr>cycleCurrentOffset := n, lastCycleStart := t, pacingGain := g\<rparr>)" if "n < 8" for n g
    using assms that by (simp_all add: bbr_defs)
  moreover have "1 \<in> set pacingGains" by (simp add: pacingGains_def)
  ultimately show ?thesis using assms(1) gain_at unfolding updateGainCyclePhase_def Let_def by auto
qed

lemma checkIfFullBandwidthReached_mid:
  "bbr_mid k b \<Longrightarrow> bbr_mid k (checkIfFullBandwidthReached E st b)"
  by (auto simp: bbr_defs checkIfFullBandwidthReached_def Let_def sampler_inv_ResetHeight)

lemma maybeExitStartupOrDrain_mid:
  assumes "bbr_mid k b"
  shows "bbr_mid k (maybeExitStartupOrDrain E t b)"
proof -
  let ?c = "if mode b = bbrModeStartup \<and> isAtFullBandwidth b
            then b\<lparr>mode := bbrModeDrain, pacingGain := drainGain b, congestionWindowGain := highCwndGain b\<rparr> else b"
  have c: "bbr_mid k ?c" using assms by (auto simp: bbr_defs)
  then have "mode ?c = bbrModeDrain \<Longrightarrow> isAtFullBandwidth ?c" by (simp add: bbr_defs)
  with c show ?thesis unfolding maybeExitStartupOrDrain_def Let_def by (auto intro: enterProbeBandwidthMode_mid)
qed

lemma enter_probe_rtt_mid: "bbr_mid k b \<Longrightarrow> bbr_mid k (enter_probe_rtt x b)"
  by (auto simp: bbr_defs enter_probe_rtt_def)

lemma timestamp_mid: "bbr_mid k b \<Longrightarrow> bbr_mid k (b\<lparr>minRttTimestamp := t\<rparr>)"
  by (simp add: bbr_defs)

lemma exit_probe_rtt_mid: "bbr_mid k b \<Longrightarrow> bbr_mid k (exit_probe_rtt E t b)"
  unfolding exit_probe_rtt_def Let_def
  by (auto intro!: enterStartupMode_mid enterProbeBandwidthMode_mid timestamp_mid)

lemma in_probe_rtt_mid:
  assumes "bbr_mid k b"
  shows "bbr_mid k (in_probe_rtt E t r b)"
proof -
  have s: "bbr_mid k (b\<lparr>sampler := sampler_OnAppLimited (sampler b)\<rparr>)"
    using assms by (simp add: bbr_defs sampler_inv_AppLimited)
  then have "bbr_mid k (b\<lparr>sampler := sampler_OnAppLimited (sampler b), exitProbeRttAt := x, probeRttRoundPassed := y\<rparr>)"
    "bbr_mid k (b\<lparr>sampler := sampler_OnAppLimited (sampler b), probeRttRoundPassed := y\<rparr>)" for x y
    by (simp_all add: bbr_defs)
  with s assms show ?thesis unfolding in_probe_rtt_def Let_def by (auto intro!: exit_probe_rtt_mid)
qed

lemma maybeEnterOrExitProbeRtt_mid:
  assumes "bbr_mid k b"
  shows "bbr_mid k (maybeEnterOrExitProbeRtt E t r x b)"
  using in_probe_rtt_mid [OF enter_probe_rtt_mid [OF assms, of x], of E t r]
  by (simp add: maybeEnterOrExitProbeRtt_def bbr_defs)


section \<open>Rates\<close>

lemma u64_nonzero: "in_i64 x \<Longrightarrow> x \<noteq> 0 \<Longrightarrow> u64 x \<noteq> 0"
  by (auto simp: u64_def zmod_eq_0_iff)

lemma getMinRtt_nonzero:
  assumes "in_i64 (minRtt b)" "in_i64 (env_MinRTT E)"
  shows "u64 (getMinRtt E b) \<noteq> 0"
  using assms u64_nonzero [of "minRtt b"] u64_nonzero [of "env_MinRTT E"] by (auto simp: getMinRtt_def)

lemma PacingRate_range:
  assumes "values_ok b" "in_i64 (env_MinRTT E)"
  shows "\<exists>r. PacingRate E b = Some r \<and> 0 \<le> r \<and> r < 2 ^ 64"
proof -
  have "u64 (getMinRtt E b) \<noteq> 0" using getMinRtt_nonzero [OF _ assms(2)] assms(1) by (simp add: values_ok_def)
  then show ?thesis using assms(1) f64_to_u64_range
    by (auto simp: PacingRate_def bandwidth_from_delta_def values_ok_def)
qed

lemma bandwidthForPacer_range:
  assumes "values_ok b" "in_i64 (env_MinRTT E)"
  shows "\<exists>bw. bandwidthForPacer E b = Some bw \<and> minBps \<le> bw \<and> bw < 2 ^ 62"
proof -
  obtain r where r: "PacingRate E b = Some r" "0 \<le> r" "r < 2 ^ 64" using PacingRate_range [OF assms] by blast
  have "(of_int r :: rat) \<le> of_int (2 ^ 64)" using r(3) by (simp only: of_int_le_iff)
  with f64_range [of "of_int r" 64] r(2) have "0 \<le> f64 (of_int r)" "f64 (of_int r) \<le> 2 ^ 64" by simp_all
  then have "0 \<le> f64 (of_int r) / 8" "f64 (of_int r) / 8 \<le> 2 ^ 61" by simp_all
  from f64_to_i64_range [OF _ _ , of _ 61] f64_range [OF this]
  have "f64_to_i64 (f64 (f64 (of_int r) / 8)) \<le> 2 ^ 61" by simp
  with r(1) show ?thesis by (simp add: bandwidthForPacer_def Let_def minBps_def)
qed

lemma u64_range: "0 \<le> u64 x" "u64 x < 2 ^ 64"
  by (simp_all add: u64_def)

lemma BandwidthFromDelta_range: "0 \<le> BandwidthFromDelta x d" "BandwidthFromDelta x d < 2 ^ 64"
  unfolding BandwidthFromDelta_def by (rule u64_range)+

lemma bandwidth_from_delta_range: "bandwidth_from_delta x d = Some r \<Longrightarrow> 0 \<le> r \<and> r < 2 ^ 64"
  using BandwidthFromDelta_range by (auto simp: bandwidth_from_delta_def split: if_splits)

text \<open>The round-trip time of a sample is an \<open>int64\<close> value.\<close>

lemma onPacketAcknowledged_rtt:
  assumes "onPacketAcknowledged t n b = Some (sample, b')"
  shows "in_i64 (bs_rtt sample)"
proof -
  have new: "in_i64 (bs_rtt newBandwidthSample)" by (simp add: newBandwidthSample_def)
  have some: "in_i64 (i64 x)" for x by (rule in_i64_i64)
  from assms obtain r where r: "GetEntry n (connectionStateMap b) = Some r"
    by (auto simp: onPacketAcknowledged_def Let_def bind_eq_Some_conv)
  show ?thesis
  proof (cases r)
    case None
    with assms r new show ?thesis by (auto simp: onPacketAcknowledged_def Let_def)
  next
    case (Some p)
    let ?b2 = "ack_totals t n p (b\<lparr>lastAckedPacket := n\<rparr>)"
    show ?thesis
    proof (cases "cs_lastAckedPacketSentTime p = 0")
      case True
      with assms r new Some show ?thesis by (auto simp: onPacketAcknowledged_def Let_def)
    next
      case False
      from assms r Some False obtain chosen es where
        "(if overestimateAvoidance ?b2 then chooseA0Point (st_totalBytesAcked (cs_sendTimeState p)) (a0Candidates ?b2)
          else Some (None, a0Candidates ?b2)) = Some (chosen, es)"
        by (auto simp: onPacketAcknowledged_def Let_def bind_eq_Some_conv)
      with assms r Some False new some show ?thesis
        by (simp add: onPacketAcknowledged_def Let_def split: if_splits option.splits) auto
    qed
  qed
qed

lemma acked_loop_rtt:
  "acked_loop t ps ev s m b = Some (ev', s', m', b') \<Longrightarrow> in_i64 (sampleRtt ev) \<Longrightarrow> in_i64 (sampleRtt ev')"
proof (induction ps arbitrary: ev s m b)
  case (Cons a ps)
  obtain n x where a: "a = (n, x)" by (cases a)
  from Cons.prems(1) obtain sample b1 where s: "onPacketAcknowledged t n b = Some (sample, b1)"
    by (auto simp: a bind_eq_Some_conv)
  have "in_i64 (bs_rtt sample)"
    using onPacketAcknowledged_rtt [OF s] .
  then have "in_i64 (sampleRtt (merge_sample sample f ev))" for f
    using Cons.prems(2) by (auto simp: merge_sample_def Let_def)
  with Cons.IH Cons.prems s show ?case by (auto simp: a split: if_splits)
qed simp

lemma sampleRtt_range:
  assumes "sampler_OnCongestionEvent t acked lost mb up rtc b = Some (ev, b')"
  shows "in_i64 (sampleRtt ev)"
proof -
  have new: "in_i64 (sampleRtt newCongestionEventSample)" by (simp add: newCongestionEventSample_def infRTT_def)
  show ?thesis using assms new acked_loop_rtt [OF _ new]
    by (auto simp: sampler_OnCongestionEvent_def bind_eq_Some_conv Let_def split: if_splits prod.splits)
qed


section \<open>The windows\<close>

lemma rate_mid: "bbr_mid k b \<Longrightarrow> 0 \<le> r \<Longrightarrow> r < 2 ^ 64 \<Longrightarrow> bbr_mid k (b\<lparr>pacingRate := r\<rparr>)"
  by (simp add: bbr_defs)

lemma overshooting_mid:
  "bbr_mid k b \<Longrightarrow> bbr_mid k (b\<lparr>bytesLostWhileDetectingOvershooting := x\<rparr>)"
  "bbr_mid k b \<Longrightarrow> bbr_mid k (b\<lparr>bytesLostWhileDetectingOvershooting := x, detectOvershooting := d\<rparr>)"
  by (simp_all add: bbr_defs)

lemma slow_overshooting_mid:
  assumes "bbr_mid k b" "slow_overshooting E g l b = Some c" "0 \<le> g" "g < 2 ^ 64"
  shows "bbr_mid k c"
proof (cases "detectOvershooting b")
  case True
  let ?c = "b\<lparr>bytesLostWhileDetectingOvershooting := i64 (bytesLostWhileDetectingOvershooting b + l)\<rparr>"
  have c: "bbr_mid k ?c" by (rule overshooting_mid(1) [OF assms(1)])
  have "bbr_mid k (?c\<lparr>pacingRate := max g r, bytesLostWhileDetectingOvershooting := 0, detectOvershooting := False\<rparr>)"
    if "bandwidth_from_delta (cwndToCalculateMinPacingRate b) (env_MinRTT E) = Some r" for r
    using rate_mid [OF c, of "max g r"] bandwidth_from_delta_range [OF that] assms(3,4)
    by (intro overshooting_mid(2)) (auto simp: max_def)
  with c assms(2) True show ?thesis
    unfolding slow_overshooting_def Let_def by (auto split: if_splits)
qed (use assms in \<open>simp add: slow_overshooting_def\<close>)

lemma calculatePacingRate_mid:
  assumes "bbr_mid k b" "calculatePacingRate E l b = Some b'"
  shows "bbr_mid k b'"
proof -
  define g where "g = f64_to_u64 (env_oor E) (f64 (pacingGain b * f64 (of_int (bandwidthEstimate b))))"
  have g: "0 \<le> g" "g < 2 ^ 64" using f64_to_u64_range by (simp_all add: g_def)
  have slow: "bbr_mid k (c\<lparr>pacingRate := max (pacingRate c) g\<rparr>)" if "slow_overshooting E g l b = Some c" for c
  proof (rule rate_mid)
    show c: "bbr_mid k c" by (rule slow_overshooting_mid [OF assms(1) that g])
    show "0 \<le> max (pacingRate c) g" "max (pacingRate c) g < 2 ^ 64" using c g by (simp_all add: bbr_defs)
  qed
  have "b' = b \<or> b' = b\<lparr>pacingRate := g\<rparr>
      \<or> (\<exists>r. bandwidth_from_delta (initialCongestionWindow b) (env_MinRTT E) = Some r \<and> b' = b\<lparr>pacingRate := r\<rparr>)
      \<or> (\<exists>c. slow_overshooting E g l b = Some c \<and> b' = c\<lparr>pacingRate := max (pacingRate c) g\<rparr>)"
    using assms(2) unfolding calculatePacingRate_def Let_def g_def [symmetric] by (auto split: if_splits)
  then show ?thesis using assms(1) rate_mid g slow bandwidth_from_delta_range by blast
qed

lemma bandwidth_from_delta_total:
  "in_i64 d \<Longrightarrow> d \<noteq> 0 \<Longrightarrow> bandwidth_from_delta x d = Some (BandwidthFromDelta x d)"
  using u64_nonzero [of d] by (simp add: bandwidth_from_delta_def)

lemma slow_overshooting_total:
  assumes "in_i64 (env_MinRTT E)" "detectOvershooting b \<longrightarrow> env_MinRTT E \<noteq> 0"
  shows "slow_overshooting E g l b \<noteq> None"
proof (cases "detectOvershooting b")
  case True
  then have "bandwidth_from_delta x (env_MinRTT E) = Some (BandwidthFromDelta x (env_MinRTT E))" for x
    using assms by (intro bandwidth_from_delta_total) auto
  then show ?thesis unfolding slow_overshooting_def Let_def by simp
qed (simp add: slow_overshooting_def)

lemma calculatePacingRate_total:
  assumes "in_i64 (env_MinRTT E)" "detectOvershooting b \<longrightarrow> env_MinRTT E \<noteq> 0"
  shows "\<exists>b'. calculatePacingRate E l b = Some b'"
proof -
  have "calculatePacingRate E l b \<noteq> None"
    using slow_overshooting_total [OF assms] bandwidth_from_delta_total [OF assms(1)]
    unfolding calculatePacingRate_def Let_def by simp
  then show ?thesis by (simp add: not_None_eq)
qed

lemma cwnd_mid:
  "bbr_mid k b \<Longrightarrow> 4 * maxDatagramSize b \<le> w \<Longrightarrow> w \<le> MaxCongestionWindowPackets k * maxDatagramSize b \<Longrightarrow>
   bbr_mid k (b\<lparr>congestionWindow := w\<rparr>)"
  by (simp add: bbr_defs)

lemma windows_of_mid:
  assumes "consts_ok k" "bbr_mid k b"
  shows "minCongestionWindow b = 4 * maxDatagramSize b"
    "maxCongestionWindow b = MaxCongestionWindowPackets k * maxDatagramSize b"
    "4 * maxDatagramSize b \<le> MaxCongestionWindowPackets k * maxDatagramSize b"
proof -
  show "4 * maxDatagramSize b \<le> MaxCongestionWindowPackets k * maxDatagramSize b"
    using assms by (intro mult_right_mono) (simp_all add: consts_ok_def bbr_mid_def windows_ok_def size_ok_def)
qed (use assms in \<open>simp_all add: bbr_mid_def windows_ok_def\<close>)

lemma calculateCongestionWindow_mid:
  assumes "consts_ok k" "bbr_mid k b"
  shows "bbr_mid k (calculateCongestionWindow E a x b)"
proof -
  have "bbr_mid k (b\<lparr>congestionWindow := min (max w (minCongestionWindow b)) (maxCongestionWindow b)\<rparr>)" for w
    using windows_of_mid [OF assms] by (intro cwnd_mid [OF assms(2)]) simp_all
  then show ?thesis using assms(2) unfolding calculateCongestionWindow_def Let_def
    by (cases "mode b = bbrModeProbeRtt") (simp_all only: if_True if_False refl)
qed

lemma calculateRecoveryWindow_inv:
  assumes "bbr_mid k b"
  shows "bbr_mid k (calculateRecoveryWindow a l b)
    \<and> 4 * maxDatagramSize b \<le> recoveryWindow (calculateRecoveryWindow a l b)"
proof -
  have w: "bbr_mid k (b\<lparr>recoveryWindow := max (minCongestionWindow b) x\<rparr>)" "4 * maxDatagramSize b \<le> max (minCongestionWindow b) x" for x
    using assms by (simp_all add: bbr_defs)
  have n: "recoveryState b = bbrRecoveryStateNotInRecovery \<Longrightarrow> 4 * maxDatagramSize b \<le> recoveryWindow b"
    using assms by (auto simp: bbr_defs)
  show ?thesis using assms w n unfolding calculateRecoveryWindow_def Let_def
    by (cases "recoveryState b = bbrRecoveryStateNotInRecovery"; cases "recoveryWindow b = 0") simp_all
qed


section \<open>The modes of an event\<close>

text \<open>The edges of the mode machine; the flag says whether the full bandwidth was reached.\<close>

inductive mode_step :: "bool \<Rightarrow> bbr_mode \<Rightarrow> bbr_mode \<Rightarrow> bool" for fb where
  reached: "fb \<Longrightarrow> mode_step fb bbrModeStartup bbrModeDrain"
| drained: "fb \<Longrightarrow> mode_step fb bbrModeDrain bbrModeProbeBw"
| rtt_expired: "m \<noteq> bbrModeProbeRtt \<Longrightarrow> mode_step fb m bbrModeProbeRtt"
| restarted: "\<not> fb \<Longrightarrow> mode_step fb bbrModeProbeRtt bbrModeStartup"
| rtt_probed: "fb \<Longrightarrow> mode_step fb bbrModeProbeRtt bbrModeProbeBw"

inductive_simps mode_step_startup: "mode_step fb m bbrModeStartup"

abbreviation mode_run :: "bool \<Rightarrow> bbr_mode \<Rightarrow> bbr_mode \<Rightarrow> bool" where
  "mode_run fb \<equiv> (mode_step fb)\<^sup>*\<^sup>*"

lemma mode_runs:
  "mode_run True bbrModeStartup bbrModeDrain" "mode_run True bbrModeDrain bbrModeProbeBw"
  "mode_run True bbrModeStartup bbrModeProbeBw" "m \<noteq> bbrModeProbeRtt \<Longrightarrow> mode_run fb m bbrModeProbeRtt"
  "mode_run False bbrModeProbeRtt bbrModeStartup" "mode_run True bbrModeProbeRtt bbrModeProbeBw"
proof -
  show a: "mode_run True bbrModeStartup bbrModeDrain" by (rule r_into_rtranclp, rule mode_step.reached) simp
  have b: "mode_step True bbrModeDrain bbrModeProbeBw" by (rule mode_step.drained) simp
  then show "mode_run True bbrModeDrain bbrModeProbeBw" by (rule r_into_rtranclp)
  from a b show "mode_run True bbrModeStartup bbrModeProbeBw" by (rule rtranclp.rtrancl_into_rtrancl)
  show "m \<noteq> bbrModeProbeRtt \<Longrightarrow> mode_run fb m bbrModeProbeRtt" by (rule r_into_rtranclp, rule mode_step.rtt_expired)
  show "mode_run False bbrModeProbeRtt bbrModeStartup" by (rule r_into_rtranclp, rule mode_step.restarted) simp
  show "mode_run True bbrModeProbeRtt bbrModeProbeBw" by (rule r_into_rtranclp, rule mode_step.rtt_probed) simp
qed

lemma mode_run_startup: "mode_run fb m bbrModeStartup \<Longrightarrow> m = bbrModeStartup \<or> \<not> fb"
  by (induction rule: rtranclp.cases) (auto simp: mode_step_startup)

lemma calculateCongestionWindow_eq: "\<exists>w. calculateCongestionWindow E a x b = b\<lparr>congestionWindow := w\<rparr>"
proof (cases "mode b = bbrModeProbeRtt")
  case True
  then show ?thesis by (intro exI [of _ "congestionWindow b"]) (simp add: calculateCongestionWindow_def)
next
  case False
  then show ?thesis unfolding calculateCongestionWindow_def Let_def by (simp only: if_False) blast
qed

lemma calculateRecoveryWindow_eq: "\<exists>w. calculateRecoveryWindow a l b = b\<lparr>recoveryWindow := w\<rparr>"
proof (cases "recoveryState b = bbrRecoveryStateNotInRecovery")
  case True
  then show ?thesis by (intro exI [of _ "recoveryWindow b"]) (simp add: calculateRecoveryWindow_def)
next
  case False
  then show ?thesis unfolding calculateRecoveryWindow_def Let_def
    by (cases "recoveryWindow b = 0"; simp only: if_False if_True refl simp_thms; blast)
qed

lemma window_frame [simp]:
  "mode (calculateCongestionWindow E a x b) = mode b"
  "isAtFullBandwidth (calculateCongestionWindow E a x b) = isAtFullBandwidth b"
  "detectOvershooting (calculateCongestionWindow E a x b) = detectOvershooting b"
  "mode (calculateRecoveryWindow a n b) = mode b"
  "isAtFullBandwidth (calculateRecoveryWindow a n b) = isAtFullBandwidth b"
  "detectOvershooting (calculateRecoveryWindow a n b) = detectOvershooting b"
  "maxDatagramSize (calculateRecoveryWindow a n b) = maxDatagramSize b"
  "maxDatagramSize (calculateCongestionWindow E a x b) = maxDatagramSize b"
proof -
  obtain v w where "calculateCongestionWindow E a x b = b\<lparr>congestionWindow := v\<rparr>"
    "calculateRecoveryWindow a n b = b\<lparr>recoveryWindow := w\<rparr>"
    using calculateCongestionWindow_eq calculateRecoveryWindow_eq by metis
  then show "mode (calculateCongestionWindow E a x b) = mode b"
    "isAtFullBandwidth (calculateCongestionWindow E a x b) = isAtFullBandwidth b"
    "detectOvershooting (calculateCongestionWindow E a x b) = detectOvershooting b"
    "mode (calculateRecoveryWindow a n b) = mode b"
    "isAtFullBandwidth (calculateRecoveryWindow a n b) = isAtFullBandwidth b"
    "detectOvershooting (calculateRecoveryWindow a n b) = detectOvershooting b"
    "maxDatagramSize (calculateRecoveryWindow a n b) = maxDatagramSize b"
    "maxDatagramSize (calculateCongestionWindow E a x b) = maxDatagramSize b" by simp_all
qed

lemma round_frame [simp]:
  "mode (maybeAppLimited E f b) = mode b" "isAtFullBandwidth (maybeAppLimited E f b) = isAtFullBandwidth b"
  "mode (snd (maybeUpdateMinRtt t x b)) = mode b" "isAtFullBandwidth (snd (maybeUpdateMinRtt t x b)) = isAtFullBandwidth b"
  "mode (snd (updateRoundTripCounter n b)) = mode b"
  "isAtFullBandwidth (snd (updateRoundTripCounter n b)) = isAtFullBandwidth b"
  "maxDatagramSize (maybeAppLimited E f b) = maxDatagramSize b"
  "maxDatagramSize (snd (maybeUpdateMinRtt t x b)) = maxDatagramSize b"
  "maxDatagramSize (snd (updateRoundTripCounter n b)) = maxDatagramSize b"
  by (simp_all add: maybeAppLimited_def maybeUpdateMinRtt_def updateRoundTripCounter_def Let_def)

lemma recovery_frame [simp]:
  "mode (updateRecoveryState n l r b) = mode b" "isAtFullBandwidth (updateRecoveryState n l r b) = isAtFullBandwidth b"
  "detectOvershooting (updateRecoveryState n l r b) = detectOvershooting b"
  "maxDatagramSize (updateRecoveryState n l r b) = maxDatagramSize b"
  by (simp_all add: updateRecoveryState_def maybe_exit_recovery_def Let_def split: bbr_recovery_state.split)

lemma updateGainCyclePhase_eq:
  "\<exists>n u g. updateGainCyclePhase E t f l b = b\<lparr>cycleCurrentOffset := n, lastCycleStart := u, pacingGain := g\<rparr>"
proof -
  have r: "b = b\<lparr>cycleCurrentOffset := cycleCurrentOffset b, lastCycleStart := lastCycleStart b, pacingGain := pacingGain b\<rparr>"
    "b\<lparr>cycleCurrentOffset := n, lastCycleStart := t\<rparr>
       = b\<lparr>cycleCurrentOffset := n, lastCycleStart := t, pacingGain := pacingGain b\<rparr>" for n by simp_all
  show ?thesis unfolding updateGainCyclePhase_def Let_def
    by (split if_split)+ (use r in \<open>blast\<close>)
qed

lemma gain_frame [simp]:
  "mode (updateGainCyclePhase E t f l b) = mode b"
  "isAtFullBandwidth (updateGainCyclePhase E t f l b) = isAtFullBandwidth b"
  "detectOvershooting (updateGainCyclePhase E t f l b) = detectOvershooting b"
  "maxDatagramSize (updateGainCyclePhase E t f l b) = maxDatagramSize b"
  using updateGainCyclePhase_eq [of E t f l b] by auto

lemma check_frame [simp]:
  "mode (checkIfFullBandwidthReached E st b) = mode b"
  "detectOvershooting (checkIfFullBandwidthReached E st b) = detectOvershooting b"
  "maxDatagramSize (checkIfFullBandwidthReached E st b) = maxDatagramSize b"
  by (simp_all add: checkIfFullBandwidthReached_def Let_def)

lemma full_frame [simp]:
  "isAtFullBandwidth (maybeExitStartupOrDrain E t b) = isAtFullBandwidth b"
  "isAtFullBandwidth (maybeEnterOrExitProbeRtt E t r x b) = isAtFullBandwidth b"
  by (simp_all add: maybeExitStartupOrDrain_def enterProbeBandwidthMode_def maybeEnterOrExitProbeRtt_def
        in_probe_rtt_def enter_probe_rtt_def exit_probe_rtt_def enterStartupMode_def Let_def)

lemma overshooting_frame [simp]:
  "detectOvershooting (maybeExitStartupOrDrain E t b) = detectOvershooting b"
  "detectOvershooting (maybeEnterOrExitProbeRtt E t r x b) = detectOvershooting b"
  "maxDatagramSize (maybeExitStartupOrDrain E t b) = maxDatagramSize b"
  "maxDatagramSize (maybeEnterOrExitProbeRtt E t r x b) = maxDatagramSize b"
  by (simp_all add: maybeExitStartupOrDrain_def enterProbeBandwidthMode_def
        maybeEnterOrExitProbeRtt_def in_probe_rtt_def enter_probe_rtt_def exit_probe_rtt_def enterStartupMode_def Let_def)

lemma full_kept: "isAtFullBandwidth b \<Longrightarrow> isAtFullBandwidth (checkIfFullBandwidthReached E st b)"
  by (simp add: checkIfFullBandwidthReached_def Let_def)

lemma calculatePacingRate_frame:
  "calculatePacingRate E l b = Some b' \<Longrightarrow> mode b' = mode b \<and> isAtFullBandwidth b' = isAtFullBandwidth b
     \<and> (detectOvershooting b' \<longrightarrow> detectOvershooting b) \<and> maxDatagramSize b' = maxDatagramSize b"
  by (auto simp: calculatePacingRate_def slow_overshooting_def Let_def split: if_splits)

lemma maybeExitStartupOrDrain_modes:
  assumes "mode b = bbrModeDrain \<Longrightarrow> isAtFullBandwidth b"
  shows "mode_run (isAtFullBandwidth b) (mode b) (mode (maybeExitStartupOrDrain E t b))
    \<and> (mode (maybeExitStartupOrDrain E t b) = bbrModeStartup \<longrightarrow> \<not> isAtFullBandwidth b)"
proof -
  let ?m = "mode (maybeExitStartupOrDrain E t b)" and ?f = "isAtFullBandwidth b"
  have "?m = mode b \<and> (?f \<longrightarrow> mode b \<noteq> bbrModeStartup)
    \<or> (mode b = bbrModeStartup \<or> mode b = bbrModeDrain) \<and> ?f \<and> (?m = bbrModeDrain \<or> ?m = bbrModeProbeBw)"
    using assms by (auto simp: maybeExitStartupOrDrain_def enterProbeBandwidthMode_def Let_def)
  then show ?thesis using mode_runs by auto
qed

lemma maybeEnterOrExitProbeRtt_modes:
  assumes "mode b = bbrModeStartup \<Longrightarrow> \<not> isAtFullBandwidth b"
  shows "mode_run (isAtFullBandwidth b) (mode b) (mode (maybeEnterOrExitProbeRtt E t r x b))
    \<and> (mode (maybeEnterOrExitProbeRtt E t r x b) = bbrModeStartup \<longrightarrow> \<not> isAtFullBandwidth b)"
proof -
  let ?e = "enter_probe_rtt x b" and ?f = "isAtFullBandwidth b"
  have e: "mode ?e = mode b \<or> mode b \<noteq> bbrModeProbeRtt \<and> mode ?e = bbrModeProbeRtt" "isAtFullBandwidth ?e = ?f"
    by (auto simp: enter_probe_rtt_def)
  have "mode (in_probe_rtt E t r ?e) = mode ?e
    \<or> mode ?e = bbrModeProbeRtt \<and> mode (in_probe_rtt E t r ?e) = (if ?f then bbrModeProbeBw else bbrModeStartup)"
    using e(2) by (auto simp: in_probe_rtt_def exit_probe_rtt_def enterStartupMode_def enterProbeBandwidthMode_def Let_def)
  moreover have "mode_run ?f bbrModeProbeRtt (if ?f then bbrModeProbeBw else bbrModeStartup)"
    by (auto intro: mode_runs)
  moreover have "mode_run ?f (mode b) (mode ?e)" using e(1) by (auto intro: mode_runs)
  ultimately show ?thesis using assms e(1)
    by (auto simp: maybeEnterOrExitProbeRtt_def split: if_splits)
qed


section \<open>Whole calls\<close>

definition event_ok :: "bbr_env \<Rightarrow> (int \<times> int) list \<Rightarrow> (int \<times> int) list \<Rightarrow> bool" where
  "event_ok E acked lost \<longleftrightarrow> pkts_ok acked \<and> pkts_ok lost \<and> (acked \<noteq> [] \<or> lost \<noteq> []) \<and> in_i64 (env_MinRTT E)"

lemma event_rounds_law:
  assumes "bbr_mid k b" "4 * maxDatagramSize b \<le> recoveryWindow b"
  shows "bbr_mid k (snd (event_rounds acked lost b)) \<and> mode (snd (event_rounds acked lost b)) = mode b
    \<and> isAtFullBandwidth (snd (event_rounds acked lost b)) = isAtFullBandwidth b
    \<and> detectOvershooting (snd (event_rounds acked lost b)) = detectOvershooting b
    \<and> maxDatagramSize (snd (event_rounds acked lost b)) = maxDatagramSize b"
proof -
  let ?c = "snd (updateRoundTripCounter (fst (last acked)) b)"
  have "bbr_mid k ?c" by (rule updateRoundTripCounter_mid [OF assms(1)])
  moreover have "4 * maxDatagramSize ?c \<le> recoveryWindow ?c" "detectOvershooting ?c = detectOvershooting b"
    using assms(2) by (simp_all add: updateRoundTripCounter_def)
  ultimately show ?thesis using assms(1) updateRecoveryState_mid
    by (simp add: event_rounds_def split_beta Let_def)
qed

lemma event_sample_law:
  assumes "bbr_mid k b" "in_i64 (sampleRtt ev)"
  shows "bbr_mid k (snd (event_sample t a l lost ev b)) \<and> mode (snd (event_sample t a l lost ev b)) = mode b
    \<and> isAtFullBandwidth (snd (event_sample t a l lost ev b)) = isAtFullBandwidth b
    \<and> detectOvershooting (snd (event_sample t a l lost ev b)) = detectOvershooting b
    \<and> maxDatagramSize (snd (event_sample t a l lost ev b)) = maxDatagramSize b"
proof -
  define b1 where "b1 = (if isValid (lastPacketSendState ev) then
      b\<lparr>lastSampleIsAppLimited := st_isAppLimited (lastPacketSendState ev),
        hasNoAppLimitedSample := (hasNoAppLimitedSample b \<or> \<not> st_isAppLimited (lastPacketSendState ev))\<rparr> else b)"
  define b2 where "b2 = (if a \<noteq> totalBytesAcked (sampler b1)
        \<and> (\<not> sampleIsAppLimited ev \<or> sampleMaxBandwidth ev > bandwidthEstimate b1)
      then b1\<lparr>maxBandwidth := wf_Update MaxFilter 0 (sampleMaxBandwidth ev) (roundTripCount b1) (maxBandwidth b1)\<rparr>
      else b1)"
  define e where "e = (if sampleRtt ev \<noteq> infRTT then maybeUpdateMinRtt t (sampleRtt ev) b2 else (False, b2))"
  have b1: "bbr_mid k b1" "mode b1 = mode b" "isAtFullBandwidth b1 = isAtFullBandwidth b"
    "detectOvershooting b1 = detectOvershooting b" "maxDatagramSize b1 = maxDatagramSize b" using assms(1) by (simp_all add: b1_def bbr_defs)
  then have b2: "bbr_mid k b2" "mode b2 = mode b" "isAtFullBandwidth b2 = isAtFullBandwidth b"
    "detectOvershooting b2 = detectOvershooting b" "maxDatagramSize b2 = maxDatagramSize b" by (simp_all add: b2_def bbr_defs)
  then have b3: "bbr_mid k (snd e)" "mode (snd e) = mode b" "isAtFullBandwidth (snd e) = isAtFullBandwidth b"
    "detectOvershooting (snd e) = detectOvershooting b" "maxDatagramSize (snd e) = maxDatagramSize b"
    using maybeUpdateMinRtt_mid [OF b2(1) assms(2)] by (simp_all add: e_def) (simp add: maybeUpdateMinRtt_def Let_def)
  have s: "bbr_mid k c \<Longrightarrow> bbr_mid k (c\<lparr>numLossEventsInRound := u, bytesLostInRound := v\<rparr>)" for c u v
    by (simp add: bbr_defs)
  have "event_sample t a l lost ev b = (fst e, if lost \<noteq> []
      then (snd e)\<lparr>numLossEventsInRound := u64 (numLossEventsInRound (snd e) + 1),
             bytesLostInRound := i64 (bytesLostInRound (snd e) + i64 (totalBytesLost (sampler (snd e)) - l))\<rparr> else snd e)"
    unfolding event_sample_def b1_def [symmetric] Let_def b2_def [symmetric] e_def [symmetric] by (simp add: split_beta)
  then show ?thesis using b3 s by simp
qed

lemma event_modes_law:
  assumes "bbr_mid k b" "mode b = bbrModeStartup \<longrightarrow> \<not> isAtFullBandwidth b"
    and "b' = event_modes E t f lost st r x b"
  shows "bbr_mid k b' \<and> mode_run (isAtFullBandwidth b') (mode b) (mode b')
    \<and> (isAtFullBandwidth b \<longrightarrow> isAtFullBandwidth b') \<and> (mode b' = bbrModeStartup \<longrightarrow> \<not> isAtFullBandwidth b')
    \<and> detectOvershooting b' = detectOvershooting b \<and> maxDatagramSize b' = maxDatagramSize b"
proof -
  define b1 where "b1 = (if mode b = bbrModeProbeBw then updateGainCyclePhase E t f (lost \<noteq> []) b else b)"
  define b2 where "b2 = (if r \<and> \<not> isAtFullBandwidth b1 then checkIfFullBandwidthReached E st b1 else b1)"
  define b3 where "b3 = maybeExitStartupOrDrain E t b2"
  have b': "b' = maybeEnterOrExitProbeRtt E t r x b3"
    by (simp add: assms(3) event_modes_def Let_def b1_def b2_def b3_def)
  have b1: "bbr_mid k b1" "mode b1 = mode b" "isAtFullBandwidth b1 = isAtFullBandwidth b"
    using assms(1) updateGainCyclePhase_mid by (simp_all add: b1_def)
  have b2: "bbr_mid k b2" "mode b2 = mode b" "isAtFullBandwidth b \<longrightarrow> isAtFullBandwidth b2"
    using b1 checkIfFullBandwidthReached_mid by (simp_all add: b2_def)
  note e = maybeExitStartupOrDrain_modes [of b2 E t, folded b3_def]
  have "mode b2 = bbrModeDrain \<Longrightarrow> isAtFullBandwidth b2" using b2(1) by (simp add: bbr_defs)
  note b3 = e [OF this]
  have f3: "isAtFullBandwidth b3 = isAtFullBandwidth b2" by (simp add: b3_def)
  have m3: "bbr_mid k b3" unfolding b3_def by (rule maybeExitStartupOrDrain_mid [OF b2(1)])
  have p: "mode_run (isAtFullBandwidth b3) (mode b3) (mode b') \<and> (mode b' = bbrModeStartup \<longrightarrow> \<not> isAtFullBandwidth b3)"
    unfolding b' using b3 f3 by (intro maybeEnterOrExitProbeRtt_modes) simp
  have d: "detectOvershooting b' = detectOvershooting b" "maxDatagramSize b' = maxDatagramSize b"
    by (simp_all add: b' b3_def b2_def b1_def)
  show ?thesis using maybeEnterOrExitProbeRtt_mid [OF m3, of E t r x] p b3 b2 f3 d
    by (auto simp: b' intro: rtranclp_trans)
qed

lemma OnCongestionEventEx_law:
  assumes "consts_ok k" "bbr_inv k b" "event_ok E acked lost" "detectOvershooting b \<longrightarrow> env_MinRTT E \<noteq> 0"
  shows "\<exists>b'. OnCongestionEventEx E f t acked lost b = Some b' \<and> bbr_inv k b'
    \<and> mode_run (isAtFullBandwidth b') (mode b) (mode b') \<and> (isAtFullBandwidth b \<longrightarrow> isAtFullBandwidth b')
    \<and> (detectOvershooting b' \<longrightarrow> detectOvershooting b) \<and> maxDatagramSize b' = maxDatagramSize b"
proof -
  define b1 where "b1 = (maybeAppLimited E f b)\<lparr>bb_bytesInFlight := less_in_flight (less_in_flight f acked) lost\<rparr>"
  have b1: "bbr_mid k b1" "4 * maxDatagramSize b1 \<le> recoveryWindow b1" "mode b1 = mode b"
    "isAtFullBandwidth b1 = isAtFullBandwidth b" "detectOvershooting b1 = detectOvershooting b"
    "maxDatagramSize b1 = maxDatagramSize b"
    using assms(2) in_flight_mid [OF maybeAppLimited_mid [of k b E f]]
    by (simp_all add: b1_def bbr_inv_def) (simp_all add: maybeAppLimited_def)
  obtain rs b2 where e: "event_rounds acked lost b1 = (rs, b2)" by (cases "event_rounds acked lost b1")
  note b2 = event_rounds_law [OF b1(1,2), of acked lost, unfolded e snd_conv]
  have "sampler_inv (sampler b2)" using b2 by (simp add: bbr_defs)
  from OnCongestionEvent_law [OF this, of acked lost t "bandwidthEstimate b2" infBandwidth "roundTripCount b2"] assms(3)
  obtain ev s where ev: "sampler_OnCongestionEvent t acked lost (bandwidthEstimate b2) infBandwidth
      (roundTripCount b2) (sampler b2) = Some (ev, s)" "sampler_inv s" by (auto simp: event_ok_def)
  let ?ab = "totalBytesAcked (sampler b)" and ?lb = "totalBytesLost (sampler b)"
  have m: "bbr_mid k (b2\<lparr>sampler := s\<rparr>)" using b2 ev(2) by (intro sampler_mid) simp_all
  obtain x b3 where x: "event_sample t ?ab ?lb lost ev (b2\<lparr>sampler := s\<rparr>) = (x, b3)"
    by (cases "event_sample t ?ab ?lb lost ev (b2\<lparr>sampler := s\<rparr>)")
  note b3 = event_sample_law [OF m sampleRtt_range [OF ev(1)], of t ?ab ?lb lost, unfolded x snd_conv]
  define b4 where "b4 = event_modes E t f lost (lastPacketSendState ev) rs x b3"
  have "mode b3 = bbrModeStartup \<longrightarrow> \<not> isAtFullBandwidth b3" using assms(2) b1 b2 b3 by (simp add: bbr_inv_def)
  note b4 = event_modes_law [OF conjunct1 [OF b3] this b4_def]
  define la where "la = i64 (totalBytesLost (sampler b3) - ?lb)"
  define aa where "aa = i64 (totalBytesAcked (sampler b4) - ?ab)"
  have "\<exists>b5. calculatePacingRate E la b4 = Some b5"
    using assms(3,4) b4 b3 b2 b1 by (intro calculatePacingRate_total) (simp_all add: event_ok_def)
  then obtain b5 where b5: "calculatePacingRate E la b4 = Some b5" by blast
  note m5 = calculatePacingRate_mid [OF conjunct1 [OF b4] b5]
  define b6 where "b6 = calculateRecoveryWindow aa la (calculateCongestionWindow E aa (ce_extraAcked ev) b5)"
  note m6 = calculateRecoveryWindow_inv [OF calculateCongestionWindow_mid [OF assms(1) m5, of E aa "ce_extraAcked ev"], of aa la, folded b6_def]
  have "\<exists>n. (if acked \<noteq> [] then Some (i64 (fst (last acked) - 2))
              else if lost \<noteq> [] then Some (i64 (fst (last lost) + 1)) else None) = Some n"
    using assms(3) by (auto simp: event_ok_def)
  then obtain n where n: "(if acked \<noteq> [] then Some (i64 (fst (last acked) - 2))
              else if lost \<noteq> [] then Some (i64 (fst (last lost) + 1)) else None) = Some n" by blast
  have "sampler_inv (sampler b6)" using m6 by (simp add: bbr_defs)
  from RemoveObsoletePackets_law [OF this, of n] obtain s' where
    s': "RemoveObsoletePackets n (sampler b6) = Some s'" "sampler_inv s'" by blast
  define b7 where "b7 = (if rs then b6\<lparr>sampler := s', numLossEventsInRound := 0, bytesLostInRound := 0\<rparr>
      else b6\<lparr>sampler := s'\<rparr>)"
  have "OnCongestionEventEx E f t acked lost b = Some b7"
    unfolding OnCongestionEventEx_def Let_def b1_def [symmetric] e prod.case
    by (simp add: ev(1) x b4_def [symmetric] la_def [symmetric] aa_def [symmetric] b5 b6_def [symmetric] n s'(1) b7_def split del: if_split)
       (simp add: b6_def la_def aa_def b4_def)
  moreover have "bbr_mid k b7" using sampler_mid [OF conjunct1 [OF m6] s'(2)] by (simp add: b7_def) (simp add: bbr_defs)
  moreover have "4 * maxDatagramSize b7 \<le> recoveryWindow b7" "mode b7 = mode b5"
    "isAtFullBandwidth b7 = isAtFullBandwidth b5" "detectOvershooting b7 = detectOvershooting b5"
    "maxDatagramSize b7 = maxDatagramSize b5"
    using m6 by (simp_all add: b7_def) (simp_all add: b6_def)
  ultimately show ?thesis using calculatePacingRate_frame [OF b5] b4 b3 b2 b1 by (simp add: bbr_inv_def)
qed

end
