(* ===== verification/Bbr_Props.thy ===== *)
theory Bbr_Props
  imports Bbr_Laws
begin

text \<open>
  Runs of the BBR sender: any sequence of the calls quic-go makes, and what holds after it.
\<close>

section \<open>The other calls\<close>

lemma bbr_OnPacketSent_law:
  assumes "bbr_inv k b" "pn_ok n" "0 \<le> bytes" "in_i64 (env_MinRTT E)"
  shows "\<exists>b'. bb_OnPacketSent E t f n bytes rt b = Some b' \<and> bbr_inv k b'
    \<and> detectOvershooting b' = detectOvershooting b \<and> maxDatagramSize b' = maxDatagramSize b
    \<and> lastSentTime (bb_pacer b') = t"
proof -
  have v: "values_ok b" using assms(1) by (simp add: bbr_inv_def bbr_mid_def)
  obtain bw where bw: "bandwidthForPacer E b = Some bw" using bandwidthForPacer_range [OF v assms(4)] by blast
  have "sampler_inv (sampler b)" using v by (simp add: values_ok_def)
  from OnPacketSent_law [OF this assms(2), of t bytes f rt] obtain s where
    s: "sampler_OnPacketSent t n bytes f rt (sampler b) = Some s" "sampler_inv s" by blast
  have "pacer_inv (bb_pacer b)" using v by (simp add: values_ok_def)
  note p = SentPacket_inv [OF this assms(3), of "env_consts E" bw t]
  show ?thesis using assms(1) s p by (simp add: bb_OnPacketSent_def bw bbr_inv_def bbr_defs)
qed

lemma mult_bounds:
  fixes x y :: int
  assumes "0 \<le> x" "x \<le> a" "0 \<le> y" "y \<le> c"
  shows "0 \<le> x * y" "x * y \<le> a * c"
  using assms by (auto intro: mult_mono)

lemma scale_exact:
  assumes "0 \<le> n" "n \<le> 2 ^ 20" "size_ok old" "size_ok new"
  shows "scaleByteWindowForDatagramSize (n * old) old new = Some (n * new)"
proof -
  have o: "0 < old" "old \<le> 65535" and w: "0 < new" "new \<le> 65535" using assms by (simp_all add: size_ok_def)
  have a: "0 \<le> n * old" "n * old \<le> 2 ^ 20 * 65535" "0 \<le> n * new" "n * new \<le> 2 ^ 20 * 65535"
    using mult_bounds [OF assms(1,2), of old 65535] mult_bounds [OF assms(1,2), of new 65535] o w by simp_all
  have b: "0 \<le> n * old * new" "n * old * new \<le> 2 ^ 20 * 65535 * 65535"
    using mult_bounds [OF a(1,2), of new 65535] w by simp_all
  have "n * old * new div old = n * new" using o by simp
  then show ?thesis using o w a b by (simp add: scaleByteWindowForDatagramSize_def)
qed

lemma SetMaxDatagramSize_law:
  assumes "consts_ok k" "bbr_inv k b" "maxDatagramSize b \<le> s" "s \<le> 65535"
  shows "\<exists>b'. bb_SetMaxDatagramSize s b = Some b' \<and> bbr_inv k b'
    \<and> detectOvershooting b' = detectOvershooting b \<and> maxDatagramSize b' = s
    \<and> isAtFullBandwidth b' = isAtFullBandwidth b"
proof -
  let ?P = "MaxCongestionWindowPackets k" and ?m = "maxDatagramSize b"
  have w: "windows_ok k b" and m: "size_ok ?m" "size_ok s"
    using assms by (simp_all add: bbr_inv_def bbr_defs size_ok_def)
  have P: "32 \<le> ?P" "?P \<le> 2 ^ 20" using assms(1) by (simp_all add: consts_ok_def)
  define c where "c = b\<lparr>maxDatagramSize := s, initialCongestionWindow := 32 * s, maxCongestionWindow := ?P * s,
      minCongestionWindow := 4 * s, cwndToCalculateMinPacingRate := 32 * s,
      maxCongestionWindowWithNetworkParametersAdjusted := ?P * s\<rparr>"
  have c: "rescalePacketSizedWindows s b = Some c"
    using w m P scale_exact [of 32 ?m s] scale_exact [of ?P ?m s]
    by (simp add: rescalePacketSizedWindows_def windows_ok_def c_def minCongestionWindowForMaxDatagramSize_def
          minCongestionWindowPackets_def size_ok_def)
  have s: "4 * s \<le> ?P * s" "32 * s \<le> ?P * s" "4 * s \<le> 32 * s"
    using P m by (simp_all add: size_ok_def)
  define v where "v = (if congestionWindow b = minCongestionWindow b then 4 * s
      else if congestionWindow b = initialCongestionWindow b then 32 * s
      else min (?P * s) (max (congestionWindow b) (4 * s)))"
  have v: "4 * s \<le> v" "v \<le> ?P * s" using s by (simp_all add: v_def)
  define r where "r = min (?P * s) (max (recoveryWindow b) (4 * s))"
  have r: "4 * s \<le> r" using s by (simp add: r_def)
  have f: "congestionWindow c = congestionWindow b" "minCongestionWindow c = 4 * s" "initialCongestionWindow c = 32 * s"
    "maxCongestionWindow c = ?P * s" "recoveryWindow c = recoveryWindow b" "bb_pacer c = bb_pacer b"
    by (simp_all add: c_def)
  have e: "bb_SetMaxDatagramSize s b
      = Some (c\<lparr>congestionWindow := v, recoveryWindow := r, bb_pacer := pc_SetMaxDatagramSize s (bb_pacer b)\<rparr>)"
    unfolding bb_SetMaxDatagramSize_def if_not_P [OF leD [OF assms(3)]] c Option.bind.bind_lunit Let_def f v_def r_def by (rule refl)
  have "pacer_inv (pc_SetMaxDatagramSize s (bb_pacer b))"
    using assms(2) m by (simp add: bbr_inv_def bbr_defs pacer_inv_def pc_SetMaxDatagramSize_def)
  then show ?thesis using e assms(2) v r m
    by (simp add: c_def bbr_inv_def bbr_defs pc_SetMaxDatagramSize_def)
qed

lemma NewBbrSender_inv:
  assumes "consts_ok k" "0 < mds" "mds \<le> InitialPacketSize k"
  shows "bbr_inv k (NewBbrSender k mds profile)"
    "maxDatagramSize (NewBbrSender k mds profile) = mds"
    "detectOvershooting (NewBbrSender k mds profile) \<longleftrightarrow> profile = ''conservative''"
    "mode (NewBbrSender k mds profile) = bbrModeStartup"
proof -
  have m: "size_ok mds" using assms by (simp add: consts_ok_def size_ok_def)
  have P: "32 * mds \<le> MaxCongestionWindowPackets k * mds" "MaxCongestionWindowPackets k * mds \<le> 2 ^ 20 * 65535"
    using assms(1) m mult_bounds(2) [of "MaxCongestionWindowPackets k" "2 ^ 20" mds 65535]
    by (simp_all add: consts_ok_def size_ok_def)
  have sampler: "sampler_inv (EnableOverestimateAvoidance (newBandwidthSampler w))" for w
    using sampler_inv_new [of w] by (simp add: sampler_inv_def EnableOverestimateAvoidance_def)
  have red: "sampler_inv s \<Longrightarrow> sampler_inv (SetReduceExtraAckedOnBandwidthIncrease v s)" for s v
    by (simp add: sampler_inv_def SetReduceExtraAckedOnBandwidthIncrease_def)
  have win: "i64 (32 * mds) = 32 * mds" "i64 (MaxCongestionWindowPackets k * mds) = MaxCongestionWindowPackets k * mds"
    "i64 (4 * mds) = 4 * mds"
  proof -
    have "0 < mds" "mds \<le> 65535" using m by (simp_all add: size_ok_def)
    moreover have "i64 x = x" if "0 \<le> x" "x \<le> 2 ^ 20 * 65535" for x using that by simp
    moreover have "0 \<le> MaxCongestionWindowPackets k * mds" using P(1) \<open>0 < mds\<close> by linarith
    ultimately show "i64 (32 * mds) = 32 * mds" "i64 (4 * mds) = 4 * mds"
      "i64 (MaxCongestionWindowPackets k * mds) = MaxCongestionWindowPackets k * mds"
      using P(2) by simp_all
  qed
  note new = NewBbrSender_def newBbrSender_def enterStartupMode_def applyProfile_def Let_def
  show "maxDatagramSize (NewBbrSender k mds profile) = mds"
    "detectOvershooting (NewBbrSender k mds profile) \<longleftrightarrow> profile = ''conservative''"
    "mode (NewBbrSender k mds profile) = bbrModeStartup"
    by (simp_all add: new configForProfile_def)
  show "bbr_inv k (NewBbrSender k mds profile)"
    using assms m P NewPacer_inv [of k] sampler red sampler_inv_new
    by (simp add: new bbr_inv_def bbr_defs win initialCongestionWindowPackets_def minCongestionWindowPackets_def
          minCongestionWindowForMaxDatagramSize_def consts_ok_def NewPacer_def size_ok_def)
qed


section \<open>Runs\<close>

datatype bbr_op =
    BSent bbr_env int int int int bool
  | BEvent bbr_env int int "(int \<times> int) list" "(int \<times> int) list"
  | BMtu int

fun bbr_do :: "bbr_op \<Rightarrow> bbr_sender \<Rightarrow> bbr_sender option" where
  "bbr_do (BSent E t f n bytes rt) b = bb_OnPacketSent E t f n bytes rt b"
| "bbr_do (BEvent E f t acked lost) b = OnCongestionEventEx E f t acked lost b"
| "bbr_do (BMtu s) b = bb_SetMaxDatagramSize s b"

primrec bbr_run :: "bbr_op list \<Rightarrow> bbr_sender \<Rightarrow> bbr_sender option" where
  "bbr_run [] b = Some b"
| "bbr_run (a # as) b = Option.bind (bbr_do a b) (bbr_run as)"

text \<open>
  What quic-go keeps to: packet numbers in range, events that name a packet, a datagram size
  that never shrinks. With the conservative profile, which divides by it, the least round-trip
  time is known when an event arrives.
\<close>

fun bbr_op_ok :: "bool \<Rightarrow> int \<Rightarrow> bbr_op \<Rightarrow> bool" where
  "bbr_op_ok cons mds (BSent E t f n bytes rt) = (pn_ok n \<and> 0 \<le> bytes \<and> in_i64 (env_MinRTT E))"
| "bbr_op_ok cons mds (BEvent E f t acked lost) = (event_ok E acked lost \<and> (cons \<longrightarrow> env_MinRTT E \<noteq> 0))"
| "bbr_op_ok cons mds (BMtu s) = (mds \<le> s \<and> s \<le> 65535)"

fun mtu_after :: "int \<Rightarrow> bbr_op \<Rightarrow> int" where
  "mtu_after mds (BMtu s) = s"
| "mtu_after mds _ = mds"

fun bbr_ops_ok :: "bool \<Rightarrow> int \<Rightarrow> bbr_op list \<Rightarrow> bool" where
  "bbr_ops_ok cons mds [] = True"
| "bbr_ops_ok cons mds (a # as) = (bbr_op_ok cons mds a \<and> bbr_ops_ok cons (mtu_after mds a) as)"

definition bbr_at :: "quic_consts \<Rightarrow> bool \<Rightarrow> int \<Rightarrow> bbr_sender \<Rightarrow> bool" where
  "bbr_at k cons mds b \<longleftrightarrow> bbr_inv k b \<and> (detectOvershooting b \<longrightarrow> cons) \<and> maxDatagramSize b = mds"

lemma bbr_do_law:
  assumes "consts_ok k" "bbr_at k cons mds b" "bbr_op_ok cons mds a"
  shows "\<exists>b'. bbr_do a b = Some b' \<and> bbr_at k cons (mtu_after mds a) b'
    \<and> (isAtFullBandwidth b \<longrightarrow> isAtFullBandwidth b')"
proof (cases a)
  case (BSent E t f n bytes rt)
  with assms bbr_OnPacketSent_law [of k b n bytes E t f rt] obtain b' where b':
    "bb_OnPacketSent E t f n bytes rt b = Some b'" "bbr_at k cons mds b'" by (auto simp: bbr_at_def)
  moreover from b'(1) have "isAtFullBandwidth b' = isAtFullBandwidth b"
    by (auto simp: bb_OnPacketSent_def bind_eq_Some_conv)
  ultimately show ?thesis using BSent by simp
next
  case (BEvent E f t acked lost)
  with assms OnCongestionEventEx_law [of k b E acked lost f t] show ?thesis by (auto simp: bbr_at_def)
next
  case (BMtu s)
  with assms SetMaxDatagramSize_law [of k b s] obtain b' where b':
    "bb_SetMaxDatagramSize s b = Some b'" "bbr_at k cons s b'" "isAtFullBandwidth b' = isAtFullBandwidth b"
    by (auto simp: bbr_at_def)
  then show ?thesis using BMtu by simp
qed

lemma bbr_run_law:
  "consts_ok k \<Longrightarrow> bbr_at k cons mds b \<Longrightarrow> bbr_ops_ok cons mds as \<Longrightarrow>
   \<exists>b' mds'. bbr_run as b = Some b' \<and> bbr_at k cons mds' b' \<and> (isAtFullBandwidth b \<longrightarrow> isAtFullBandwidth b')"
proof (induction as arbitrary: b mds)
  case (Cons a as)
  from Cons.prems bbr_do_law [of k cons mds b a] obtain b1 where
    b1: "bbr_do a b = Some b1" "bbr_at k cons (mtu_after mds a) b1" "isAtFullBandwidth b \<longrightarrow> isAtFullBandwidth b1" by auto
  with Cons.IH [OF Cons.prems(1) b1(2)] Cons.prems(3) show ?case by auto
qed auto

lemma bbr_run_append: "bbr_run (as @ cs) b = Option.bind (bbr_run as b) (bbr_run cs)"
  by (induction as arbitrary: b) (auto split: bind_split)

lemma bbr_ops_ok_append:
  "bbr_ops_ok cons mds (as @ cs) \<longleftrightarrow> bbr_ops_ok cons mds as \<and> bbr_ops_ok cons (foldl mtu_after mds as) cs"
  by (induction as arbitrary: mds) auto

lemma bbr_run_mtu:
  "consts_ok k \<Longrightarrow> bbr_at k cons mds b \<Longrightarrow> bbr_ops_ok cons mds as \<Longrightarrow> bbr_run as b = Some b' \<Longrightarrow>
   bbr_at k cons (foldl mtu_after mds as) b'"
proof (induction as arbitrary: b mds)
  case (Cons a as)
  from Cons.prems bbr_do_law [of k cons mds b a] obtain b1 where
    "bbr_do a b = Some b1" "bbr_at k cons (mtu_after mds a) b1" by auto
  with Cons show ?case by auto
qed auto

lemma bbr_new_at:
  assumes "consts_ok k" "0 < mds" "mds \<le> InitialPacketSize k"
  shows "bbr_at k (profile = ''conservative'') mds (NewBbrSender k mds profile)"
  using NewBbrSender_inv [OF assms, of profile] by (simp add: bbr_at_def)

lemma bbr_at_window:
  assumes "consts_ok k" "bbr_inv k b"
  shows "4 * maxDatagramSize b \<le> GetCongestionWindow b"
    "GetCongestionWindow b \<le> MaxCongestionWindowPackets k * maxDatagramSize b"
proof -
  have "4 * maxDatagramSize b \<le> MaxCongestionWindowPackets k * maxDatagramSize b"
    using windows_of_mid(3) [OF assms(1)] assms(2) by (simp add: bbr_inv_def)
  then show "4 * maxDatagramSize b \<le> GetCongestionWindow b"
    "GetCongestionWindow b \<le> MaxCongestionWindowPackets k * maxDatagramSize b"
    using assms(2) by (simp_all add: bbr_inv_def bbr_defs GetCongestionWindow_def probeRttCongestionWindow_def min_le_iff_disj)
qed

interpretation bbr: paced_sender "bbr_inv k" "\<lambda>E. in_i64 (env_MinRTT E)" env_consts bandwidthForPacer bb_pacer maxDatagramSize
  for k
proof unfold_locales
  show "\<exists>bw. bandwidthForPacer E b = Some bw \<and> 0 < bw \<and> bw < 2 ^ 62"
    if "bbr_inv k b" "in_i64 (env_MinRTT E)" for E b
    using bandwidthForPacer_range [OF _ that(2), of b] that(1) by (auto simp: bbr_inv_def bbr_mid_def minBps_def)
qed (simp_all add: bbr_inv_def bbr_mid_def values_ok_def)


section \<open>Properties\<close>

text \<open>
  C15: the congestion window stays in its limits. Every sequence of calls quic-go makes, on a
  fresh sender of any profile, returns without a panic, and after it the window that gates
  sending is at least four and at most the maximal number of datagrams, in every mode and
  through loss recovery, so the connection never starves and never runs away.
\<close>

theorem bbr_window_bounded:
  assumes "consts_ok k" "0 < mds" "mds \<le> InitialPacketSize k"
    and "bbr_ops_ok (profile = ''conservative'') mds as"
  shows "\<exists>b. bbr_run as (NewBbrSender k mds profile) = Some b
    \<and> maxDatagramSize b = foldl mtu_after mds as
    \<and> 4 * maxDatagramSize b \<le> GetCongestionWindow b
    \<and> GetCongestionWindow b \<le> MaxCongestionWindowPackets k * maxDatagramSize b
    \<and> (\<forall>f. f < 4 * maxDatagramSize b \<longrightarrow> CanSend f b)"
proof -
  note at = bbr_new_at [OF assms(1-3), of profile]
  from bbr_run_law [OF assms(1) at assms(4)] obtain b where
    b: "bbr_run as (NewBbrSender k mds profile) = Some b" by blast
  with bbr_run_mtu [OF assms(1) at assms(4)] have inv: "bbr_inv k b" and m: "maxDatagramSize b = foldl mtu_after mds as"
    by (simp_all add: bbr_at_def)
  note w = bbr_at_window [OF assms(1) inv]
  have "\<forall>f. f < 4 * maxDatagramSize b \<longrightarrow> CanSend f b" using w(1) by (auto simp: CanSend_def)
  with b m w show ?thesis by blast
qed

definition example_quic :: quic_consts where
  "example_quic = \<lparr>InitialPacketSize = 1280, MinInitialPacketSize = 1200, MaxPacketBufferSize = 1452,
     MaxCongestionWindowPackets = 10000, MinPacingDelay = 1000000\<rparr>"

definition example_env :: bbr_env where
  "example_env = \<lparr>env_consts = example_quic, env_MinRTT = 20000000, env_Int31n = 3, env_oor = (\<lambda>_. 0)\<rparr>"

definition example_ops :: "bbr_op list" where
  "example_ops = [BSent example_env 5 0 1 1200 True, BEvent example_env 1200 20000005 [(1, 1200)] [], BMtu 1400]"

lemma example_ops_ok: "consts_ok example_quic" "bbr_ops_ok cons 1280 example_ops"
  by (simp_all add: example_quic_def consts_ok_def size_ok_def example_ops_def example_env_def pn_ok_def
        event_ok_def pkts_ok_def)

theorem bbr_window_bounded_witness:
  "\<exists>b. bbr_run example_ops (NewBbrSender example_quic 1280 ''standard'') = Some b
    \<and> 4 * maxDatagramSize b \<le> GetCongestionWindow b \<and> maxDatagramSize b = 1400"
proof -
  have "0 < (1280 :: int)" "1280 \<le> InitialPacketSize example_quic" by (simp_all add: example_quic_def)
  from bbr_window_bounded [OF example_ops_ok(1) this example_ops_ok(2)] show ?thesis
    by (auto simp: example_ops_def)
qed

text \<open>
  C26: the mode machine. In every reachable state a congestion event moves the mode along the
  edges of the BBR state machine only: startup ends in drain, drain in the bandwidth probe, both
  at full bandwidth only; the probe of the round-trip time can interrupt any mode and leads back
  to startup before full bandwidth and to the bandwidth probe after it. Full bandwidth, once
  reached, is never lost, and from then on the sender is never in startup again.
\<close>

theorem bbr_mode_machine:
  assumes "consts_ok k" "0 < mds" "mds \<le> InitialPacketSize k"
    and "bbr_ops_ok (profile = ''conservative'') mds (as @ BEvent E f t acked lost # cs)"
    and "bbr_run as (NewBbrSender k mds profile) = Some b"
    and "OnCongestionEventEx E f t acked lost b = Some b'" "bbr_run cs b' = Some b''"
  shows "mode_run (isAtFullBandwidth b') (mode b) (mode b')
    \<and> (mode b' = bbrModeDrain \<or> mode b' = bbrModeProbeBw \<longrightarrow> isAtFullBandwidth b')
    \<and> (InRecovery b' \<longrightarrow> isAtFullBandwidth b')
    \<and> (isAtFullBandwidth b' \<longrightarrow> isAtFullBandwidth b'' \<and> mode b'' \<noteq> bbrModeStartup)"
proof -
  note at = bbr_new_at [OF assms(1-3), of profile]
  let ?m = "foldl mtu_after mds as"
  have ok: "bbr_ops_ok (profile = ''conservative'') mds as" "bbr_op_ok (profile = ''conservative'') ?m (BEvent E f t acked lost)"
    "bbr_ops_ok (profile = ''conservative'') ?m cs" using assms(4) by (simp_all add: bbr_ops_ok_append)
  note b = bbr_run_mtu [OF assms(1) at ok(1) assms(5)]
  have b1: "bbr_at k (profile = ''conservative'') ?m b'" using bbr_do_law [OF assms(1) b ok(2)] assms(6) by auto
  have run: "mode_run (isAtFullBandwidth b') (mode b) (mode b')"
    using OnCongestionEventEx_law [OF assms(1), of b E acked lost f t] b ok(2) assms(6) by (auto simp: bbr_at_def)
  from bbr_run_law [OF assms(1) b1 ok(3)] assms(7) obtain m' where
    b2: "bbr_at k (profile = ''conservative'') m' b''" "isAtFullBandwidth b' \<longrightarrow> isAtFullBandwidth b''" by auto
  show ?thesis using run b1 b2 by (auto simp: bbr_at_def bbr_inv_def bbr_mid_def modes_ok_def)
qed

theorem bbr_mode_machine_witness:
  "\<exists>b b'. bbr_run [BSent example_env 5 0 1 1200 True] (NewBbrSender example_quic 1280 ''standard'') = Some b
     \<and> OnCongestionEventEx example_env 1200 20000005 [(1, 1200)] [] b = Some b'
     \<and> mode_run (isAtFullBandwidth b') (mode b) (mode b')"
proof -
  let ?new = "NewBbrSender example_quic 1280 ''standard''"
  have c: "0 < (1280 :: int)" "1280 \<le> InitialPacketSize example_quic" by (simp_all add: example_quic_def)
  have ok: "bbr_ops_ok (''standard'' = ''conservative'') 1280 example_ops" by (rule example_ops_ok)
  from bbr_run_law [OF example_ops_ok(1) bbr_new_at [OF example_ops_ok(1) c] ok]
  obtain e where "bbr_run example_ops ?new = Some e" by blast
  then obtain b b' where r: "bbr_run [BSent example_env 5 0 1 1200 True] ?new = Some b"
    "OnCongestionEventEx example_env 1200 20000005 [(1, 1200)] [] b = Some b'" "bbr_run [BMtu 1400] b' = Some e"
    by (auto simp: example_ops_def bind_eq_Some_conv)
  have "mode_run (isAtFullBandwidth b') (mode b) (mode b')"
    using bbr_mode_machine [OF example_ops_ok(1) c _ r] ok by (simp add: example_ops_def)
  with r show ?thesis by blast
qed

text \<open>
  C32: the send loop never gets stuck. In every reachable state of the BBR sender the pacer has a
  bandwidth of at least 64 KiB/s, \<open>TimeUntilSend\<close> returns, and at the time it returns, or at once
  when that is zero, \<open>HasPacingBudget\<close> is true, unless the rate changes in between.
\<close>

theorem bbr_never_stuck:
  assumes "consts_ok k" "0 < mds" "mds \<le> InitialPacketSize k"
    and "bbr_ops_ok (profile = ''conservative'') mds as" "bbr_run as (NewBbrSender k mds profile) = Some b"
    and "in_i64 (env_MinRTT E)" "env_consts E = k"
    and "0 < lastSentTime (bb_pacer b)" "lastSentTime (bb_pacer b) < 2 ^ 61"
    and "0 \<le> MinPacingDelay k" "MinPacingDelay k < 2 ^ 61"
    and "\<forall>bw. bandwidthForPacer E b = Some bw \<longrightarrow> bw * MinPacingDelay k < 2 ^ 63"
  shows "\<exists>t bw. bandwidthForPacer E b = Some bw \<and> minBps \<le> bw \<and> bb_TimeUntilSend E b = Some t
    \<and> bb_HasPacingBudget E (if t = 0 then lastSentTime (bb_pacer b) else t) b = Some True"
proof -
  have inv: "bbr_inv k b"
    using bbr_run_mtu [OF assms(1) bbr_new_at [OF assms(1-3)] assms(4,5)] by (simp add: bbr_at_def)
  then have "values_ok b" by (simp add: bbr_inv_def bbr_mid_def)
  from bandwidthForPacer_range [OF this assms(6)] obtain bw where
    bw: "bandwidthForPacer E b = Some bw" "minBps \<le> bw" by blast
  have "\<exists>t. bbr.wake_up E b = Some t \<and> bbr.has_budget E (if t = 0 then lastSentTime (bb_pacer b) else t) b = Some True"
    by (rule bbr.never_stuck [OF inv]) (use assms in auto)
  then show ?thesis using bw
    by (simp add: bbr.wake_up_def bbr.has_budget_def bb_TimeUntilSend_def bb_HasPacingBudget_def)
qed


theorem bbr_never_stuck_witness:
  "\<exists>b t. bbr_run [BSent (example_env\<lparr>env_consts := example_quic\<lparr>MinPacingDelay := 1\<rparr>\<rparr>) 5 0 1 1200 True]
        (NewBbrSender (example_quic\<lparr>MinPacingDelay := 1\<rparr>) 1280 ''standard'') = Some b
     \<and> bb_HasPacingBudget (example_env\<lparr>env_consts := example_quic\<lparr>MinPacingDelay := 1\<rparr>\<rparr>) t b = Some True"
proof -
  let ?k = "example_quic\<lparr>MinPacingDelay := 1\<rparr>"
  let ?E = "example_env\<lparr>env_consts := ?k\<rparr>" and ?new = "NewBbrSender ?k 1280 ''standard''"
  have k: "consts_ok ?k" "0 < (1280 :: int)" "1280 \<le> InitialPacketSize ?k"
    by (simp_all add: consts_ok_def size_ok_def example_quic_def)
  have E: "in_i64 (env_MinRTT ?E)" "env_consts ?E = ?k" by (simp_all add: example_env_def)
  have ok: "bbr_ops_ok (''standard'' = ''conservative'') 1280 [BSent ?E 5 0 1 1200 True]"
    using E by (simp add: pn_ok_def)
  have inv: "bbr_inv ?k ?new" by (rule NewBbrSender_inv [OF k])
  obtain b where b: "bb_OnPacketSent ?E 5 0 1 1200 True ?new = Some b" "bbr_inv ?k b" "lastSentTime (bb_pacer b) = 5"
    using bbr_OnPacketSent_law [OF inv, of 1 1200 ?E 5 0 True] E by (auto simp: pn_ok_def)
  then have run: "bbr_run [BSent ?E 5 0 1 1200 True] ?new = Some b" by simp
  have v: "values_ok b" using b(2) by (simp add: bbr_inv_def bbr_mid_def)
  have "\<forall>bw. bandwidthForPacer ?E b = Some bw \<longrightarrow> bw * MinPacingDelay ?k < 2 ^ 63"
    using bandwidthForPacer_range [OF v E(1)] by auto
  from bbr_never_stuck [OF k ok run E _ _ _ _ this] b(1,3) show ?thesis by auto
qed

end
