(* ===== verification/Brutal.thy ===== *)
theory Brutal
  imports Go_Float Pacer
begin

text \<open>
  The Brutal congestion controller of \<open>internal/congestion/brutal/brutal.go\<close>: it sends at a
  configured rate and raises it by the ack rate it measures over the last seconds. A panic is
  \<open>None\<close>; the debug output is left out. The smoothed round-trip time is an argument.
\<close>

section \<open>The sender\<close>

record pkt_info =
  Timestamp :: int
  AckCount :: int
  LossCount :: int

record brutal_sender =
  bps :: int
  br_maxDatagramSize :: int
  br_pacer :: pacer
  pktInfoSlots :: "pkt_info list"
  ackRate :: rat
  disableLossCompensation :: bool

definition pktInfoSlotCount :: nat where "pktInfoSlotCount = 5"

definition minSampleCount :: int where "minSampleCount = 50"

definition minAckRate :: rat where "minAckRate = f64 (8 / 10)"

definition zero_pkt_info :: pkt_info where
  "zero_pkt_info = \<lparr>Timestamp = 0, AckCount = 0, LossCount = 0\<rparr>"

definition NewBrutalSender :: "quic_consts \<Rightarrow> int \<Rightarrow> bool \<Rightarrow> brutal_sender" where
  "NewBrutalSender k rate d =
     \<lparr>bps = i64 rate, br_maxDatagramSize = InitialPacketSize k, br_pacer = NewPacer k,
      pktInfoSlots = replicate pktInfoSlotCount zero_pkt_info, ackRate = 1, disableLossCompensation = d\<rparr>"

text \<open>The callback the pacer gets.\<close>

definition br_bandwidth :: "brutal_sender \<Rightarrow> int" where
  "br_bandwidth b = f64_to_i64 (f64 (f64 (of_int (bps b)) / ackRate b))"

definition br_TimeUntilSend :: "quic_consts \<Rightarrow> brutal_sender \<Rightarrow> int option" where
  "br_TimeUntilSend k b = TimeUntilSend k (br_bandwidth b) (br_pacer b)"

definition br_HasPacingBudget :: "quic_consts \<Rightarrow> int \<Rightarrow> brutal_sender \<Rightarrow> bool" where
  "br_HasPacingBudget k t b \<longleftrightarrow> Budget k (br_bandwidth b) t (br_pacer b) \<ge> br_maxDatagramSize b"

definition br_GetCongestionWindow :: "int \<Rightarrow> brutal_sender \<Rightarrow> int" where
  "br_GetCongestionWindow rtt b =
     (if rtt \<le> 0 then 10240
      else let cwnd = f64_to_i64 (f64 (f64 (f64 (f64 (of_int (bps b)) * Seconds rtt) * 2) / ackRate b))
           in if cwnd < br_maxDatagramSize b then br_maxDatagramSize b else cwnd)"

definition br_CanSend :: "int \<Rightarrow> int \<Rightarrow> brutal_sender \<Rightarrow> bool" where
  "br_CanSend rtt inFlight b \<longleftrightarrow> inFlight \<le> br_GetCongestionWindow rtt b"

definition br_OnPacketSent :: "quic_consts \<Rightarrow> int \<Rightarrow> int \<Rightarrow> brutal_sender \<Rightarrow> brutal_sender" where
  "br_OnPacketSent k t bytes b = b\<lparr>br_pacer := SentPacket k (br_bandwidth b) t bytes (br_pacer b)\<rparr>"

definition br_SetMaxDatagramSize :: "int \<Rightarrow> brutal_sender \<Rightarrow> brutal_sender" where
  "br_SetMaxDatagramSize s b =
     b\<lparr>br_maxDatagramSize := s, br_pacer := pc_SetMaxDatagramSize s (br_pacer b)\<rparr>"

text \<open>The loop of \<open>updateAckRate\<close> over the slots.\<close>

fun count_slots :: "int \<Rightarrow> pkt_info list \<Rightarrow> int \<times> int \<Rightarrow> int \<times> int" where
  "count_slots minTimestamp [] c = c"
| "count_slots minTimestamp (i # is) (a, l) =
     count_slots minTimestamp is
       (if Timestamp i < minTimestamp then (a, l) else (u64 (a + AckCount i), u64 (l + LossCount i)))"

definition updateAckRate :: "int \<Rightarrow> brutal_sender \<Rightarrow> brutal_sender" where
  "updateAckRate currentTimestamp b =
     (if disableLossCompensation b then b\<lparr>ackRate := 1\<rparr>
      else let minTimestamp = i64 (currentTimestamp - int pktInfoSlotCount);
               (ackCount, lossCount) = count_slots minTimestamp (pktInfoSlots b) (0, 0)
           in if u64 (ackCount + lossCount) < minSampleCount then b\<lparr>ackRate := 1\<rparr>
              else let rate = f64 (f64 (of_int ackCount) / f64 (of_int (u64 (ackCount + lossCount))))
                   in if rate < minAckRate then b\<lparr>ackRate := minAckRate\<rparr> else b\<lparr>ackRate := rate\<rparr>)"

text \<open>The index of a slot is negative for a time before the clock's start, where the source panics.\<close>

definition br_OnCongestionEventEx :: "int \<Rightarrow> nat \<Rightarrow> nat \<Rightarrow> brutal_sender \<Rightarrow> brutal_sender option" where
  "br_OnCongestionEventEx eventTime acked lost b =
     (let currentTimestamp = quo eventTime 1000000000;
          slot = currentTimestamp - quo currentTimestamp 5 * 5
      in if slot < 0 then None
         else let s = pktInfoSlots b ! nat slot;
                  s' = (if Timestamp s = currentTimestamp
                        then s\<lparr>LossCount := u64 (LossCount s + int lost), AckCount := u64 (AckCount s + int acked)\<rparr>
                        else \<lparr>Timestamp = currentTimestamp, AckCount = int acked, LossCount = int lost\<rparr>)
              in Some (updateAckRate currentTimestamp (b\<lparr>pktInfoSlots := (pktInfoSlots b)[nat slot := s']\<rparr>)))"


section \<open>The slots hold the last five seconds\<close>

text \<open>The history of events as the seconds they fell in, with the packets acknowledged and lost.\<close>

type_synonym history = "(int \<times> int \<times> int) list"

definition acks_at :: "history \<Rightarrow> int \<Rightarrow> int" where
  "acks_at h t = (\<Sum>(s, a, l)\<leftarrow>h. if s = t then a else 0)"

definition losses_at :: "history \<Rightarrow> int \<Rightarrow> int" where
  "losses_at h t = (\<Sum>(s, a, l)\<leftarrow>h. if s = t then l else 0)"

lemmas history_simps [simp] =
  acks_at_def [of "[]"] losses_at_def [of "[]"]

lemma at_snoc [simp]:
  "acks_at (h @ [(s, a, l)]) t = acks_at h t + (if s = t then a else 0)"
  "losses_at (h @ [(s, a, l)]) t = losses_at h t + (if s = t then l else 0)"
  by (simp_all add: acks_at_def losses_at_def)

lemma at_none: "(\<forall>(s, a, l) \<in> set h. s \<noteq> t) \<Longrightarrow> acks_at h t = 0 \<and> losses_at h t = 0"
  by (induction h) (auto simp: acks_at_def losses_at_def)

definition slot_ok :: "history \<Rightarrow> int \<Rightarrow> nat \<Rightarrow> pkt_info \<Rightarrow> bool" where
  "slot_ok h cur i s \<longleftrightarrow>
     s = zero_pkt_info \<and> (\<forall>(t, a, l) \<in> set h. t mod 5 \<noteq> int i)
     \<or> Timestamp s mod 5 = int i \<and> Timestamp s \<le> cur
       \<and> AckCount s = acks_at h (Timestamp s) \<and> LossCount s = losses_at h (Timestamp s)
       \<and> (\<forall>(t, a, l) \<in> set h. t mod 5 = int i \<longrightarrow> t \<le> Timestamp s)"

definition slots_ok :: "history \<Rightarrow> int \<Rightarrow> pkt_info list \<Rightarrow> bool" where
  "slots_ok h cur ss \<longleftrightarrow> length ss = 5 \<and> (\<forall>i < 5. slot_ok h cur i (ss ! i))"

definition hist_total :: "history \<Rightarrow> int" where
  "hist_total h = (\<Sum>(s, a, l)\<leftarrow>h. a + l)"

definition hist_ok :: "history \<Rightarrow> int \<Rightarrow> bool" where
  "hist_ok h cur \<longleftrightarrow> (\<forall>(t, a, l) \<in> set h. 0 \<le> t \<and> t \<le> cur \<and> 0 \<le> a \<and> 0 \<le> l) \<and> hist_total h < 2 ^ 64"

lemma at_bounds:
  "(\<forall>(t, a, l) \<in> set h. 0 \<le> a \<and> 0 \<le> l) \<Longrightarrow>
   0 \<le> acks_at h t \<and> 0 \<le> losses_at h t \<and> acks_at h t + losses_at h t \<le> hist_total h"
  by (induction h) (auto simp: acks_at_def losses_at_def hist_total_def)

text \<open>Adding an event to its slot.\<close>

lemma slot_add:
  assumes "slots_ok h prev ss" "hist_ok (h @ [(cur, a, l)]) cur" "0 \<le> cur" "prev \<le> cur" "s = ss ! nat (cur mod 5)"
    and "s' = (if Timestamp s = cur then s\<lparr>LossCount := u64 (LossCount s + l), AckCount := u64 (AckCount s + a)\<rparr>
               else \<lparr>Timestamp = cur, AckCount = a, LossCount = l\<rparr>)"
  shows "slots_ok (h @ [(cur, a, l)]) cur (ss[nat (cur mod 5) := s'])"
proof -
  let ?h = "h @ [(cur, a, l)]" and ?i = "nat (cur mod 5)"
  have i: "?i < 5" "int ?i = cur mod 5" by simp_all
  have old: "slot_ok h prev j (ss ! j)" if "j < 5" for j using assms(1) that by (simp add: slots_ok_def)
  have nn: "\<forall>(t, a, l) \<in> set ?h. 0 \<le> a \<and> 0 \<le> l" using assms(2) by (auto simp: hist_ok_def)
  have tot: "acks_at ?h t + losses_at ?h t < 2 ^ 64" "0 \<le> acks_at ?h t" "0 \<le> losses_at ?h t" for t
    using at_bounds [OF nn, of t] assms(2) by (simp_all add: hist_ok_def)
  have other: "slot_ok ?h cur j (ss ! j)" if "j < 5" "j \<noteq> ?i" for j
  proof -
    have "cur mod 5 \<noteq> int j" using that i by auto
    then show ?thesis using old [OF that(1)] assms(4) by (auto simp: slot_ok_def)
  qed
  have cur: "Timestamp s = cur \<and> AckCount s = acks_at h cur \<and> LossCount s = losses_at h cur
      \<or> Timestamp s \<noteq> cur \<and> acks_at h cur = 0 \<and> losses_at h cur = 0"
  proof -
    have none: "acks_at h cur = 0 \<and> losses_at h cur = 0" if "\<forall>(t, a, l) \<in> set h. t \<noteq> cur" using that by (rule at_none)
    from old [OF i(1)] consider "s = zero_pkt_info" "\<forall>(t, a, l) \<in> set h. t mod 5 \<noteq> cur mod 5"
      | "Timestamp s \<le> prev" "AckCount s = acks_at h (Timestamp s)" "LossCount s = losses_at h (Timestamp s)"
        "\<forall>(t, a, l) \<in> set h. t mod 5 = cur mod 5 \<longrightarrow> t \<le> Timestamp s"
      unfolding slot_ok_def assms(5) i(2) by blast
    then show ?thesis
    proof cases
      case 1
      then have "acks_at h cur = 0 \<and> losses_at h cur = 0" by (intro none) auto
      with 1 show ?thesis by (auto simp: zero_pkt_info_def)
    next
      case 2
      show ?thesis
      proof (cases "Timestamp s = cur")
        case False
        with 2 assms(4) have "acks_at h cur = 0 \<and> losses_at h cur = 0" by (intro none) fastforce
        with False show ?thesis by simp
      qed (use 2 in auto)
    qed
  qed
  have "slot_ok ?h cur ?i s'"
  proof -
    have "Timestamp s' = cur" using assms(6) by simp
    moreover have "AckCount s' = acks_at ?h cur" "LossCount s' = losses_at ?h cur"
      using cur tot [of cur] assms(6) by auto
    moreover have "\<forall>(t, a, l) \<in> set ?h. t \<le> cur" using assms(2) by (auto simp: hist_ok_def)
    ultimately show ?thesis using i unfolding slot_ok_def by auto
  qed
  then show ?thesis using other assms(1) i(1) by (auto simp: slots_ok_def nth_list_update)
qed


text \<open>The counts of the last five seconds, and the second of that window a slot stands for.\<close>

definition recent_acks :: "history \<Rightarrow> int \<Rightarrow> int" where
  "recent_acks h cur = (\<Sum>(s, a, l)\<leftarrow>h. if cur - 5 < s then a else 0)"

definition recent_losses :: "history \<Rightarrow> int \<Rightarrow> int" where
  "recent_losses h cur = (\<Sum>(s, a, l)\<leftarrow>h. if cur - 5 < s then l else 0)"

definition second_of :: "int \<Rightarrow> nat \<Rightarrow> int" where
  "second_of cur i = cur - (cur - int i) mod 5"

lemma second_of_iff:
  assumes "i < 5" "s \<le> cur"
  shows "s = second_of cur i \<longleftrightarrow> cur - 5 < s \<and> s mod 5 = int i"
proof
  assume s: "s = second_of cur i"
  have "(cur - (cur - int i) mod 5) mod 5 = (cur - (cur - int i)) mod 5" by (rule mod_diff_right_eq)
  also have "\<dots> = int i" using assms(1) by simp
  finally have "s mod 5 = int i" by (simp add: s second_of_def)
  moreover have "(cur - int i) mod 5 < 5" by simp
  ultimately show "cur - 5 < s \<and> s mod 5 = int i" by (simp add: s second_of_def)
next
  assume s: "cur - 5 < s \<and> s mod 5 = int i"
  have "(cur - int i) mod 5 = (cur - s mod 5) mod 5" using s by simp
  also have "\<dots> = (cur - s) mod 5" by (rule mod_diff_right_eq)
  also have "\<dots> = cur - s" using s assms(2) by simp
  finally show "s = second_of cur i" by (simp add: second_of_def)
qed

lemma window_sum:
  assumes "\<forall>(t, a, l) \<in> set h. t \<le> cur"
  shows "(\<Sum>i\<leftarrow>[0..<5]. acks_at h (second_of cur i)) = recent_acks h cur"
    and "(\<Sum>i\<leftarrow>[0..<5]. losses_at h (second_of cur i)) = recent_losses h cur"
proof -
  have one: "(\<Sum>i\<leftarrow>[0..<5]. if s = second_of cur i then x else 0) = (if cur - 5 < s then x else 0)"
    if "s \<le> cur" for s x :: int
  proof -
    have "(\<Sum>i\<leftarrow>[0..<5]. if s = second_of cur i then x else 0)
        = (\<Sum>i\<leftarrow>[0..<5]. if cur - 5 < s \<and> s mod 5 = int i then x else 0)"
      using second_of_iff [OF _ that] by (intro arg_cong [where f = sum_list] map_cong) auto
    moreover have "s mod 5 \<in> {0, 1, 2, 3, 4}" using pos_mod_bound [of 5 s] pos_mod_sign [of 5 s] by auto
    ultimately show ?thesis by (auto simp: upt_rec)
  qed
  show "(\<Sum>i\<leftarrow>[0..<5]. acks_at h (second_of cur i)) = recent_acks h cur"
    "(\<Sum>i\<leftarrow>[0..<5]. losses_at h (second_of cur i)) = recent_losses h cur"
    using assms
    by (induction h) (auto simp: acks_at_def losses_at_def recent_acks_def recent_losses_def sum_list_addf one)
qed

lemma slot_window:
  assumes "slots_ok h cur ss" "(cur, a, l) \<in> set h" "hist_ok h cur" "i < 5"
  shows "(if Timestamp (ss ! i) < cur - 5 then 0 else AckCount (ss ! i)) = acks_at h (second_of cur i)"
    and "(if Timestamp (ss ! i) < cur - 5 then 0 else LossCount (ss ! i)) = losses_at h (second_of cur i)"
proof -
  let ?s = "ss ! i" and ?t = "second_of cur i"
  have "(cur - int i) mod 5 < 5" "0 \<le> (cur - int i) mod 5" by simp_all
  then have t: "cur - 5 < ?t" "?t \<le> cur" by (simp_all add: second_of_def)
  have tm: "?t mod 5 = int i" using second_of_iff [OF assms(4) t(2)] by simp
  have none: "acks_at h ?t = 0 \<and> losses_at h ?t = 0" if "\<forall>(u, a, l) \<in> set h. u mod 5 = int i \<longrightarrow> u \<noteq> ?t"
    using that tm by (intro at_none) auto
  from assms(1,4) consider "?s = zero_pkt_info" "\<forall>(u, a, l) \<in> set h. u mod 5 \<noteq> int i"
    | "Timestamp ?s mod 5 = int i" "Timestamp ?s \<le> cur" "AckCount ?s = acks_at h (Timestamp ?s)"
      "LossCount ?s = losses_at h (Timestamp ?s)" "\<forall>(u, a, l) \<in> set h. u mod 5 = int i \<longrightarrow> u \<le> Timestamp ?s"
    unfolding slots_ok_def slot_ok_def by blast
  then have "(if Timestamp ?s < cur - 5 then 0 else AckCount ?s) = acks_at h ?t
    \<and> (if Timestamp ?s < cur - 5 then 0 else LossCount ?s) = losses_at h ?t"
  proof cases
    case 1
    then have "acks_at h ?t = 0 \<and> losses_at h ?t = 0" by (intro none) auto
    with 1(1) show ?thesis by (simp add: zero_pkt_info_def)
  next
    case 2
    show ?thesis
    proof (cases "cur - 5 < Timestamp ?s")
      case True
      then have "Timestamp ?s = ?t" using second_of_iff [OF assms(4) 2(2)] 2(1) by simp
      with 2 True show ?thesis by simp
    next
      case False
      then have old: "acks_at h ?t = 0 \<and> losses_at h ?t = 0" using 2(5) t(1) by (intro none) fastforce
      have "Timestamp ?s \<noteq> cur - 5"
      proof
        assume e: "Timestamp ?s = cur - 5"
        then have "cur mod 5 = int i" using 2(1) by (simp add: minus_mod_self2)
        with 2(5) assms(2) have "cur \<le> Timestamp ?s" by auto
        with e show False by simp
      qed
      with False old show ?thesis by simp
    qed
  qed
  then show "(if Timestamp ?s < cur - 5 then 0 else AckCount ?s) = acks_at h ?t"
    "(if Timestamp ?s < cur - 5 then 0 else LossCount ?s) = losses_at h ?t" by simp_all
qed

lemma u64_add: "u64 (u64 x + y) = u64 (x + y)"
  by (simp add: u64_def mod_add_left_eq)

lemma count_slots_sum:
  "count_slots m ss (u64 a, u64 l) =
     (u64 (a + (\<Sum>s\<leftarrow>ss. if Timestamp s < m then 0 else AckCount s)),
      u64 (l + (\<Sum>s\<leftarrow>ss. if Timestamp s < m then 0 else LossCount s)))"
  by (induction ss arbitrary: a l) (simp_all add: u64_add add.assoc)

lemma recent_bounds:
  "(\<forall>(t, a, l) \<in> set h. 0 \<le> a \<and> 0 \<le> l) \<Longrightarrow>
   0 \<le> recent_acks h cur \<and> 0 \<le> recent_losses h cur \<and> recent_acks h cur + recent_losses h cur \<le> hist_total h"
  by (induction h) (auto simp: recent_acks_def recent_losses_def hist_total_def)

lemma count_window:
  assumes "slots_ok h cur ss" "(cur, a, l) \<in> set h" "hist_ok h cur"
  shows "count_slots (cur - 5) ss (0, 0) = (recent_acks h cur, recent_losses h cur)"
proof -
  have le: "\<forall>(t, a, l) \<in> set h. t \<le> cur" and nn: "\<forall>(t, a, l) \<in> set h. 0 \<le> a \<and> 0 \<le> l"
    using assms(3) by (auto simp: hist_ok_def)
  have len: "ss = map (\<lambda>i. ss ! i) [0..<5]" using assms(1) map_nth [of ss] by (simp add: slots_ok_def)
  have "(\<Sum>s\<leftarrow>ss. if Timestamp s < cur - 5 then 0 else AckCount s) = recent_acks h cur"
    unfolding window_sum(1) [OF le, symmetric] using slot_window(1) [OF assms]
    by (subst len) (auto simp: comp_def intro!: arg_cong [where f = sum_list] map_cong)
  moreover have "(\<Sum>s\<leftarrow>ss. if Timestamp s < cur - 5 then 0 else LossCount s) = recent_losses h cur"
    unfolding window_sum(2) [OF le, symmetric] using slot_window(2) [OF assms]
    by (subst len) (auto simp: comp_def intro!: arg_cong [where f = sum_list] map_cong)
  moreover have "u64 (recent_acks h cur) = recent_acks h cur" "u64 (recent_losses h cur) = recent_losses h cur"
    using recent_bounds [OF nn, of cur] assms(3) by (simp_all add: hist_ok_def)
  ultimately show ?thesis using count_slots_sum [of "cur - 5" ss 0 0] by (simp add: u64_def)
qed


section \<open>Runs\<close>

datatype brutal_op = RSent int int | REvent int nat nat | RMtu int

fun brutal_do :: "quic_consts \<Rightarrow> brutal_op \<Rightarrow> brutal_sender \<Rightarrow> brutal_sender option" where
  "brutal_do k (RSent t bytes) b = Some (br_OnPacketSent k t bytes b)"
| "brutal_do k (REvent t a l) b = br_OnCongestionEventEx t a l b"
| "brutal_do k (RMtu s) b = Some (br_SetMaxDatagramSize s b)"

primrec brutal_run :: "quic_consts \<Rightarrow> brutal_op list \<Rightarrow> brutal_sender \<Rightarrow> brutal_sender option" where
  "brutal_run k [] b = Some b"
| "brutal_run k (a # as) b = Option.bind (brutal_do k a b) (brutal_run k as)"

fun op_history :: "brutal_op \<Rightarrow> history" where
  "op_history (REvent t a l) = [(t div 1000000000, int a, int l)]"
| "op_history _ = []"

definition history_of :: "brutal_op list \<Rightarrow> history" where
  "history_of as = concat (map op_history as)"

text \<open>The second of the last event.\<close>

fun now_after :: "int \<Rightarrow> brutal_op \<Rightarrow> int" where
  "now_after cur (REvent t a l) = t div 1000000000"
| "now_after cur _ = cur"

fun brutal_op_ok :: "int \<Rightarrow> brutal_op \<Rightarrow> bool" where
  "brutal_op_ok cur (RSent t bytes) = (0 \<le> bytes)"
| "brutal_op_ok cur (REvent t a l) = (cur \<le> t div 1000000000 \<and> 0 \<le> t \<and> t < 2 ^ 63)"
| "brutal_op_ok cur (RMtu s) = size_ok s"

fun brutal_ops_ok :: "int \<Rightarrow> brutal_op list \<Rightarrow> bool" where
  "brutal_ops_ok cur [] = True"
| "brutal_ops_ok cur (a # as) = (brutal_op_ok cur a \<and> brutal_ops_ok (now_after cur a) as)"

definition spec_ack_rate :: "int \<Rightarrow> int \<Rightarrow> rat" where
  "spec_ack_rate a l =
     (if a + l < minSampleCount then 1 else max minAckRate (f64 (f64 (of_int a) / f64 (of_int (a + l)))))"

definition brutal_inv :: "int \<Rightarrow> history \<Rightarrow> int \<Rightarrow> brutal_sender \<Rightarrow> bool" where
  "brutal_inv rate h cur b \<longleftrightarrow>
     bps b = rate \<and> \<not> disableLossCompensation b \<and> slots_ok h cur (pktInfoSlots b) \<and> hist_ok h cur \<and> 0 \<le> cur
     \<and> ackRate b = (if h = [] then 1 else spec_ack_rate (recent_acks h cur) (recent_losses h cur))
     \<and> pacer_inv (br_pacer b) \<and> br_maxDatagramSize b = pc_maxDatagramSize (br_pacer b)"

lemma hist_ok_snoc:
  assumes "hist_ok h prev" "prev \<le> cur" "0 \<le> cur" "hist_total h + int a + int l < 2 ^ 64"
  shows "hist_ok (h @ [(cur, int a, int l)]) cur"
proof -
  have "\<forall>(t, a, l) \<in> set h. 0 \<le> t \<and> t \<le> cur \<and> 0 \<le> a \<and> 0 \<le> l"
    using assms(1,2) by (fastforce simp: hist_ok_def)
  then show ?thesis using assms(3,4) by (auto simp: hist_ok_def hist_total_def)
qed

lemma OnCongestionEventEx_inv:
  assumes "brutal_inv rate h prev b" "prev \<le> t div 1000000000" "0 \<le> t" "t < 2 ^ 63"
    and "hist_total h + int a + int l < 2 ^ 64"
  defines "cur \<equiv> t div 1000000000"
  shows "\<exists>b'. br_OnCongestionEventEx t a l b = Some b' \<and> brutal_inv rate (h @ [(cur, int a, int l)]) cur b'"
proof -
  let ?h = "h @ [(cur, int a, int l)]"
  have cur: "0 \<le> cur" "prev \<le> cur" "quo t 1000000000 = cur" using assms(2,3) by (simp_all add: cur_def pos_imp_zdiv_nonneg_iff)
  have "cur \<le> t" using assms(3) zdiv_mono2 [of t 1 1000000000] by (simp add: cur_def)
  then have small: "i64 (cur - 5) = cur - 5" using cur assms(4) by simp
  have m: "cur - quo cur 5 * 5 = cur mod 5" using cur by (simp add: minus_div_mult_eq_mod)
  have h: "hist_ok ?h cur" using hist_ok_snoc [OF _ cur(2,1) assms(5)] assms(1) by (simp add: brutal_inv_def)
  define s where "s = pktInfoSlots b ! nat (cur mod 5)"
  define s' where "s' = (if Timestamp s = cur then s\<lparr>LossCount := u64 (LossCount s + int l), AckCount := u64 (AckCount s + int a)\<rparr>
               else \<lparr>Timestamp = cur, AckCount = int a, LossCount = int l\<rparr>)"
  define c where "c = b\<lparr>pktInfoSlots := (pktInfoSlots b)[nat (cur mod 5) := s']\<rparr>"
  have slots: "slots_ok ?h cur (pktInfoSlots c)"
    using slot_add [OF _ h cur(1,2) s_def s'_def] assms(1) by (simp add: c_def brutal_inv_def)
  have e: "br_OnCongestionEventEx t a l b = Some (updateAckRate cur c)"
    unfolding br_OnCongestionEventEx_def Let_def cur(3) m s_def [symmetric] s'_def [symmetric] c_def [symmetric] by simp
  have cnt: "count_slots (cur - 5) (pktInfoSlots c) (0, 0) = (recent_acks ?h cur, recent_losses ?h cur)"
    by (rule count_window [OF slots _ h]) auto
  have nn: "\<forall>(t, a, l) \<in> set ?h. 0 \<le> a \<and> 0 \<le> l" using h by (auto simp: hist_ok_def)
  have u: "u64 (recent_acks ?h cur + recent_losses ?h cur) = recent_acks ?h cur + recent_losses ?h cur"
    using recent_bounds [OF nn, of cur] h by (simp add: hist_ok_def)
  have d: "\<not> disableLossCompensation c" using assms(1) by (simp add: c_def brutal_inv_def)
  have "updateAckRate cur c = c\<lparr>ackRate := spec_ack_rate (recent_acks ?h cur) (recent_losses ?h cur)\<rparr>"
    using d by (simp add: updateAckRate_def pktInfoSlotCount_def small cnt u spec_ack_rate_def Let_def max_def)
  then show ?thesis using e slots h cur(1) assms(1) by (simp add: brutal_inv_def c_def)
qed

lemma history_of_Cons: "history_of (a # as) = op_history a @ history_of as"
  by (simp add: history_of_def)

lemma history_of_total: "0 \<le> hist_total (history_of as)"
proof (induction as)
  case (Cons a as)
  then show ?case by (cases a) (simp_all add: history_of_Cons hist_total_def)
qed (simp add: history_of_def hist_total_def)

lemma brutal_run_law:
  "brutal_inv rate h cur b \<Longrightarrow> brutal_ops_ok cur as \<Longrightarrow> hist_total h + hist_total (history_of as) < 2 ^ 64 \<Longrightarrow>
   \<exists>b'. brutal_run k as b = Some b' \<and> brutal_inv rate (h @ history_of as) (foldl now_after cur as) b'"
proof (induction as arbitrary: h cur b)
  case (Cons a as)
  show ?case
  proof (cases a)
    case (RSent t bytes)
    have "pacer_inv (br_pacer b)" "0 \<le> bytes" using Cons.prems RSent by (simp_all add: brutal_inv_def)
    note p = SentPacket_inv [OF this, of k "br_bandwidth b" t]
    have "brutal_inv rate h cur (br_OnPacketSent k t bytes b)"
      using Cons.prems(1) p by (simp add: brutal_inv_def br_OnPacketSent_def)
    with Cons RSent show ?thesis by (simp add: history_of_def)
  next
    case (REvent t x l)
    let ?c = "t div 1000000000"
    have "hist_total h + int x + int l < 2 ^ 64"
      using Cons.prems(3) history_of_total [of as] REvent by (simp add: history_of_Cons hist_total_def)
    with OnCongestionEventEx_inv [of rate h cur b t x l] Cons.prems REvent obtain b1 where
      b1: "br_OnCongestionEventEx t x l b = Some b1" "brutal_inv rate (h @ [(?c, int x, int l)]) ?c b1" by auto
    from Cons.IH [OF b1(2)] Cons.prems(2,3) REvent show ?thesis
      using b1(1) by (simp add: history_of_Cons hist_total_def add.assoc)
  next
    case (RMtu s)
    have "brutal_inv rate h cur (br_SetMaxDatagramSize s b)"
      using Cons.prems RMtu by (simp add: brutal_inv_def br_SetMaxDatagramSize_def pc_SetMaxDatagramSize_def pacer_inv_def)
    with Cons RMtu show ?thesis by (simp add: history_of_def)
  qed
qed (simp add: history_of_def)


lemma minAckRate_bounds: "1/2 \<le> minAckRate" "minAckRate \<le> 1"
  using f64_ge_pow2 [of "-1" "8/10"] f64_le_pow2 [of "8/10" 0] by (simp_all add: minAckRate_def pow2_def)

lemma spec_ack_rate_bounds:
  assumes "0 \<le> a" "0 \<le> l"
  shows "minAckRate \<le> spec_ack_rate a l" "spec_ack_rate a l \<le> 1"
proof -
  show "minAckRate \<le> spec_ack_rate a l" using minAckRate_bounds by (simp add: spec_ack_rate_def)
  have "f64 (f64 (of_int a) / f64 (of_int (a + l))) \<le> 1" if "\<not> a + l < 50"
  proof -
    have "(1 :: rat) \<le> of_int (a + l)" using that by simp
    then have one: "1 \<le> f64 (of_int (a + l))" using f64_ge_pow2 [of 0 "of_int (a + l)"] by (simp add: pow2_def)
    have "f64 (of_int a) \<le> f64 (of_int (a + l))" using assms by (intro f64_mono) simp_all
    then have "f64 (of_int a) / f64 (of_int (a + l)) \<le> 1" using one by (simp add: divide_le_eq_1)
    moreover have "0 \<le> f64 (of_int a) / f64 (of_int (a + l))" using one f64_nonneg [of "of_int a"] assms by simp
    ultimately show ?thesis using f64_le_pow2 [of _ 0] by (simp add: pow2_def)
  qed
  then show "spec_ack_rate a l \<le> 1" using minAckRate_bounds by (simp add: spec_ack_rate_def minSampleCount_def)
qed

lemma brutal_ackRate:
  assumes "brutal_inv rate h cur b"
  shows "minAckRate \<le> ackRate b" "ackRate b \<le> 1"
proof -
  have "\<forall>(t, a, l) \<in> set h. 0 \<le> a \<and> 0 \<le> l" using assms by (auto simp: brutal_inv_def hist_ok_def)
  from recent_bounds [OF this, of cur] spec_ack_rate_bounds [of "recent_acks h cur" "recent_losses h cur"]
  show "minAckRate \<le> ackRate b" "ackRate b \<le> 1" using assms minAckRate_bounds by (auto simp: brutal_inv_def)
qed

lemma br_bandwidth_range:
  assumes "brutal_inv rate h cur b" "0 < rate" "rate < 2 ^ 60"
  shows "0 < br_bandwidth b \<and> br_bandwidth b < 2 ^ 62"
proof -
  let ?f = "f64 (of_int rate)"
  have r: "1/2 \<le> ackRate b" "ackRate b \<le> 1" "bps b = rate"
    using brutal_ackRate [OF assms(1)] minAckRate_bounds(1) assms(1) by (auto simp: brutal_inv_def)
  have "(1 :: rat) \<le> of_int rate" "of_int rate \<le> (of_int (2 ^ 60) :: rat)" using assms(2,3) by (simp, simp only: of_int_le_iff)
  then have f: "1 \<le> ?f" "?f \<le> 2 ^ 60"
    using f64_ge_pow2 [of 0 "of_int rate"] f64_range [of "of_int rate" 60] by (simp_all add: pow2_def)
  have "1 * ackRate b \<le> ?f * 1" using f r by (intro mult_mono) simp_all
  then have lo: "1 \<le> ?f / ackRate b" using r(1) by (simp add: pos_le_divide_eq)
  have "?f * (1/2) \<le> 2 ^ 60 * ackRate b" using f r by (intro mult_mono) simp_all
  then have hi: "?f / ackRate b \<le> 2 ^ 61" using r(1) by (simp add: pos_divide_le_eq)
  have g: "1 \<le> f64 (?f / ackRate b)" "f64 (?f / ackRate b) \<le> 2 ^ 61"
    using f64_ge_pow2 [of 0 "?f / ackRate b"] lo f64_range [OF _ hi] by (simp_all add: pow2_def)
  then have "f64_to_i64 (f64 (?f / ackRate b)) \<le> 2 ^ 61" using f64_to_i64_range [of _ 61] by simp
  moreover have "0 < f64_to_i64 (f64 (?f / ackRate b))"
  proof -
    have "f64_to_i64 (f64 (?f / ackRate b)) = \<lfloor>f64 (?f / ackRate b)\<rfloor>"
      using f64_to_i64_range [of _ 61] g by simp
    then show ?thesis using g(1) by simp
  qed
  ultimately show ?thesis by (simp add: br_bandwidth_def r(3))
qed

interpretation brutal: paced_sender "\<lambda>b. 0 < rate \<and> rate < 2 ^ 60 \<and> brutal_inv rate h cur b" "\<lambda>k. True" "\<lambda>k. k"
  "\<lambda>k b. Some (br_bandwidth b)" br_pacer br_maxDatagramSize
  for rate h cur
  using br_bandwidth_range by unfold_locales (auto simp: brutal_inv_def)


section \<open>Properties\<close>

lemma brutal_new_inv:
  assumes "size_ok (InitialPacketSize k)" "0 < rate" "rate < 2 ^ 60"
  shows "brutal_inv rate [] 0 (NewBrutalSender k rate False)"
proof -
  have "slots_ok [] 0 (replicate 5 zero_pkt_info)" by (simp add: slots_ok_def slot_ok_def)
  then show ?thesis using assms NewPacer_inv [of k]
    by (simp add: brutal_inv_def NewBrutalSender_def pktInfoSlotCount_def hist_ok_def hist_total_def NewPacer_def)
qed

text \<open>
  C30: the ack rate is that of the last five seconds. Whatever sends, events and size changes
  arrive, the ring of five slots indexed by the second, which never clears a slot before it is
  reused, gives exactly the packets acknowledged and lost in the seconds from four before the
  last event on: below fifty packets the rate is one, else their quotient, at least 0.8 and at
  most one. No event panics.
\<close>

theorem brutal_ack_rate_window:
  assumes "size_ok (InitialPacketSize k)" "0 < rate" "rate < 2 ^ 60"
    and "brutal_ops_ok 0 as" "hist_total (history_of as) < 2 ^ 64"
  shows "\<exists>b. brutal_run k as (NewBrutalSender k rate False) = Some b
    \<and> ackRate b = (let h = history_of as; cur = foldl now_after 0 as in
        if h = [] then 1 else spec_ack_rate (recent_acks h cur) (recent_losses h cur))
    \<and> minAckRate \<le> ackRate b \<and> ackRate b \<le> 1"
proof -
  have "hist_total [] + hist_total (history_of as) < 2 ^ 64" using assms(5) by (simp add: hist_total_def)
  from brutal_run_law [OF brutal_new_inv [OF assms(1-3)] assms(4) this, of k] obtain b where
    b: "brutal_run k as (NewBrutalSender k rate False) = Some b" "brutal_inv rate (history_of as) (foldl now_after 0 as) b"
    by auto
  with brutal_ackRate [OF b(2)] show ?thesis by (simp add: brutal_inv_def Let_def)
qed

theorem brutal_ack_rate_window_witness:
  "\<exists>b. brutal_run \<lparr>InitialPacketSize = 1280, MinInitialPacketSize = 1200, MaxPacketBufferSize = 1452,
        MaxCongestionWindowPackets = 10000, MinPacingDelay = 1000000\<rparr>
      [REvent 1000000000 40 60, RSent 1500000000 1200, REvent 3000000000 10 0]
      (NewBrutalSender \<lparr>InitialPacketSize = 1280, MinInitialPacketSize = 1200, MaxPacketBufferSize = 1452,
        MaxCongestionWindowPackets = 10000, MinPacingDelay = 1000000\<rparr> 125000 False) = Some b
    \<and> ackRate b = spec_ack_rate 50 60 \<and> minAckRate \<le> ackRate b"
proof -
  let ?k = "\<lparr>InitialPacketSize = 1280, MinInitialPacketSize = 1200, MaxPacketBufferSize = 1452,
        MaxCongestionWindowPackets = 10000, MinPacingDelay = 1000000\<rparr> :: quic_consts"
  let ?as = "[REvent 1000000000 40 60, RSent 1500000000 1200, REvent 3000000000 10 0]"
  have "size_ok (InitialPacketSize ?k)" "0 < (125000 :: int)" "125000 < (2 :: int) ^ 60" "brutal_ops_ok 0 ?as"
    "hist_total (history_of ?as) < 2 ^ 64"
    by (simp_all add: size_ok_def history_of_def hist_total_def)
  from brutal_ack_rate_window [OF this] show ?thesis
    by (simp add: history_of_def recent_acks_def recent_losses_def) blast
qed

text \<open>
  The Brutal sender never gets stuck. After any run, for a rate below 2^60 bytes per second,
  \<open>TimeUntilSend\<close> returns, and at the time it returns, or at once, the pacer has the budget for a
  datagram.
\<close>

theorem brutal_never_stuck:
  assumes "size_ok (InitialPacketSize k)" "0 < rate" "rate < 2 ^ 60"
    and "brutal_ops_ok 0 as" "hist_total (history_of as) < 2 ^ 64"
    and "brutal_run k as (NewBrutalSender k rate False) = Some b"
    and "0 < lastSentTime (br_pacer b)" "lastSentTime (br_pacer b) < 2 ^ 61"
    and "0 \<le> MinPacingDelay k" "MinPacingDelay k < 2 ^ 61" "br_bandwidth b * MinPacingDelay k < 2 ^ 63"
  shows "\<exists>t. br_TimeUntilSend k b = Some t
    \<and> br_HasPacingBudget k (if t = 0 then lastSentTime (br_pacer b) else t) b"
proof -
  have "hist_total [] + hist_total (history_of as) < 2 ^ 64" using assms(5) by (simp add: hist_total_def)
  from brutal_run_law [OF brutal_new_inv [OF assms(1-3)] assms(4) this, of k] assms(6)
  have "brutal_inv rate (history_of as) (foldl now_after 0 as) b" by simp
  then have inv: "0 < rate \<and> rate < 2 ^ 60 \<and> brutal_inv rate (history_of as) (foldl now_after 0 as) b" using assms(2,3) by simp
  have "\<exists>t. brutal.wake_up k b = Some t
      \<and> brutal.has_budget k (if t = 0 then lastSentTime (br_pacer b) else t) b = Some True"
    by (rule brutal.never_stuck [OF inv]) (use assms in auto)
  then show ?thesis by (simp add: brutal.wake_up_def brutal.has_budget_def br_TimeUntilSend_def br_HasPacingBudget_def)
qed

theorem brutal_never_stuck_witness:
  "\<exists>b t. brutal_run \<lparr>InitialPacketSize = 1280, MinInitialPacketSize = 1200, MaxPacketBufferSize = 1452,
        MaxCongestionWindowPackets = 10000, MinPacingDelay = 1\<rparr> [RSent 7 1200]
      (NewBrutalSender \<lparr>InitialPacketSize = 1280, MinInitialPacketSize = 1200, MaxPacketBufferSize = 1452,
        MaxCongestionWindowPackets = 10000, MinPacingDelay = 1\<rparr> 125000 False) = Some b
    \<and> br_HasPacingBudget \<lparr>InitialPacketSize = 1280, MinInitialPacketSize = 1200, MaxPacketBufferSize = 1452,
        MaxCongestionWindowPackets = 10000, MinPacingDelay = 1\<rparr> t b"
proof -
  let ?k = "\<lparr>InitialPacketSize = 1280, MinInitialPacketSize = 1200, MaxPacketBufferSize = 1452,
        MaxCongestionWindowPackets = 10000, MinPacingDelay = 1\<rparr> :: quic_consts"
  let ?b = "br_OnPacketSent ?k 7 1200 (NewBrutalSender ?k 125000 False)"
  have k: "size_ok (InitialPacketSize ?k)" "0 < (125000 :: int)" "125000 < (2 :: int) ^ 60" "brutal_ops_ok 0 [RSent 7 1200]"
    "hist_total (history_of [RSent 7 1200]) < 2 ^ 64" by (simp_all add: size_ok_def history_of_def hist_total_def)
  have run: "brutal_run ?k [RSent 7 1200] (NewBrutalSender ?k 125000 False) = Some ?b" by simp
  have "brutal_inv 125000 [] 0 ?b"
    using brutal_run_law [OF brutal_new_inv [OF k(1-3)] k(4), of ?k] k(5) by (simp add: history_of_def hist_total_def)
  from br_bandwidth_range [OF this k(2,3)] have "br_bandwidth ?b * MinPacingDelay ?k < 2 ^ 63" by simp
  moreover have "lastSentTime (br_pacer ?b) = 7" by (simp add: br_OnPacketSent_def SentPacket_def Let_def)
  ultimately show ?thesis using brutal_never_stuck [OF k run] by auto
qed

end
