(* ===== verification/Congestion.thy ===== *)
theory Congestion
  imports Transport Bbr_Props Brutal
begin

text \<open>
  The installation of a congestion controller on a QUIC connection, \<open>Apply\<close> of
  \<open>internal/congestion/apply.go\<close>, with \<open>GetInitialPacketSize\<close> of \<open>bbr_sender.go\<close>. Of the
  connection it reads whether the remote address is a UDP one and the initial packet size; the
  sender it hands to the connection is the result, the library's own controller when none is.
\<close>

datatype installed = InstallBBR bbr_sender | InstallBrutal brutal_sender | KeepDefault

datatype apply_error = ApplyNeedsRate | ApplyUnknown string

definition GetInitialPacketSize :: "quic_consts \<Rightarrow> bool \<Rightarrow> int" where
  "GetInitialPacketSize k udp = (if udp then InitialPacketSize k else MinInitialPacketSize k)"

definition initialSize :: "quic_consts \<Rightarrow> bool \<Rightarrow> int \<Rightarrow> int" where
  "initialSize k udp quicSize =
     (let byAddr = GetInitialPacketSize k udp in if quicSize > 0 then min quicSize byAddr else byAddr)"

definition Apply :: "quic_consts \<Rightarrow> bool \<Rightarrow> int \<Rightarrow> controller \<Rightarrow> apply_error + installed" where
  "Apply k udp quicSize ctl =
     (if c_Name ctl = ''bbr'' then Inr (InstallBBR (NewBbrSender k (initialSize k udp quicSize) ''standard''))
      else if c_Name ctl = ''brutal'' then
        (if c_Bps ctl = 0 then Inl ApplyNeedsRate
         else Inr (InstallBrutal (NewBrutalSender k (int (c_Bps ctl)) False)))
      else if c_Name ctl = ''cubic'' then Inr KeepDefault
      else Inl (ApplyUnknown (c_Name ctl)))"

lemma initialSize_range:
  assumes "0 < MinInitialPacketSize k" "MinInitialPacketSize k \<le> InitialPacketSize k"
  shows "0 < initialSize k udp n" "initialSize k udp n \<le> InitialPacketSize k"
  using assms by (auto simp: initialSize_def GetInitialPacketSize_def Let_def)

lemma Cut_whole: "Cut s c = (a, b, False) \<Longrightarrow> a = s"
  by (induction s arbitrary: a) (auto split: if_splits prod.splits)

text \<open>
  What was negotiated is applied. A controller that came over the control line installs
  without an error: BBR with a datagram size in the range its windows need, Brutal with the
  rate of the line, which is not zero, and cubic as the library's own.
\<close>

theorem negotiated_controller_applies:
  assumes "ParseController line = Inr ctl"
    and "0 < MinInitialPacketSize k" "MinInitialPacketSize k \<le> InitialPacketSize k"
  shows "(\<exists>mds. 0 < mds \<and> mds \<le> InitialPacketSize k
            \<and> line = ''bbr'' \<and> Apply k udp n ctl = Inr (InstallBBR (NewBbrSender k mds ''standard'')))
    \<or> 0 < c_Bps ctl \<and> Apply k udp n ctl = Inr (InstallBrutal (NewBrutalSender k (int (c_Bps ctl)) False))
    \<or> line = ''cubic'' \<and> Apply k udp n ctl = Inr KeepDefault"
proof -
  obtain name rate found where cut: "Cut line CHR ''='' = (name, rate, found)" by (cases "Cut line CHR ''=''")
  have whole: "\<not> found \<Longrightarrow> name = line"
    using Cut_whole cut by auto
  from assms(1) cut consider "name = ''bbr''" "\<not> found" "ctl = \<lparr>c_Name = ''bbr'', c_Bps = 0\<rparr>"
    | "name = ''cubic''" "\<not> found" "ctl = \<lparr>c_Name = ''cubic'', c_Bps = 0\<rparr>"
    | bps where "bps \<noteq> 0" "ctl = \<lparr>c_Name = ''brutal'', c_Bps = bps\<rparr>"
    by (auto simp: ParseController_def split: if_splits option.splits)
  then show ?thesis
  proof cases
    case 1
    then show ?thesis using whole initialSize_range [OF assms(2,3), of udp n] by (auto simp: Apply_def)
  next
    case 2
    then show ?thesis using whole by (simp add: Apply_def)
  next
    case (3 bps)
    then show ?thesis by (simp add: Apply_def)
  qed
qed

theorem negotiated_controller_applies_witness:
  "ParseController (Controller_String \<lparr>c_Name = ''brutal'', c_Bps = 2500000\<rparr>) = Inr \<lparr>c_Name = ''brutal'', c_Bps = 2500000\<rparr>
   \<and> Apply example_quic True 1280 \<lparr>c_Name = ''brutal'', c_Bps = 2500000\<rparr>
       = Inr (InstallBrutal (NewBrutalSender example_quic 2500000 False))"
proof -
  have p: "ParseController (Controller_String \<lparr>c_Name = ''brutal'', c_Bps = 2500000\<rparr>) = Inr \<lparr>c_Name = ''brutal'', c_Bps = 2500000\<rparr>"
    by (rule controller_parse_print) simp_all
  have "0 < MinInitialPacketSize example_quic" "MinInitialPacketSize example_quic \<le> InitialPacketSize example_quic"
    by (simp_all add: example_quic_def)
  from negotiated_controller_applies [OF p this, of True 1280] p show ?thesis
    by (auto simp: Controller_String_def Apply_def)
qed

end
