(* ===== verification/Err_Queue.thy ===== *)
theory Err_Queue
  imports Mux_Wire
begin

text \<open>
  The error queue of a socket, \<open>internal/mux/errqueue_linux.go\<close>, and the TTL of a socket,
  \<open>ttlSetter\<close> of \<open>internal/mux/echo_socket.go\<close>. The kernel's answers are values: an error
  number, the entries of the error queue, the outcome of an option call. The parser of the control
  messages, of \<open>golang.org/x/sys\<close>, is outside the repository, so an entry holds the messages it
  returned, or \<open>None\<close> for its error.
\<close>

section \<open>Errors of the kernel\<close>

datatype errno = EHOSTUNREACH | ENETUNREACH | ECONNREFUSED | EMSGSIZE | EPROTO | EACCES | OtherErrno nat

definition isICMPErrno :: "errno \<Rightarrow> bool" where
  "isICMPErrno err \<longleftrightarrow> err \<in> set [EHOSTUNREACH, ENETUNREACH, ECONNREFUSED, EMSGSIZE, EPROTO, EACCES]"

record cmsg =
  cm_Level :: nat
  cm_Type :: nat
  cm_Data :: bytes

type_synonym queue_entry = "cmsg list option \<times> bytes"

definition sockExtendedErrLen :: nat where "sockExtendedErrLen = 16"

definition IPPROTO_IP :: nat where "IPPROTO_IP = 0"
definition IP_RECVERR :: nat where "IP_RECVERR = 11"
definition IPPROTO_IPV6 :: nat where "IPPROTO_IPV6 = 41"
definition IPV6_RECVERR :: nat where "IPV6_RECVERR = 25"
definition SO_EE_ORIGIN_ICMP :: byte where "SO_EE_ORIGIN_ICMP = 2"
definition SO_EE_ORIGIN_ICMP6 :: byte where "SO_EE_ORIGIN_ICMP6 = 3"

lemmas recverr_defs = IPPROTO_IP_def IP_RECVERR_def IPPROTO_IPV6_def IPV6_RECVERR_def
  SO_EE_ORIGIN_ICMP_def SO_EE_ORIGIN_ICMP6_def

definition offenderAddr :: "bytes \<Rightarrow> bool \<Rightarrow> addr option" where
  "offenderAddr b v6 =
     (if v6 then (if length b < 24 then None else Some (AddrFrom16 (take 16 (drop 8 b))))
      else if length b < 8 then None else Some (AddrFrom4 (take 4 (drop 4 b))))"

text \<open>\<open>NativeEndian\<close>: the release builds of the helper are amd64 and arm64, both little endian.\<close>

definition native32 :: "bytes \<Rightarrow> 32 word" where "native32 b = un32 (rev b)"

fun parse_cmsgs :: "cmsg list \<Rightarrow> bytes \<Rightarrow> bool \<Rightarrow> icmp_error option" where
  "parse_cmsgs [] data v6 = None"
| "parse_cmsgs (m # ms) data v6 =
     (let isV4 = (cm_Level m = IPPROTO_IP \<and> cm_Type m = IP_RECVERR);
          isV6 = (cm_Level m = IPPROTO_IPV6 \<and> cm_Type m = IPV6_RECVERR)
      in if (\<not> v6 \<and> \<not> isV4) \<or> (v6 \<and> \<not> isV6) \<or> length (cm_Data m) < sockExtendedErrLen
         then parse_cmsgs ms data v6
         else if cm_Data m ! 4 \<noteq> SO_EE_ORIGIN_ICMP \<and> cm_Data m ! 4 \<noteq> SO_EE_ORIGIN_ICMP6
         then parse_cmsgs ms data v6
         else case offenderAddr (drop sockExtendedErrLen (cm_Data m)) v6 of
           None \<Rightarrow> parse_cmsgs ms data v6
         | Some from \<Rightarrow>
             Some \<lparr>ie_Type = cm_Data m ! 5, ie_Code = cm_Data m ! 6,
                   ie_Info = native32 (take 4 (drop 8 (cm_Data m))), ie_From = from, ie_Inner = data\<rparr>)"

definition parseErrQueue :: "cmsg list option \<Rightarrow> bytes \<Rightarrow> bool \<Rightarrow> icmp_error option" where
  "parseErrQueue msgs data v6 = (case msgs of None \<Rightarrow> None | Some ms \<Rightarrow> parse_cmsgs ms data v6)"

fun drainErrQueue :: "queue_entry list \<Rightarrow> bool \<Rightarrow> icmp_error list" where
  "drainErrQueue [] v6 = []"
| "drainErrQueue ((oob, data) # q) v6 =
     (case parseErrQueue oob data v6 of
        None \<Rightarrow> drainErrQueue q v6
      | Some e \<Rightarrow> e # drainErrQueue q v6)"

text \<open>No error and an empty queue are the same \<open>nil\<close> slice.\<close>

definition icmpErrorsFor :: "queue_entry list \<Rightarrow> bool \<Rightarrow> errno \<Rightarrow> icmp_error list" where
  "icmpErrorsFor q v6 err = (if \<not> isICMPErrno err then [] else drainErrQueue q v6)"

text \<open>Every drained error has a sender, of the family of the socket, so it has a wire form.\<close>

lemma IsValid_AddrFrom [simp]: "IsValid (AddrFrom4 b)" "IsValid (AddrFrom16 b)"
  by (simp_all add: IsValid_def AddrFrom4_def AddrFrom16_def)

lemma parse_cmsgs_from: "parse_cmsgs ms data v6 = Some e \<Longrightarrow> IsValid (ie_From e) \<and> Is6 (ie_From e) = v6 \<and> ie_Inner e = data"
  by (induction ms) (auto simp: Let_def offenderAddr_def AddrFrom4_def AddrFrom16_def IsValid_def split: if_splits option.splits)

lemma drainErrQueue_from: "e \<in> set (drainErrQueue q v6) \<Longrightarrow> IsValid (ie_From e) \<and> Is6 (ie_From e) = v6"
proof (induction q v6 rule: drainErrQueue.induct)
  case (2 oob data q v6)
  then show ?case using parse_cmsgs_from
    by (auto simp: parseErrQueue_def split: option.splits if_splits)
qed simp


section \<open>The TTL of a socket\<close>

text \<open>
  \<open>ts_last\<close> is the setter's memory, \<open>ts_kernel\<close> what the socket sends with. A socket starts with
  the host's default; a setter's \<open>last\<close> starts at zero.
\<close>

record ttl_setter =
  ts_last :: int
  ts_kernel :: int

definition ttl_set :: "bool \<Rightarrow> byte \<Rightarrow> ttl_setter \<Rightarrow> bool \<times> ttl_setter" where
  "ttl_set setsockopt_ok ttl t =
     (if uint ttl = ts_last t then (True, t)
      else if \<not> setsockopt_ok then (False, t)
      else (True, t\<lparr>ts_kernel := uint ttl, ts_last := uint ttl\<rparr>))"

definition ttl_known :: "ttl_setter \<Rightarrow> bool" where
  "ttl_known t \<longleftrightarrow> ts_last t = 0 \<or> ts_last t = ts_kernel t"

lemma ttl_set_known: "ttl_known t \<Longrightarrow> ttl_known (snd (ttl_set ok ttl t))"
  by (auto simp: ttl_set_def ttl_known_def)

lemma ttl_set_ok:
  assumes "ttl_known t" "fst (ttl_set ok ttl t)" "ttl \<noteq> 0"
  shows "ts_kernel (snd (ttl_set ok ttl t)) = uint ttl"
proof -
  have "uint ttl \<noteq> 0" using assms(3) by (simp add: uint_0_iff)
  then show ?thesis using assms(1,2) by (auto simp: ttl_set_def ttl_known_def split: if_splits)
qed

end
