(* ===== verification/Echo_Socket.thy ===== *)
theory Echo_Socket
  imports Err_Queue
begin

unbundle bit_operations_syntax

text \<open>
  The echo sockets of the helper, \<open>internal/mux/echo_socket.go\<close>. What the kernel answers to a read
  or a write is a value: data with its sender, or an error number with the entries the error
  queue then holds. A read that has no answer yet blocks.
\<close>

section \<open>The checksum\<close>

text \<open>
  The loop over the words of the message adds in \<open>uint32\<close> and skips the checksum field; the
  last byte of an odd message is the high half of a word.
\<close>

fun icmp_sum :: "nat \<Rightarrow> nat \<Rightarrow> bytes \<Rightarrow> nat" where
  "icmp_sum i acc (a # b # rest) =
     icmp_sum (i + 2) (if i = 2 then acc else (acc + (unat a * 256 + unat b)) mod 2 ^ 32) rest"
| "icmp_sum i acc [a] = (acc + unat a * 256) mod 2 ^ 32"
| "icmp_sum i acc [] = acc"

function fold16 :: "nat \<Rightarrow> nat" where
  "fold16 s = (if s div 65536 \<noteq> 0 then fold16 (s mod 65536 + s div 65536) else s)"
  by pat_completeness auto
termination
proof (relation "measure id")
  fix s :: nat
  assume "s div 65536 \<noteq> 0"
  moreover have "s = s mod 65536 + 65536 * (s div 65536)" by simp
  ultimately have "s mod 65536 + s div 65536 < s" by linarith
  then show "(s mod 65536 + s div 65536, s) \<in> measure id" by simp
qed simp

declare fold16.simps [simp del]

definition icmpChecksum :: "bytes \<Rightarrow> 16 word" where
  "icmpChecksum msg = NOT (word_of_nat (fold16 (icmp_sum 0 0 msg)))"


section \<open>The socket\<close>

definition icmpHeaderLen :: nat where "icmpHeaderLen = 8"
definition icmpv4EchoRequest :: byte where "icmpv4EchoRequest = 8"
definition icmpv4EchoReply :: byte where "icmpv4EchoReply = 0"
definition icmpv6EchoRequest :: byte where "icmpv6EchoRequest = 128"
definition icmpv6EchoReply :: byte where "icmpv6EchoReply = 129"
definition ipv6HeaderLen :: nat where "ipv6HeaderLen = 40"

record echo_socket =
  es_v6 :: bool
  es_raw :: bool
  es_ident :: "16 word"
  es_ttl :: ttl_setter
  es_pending :: "icmp_error list"

record echo_event =
  ev_seq :: "16 word"
  ev_payload :: bytes
  ev_err :: "icmp_error option"

datatype net_addr = IPAddr bytes | OtherAddr

datatype sock_read = ReadMsg bytes net_addr | ReadErr errno "queue_entry list"

datatype sock_write = WriteOK | WriteErr errno "queue_entry list"

text \<open>
  \<open>openEchoSocket\<close>: raw, then ping, with the outcome of each open call. The identifier of a raw
  socket is the random one; the kernel sets the identifier of a ping socket.
\<close>

definition openEchoSocket :: "bool \<Rightarrow> bool \<Rightarrow> 16 word \<Rightarrow> int \<Rightarrow> bool \<Rightarrow> echo_socket option" where
  "openEchoSocket raw_ok ping_ok randomIdent default_ttl v6 =
     (let ttl = \<lparr>ts_last = 0, ts_kernel = default_ttl\<rparr> in
      if raw_ok then Some \<lparr>es_v6 = v6, es_raw = True, es_ident = randomIdent, es_ttl = ttl, es_pending = []\<rparr>
      else if ping_ok then Some \<lparr>es_v6 = v6, es_raw = False, es_ident = 0, es_ttl = ttl, es_pending = []\<rparr>
      else None)"

definition isICMPErrorType :: "bool \<Rightarrow> byte \<Rightarrow> bool" where
  "isICMPErrorType v6 typ = (if v6 then 1 \<le> typ \<and> typ \<le> 4 else typ = 3 \<or> typ = 11 \<or> typ = 12)"

text \<open>The message \<open>send\<close> writes; the checksum field is zero while the checksum is computed.\<close>

definition echo_message :: "bool \<Rightarrow> 16 word \<Rightarrow> 16 word \<Rightarrow> bytes \<Rightarrow> bytes" where
  "echo_message v6 ident seq payload =
     (let head = [if v6 then icmpv6EchoRequest else icmpv4EchoRequest, 0];
          tail = be16 ident @ be16 seq @ payload;
          ck = (if v6 then [0, 0] else be16 (icmpChecksum (head @ [0, 0] @ tail)))
      in head @ ck @ tail)"

text \<open>
  \<open>send\<close>: the message with the TTL the socket has, and the errors to forward or \<open>None\<close> for a
  failure.
\<close>

definition echo_send ::
  "bool \<Rightarrow> sock_write \<Rightarrow> 16 word \<Rightarrow> byte \<Rightarrow> bytes \<Rightarrow> echo_socket
   \<Rightarrow> (int \<times> bytes) list \<times> icmp_error list option \<times> echo_socket" where
  "echo_send setsockopt_ok answer seq ttl payload s =
     (case ttl_set setsockopt_ok ttl (es_ttl s) of
        (False, t) \<Rightarrow> ([], None, s\<lparr>es_ttl := t\<rparr>)
      | (True, t) \<Rightarrow>
          ([(ts_kernel t, echo_message (es_v6 s) (es_ident s) seq payload)],
           (case answer of
              WriteOK \<Rightarrow> Some []
            | WriteErr err q \<Rightarrow>
                if \<not> isICMPErrno err then None
                else if es_raw s then Some []
                else Some (drainErrQueue q (es_v6 s))),
           s\<lparr>es_ttl := t\<rparr>))"

definition rawError :: "bytes \<Rightarrow> net_addr \<Rightarrow> echo_socket \<Rightarrow> icmp_error option" where
  "rawError msg from s =
     (if length msg < icmpHeaderLen \<or> \<not> isICMPErrorType (es_v6 s) (msg ! 0) then None
      else let quoted = drop icmpHeaderLen msg in
        case (if es_v6 s then
                (if length quoted < ipv6HeaderLen + icmpHeaderLen \<or> quoted ! 6 \<noteq> 58 then None
                 else let inner = drop ipv6HeaderLen quoted in
                   if inner ! 0 \<noteq> icmpv6EchoRequest then None else Some inner)
              else if length quoted < 1 then None
              else let ihl = unat (quoted ! 0 AND 0x0f) * 4 in
                if ihl < 20 \<or> length quoted < ihl + icmpHeaderLen \<or> quoted ! 9 \<noteq> 1 then None
                else let inner = drop ihl quoted in
                  if inner ! 0 \<noteq> icmpv4EchoRequest then None else Some inner) of
          None \<Rightarrow> None
        | Some inner \<Rightarrow>
            if un16 (take 2 (drop 4 inner)) \<noteq> es_ident s then None
            else (case from of
                    OtherAddr \<Rightarrow> None
                  | IPAddr ip \<Rightarrow>
                      (case AddrFromSlice ip of
                         (src, ok) \<Rightarrow>
                           if \<not> ok then None
                           else Some \<lparr>ie_Type = msg ! 0, ie_Code = msg ! 1, ie_Info = un32 (take 4 (drop 4 msg)),
                                      ie_From = Unmap src, ie_Inner = inner\<rparr>)))"

text \<open>
  \<open>recv\<close> over the answers of the kernel: an event, a failure, or a read that blocks, with the
  socket and the answers left.
\<close>

datatype recv_result = Received echo_event | RecvFailed | Blocked

definition error_event :: "icmp_error \<Rightarrow> echo_event" where
  "error_event e = \<lparr>ev_seq = 0, ev_payload = [], ev_err = Some e\<rparr>"

fun recv_loop :: "nat \<Rightarrow> sock_read list \<Rightarrow> echo_socket \<Rightarrow> recv_result \<times> sock_read list \<times> echo_socket" where
  "recv_loop emptyDrains reads s =
     (case es_pending s of
        e # es \<Rightarrow> (Received (error_event e), reads, s\<lparr>es_pending := es\<rparr>)
      | [] \<Rightarrow>
          (case reads of
             [] \<Rightarrow> (Blocked, [], s)
           | ReadErr err q # rs \<Rightarrow>
               if \<not> isICMPErrno err then (RecvFailed, rs, s)
               else if es_raw s then recv_loop emptyDrains rs s
               else let errs = drainErrQueue q (es_v6 s) in
                 if errs = [] then
                   (if emptyDrains + 1 > 8 then (RecvFailed, rs, s\<lparr>es_pending := errs\<rparr>)
                    else recv_loop (emptyDrains + 1) rs (s\<lparr>es_pending := errs\<rparr>))
                 else recv_loop emptyDrains rs (s\<lparr>es_pending := errs\<rparr>)
           | ReadMsg msg from # rs \<Rightarrow>
               (case (if es_raw s then rawError msg from s else None) of
                  Some e \<Rightarrow> (Received (error_event e), rs, s)
                | None \<Rightarrow>
                    if length msg < icmpHeaderLen \<or> msg ! 0 \<noteq> (if es_v6 s then icmpv6EchoReply else icmpv4EchoReply)
                       \<or> msg ! 1 \<noteq> 0
                    then recv_loop 0 rs s
                    else if es_raw s \<and> un16 (take 2 (drop 4 msg)) \<noteq> es_ident s then recv_loop 0 rs s
                    else (Received \<lparr>ev_seq = un16 (take 2 (drop 6 msg)), ev_payload = drop icmpHeaderLen msg,
                                    ev_err = None\<rparr>, rs, s))))"

declare recv_loop.simps [simp del]

definition echo_recv :: "sock_read list \<Rightarrow> echo_socket \<Rightarrow> recv_result \<times> sock_read list \<times> echo_socket" where
  "echo_recv = recv_loop 0"



section \<open>The checksum is right\<close>

text \<open>The sum of all words of a message, as a receiver takes it.\<close>

fun word_sum :: "bytes \<Rightarrow> nat" where
  "word_sum (a # b # rest) = unat a * 256 + unat b + word_sum rest"
| "word_sum [a] = unat a * 256"
| "word_sum [] = 0"

lemma fold16_mod: "fold16 s mod 65535 = s mod 65535"
proof (induction s rule: fold16.induct)
  case (1 s)
  show ?case
  proof (cases "s div 65536 = 0")
    case False
    have "(s mod 65536 + s div 65536) mod 65535 = (s mod 65536 + 65536 * (s div 65536)) mod 65535"
      by (subst (2) mod_add_right_eq [symmetric]) (simp add: mod_add_right_eq mod_mult_left_eq [of 65536, symmetric])
    also have "\<dots> = s mod 65535" by simp
    finally show ?thesis using 1 False by (subst fold16.simps) simp
  qed (subst fold16.simps, simp)
qed

lemma fold16_range: "fold16 s \<le> 65535" "0 < s \<Longrightarrow> 0 < fold16 s"
proof -
  show "fold16 s \<le> 65535"
  proof (induction s rule: fold16.induct)
    case (1 s)
    then show ?case by (subst fold16.simps) (auto simp: div_eq_0_iff)
  qed
  show "0 < s \<Longrightarrow> 0 < fold16 s"
  proof (induction s rule: fold16.induct)
    case (1 s)
    then show ?case by (subst fold16.simps) auto
  qed
qed


lemma icmp_sum_rest: "2 < i \<Longrightarrow> acc + word_sum m < 2 ^ 32 \<Longrightarrow> icmp_sum i acc m = acc + word_sum m"
  by (induction i acc m rule: icmp_sum.induct) (auto simp: add.assoc)

lemma word_sum_bound: "word_sum m \<le> 65535 * ((length m + 1) div 2)"
proof (induction m rule: word_sum.induct)
  case (1 a b rest)
  have "unat a * 256 + unat b \<le> 65535" using unat_byte_le [of a] unat_byte_le [of b] by linarith
  with 1 show ?case by simp
next
  case (2 a)
  have "unat a * 256 \<le> 65535" using unat_byte_le [of a] by linarith
  then show ?case by simp
qed simp

lemma be16_two: "be16 w = [word_of_nat (unat w div 256), word_of_nat (unat w)]"
  by (simp add: be16_def numeral_2_eq_2)

lemma be16_sum: "\<exists>x y. be16 w = [x, y] \<and> unat x * 256 + unat y = unat w"
proof -
  obtain x y where xy: "be16 w = [x, y]" by (rule length_2E [OF length_be16])
  have "unat w < 256 ^ 2" using unsigned_less [of w, where 'a = nat] by simp
  then have "be_get (be16 w) = unat w" by (simp add: be16_def be_get_put)
  then show ?thesis using xy by simp
qed

lemma unat_not16: "f \<le> 65535 \<Longrightarrow> unat (NOT (word_of_nat f :: 16 word)) = 65535 - f"
proof -
  assume f: "f \<le> 65535"
  have "(word_of_nat (65535 - f) :: 16 word) = word_of_nat 65535 - word_of_nat f" using f by (rule of_nat_diff)
  moreover have "(word_of_nat 65535 :: 16 word) = - 1" by simp
  ultimately have "NOT (word_of_nat f :: 16 word) = word_of_nat (65535 - f)" by (simp add: not_eq_complement)
  moreover have "unat (word_of_nat (65535 - f) :: 16 word) = 65535 - f" by (subst unat_of_nat) (use f in simp)
  ultimately show ?thesis by (simp only:)
qed

lemma multiple_in_range: "n mod m = 0 \<Longrightarrow> 0 < n \<Longrightarrow> n \<le> m \<Longrightarrow> n = m" for n m :: nat
  by (cases "n < m") auto

lemma icmpChecksum_fills:
  assumes "length rest < 2 ^ 16"
  shows "fold16 (word_sum ([a, b] @ be16 (icmpChecksum (a # b # c # d # rest)) @ rest)) = 0xffff"
proof -
  let ?S = "unat a * 256 + unat b + word_sum rest"
  define f where "f = fold16 ?S"
  have "word_sum rest \<le> 65535 * ((2 ^ 16 + 1) div 2)"
    using word_sum_bound [of rest] assms by (rule_tac order.trans) (auto intro!: mult_left_mono div_le_mono)
  moreover have ab: "unat a * 256 + unat b \<le> 65535" using unat_byte_le [of a] unat_byte_le [of b] by linarith
  ultimately have small: "?S < 2 ^ 32" by simp
  then have "icmp_sum 0 0 (a # b # c # d # rest) = ?S" using ab by (simp add: icmp_sum_rest)
  then have ck: "icmpChecksum (a # b # c # d # rest) = NOT (word_of_nat f)" by (simp add: icmpChecksum_def f_def)
  have f: "f \<le> 65535" "f mod 65535 = ?S mod 65535" by (simp_all add: f_def fold16_range fold16_mod)
  obtain x y where xy: "be16 (icmpChecksum (a # b # c # d # rest)) = [x, y]" "unat x * 256 + unat y = 65535 - f"
    using be16_sum [of "icmpChecksum (a # b # c # d # rest)"] unat_not16 [OF f(1)] ck by metis
  let ?T = "word_sum ([a, b] @ [x, y] @ rest)"
  have T: "?T = ?S + (65535 - f)" using xy(2) by simp
  have m: "fold16 ?T mod 65535 = 0"
  proof -
    have "(?T + f) mod 65535 = ?S mod 65535" using T f(1) by simp
    then have "(?T + f) mod 65535 = f mod 65535" using f(2) by simp
    then have "65535 dvd (?T + f) - f" by (subst mod_eq_dvd_iff_nat [symmetric]) simp_all
    then have "?T mod 65535 = 0" by simp
    then show ?thesis by (simp only: fold16_mod)
  qed
  have p: "0 < ?T"
  proof (cases "f = 0")
    case False
    then have "0 < ?S" unfolding f_def by (cases "?S = 0") (simp_all add: fold16.simps)
    then show ?thesis unfolding T by (rule add_pos_nonneg) simp
  qed (use T in simp)
  have "fold16 ?T = 65535" by (rule multiple_in_range [OF m fold16_range(2) [OF p] fold16_range(1)])
  then show ?thesis unfolding xy(1) .
qed

text \<open>
  The checksum of an ICMPv4 echo request. The ones-complement sum of the whole message,
  the test a receiver makes, is all ones for every identifier, sequence and payload that fits a
  packet, a payload of odd length included.
\<close>

theorem icmp_checksum_verifies:
  assumes "length payload < 2 ^ 16 - 4"
  shows "fold16 (word_sum (echo_message False ident seq payload)) = 0xffff"
  using icmpChecksum_fills [of "be16 ident @ be16 seq @ payload" icmpv4EchoRequest 0 0 0] assms
  by (simp add: echo_message_def Let_def)

theorem icmp_checksum_verifies_witness:
  "echo_message False 0x1234 1 [0xab, 0xcd, 0xef] = [8, 0, 0x4a, 0xfc, 0x12, 0x34, 0, 1, 0xab, 0xcd, 0xef]
   \<and> fold16 (word_sum (echo_message False 0x1234 1 [0xab, 0xcd, 0xef])) = 0xffff"
proof
  show "echo_message False 0x1234 1 [0xab, 0xcd, 0xef] = [8, 0, 0x4a, 0xfc, 0x12, 0x34, 0, 1, 0xab, 0xcd, 0xef]"
  proof -
    have "fold16 111874 = 46339" by (subst fold16.simps, simp, subst fold16.simps, simp)
    then show ?thesis
      by (simp add: echo_message_def Let_def icmpChecksum_def icmpv4EchoRequest_def be16_two)
  qed
  show "fold16 (word_sum (echo_message False 0x1234 1 [0xab, 0xcd, 0xef])) = 0xffff"
    by (rule icmp_checksum_verifies) simp
qed


section \<open>What a socket receives\<close>

lemma rawError_own:
  assumes "rawError msg from s = Some e"
  shows "IsValid (ie_From e)" "8 \<le> length (ie_Inner e)" "un16 (take 2 (drop 4 (ie_Inner e))) = es_ident s"
    "\<exists>k. ie_Inner e = drop k msg"
  using assms
  by (auto simp: rawError_def Let_def icmpHeaderLen_def AddrFromSlice_def IsValid_def AddrFrom4_def AddrFrom16_def
      split: if_splits option.splits net_addr.splits)

end
