(* ===== verification/Relay.thy ===== *)
theory Relay
  imports Echo_Socket "HOL-Library.AList" "HOL-Library.Sublist"
begin

text \<open>
  The relays of the helper, \<open>relayEcho\<close> and \<open>relayUDP\<close> of \<open>internal/mux/server.go\<close>, with the send
  times of \<open>internal/mux/echo_socket.go\<close>. A relay has two goroutines, one for the frames of the
  stream and one for the socket; a run is a sequence of their iterations in the order the locks put
  them, with the arrivals at the socket, the timer and the end of the stream in between. An
  iteration that ends its goroutine closes the flow.
\<close>

section \<open>Send times\<close>

text \<open>The send time per sequence, forgotten as a whole when the map is full.\<close>

definition echoTimesCap :: nat where "echoTimesCap = 1024"

type_synonym echo_times = "(16 word \<times> int) list"

definition times_mark :: "int \<Rightarrow> 16 word \<Rightarrow> echo_times \<Rightarrow> echo_times" where
  "times_mark t seq sent = AList.update seq t (if length sent \<ge> echoTimesCap then [] else sent)"

definition times_take :: "int \<Rightarrow> 16 word \<Rightarrow> echo_times \<Rightarrow> int \<times> echo_times" where
  "times_take t seq sent =
     (case map_of sent seq of None \<Rightarrow> (0, sent) | Some at \<Rightarrow> (i64 (t - at), AList.delete seq sent))"


section \<open>The echo relay\<close>

text \<open>
  \<open>rl_inbox\<close> holds what the kernel has for the socket, \<open>rl_sent\<close> collects the messages given to
  the kernel with the TTL of the socket, \<open>rl_out\<close> the frames on the stream.
\<close>

record relay =
  rl_sock :: echo_socket
  rl_times :: echo_times
  rl_inbox :: "sock_read list"
  rl_sent :: "(int \<times> bytes) list"
  rl_out :: "bytes list"
  rl_deadline :: int
  rl_open :: bool

datatype relay_step =
    RequestFrame int bytes bool sock_write
  | StreamEnd
  | Arrive sock_read
  | SocketEvent int
  | IdleTimer int

definition newRelay :: "int \<Rightarrow> int \<Rightarrow> echo_socket \<Rightarrow> relay" where
  "newRelay idle t sock =
     \<lparr>rl_sock = sock, rl_times = [], rl_inbox = [], rl_sent = [], rl_out = [], rl_deadline = t + idle, rl_open = True\<rparr>"

definition handleICMP ::
  "bool \<Rightarrow> bool \<Rightarrow> 16 word \<Rightarrow> int \<Rightarrow> int \<Rightarrow> int \<Rightarrow> addr_port \<Rightarrow> byte \<times> relay option" where
  "handleICMP raw_ok ping_ok randomIdent default_ttl idle t dst =
     (case openEchoSocket raw_ok ping_ok randomIdent default_ttl (Is6 (Unmap (ap_addr dst))) of
        None \<Rightarrow> (statusUnsupported, None)
      | Some sock \<Rightarrow> (statusOK, Some (newRelay idle t sock)))"

definition write_frame :: "bytes \<Rightarrow> relay \<Rightarrow> relay" where
  "write_frame f r =
     (if \<not> rl_open r then r
      else case writeFrame f of
        Inl _ \<Rightarrow> r\<lparr>rl_open := False\<rparr>
      | Inr b \<Rightarrow> r\<lparr>rl_out := rl_out r @ [b]\<rparr>)"

fun relay_do :: "int \<Rightarrow> relay_step \<Rightarrow> relay \<Rightarrow> relay" where
  "relay_do idle (RequestFrame t frame setsockopt_ok answer) r =
     (if \<not> rl_open r then r
      else case decodeEchoRequest frame of
        Inl _ \<Rightarrow> r\<lparr>rl_open := False\<rparr>
      | Inr (seq, ttl, payload) \<Rightarrow>
          (case echo_send setsockopt_ok answer seq ttl payload (rl_sock r) of
             (msgs, errs, sock) \<Rightarrow>
               let r1 = r\<lparr>rl_deadline := t + idle, rl_times := times_mark t seq (rl_times r),
                          rl_sock := sock, rl_sent := rl_sent r @ msgs\<rparr>
               in (case errs of
                     None \<Rightarrow> r1\<lparr>rl_open := False\<rparr>
                   | Some es \<Rightarrow> fold write_frame (map encodeEchoError es) r1)))"
| "relay_do idle StreamEnd r = r\<lparr>rl_open := False\<rparr>"
| "relay_do idle (Arrive rd) r = r\<lparr>rl_inbox := rl_inbox r @ [rd]\<rparr>"
| "relay_do idle (SocketEvent t) r =
     (if \<not> rl_open r then r
      else case echo_recv (rl_inbox r) (rl_sock r) of
        (Blocked, _, _) \<Rightarrow> r
      | (RecvFailed, rs, s) \<Rightarrow> r\<lparr>rl_sock := s, rl_inbox := rs, rl_open := False\<rparr>
      | (Received ev, rs, s) \<Rightarrow>
          let r1 = r\<lparr>rl_sock := s, rl_inbox := rs, rl_deadline := t + idle\<rparr>
          in (case ev_err ev of
                Some e \<Rightarrow> write_frame (encodeEchoError e) r1
              | None \<Rightarrow>
                  (case times_take t (ev_seq ev) (rl_times r) of
                     (rtt, sent) \<Rightarrow>
                       write_frame (encodeEchoData (ev_seq ev) rtt (ev_payload ev)) (r1\<lparr>rl_times := sent\<rparr>))))"
| "relay_do idle (IdleTimer t) r = (if rl_deadline r \<le> t then r\<lparr>rl_open := False\<rparr> else r)"

definition relayEcho :: "int \<Rightarrow> relay_step list \<Rightarrow> relay \<Rightarrow> relay" where
  "relayEcho idle steps r = fold (relay_do idle) steps r"


section \<open>The UDP relay\<close>

record udp_relay =
  up_v6 :: bool
  up_ttl :: ttl_setter
  up_drains :: nat
  up_sent :: "(int \<times> bytes) list"
  up_out :: "bytes list"
  up_deadline :: int
  up_open :: bool

datatype udp_step =
    UdpRequest int bytes bool sock_write
  | UdpStreamEnd
  | UdpData int bytes
  | UdpReadErr int errno "queue_entry list"
  | UdpIdle int

definition newUdpRelay :: "int \<Rightarrow> int \<Rightarrow> int \<Rightarrow> bool \<Rightarrow> udp_relay" where
  "newUdpRelay idle default_ttl t v6 =
     \<lparr>up_v6 = v6, up_ttl = \<lparr>ts_last = 0, ts_kernel = default_ttl\<rparr>, up_drains = 0, up_sent = [], up_out = [],
      up_deadline = t + idle, up_open = True\<rparr>"

definition udp_write :: "bytes \<Rightarrow> udp_relay \<Rightarrow> udp_relay" where
  "udp_write f r =
     (if \<not> up_open r then r
      else case writeFrame f of
        Inl _ \<Rightarrow> r\<lparr>up_open := False\<rparr>
      | Inr b \<Rightarrow> r\<lparr>up_out := up_out r @ [b]\<rparr>)"

definition writeErrors :: "icmp_error list \<Rightarrow> udp_relay \<Rightarrow> udp_relay" where
  "writeErrors errs = fold udp_write (map encodeUDPError errs)"

fun udp_do :: "int \<Rightarrow> udp_step \<Rightarrow> udp_relay \<Rightarrow> udp_relay" where
  "udp_do idle (UdpRequest t frame setsockopt_ok answer) r =
     (if \<not> up_open r then r
      else case decodeUDPRequest frame of
        Inl _ \<Rightarrow> r\<lparr>up_open := False\<rparr>
      | Inr (hops, payload) \<Rightarrow>
          let ttl = snd (ttl_set setsockopt_ok hops (up_ttl r));
              r1 = r\<lparr>up_deadline := t + idle, up_ttl := ttl, up_sent := up_sent r @ [(ts_kernel ttl, payload)]\<rparr>
          in (case answer of
                WriteOK \<Rightarrow> r1
              | WriteErr err q \<Rightarrow>
                  (let errs = icmpErrorsFor q (up_v6 r) err
                   in if errs = [] then r1\<lparr>up_open := False\<rparr> else writeErrors errs r1)))"
| "udp_do idle UdpStreamEnd r = r\<lparr>up_open := False\<rparr>"
| "udp_do idle (UdpData t payload) r =
     (if \<not> up_open r then r else udp_write (encodeUDPData payload) (r\<lparr>up_deadline := t + idle\<rparr>))"
| "udp_do idle (UdpReadErr t err q) r =
     (if \<not> up_open r then r
      else let errs = icmpErrorsFor q (up_v6 r) err
        in if errs = [] then
             (let r1 = r\<lparr>up_drains := up_drains r + 1\<rparr>
              in if \<not> isICMPErrno err \<or> up_drains r1 > 8 then r1\<lparr>up_open := False\<rparr> else r1)
           else writeErrors errs (r\<lparr>up_drains := 0, up_deadline := t + idle\<rparr>))"
| "udp_do idle (UdpIdle t) r = (if up_deadline r \<le> t then r\<lparr>up_open := False\<rparr> else r)"

definition udp_relay_run :: "int \<Rightarrow> udp_step list \<Rightarrow> udp_relay \<Rightarrow> udp_relay" where
  "udp_relay_run idle steps r = fold (udp_do idle) steps r"


section \<open>What an echo socket gives to the relay\<close>

definition pending_ok :: "echo_socket \<Rightarrow> bool" where
  "pending_ok s \<longleftrightarrow> (\<forall>e\<in>set (es_pending s). IsValid (ie_From e)) \<and> (es_raw s \<longrightarrow> es_pending s = [])"

text \<open>An error a socket reports has a sender, and on a raw socket it quotes the socket's identifier.\<close>

definition event_ok :: "bool \<Rightarrow> 16 word \<Rightarrow> icmp_error \<Rightarrow> bool" where
  "event_ok raw ident e \<longleftrightarrow> IsValid (ie_From e) \<and> (raw \<longrightarrow> un16 (take 2 (drop 4 (ie_Inner e))) = ident)"

lemma pending_ok_drained: "pending_ok s \<Longrightarrow> \<not> es_raw s \<Longrightarrow> pending_ok (s\<lparr>es_pending := drainErrQueue q v6\<rparr>)"
  using drainErrQueue_from by (auto simp: pending_ok_def)

definition recv_ok :: "echo_socket \<Rightarrow> recv_result \<times> sock_read list \<times> echo_socket \<Rightarrow> bool" where
  "recv_ok s x \<longleftrightarrow> (case x of (res, rs, s') \<Rightarrow>
     (\<exists>p. s' = s\<lparr>es_pending := p\<rparr>) \<and> pending_ok s'
     \<and> (\<forall>ev e. res = Received ev \<longrightarrow> ev_err ev = Some e \<longrightarrow> event_ok (es_raw s) (es_ident s) e))"

lemma recv_ok_pending: "recv_ok (s\<lparr>es_pending := p\<rparr>) x \<Longrightarrow> recv_ok s x"
  by (auto simp: recv_ok_def)

lemma rawError_event: "rawError msg from s = Some e \<Longrightarrow> event_ok (es_raw s) (es_ident s) e"
  by (simp add: event_ok_def rawError_own)

lemma socket_self: "\<exists>p. s = s\<lparr>es_pending := p\<rparr>" for s :: echo_socket
  by (rule exI [of _ "es_pending s"]) simp

lemma recv_ok_results:
  "pending_ok s \<Longrightarrow> recv_ok s (Blocked, rs, s)"
  "pending_ok s \<Longrightarrow> recv_ok s (RecvFailed, rs, s)"
  "pending_ok s \<Longrightarrow> recv_ok s (RecvFailed, rs, s\<lparr>es_pending := []\<rparr>)"
  "pending_ok s \<Longrightarrow> ev_err ev = None \<Longrightarrow> recv_ok s (Received ev, rs, s)"
  "pending_ok s \<Longrightarrow> event_ok (es_raw s) (es_ident s) e \<Longrightarrow> recv_ok s (Received (error_event e), rs, s)"
  "pending_ok s \<Longrightarrow> es_pending s = e # es \<Longrightarrow> recv_ok s (Received (error_event e), rs, s\<lparr>es_pending := es\<rparr>)"
  by (auto simp: recv_ok_def pending_ok_def error_event_def event_ok_def intro: socket_self)

lemma recv_loop_ok: "pending_ok s \<Longrightarrow> recv_ok s (recv_loop n reads s)"
proof (induction reads arbitrary: n s)
  case Nil
  then show ?case by (subst recv_loop.simps) (auto simp: recv_ok_results split: list.splits)
next
  case (Cons rd reads)
  note ih = Cons.IH [OF Cons.prems]
  have drained: "recv_ok s (recv_loop m reads (s\<lparr>es_pending := p\<rparr>))"
    if "\<not> es_raw s" "drainErrQueue q (es_v6 s) = p" for m q p
    using recv_ok_pending [OF Cons.IH [OF pending_ok_drained [OF Cons.prems that(1)]]] that(2) by blast
  show ?case
  proof (cases rd)
    case (ReadErr err q)
    then show ?thesis using ih Cons.prems drained
      by (subst recv_loop.simps) (auto simp: Let_def recv_ok_results split: list.splits)
  next
    case (ReadMsg msg src)
    then show ?thesis using ih Cons.prems rawError_event [of msg src s]
      by (subst recv_loop.simps) (auto simp: recv_ok_results split: list.splits option.splits)
  qed
qed


section \<open>The send times are bounded\<close>

lemma length_update: "length (AList.update k v al) \<le> Suc (length al)"
  by (induction al) auto

lemma times_mark_bound: "length (times_mark t seq sent) \<le> echoTimesCap"
  using length_update [of seq t sent] by (auto simp: times_mark_def echoTimesCap_def)

lemma times_take_bound: "length sent \<le> echoTimesCap \<Longrightarrow> length (snd (times_take t seq sent)) \<le> echoTimesCap"
  using AList.length_delete_le [of seq sent] by (auto simp: times_take_def split: option.splits)

text \<open>The round-trip time of a reply is the time since the last request with its sequence.\<close>

lemma times_take_mark: "fst (times_take t' seq (times_mark t seq sent)) = i64 (t' - t)"
  by (simp add: times_take_def times_mark_def update_conv')

lemma times_take_mark_other:
  "seq' \<noteq> seq \<Longrightarrow> length sent < echoTimesCap \<Longrightarrow>
   fst (times_take t' seq' (times_mark t seq sent)) = fst (times_take t' seq' sent)"
  by (auto simp: times_take_def times_mark_def update_conv' split: option.splits)


section \<open>The contract of a relay\<close>

text \<open>
  What both relays promise of one iteration: a closed relay stays closed and sends nothing; a request goes
  out as one message that matches it, or the flow closes; whatever is written to the stream is
  whole frames the other side decodes.
\<close>

locale flow_relay =
  fixes step :: "'s \<Rightarrow> 'r \<Rightarrow> 'r"
    and opn :: "'r \<Rightarrow> bool"
    and sent :: "'r \<Rightarrow> (int \<times> bytes) list"
    and out :: "'r \<Rightarrow> bytes list"
    and inv :: "'r \<Rightarrow> bool"
    and request :: "'s \<Rightarrow> 'q option"
    and matches :: "'q \<Rightarrow> int \<times> bytes \<Rightarrow> bool"
    and reply_ok :: "bytes \<Rightarrow> bool"
  assumes closed_stays: "\<not> opn r \<Longrightarrow> \<not> opn (step s r) \<and> sent (step s r) = sent r"
    and step_inv: "inv r \<Longrightarrow> inv (step s r)"
    and step_sent: "inv r \<Longrightarrow> opn r \<Longrightarrow>
      (\<exists>q m. request s = Some q \<and> sent (step s r) = sent r @ [m] \<and> matches q m)
      \<or> (sent (step s r) = sent r \<and> (request s \<noteq> None \<longrightarrow> \<not> opn (step s r)))"
    and step_out: "inv r \<Longrightarrow>
      \<exists>fs. out (step s r) = out r @ map frame_bytes fs \<and> (\<forall>f\<in>set fs. length f \<le> maxUDPFrame \<and> reply_ok f)"
begin

lemma run_inv: "inv r \<Longrightarrow> inv (fold step ss r)"
  by (induction ss arbitrary: r) (auto simp: step_inv)

lemma run_closed: "\<not> opn r \<Longrightarrow> \<not> opn (fold step ss r) \<and> sent (fold step ss r) = sent r"
proof (induction ss arbitrary: r)
  case (Cons s ss)
  then show ?case using closed_stays [of r s] by auto
qed simp

lemma run_sent:
  "inv r \<Longrightarrow> \<exists>ps ms. prefix ps (List.map_filter request ss) \<and> sent (fold step ss r) = sent r @ ms
     \<and> list_all2 matches ps ms \<and> (opn (fold step ss r) \<longrightarrow> ps = List.map_filter request ss)"
proof (induction ss arbitrary: r)
  case Nil
  then show ?case by (simp add: map_filter_simps)
next
  case (Cons s ss)
  show ?case
  proof (cases "opn r")
    case False
    then show ?thesis using run_closed [of r "s # ss"] by (intro exI [of _ "[]"]) simp
  next
    case True
    let ?r = "step s r"
    obtain ps ms where ih: "prefix ps (List.map_filter request ss)" "sent (fold step ss ?r) = sent ?r @ ms"
      "list_all2 matches ps ms" "opn (fold step ss ?r) \<longrightarrow> ps = List.map_filter request ss"
      using Cons.IH [OF step_inv [OF Cons.prems, of s]] by blast
    from step_sent [OF Cons.prems True, of s]
    consider (request) q m where "request s = Some q" "sent ?r = sent r @ [m]" "matches q m"
      | (other) "sent ?r = sent r" "request s = None"
      | (close) "sent ?r = sent r" "\<not> opn ?r" by blast
    then show ?thesis
    proof cases
      case request
      with ih show ?thesis by (intro exI [of _ "q # ps"] exI [of _ "m # ms"]) (simp add: map_filter_simps)
    next
      case other
      with ih show ?thesis by (intro exI [of _ ps] exI [of _ ms]) (simp add: map_filter_simps)
    next
      case close
      with run_closed [OF close(2), of ss] show ?thesis by (intro exI [of _ "[]"]) simp
    qed
  qed
qed

lemma run_out:
  "inv r \<Longrightarrow> \<exists>fs. out (fold step ss r) = out r @ map frame_bytes fs
     \<and> (\<forall>f\<in>set fs. length f \<le> maxUDPFrame \<and> reply_ok f)"
proof (induction ss arbitrary: r)
  case (Cons s ss)
  obtain fs where "out (step s r) = out r @ map frame_bytes fs" "\<forall>f\<in>set fs. length f \<le> maxUDPFrame \<and> reply_ok f"
    using step_out [OF Cons.prems] by blast
  moreover obtain gs where "out (fold step ss (step s r)) = out (step s r) @ map frame_bytes gs"
    "\<forall>f\<in>set gs. length f \<le> maxUDPFrame \<and> reply_ok f"
    using Cons.IH [OF step_inv [OF Cons.prems]] by blast
  ultimately show ?case by (intro exI [of _ "fs @ gs"]) auto
qed simp

lemma run_frames:
  assumes "inv r" "out r = []"
  shows "\<exists>fs. read_n readFrame (length fs) (concat (out (fold step ss r))) = Inr (fs, [])
     \<and> (\<forall>f\<in>set fs. reply_ok f)"
proof -
  obtain fs where fs: "out (fold step ss r) = map frame_bytes fs" "\<forall>f\<in>set fs. length f \<le> maxUDPFrame \<and> reply_ok f"
    using run_out [OF assms(1)] assms(2) by auto
  then have "read_n readFrame (length fs) (concat (map frame_bytes fs) @ []) = Inr (map (\<lambda>f. f) fs, [])"
    by (intro frame.read_all) (simp add: list_all_iff)
  with fs show ?thesis by auto
qed

end


section \<open>The echo relay keeps the contract\<close>

definition echo_inv :: "bool \<Rightarrow> bool \<Rightarrow> 16 word \<Rightarrow> relay \<Rightarrow> bool" where
  "echo_inv v6 raw ident r \<longleftrightarrow> es_v6 (rl_sock r) = v6 \<and> es_raw (rl_sock r) = raw \<and> es_ident (rl_sock r) = ident
     \<and> ttl_known (es_ttl (rl_sock r)) \<and> pending_ok (rl_sock r) \<and> length (rl_times r) \<le> echoTimesCap"

definition echo_request :: "relay_step \<Rightarrow> (16 word \<times> byte \<times> bytes) option" where
  "echo_request s = (case s of RequestFrame t f ok a \<Rightarrow> (case decodeEchoRequest f of Inr x \<Rightarrow> Some x | Inl _ \<Rightarrow> None)
                     | _ \<Rightarrow> None)"

definition echo_matches :: "bool \<Rightarrow> 16 word \<Rightarrow> 16 word \<times> byte \<times> bytes \<Rightarrow> int \<times> bytes \<Rightarrow> bool" where
  "echo_matches v6 ident q x = (case q of (seq, ttl, payload) \<Rightarrow>
     snd x = echo_message v6 ident seq payload \<and> (ttl \<noteq> 0 \<longrightarrow> fst x = uint ttl))"

definition echo_reply_ok :: "bool \<Rightarrow> 16 word \<Rightarrow> bytes \<Rightarrow> bool" where
  "echo_reply_ok raw ident f \<longleftrightarrow> (case decodeEchoReply f of
     Inl _ \<Rightarrow> False
   | Inr rep \<Rightarrow> (case er_Error rep of None \<Rightarrow> True
                 | Some e \<Rightarrow> raw \<longrightarrow> un16 (take 2 (drop 4 (ie_Inner e))) = ident))"

lemma decode_echo_error: "IsValid (ie_From e) \<Longrightarrow>
  decodeEchoReply (encodeEchoError e) = Inr \<lparr>er_Seq = 0, er_RTT = 0, er_Payload = [], er_Error = Some (wire_icmp e)\<rparr>"
  using decodeICMPError_append [of e] by (simp add: decodeEchoReply_def encodeEchoError_def icmp_append_cons)

lemma echo_error_ok: "event_ok raw ident e \<Longrightarrow> echo_reply_ok raw ident (encodeEchoError e)"
  by (simp add: echo_reply_ok_def event_ok_def decode_echo_error wire_icmp_def)

lemma echo_data_ok: "echo_reply_ok raw ident (encodeEchoData seq rtt payload)"
proof -
  have "length (encodeEchoData seq rtt payload) = 7 + length payload" "encodeEchoData seq rtt payload ! 0 = replyData"
    by (simp_all add: encodeEchoData_def)
  then show ?thesis by (simp add: echo_reply_ok_def decodeEchoReply_def Let_def)
qed

lemma write_frame_effect:
  "\<exists>b gs. fold write_frame fs r = r\<lparr>rl_open := b, rl_out := rl_out r @ map frame_bytes gs\<rparr>
     \<and> (b \<longrightarrow> rl_open r) \<and> set gs \<subseteq> {f \<in> set fs. length f \<le> maxUDPFrame}"
proof (induction fs arbitrary: r)
  case Nil
  then show ?case by (intro exI [of _ "rl_open r"] exI [of _ "[]"]) simp
next
  case (Cons f fs)
  obtain c hs where 1: "write_frame f r = r\<lparr>rl_open := c, rl_out := rl_out r @ map frame_bytes hs\<rparr>"
    "c \<longrightarrow> rl_open r" "set hs \<subseteq> {g \<in> {f}. length g \<le> maxUDPFrame}"
  proof (cases "rl_open r \<and> length f \<le> maxUDPFrame")
    case True
    then show ?thesis
      by (intro that [of "[f]" True]) (auto simp: write_frame_def writeFrame_def frame_bytes_def)
  next
    case False
    then show ?thesis
      by (intro that [of "[]" False]) (auto simp: write_frame_def writeFrame_def)
  qed
  obtain b gs where "fold write_frame fs (write_frame f r) =
      (write_frame f r)\<lparr>rl_open := b, rl_out := rl_out (write_frame f r) @ map frame_bytes gs\<rparr>"
    "b \<longrightarrow> rl_open (write_frame f r)" "set gs \<subseteq> {f \<in> set fs. length f \<le> maxUDPFrame}"
    using Cons.IH by blast
  with 1 show ?case by (intro exI [of _ b] exI [of _ "hs @ gs"]) auto
qed

text \<open>One iteration of an open relay is a new state without output, then frames.\<close>

definition echo_progress :: "bool \<Rightarrow> bool \<Rightarrow> 16 word \<Rightarrow> relay_step \<Rightarrow> relay \<Rightarrow> relay \<Rightarrow> bool" where
  "echo_progress v6 raw ident s r r1 \<longleftrightarrow> echo_inv v6 raw ident r1 \<and> rl_out r1 = rl_out r \<and>
     ((\<exists>q m. echo_request s = Some q \<and> rl_sent r1 = rl_sent r @ [m] \<and> echo_matches v6 ident q m)
      \<or> (rl_sent r1 = rl_sent r \<and> (echo_request s \<noteq> None \<longrightarrow> \<not> rl_open r1)))"

lemma echo_inv_fields [simp]:
  "echo_inv v6 raw ident (r\<lparr>rl_open := b\<rparr>) = echo_inv v6 raw ident r"
  "echo_inv v6 raw ident (r\<lparr>rl_out := f\<rparr>) = echo_inv v6 raw ident r"
  by (simp_all add: echo_inv_def)

lemma echo_send_law:
  assumes "echo_send ok answer seq ttl payload s = (msgs, errs, sock)" "ttl_known (es_ttl s)"
  shows "\<exists>t. sock = s\<lparr>es_ttl := t\<rparr> \<and> ttl_known t"
    "(msgs = [] \<and> errs = None) \<or> (\<exists>m. msgs = [m] \<and> echo_matches (es_v6 s) (es_ident s) (seq, ttl, payload) m)"
    "errs = Some es \<Longrightarrow> e \<in> set es \<Longrightarrow> event_ok (es_raw s) (es_ident s) e"
proof -
  obtain b t where t: "ttl_set ok ttl (es_ttl s) = (b, t)" by (cases "ttl_set ok ttl (es_ttl s)")
  show "\<exists>t. sock = s\<lparr>es_ttl := t\<rparr> \<and> ttl_known t"
    using assms ttl_set_known [of "es_ttl s" ok ttl] t
    by (intro exI [of _ t]) (auto simp: echo_send_def split: bool.splits)
  show "(msgs = [] \<and> errs = None) \<or> (\<exists>m. msgs = [m] \<and> echo_matches (es_v6 s) (es_ident s) (seq, ttl, payload) m)"
    using assms ttl_set_ok [of "es_ttl s" ok ttl] t
    by (auto simp: echo_send_def echo_matches_def split: bool.splits)
  show "errs = Some es \<Longrightarrow> e \<in> set es \<Longrightarrow> event_ok (es_raw s) (es_ident s) e"
    using assms(1) t drainErrQueue_from
    by (auto simp: echo_send_def event_ok_def split: bool.splits sock_write.splits if_splits)
qed

lemma echo_step_request:
  assumes "echo_inv v6 raw ident r" "rl_open r"
  shows "\<exists>r1 fs. relay_do idle (RequestFrame t frame ok answer) r = fold write_frame fs r1
     \<and> echo_progress v6 raw ident (RequestFrame t frame ok answer) r r1 \<and> (\<forall>f\<in>set fs. echo_reply_ok raw ident f)"
proof (cases "decodeEchoRequest frame")
  case (Inl err)
  then show ?thesis using assms
    by (intro exI [of _ "r\<lparr>rl_open := False\<rparr>"] exI [of _ "[]"]) (simp add: echo_progress_def echo_request_def)
next
  case (Inr req)
  obtain seq ttl payload where req: "req = (seq, ttl, payload)" by (cases req)
  obtain msgs errs sock where send: "echo_send ok answer seq ttl payload (rl_sock r) = (msgs, errs, sock)"
    by (cases "echo_send ok answer seq ttl payload (rl_sock r)") auto
  have "ttl_known (es_ttl (rl_sock r))" using assms(1) by (simp add: echo_inv_def)
  note law = echo_send_law [OF send this]
  let ?r1 = "r\<lparr>rl_deadline := t + idle, rl_times := times_mark t seq (rl_times r), rl_sock := sock, rl_sent := rl_sent r @ msgs\<rparr>"
  have "echo_inv v6 raw ident ?r1"
    using assms(1) times_mark_bound [of t seq "rl_times r"] law(1) by (auto simp: echo_inv_def pending_ok_def)
  then have progress: "echo_progress v6 raw ident (RequestFrame t frame ok answer) r (?r1\<lparr>rl_open := b\<rparr>)"
    if "errs = None \<longrightarrow> \<not> b" for b
    using law(2) that assms(1) by (auto simp: echo_progress_def echo_request_def Inr req echo_inv_def)
  show ?thesis
  proof (cases errs)
    case None
    then show ?thesis using assms(2) progress [of False]
      by (intro exI [of _ "?r1\<lparr>rl_open := False\<rparr>"] exI [of _ "[]"]) (simp add: Inr req send Let_def)
  next
    case (Some es)
    have "\<forall>f\<in>set (map encodeEchoError es). echo_reply_ok raw ident f"
      using law(3) [OF Some] assms(1) by (auto simp: echo_inv_def intro: echo_error_ok)
    moreover have eq: "?r1\<lparr>rl_open := True\<rparr> = ?r1" using assms(2) by simp
    have "echo_progress v6 raw ident (RequestFrame t frame ok answer) r (?r1\<lparr>rl_open := True\<rparr>)"
      by (rule progress) (simp add: Some)
    then have "echo_progress v6 raw ident (RequestFrame t frame ok answer) r ?r1" unfolding eq .
    ultimately show ?thesis using assms(2) Some
      by (intro exI [of _ ?r1] exI [of _ "map encodeEchoError es"]) (simp add: Inr req send Let_def)
  qed
qed

lemma echo_step_socket:
  assumes "echo_inv v6 raw ident r" "rl_open r"
  shows "\<exists>r1 fs. relay_do idle (SocketEvent t) r = fold write_frame fs r1
     \<and> echo_progress v6 raw ident (SocketEvent t) r r1 \<and> (\<forall>f\<in>set fs. echo_reply_ok raw ident f)"
proof -
  obtain res rs s' where recv: "echo_recv (rl_inbox r) (rl_sock r) = (res, rs, s')"
    by (cases "echo_recv (rl_inbox r) (rl_sock r)") auto
  have "recv_ok (rl_sock r) (res, rs, s')"
    using recv_loop_ok [of "rl_sock r" 0 "rl_inbox r"] assms(1) recv by (simp add: echo_recv_def echo_inv_def)
  then have s': "\<exists>p. s' = (rl_sock r)\<lparr>es_pending := p\<rparr>" "pending_ok s'"
    and ev: "\<And>ev e. res = Received ev \<Longrightarrow> ev_err ev = Some e \<Longrightarrow> event_ok raw ident e"
    using assms(1) by (auto simp: recv_ok_def echo_inv_def)
  let ?r1 = "r\<lparr>rl_sock := s', rl_inbox := rs\<rparr>"
  have inv: "echo_inv v6 raw ident ?r1" using assms(1) s' by (auto simp: echo_inv_def)
  have q: "echo_request (SocketEvent t) = None" by (simp add: echo_request_def)
  show ?thesis
  proof (cases res)
    case Blocked
    then show ?thesis using assms q
      by (intro exI [of _ r] exI [of _ "[]"]) (simp add: recv echo_progress_def)
  next
    case RecvFailed
    then show ?thesis using assms inv q
      by (intro exI [of _ "?r1\<lparr>rl_open := False\<rparr>"] exI [of _ "[]"]) (simp add: recv echo_progress_def)
  next
    case (Received ev)
    show ?thesis
    proof (cases "ev_err ev")
      case (Some e)
      have "echo_inv v6 raw ident (?r1\<lparr>rl_deadline := t + idle\<rparr>)" using inv by (simp add: echo_inv_def)
      then show ?thesis using assms q echo_error_ok [OF ev [OF Received Some]]
        by (intro exI [of _ "?r1\<lparr>rl_deadline := t + idle\<rparr>"] exI [of _ "[encodeEchoError e]"])
           (simp add: recv echo_progress_def Received Some)
    next
      case None
      obtain rtt sent where take: "times_take t (ev_seq ev) (rl_times r) = (rtt, sent)"
        by (cases "times_take t (ev_seq ev) (rl_times r)")
      then have "echo_inv v6 raw ident (?r1\<lparr>rl_deadline := t + idle, rl_times := sent\<rparr>)"
        using inv times_take_bound [of "rl_times r" t "ev_seq ev"] by (simp add: echo_inv_def)
      then show ?thesis using assms q echo_data_ok
        by (intro exI [of _ "?r1\<lparr>rl_deadline := t + idle, rl_times := sent\<rparr>"] exI [of _ "[encodeEchoData (ev_seq ev) rtt (ev_payload ev)]"])
           (simp add: recv echo_progress_def Received None take)
    qed
  qed
qed

lemma echo_step_progress:
  assumes "echo_inv v6 raw ident r" "rl_open r"
  shows "\<exists>r1 fs. relay_do idle s r = fold write_frame fs r1
     \<and> echo_progress v6 raw ident s r r1 \<and> (\<forall>f\<in>set fs. echo_reply_ok raw ident f)"
proof -
  have quiet: ?thesis if "echo_progress v6 raw ident s r (relay_do idle s r)"
    using that by (intro exI [of _ "relay_do idle s r"] exI [of _ "[]"]) simp
  show ?thesis
  proof (cases s)
    case RequestFrame
    then show ?thesis using echo_step_request [OF assms] by simp
  next
    case SocketEvent
    then show ?thesis using echo_step_socket [OF assms] by simp
  qed (rule quiet, use assms in \<open>simp add: echo_progress_def echo_request_def echo_inv_def\<close>)+
qed

lemma echo_closed_stays:
  "\<not> rl_open r \<Longrightarrow> \<not> rl_open (relay_do idle s r) \<and> rl_sent (relay_do idle s r) = rl_sent r
     \<and> rl_out (relay_do idle s r) = rl_out r \<and> echo_inv v6 raw ident (relay_do idle s r) = echo_inv v6 raw ident r"
  by (cases s) (simp_all add: echo_inv_def)

lemma echo_step_law:
  assumes "echo_inv v6 raw ident r"
  obtains b gs r1 where "relay_do idle s r = r1\<lparr>rl_open := b, rl_out := rl_out r @ map frame_bytes gs\<rparr>"
    "b \<longrightarrow> rl_open r1" "\<forall>f\<in>set gs. length f \<le> maxUDPFrame \<and> echo_reply_ok raw ident f"
    "echo_inv v6 raw ident r1" "rl_open r \<longrightarrow> echo_progress v6 raw ident s r r1"
proof (cases "rl_open r")
  case False
  then show ?thesis
    using echo_closed_stays [OF False, of idle s v6 raw ident] assms
    by (intro that [where b = False and gs = "[]" and ?r1.0 = "relay_do idle s r"]) simp_all
next
  case True
  obtain r1 fs where *: "relay_do idle s r = fold write_frame fs r1" "echo_progress v6 raw ident s r r1"
    "\<forall>f\<in>set fs. echo_reply_ok raw ident f"
    using echo_step_progress [OF assms True] by blast
  obtain b gs where "fold write_frame fs r1 = r1\<lparr>rl_open := b, rl_out := rl_out r1 @ map frame_bytes gs\<rparr>"
    "b \<longrightarrow> rl_open r1" "set gs \<subseteq> {f \<in> set fs. length f \<le> maxUDPFrame}"
    using write_frame_effect [of fs r1] by blast
  then show ?thesis using * by (intro that [where b = b and gs = gs and ?r1.0 = r1]) (auto simp: echo_progress_def)
qed

interpretation echo: flow_relay "relay_do idle" rl_open rl_sent rl_out "echo_inv v6 raw ident" echo_request
  "echo_matches v6 ident" "echo_reply_ok raw ident"
  for idle v6 raw ident
proof unfold_locales
  fix r s
  show "\<not> rl_open r \<Longrightarrow> \<not> rl_open (relay_do idle s r) \<and> rl_sent (relay_do idle s r) = rl_sent r"
    using echo_closed_stays by simp
  assume inv: "echo_inv v6 raw ident r"
  show "echo_inv v6 raw ident (relay_do idle s r)" by (rule echo_step_law [OF inv, of idle s]) simp
  show "\<exists>fs. rl_out (relay_do idle s r) = rl_out r @ map frame_bytes fs
     \<and> (\<forall>f\<in>set fs. length f \<le> maxUDPFrame \<and> echo_reply_ok raw ident f)"
    by (rule echo_step_law [OF inv, of idle s]) auto
  show "rl_open r \<Longrightarrow> (\<exists>q m. echo_request s = Some q \<and> rl_sent (relay_do idle s r) = rl_sent r @ [m] \<and> echo_matches v6 ident q m)
      \<or> (rl_sent (relay_do idle s r) = rl_sent r \<and> (echo_request s \<noteq> None \<longrightarrow> \<not> rl_open (relay_do idle s r)))"
    by (rule echo_step_law [OF inv, of idle s]) (auto simp: echo_progress_def)
qed

text \<open>
  C20: the echo relay of the helper, over any interleaving of request frames, arrivals, errors,
  timers and the end of the stream, on the socket \<open>handleICMP\<close> opens. The requests go out in order,
  each as one message with the relay's identifier, the sequence and the payload of its frame
  and, unless it is zero, its TTL; none is skipped while the flow is open. What the helper
  writes to the stream is whole frames, all of which the client decodes; on a raw socket an error
  among them quotes a request with the relay's own identifier. At most 1024 send times are kept.
\<close>

theorem echo_relay_exact:
  assumes "handleICMP raw_ok ping_ok ident ttl0 idle t dst = (st, Some r0)"
  shows "st = statusOK \<and>
    (let r = relayEcho idle steps r0; s = rl_sock r0; requests = List.map_filter echo_request steps in
     (\<exists>ps. prefix ps requests \<and> list_all2 (echo_matches (Is6 (Unmap (ap_addr dst))) (es_ident s)) ps (rl_sent r)
         \<and> (rl_open r \<longrightarrow> ps = requests))
     \<and> (\<exists>fs. read_n readFrame (length fs) (concat (rl_out r)) = Inr (fs, [])
         \<and> (\<forall>f\<in>set fs. echo_reply_ok raw_ok (es_ident s) f))
     \<and> length (rl_times r) \<le> echoTimesCap)"
proof -
  let ?s = "rl_sock r0"
  have r0: "st = statusOK" "echo_inv (Is6 (Unmap (ap_addr dst))) raw_ok (es_ident ?s) r0" "rl_sent r0 = []" "rl_out r0 = []"
    using assms by (auto simp: handleICMP_def openEchoSocket_def newRelay_def Let_def echo_inv_def ttl_known_def
        pending_ok_def split: option.splits if_splits)
  then show ?thesis
    using echo.run_sent [OF r0(2), where ss = steps and idle = idle] echo.run_frames [OF r0(2,4), where ss = steps and idle = idle] echo.run_inv [OF r0(2), where ss = steps and idle = idle]
    unfolding relayEcho_def by (auto simp: echo_inv_def Let_def)
qed

theorem echo_relay_exact_witness:
  "rl_sent (relayEcho 60 [RequestFrame 0 [0, 1, 5, 9] True WriteOK]
      (newRelay 60 0 \<lparr>es_v6 = False, es_raw = True, es_ident = 7, es_ttl = \<lparr>ts_last = 0, ts_kernel = 64\<rparr>, es_pending = []\<rparr>))
   = [(5, echo_message False 7 1 [9])]"
proof -
  define r0 where "r0 = newRelay 60 0 \<lparr>es_v6 = False, es_raw = True, es_ident = 7, es_ttl = \<lparr>ts_last = 0, ts_kernel = 64\<rparr>, es_pending = []\<rparr>"
  define steps where "steps = [RequestFrame 0 [0, 1, 5, 9] True WriteOK]"
  have h: "handleICMP True False 7 64 60 0 \<lparr>ap_addr = V4 0x0a000001, ap_port = 3\<rparr> = (statusOK, Some r0)"
    by (simp add: handleICMP_def openEchoSocket_def r0_def)
  have o: "rl_open (relayEcho 60 steps r0)"
    by (simp add: relayEcho_def steps_def r0_def newRelay_def decodeEchoRequest_def echo_send_def ttl_set_def)
  have q: "List.map_filter echo_request steps = [(1, 5, [9])]"
    by (simp add: steps_def map_filter_simps echo_request_def decodeEchoRequest_def un16_def)
  have "es_ident (rl_sock r0) = 7" by (simp add: r0_def newRelay_def)
  then have "list_all2 (echo_matches False 7) [(1, 5, [9])] (rl_sent (relayEcho 60 steps r0))"
    using echo_relay_exact [OF h, of steps] o by (auto simp: q Let_def)
  then show ?thesis by (auto simp: steps_def r0_def echo_matches_def list_all2_Cons1)
qed


section \<open>The UDP relay keeps the contract\<close>

definition udp_inv :: "udp_relay \<Rightarrow> bool" where
  "udp_inv r \<longleftrightarrow> ttl_known (up_ttl r)"

definition udp_request :: "udp_step \<Rightarrow> (byte \<times> bytes \<times> bool) option" where
  "udp_request s = (case s of
     UdpRequest t f ok a \<Rightarrow> (case decodeUDPRequest f of Inr (hops, payload) \<Rightarrow> Some (hops, payload, ok) | Inl _ \<Rightarrow> None)
   | _ \<Rightarrow> None)"

definition udp_matches :: "byte \<times> bytes \<times> bool \<Rightarrow> int \<times> bytes \<Rightarrow> bool" where
  "udp_matches q x = (case q of (hops, payload, ok) \<Rightarrow> snd x = payload \<and> (ok \<and> hops \<noteq> 0 \<longrightarrow> fst x = uint hops))"

definition udp_reply_ok :: "bytes \<Rightarrow> bool" where
  "udp_reply_ok f \<longleftrightarrow> (case decodeUDPReply f of Inl _ \<Rightarrow> False | Inr _ \<Rightarrow> True)"

lemma decode_udp_error: "IsValid (ie_From e) \<Longrightarrow>
  decodeUDPReply (encodeUDPError e) = Inr \<lparr>ur_Payload = [], ur_Error = Some (wire_icmp e)\<rparr>"
  using decodeICMPError_append [of e] by (simp add: decodeUDPReply_def encodeUDPError_def icmp_append_cons)

lemma udp_errors_ok: "\<forall>f\<in>set (map encodeUDPError (icmpErrorsFor q v6 err)). udp_reply_ok f"
  using drainErrQueue_from by (auto simp: icmpErrorsFor_def udp_reply_ok_def decode_udp_error)

lemma udp_write_effect:
  "\<exists>b gs. fold udp_write fs r = r\<lparr>up_open := b, up_out := up_out r @ map frame_bytes gs\<rparr>
     \<and> (b \<longrightarrow> up_open r) \<and> set gs \<subseteq> {f \<in> set fs. length f \<le> maxUDPFrame}
     \<and> (up_open r \<and> (\<forall>f\<in>set fs. length f \<le> maxUDPFrame) \<longrightarrow> b \<and> gs = fs)"
proof (induction fs arbitrary: r)
  case Nil
  then show ?case by (intro exI [of _ "up_open r"] exI [of _ "[]"]) simp
next
  case (Cons f fs)
  define c where "c \<longleftrightarrow> up_open r \<and> length f \<le> maxUDPFrame"
  let ?r = "udp_write f r"
  have 1: "?r = r\<lparr>up_open := c, up_out := up_out r @ map frame_bytes (if c then [f] else [])\<rparr>"
    by (auto simp: udp_write_def writeFrame_def frame_bytes_def c_def)
  obtain b gs where 2: "fold udp_write fs ?r = ?r\<lparr>up_open := b, up_out := up_out ?r @ map frame_bytes gs\<rparr>"
    "b \<longrightarrow> up_open ?r" "set gs \<subseteq> {f \<in> set fs. length f \<le> maxUDPFrame}"
    "up_open ?r \<and> (\<forall>f\<in>set fs. length f \<le> maxUDPFrame) \<longrightarrow> b \<and> gs = fs"
    using Cons.IH by blast
  show ?case
  proof (cases c)
    case True
    then have "up_open r" "length f \<le> maxUDPFrame" by (simp_all add: c_def)
    with 1 2 True show ?thesis by (intro exI [of _ b] exI [of _ "f # gs"]) auto
  next
    case False
    then have "\<not> (up_open r \<and> length f \<le> maxUDPFrame)" by (simp add: c_def)
    with 1 2 False show ?thesis by (intro exI [of _ b] exI [of _ gs]) auto
  qed
qed

definition udp_progress :: "udp_step \<Rightarrow> udp_relay \<Rightarrow> udp_relay \<Rightarrow> bool" where
  "udp_progress s r r1 \<longleftrightarrow> udp_inv r1 \<and> up_out r1 = up_out r \<and>
     ((\<exists>q m. udp_request s = Some q \<and> up_sent r1 = up_sent r @ [m] \<and> udp_matches q m)
      \<or> (up_sent r1 = up_sent r \<and> (udp_request s \<noteq> None \<longrightarrow> \<not> up_open r1)))"

lemma udp_progress_open: "udp_progress s r (r1\<lparr>up_open := False\<rparr>)" if "udp_progress s r r1"
  using that by (auto simp: udp_progress_def udp_inv_def)

lemma udp_request_progress:
  assumes "udp_inv r" "decodeUDPRequest frame = Inr (hops, payload)"
    "tt = snd (ttl_set ok hops (up_ttl r))"
  shows "udp_progress (UdpRequest t frame ok a) r
    (r\<lparr>up_deadline := d, up_ttl := tt, up_sent := up_sent r @ [(ts_kernel tt, payload)]\<rparr>)"
proof -
  have known: "ttl_known (up_ttl r)" "ttl_known tt" using assms(1,3) by (simp_all add: udp_inv_def ttl_set_known)
  have "ts_kernel tt = uint hops" if "ok" "hops \<noteq> 0"
    using ttl_set_ok [OF known(1) _ that(2), of ok] that(1) assms(3) by (simp add: ttl_set_def)
  then show ?thesis using known(2) assms(2)
    by (auto simp: udp_progress_def udp_inv_def udp_request_def udp_matches_def)
qed

definition udp_effect :: "udp_step \<Rightarrow> udp_relay \<Rightarrow> udp_relay \<Rightarrow> bool" where
  "udp_effect s r x \<longleftrightarrow> (\<exists>r1 fs. x = fold udp_write fs r1 \<and> udp_progress s r r1 \<and> (\<forall>f\<in>set fs. udp_reply_ok f))"

lemma udp_quiet: "udp_progress s r r1 \<Longrightarrow> udp_effect s r r1"
  unfolding udp_effect_def by (intro exI [of _ r1] exI [of _ "[]"]) simp

lemma udp_errors: "udp_progress s r r1 \<Longrightarrow> udp_effect s r (writeErrors (icmpErrorsFor q v6 err) r1)"
  unfolding udp_effect_def writeErrors_def using udp_errors_ok [of q v6 err] by blast

lemma udp_step_request:
  assumes "udp_inv r" "up_open r"
  shows "udp_effect (UdpRequest t frame ok a) r (udp_do idle (UdpRequest t frame ok a) r)"
proof (cases "decodeUDPRequest frame")
  case Inl
  then show ?thesis using assms
    by (simp add: udp_quiet udp_progress_def udp_inv_def udp_request_def)
next
  case (Inr req)
  obtain hops payload where req: "req = (hops, payload)" by (cases req)
  define tt where "tt = snd (ttl_set ok hops (up_ttl r))"
  let ?r1 = "r\<lparr>up_deadline := t + idle, up_ttl := tt, up_sent := up_sent r @ [(ts_kernel tt, payload)]\<rparr>"
  have "udp_progress (UdpRequest t frame ok a) r ?r1"
    by (rule udp_request_progress [OF assms(1) Inr [unfolded req] tt_def])
  note prog = udp_quiet [OF this] udp_quiet [OF udp_progress_open [OF this]] udp_errors [OF this]
  show ?thesis using assms(2) prog
    by (auto simp: Inr req tt_def [symmetric] Let_def split: sock_write.split)
qed

lemma udp_step_effect:
  assumes "udp_inv r" "up_open r"
  shows "udp_effect s r (udp_do idle s r)"
proof (cases s)
  case (UdpReadErr t err q)
  have "udp_progress s r (r\<lparr>up_drains := n, up_deadline := d\<rparr>)" "udp_progress s r (r\<lparr>up_drains := n\<rparr>)"
    "udp_progress s r (r\<lparr>up_drains := n, up_open := False\<rparr>)" for n d
    using assms by (simp_all add: UdpReadErr udp_progress_def udp_inv_def udp_request_def)
  then show ?thesis using assms(2) udp_quiet udp_errors by (simp add: UdpReadErr Let_def)
next
  case (UdpData t payload)
  have "udp_progress s r (r\<lparr>up_deadline := t + idle\<rparr>)" "udp_reply_ok (encodeUDPData payload)"
    using assms by (simp_all add: UdpData udp_progress_def udp_inv_def udp_request_def udp_reply_ok_def udp_data_roundtrip)
  then show ?thesis using assms(2) unfolding udp_effect_def UdpData
    by (intro exI [of _ "r\<lparr>up_deadline := t + idle\<rparr>"] exI [of _ "[encodeUDPData payload]"]) simp
qed (use assms in \<open>simp_all add: udp_step_request udp_quiet udp_progress_def udp_inv_def udp_request_def del: udp_do.simps(1)\<close>)

lemma udp_closed_stays:
  "\<not> up_open r \<Longrightarrow> \<not> up_open (udp_do idle s r) \<and> up_sent (udp_do idle s r) = up_sent r
     \<and> up_out (udp_do idle s r) = up_out r \<and> udp_inv (udp_do idle s r) = udp_inv r"
  by (cases s) (simp_all add: udp_inv_def)

lemma udp_step_law:
  assumes "udp_inv r"
  obtains b gs r1 where "udp_do idle s r = r1\<lparr>up_open := b, up_out := up_out r @ map frame_bytes gs\<rparr>"
    "b \<longrightarrow> up_open r1" "\<forall>f\<in>set gs. length f \<le> maxUDPFrame \<and> udp_reply_ok f"
    "udp_inv r1" "up_open r \<longrightarrow> udp_progress s r r1"
proof (cases "up_open r")
  case False
  then show ?thesis
    using udp_closed_stays [OF False, of idle s] assms
    by (intro that [where b = False and gs = "[]" and ?r1.0 = "udp_do idle s r"]) simp_all
next
  case True
  obtain r1 fs where *: "udp_do idle s r = fold udp_write fs r1" "udp_progress s r r1" "\<forall>f\<in>set fs. udp_reply_ok f"
    using udp_step_effect [OF assms True] unfolding udp_effect_def by blast
  obtain b gs where "fold udp_write fs r1 = r1\<lparr>up_open := b, up_out := up_out r1 @ map frame_bytes gs\<rparr>"
    "b \<longrightarrow> up_open r1" "set gs \<subseteq> {f \<in> set fs. length f \<le> maxUDPFrame}"
    using udp_write_effect [of fs r1] by blast
  then show ?thesis using * by (intro that [where b = b and gs = gs and ?r1.0 = r1]) (auto simp: udp_progress_def)
qed

interpretation udp: flow_relay "udp_do idle" up_open up_sent up_out udp_inv udp_request udp_matches udp_reply_ok
  for idle
proof unfold_locales
  fix r s
  show "\<not> up_open r \<Longrightarrow> \<not> up_open (udp_do idle s r) \<and> up_sent (udp_do idle s r) = up_sent r"
    using udp_closed_stays by simp
  assume inv: "udp_inv r"
  show "udp_inv (udp_do idle s r)" by (rule udp_step_law [OF inv, of idle s]) (simp add: udp_inv_def)
  show "\<exists>fs. up_out (udp_do idle s r) = up_out r @ map frame_bytes fs
     \<and> (\<forall>f\<in>set fs. length f \<le> maxUDPFrame \<and> udp_reply_ok f)"
    by (rule udp_step_law [OF inv, of idle s]) auto
  show "up_open r \<Longrightarrow> (\<exists>q m. udp_request s = Some q \<and> up_sent (udp_do idle s r) = up_sent r @ [m] \<and> udp_matches q m)
      \<or> (up_sent (udp_do idle s r) = up_sent r \<and> (udp_request s \<noteq> None \<longrightarrow> \<not> up_open (udp_do idle s r)))"
    by (rule udp_step_law [OF inv, of idle s]) (auto simp: udp_progress_def)
qed

text \<open>
  The UDP relay of the helper, over any interleaving of its goroutines. The datagrams go
  out in order, with the payload of their frame and, when the kernel takes the option and it
  is not zero, its TTL; none is skipped while the flow is open. What the helper writes to the
  stream is whole frames, and the client decodes every one of them.
\<close>

theorem udp_relay_exact:
  "let r = udp_relay_run idle steps (newUdpRelay idle ttl0 t v6); requests = List.map_filter udp_request steps in
   (\<exists>ps. prefix ps requests \<and> list_all2 udp_matches ps (up_sent r) \<and> (up_open r \<longrightarrow> ps = requests))
   \<and> (\<exists>fs. read_n readFrame (length fs) (concat (up_out r)) = Inr (fs, []) \<and> (\<forall>f\<in>set fs. udp_reply_ok f))"
proof -
  let ?r0 = "newUdpRelay idle ttl0 t v6"
  have r0: "udp_inv ?r0" "up_sent ?r0 = []" "up_out ?r0 = []" by (simp_all add: newUdpRelay_def udp_inv_def ttl_known_def)
  show ?thesis
    using udp.run_sent [OF r0(1), where ss = steps and idle = idle] udp.run_frames [OF r0(1,3), where ss = steps and idle = idle] r0(2)
    unfolding udp_relay_run_def by (auto simp: Let_def)
qed

theorem udp_relay_exact_witness:
  "up_sent (udp_relay_run 60 [UdpRequest 0 [5, 9] True WriteOK] (newUdpRelay 60 64 0 False)) = [(5, [9])]"
proof -
  define steps where "steps = [UdpRequest 0 [5, 9] True WriteOK]"
  have o: "up_open (udp_relay_run 60 steps (newUdpRelay 60 64 0 False))"
    by (simp add: udp_relay_run_def steps_def newUdpRelay_def decodeUDPRequest_def ttl_set_def)
  have q: "List.map_filter udp_request steps = [(5, [9], True)]"
    by (simp add: steps_def map_filter_simps udp_request_def decodeUDPRequest_def)
  have "list_all2 udp_matches [(5, [9], True)] (up_sent (udp_relay_run 60 steps (newUdpRelay 60 64 0 False)))"
    using udp_relay_exact [of 60 steps 64 0 False] o by (auto simp: q Let_def)
  then show ?thesis by (auto simp: steps_def udp_matches_def list_all2_Cons1)
qed

text \<open>
  An ICMP error does not end a UDP flow. When a read reports an ICMP error number and the
  error queue holds errors that fit a frame, the flow stays open, its count of empty reads starts
  again, and each error goes to the client as one frame, which decodes to the error.
\<close>

theorem udp_error_keeps_flow:
  assumes "up_open r" "isICMPErrno err" "drainErrQueue q (up_v6 r) = errs" "errs \<noteq> []"
    "\<forall>e\<in>set errs. length (ie_Inner e) \<le> maxUDPFrame - 24"
  shows "udp_do idle (UdpReadErr t err q) r =
      r\<lparr>up_drains := 0, up_deadline := t + idle, up_out := up_out r @ map (\<lambda>e. frame_bytes (encodeUDPError e)) errs\<rparr>
    \<and> (\<forall>e\<in>set errs. decodeUDPReply (encodeUDPError e) = Inr \<lparr>ur_Payload = [], ur_Error = Some (wire_icmp e)\<rparr>)"
proof
  have valid: "IsValid (ie_From e)" if "e \<in> set errs" for e using drainErrQueue_from assms(3) that by auto
  have "length (encodeUDPError e) \<le> maxUDPFrame" if "e \<in> set errs" for e
    using length_AsSlice [OF valid [OF that]] assms(5) that
    by (auto simp: encodeUDPError_def icmp_append_def Let_def maxUDPFrame_def)
  then have fit: "\<forall>f\<in>set (map encodeUDPError errs). length f \<le> maxUDPFrame" by simp
  let ?r = "r\<lparr>up_drains := 0, up_deadline := t + idle\<rparr>"
  obtain b gs where w: "fold udp_write (map encodeUDPError errs) ?r = ?r\<lparr>up_open := b, up_out := up_out ?r @ map frame_bytes gs\<rparr>"
    and "up_open ?r \<and> (\<forall>f\<in>set (map encodeUDPError errs). length f \<le> maxUDPFrame) \<longrightarrow> b \<and> gs = map encodeUDPError errs"
    using udp_write_effect [of "map encodeUDPError errs" ?r] by blast
  then have "b" "gs = map encodeUDPError errs" using assms(1) fit by simp_all
  then show "udp_do idle (UdpReadErr t err q) r =
      r\<lparr>up_drains := 0, up_deadline := t + idle, up_out := up_out r @ map (\<lambda>e. frame_bytes (encodeUDPError e)) errs\<rparr>"
    using assms w by (simp add: icmpErrorsFor_def Let_def writeErrors_def comp_def)
  show "\<forall>e\<in>set errs. decodeUDPReply (encodeUDPError e) = Inr \<lparr>ur_Payload = [], ur_Error = Some (wire_icmp e)\<rparr>"
    using valid by (simp add: decode_udp_error)
qed

theorem udp_error_keeps_flow_witness:
  "up_open (udp_do 60 (UdpReadErr 5 ECONNREFUSED
     [(Some [\<lparr>cm_Level = 0, cm_Type = 11, cm_Data = [111, 0, 0, 0, 2, 3, 3, 0, 0, 0, 0, 0, 0, 0, 0, 0, 2, 0, 0, 0, 10, 0, 0, 1]\<rparr>], [7])])
     (newUdpRelay 60 64 0 False))"
  using udp_error_keeps_flow [of "newUdpRelay 60 64 0 False" ECONNREFUSED
     "[(Some [\<lparr>cm_Level = 0, cm_Type = 11, cm_Data = [111, 0, 0, 0, 2, 3, 3, 0, 0, 0, 0, 0, 0, 0, 0, 0, 2, 0, 0, 0, 10, 0, 0, 1]\<rparr>], [7])]"
     "[\<lparr>ie_Type = 3, ie_Code = 3, ie_Info = 0, ie_From = V4 0x0a000001, ie_Inner = [7]\<rparr>]" 60 5]
  by (simp add: newUdpRelay_def isICMPErrno_def parseErrQueue_def recverr_defs sockExtendedErrLen_def offenderAddr_def
      native32_def un32_def AddrFrom4_def maxUDPFrame_def)

end
