(* ===== verification/Dataplane.thy ===== *)
theory Dataplane
  imports Relay Transport
begin

unbundle bit_operations_syntax

text \<open>
  The ICMP echo path of the client, \<open>internal/dataplane/icmp.go\<close>, \<open>packet.go\<close> and the parts of
  \<open>netstack.go\<close> and \<open>dataplane.go\<close> it goes through. The header accessors and encoders of gVisor are outside the
  repository; they are the fields of \<open>hdr_lib\<close>, an argument of every definition that uses them.
\<close>

section \<open>The header library\<close>

text \<open>
  Readers of an IPv4, an IPv6 and an ICMP header, and the encoders: an ICMP echo or error
  message with its checksum, from zeroed bytes with the named fields set, a UDP header with
  its payload, and an IP header in front of a payload.
\<close>

record hdr_lib =
  ip4_IsValid :: "bytes \<Rightarrow> nat \<Rightarrow> bool"
  ip4_Protocol :: "bytes \<Rightarrow> byte"
  ip4_More :: "bytes \<Rightarrow> bool"
  ip4_FragmentOffset :: "bytes \<Rightarrow> nat"
  ip4_Payload :: "bytes \<Rightarrow> bytes"
  ip4_Dst :: "bytes \<Rightarrow> bytes"
  ip4_Src :: "bytes \<Rightarrow> bytes"
  ip4_TTL :: "bytes \<Rightarrow> byte"
  ip6_IsValid :: "bytes \<Rightarrow> nat \<Rightarrow> bool"
  ip6_NextHeader :: "bytes \<Rightarrow> byte"
  ip6_Payload :: "bytes \<Rightarrow> bytes"
  ip6_Dst :: "bytes \<Rightarrow> bytes"
  ip6_Src :: "bytes \<Rightarrow> bytes"
  ip6_HopLimit :: "bytes \<Rightarrow> byte"
  icmp_Type :: "bytes \<Rightarrow> byte"
  icmp_Code :: "bytes \<Rightarrow> byte"
  icmp_Ident :: "bytes \<Rightarrow> 16 word"
  icmp_Sequence :: "bytes \<Rightarrow> 16 word"
  icmp_Payload :: "bytes \<Rightarrow> bytes"
  icmp4_echo :: "byte \<Rightarrow> byte \<Rightarrow> 16 word \<Rightarrow> 16 word \<Rightarrow> bytes \<Rightarrow> bytes"
  icmp6_echo :: "bytes \<Rightarrow> bytes \<Rightarrow> byte \<Rightarrow> byte \<Rightarrow> 16 word \<Rightarrow> 16 word \<Rightarrow> bytes \<Rightarrow> bytes"
  icmp4_error :: "byte \<Rightarrow> byte \<Rightarrow> 32 word \<Rightarrow> bytes \<Rightarrow> bytes"
  icmp6_error :: "bytes \<Rightarrow> bytes \<Rightarrow> byte \<Rightarrow> byte \<Rightarrow> 32 word \<Rightarrow> bytes \<Rightarrow> bytes"
  udp_header :: "16 word \<Rightarrow> 16 word \<Rightarrow> 16 word \<Rightarrow> bytes \<Rightarrow> bytes"
  ip4_encode :: "16 word \<Rightarrow> byte \<Rightarrow> byte \<Rightarrow> bytes \<Rightarrow> bytes \<Rightarrow> bytes \<Rightarrow> bytes"
  ip6_encode :: "16 word \<Rightarrow> byte \<Rightarrow> byte \<Rightarrow> bytes \<Rightarrow> bytes \<Rightarrow> bytes \<Rightarrow> bytes"

definition IPv4MinimumSize :: nat where "IPv4MinimumSize = 20"
definition IPv6MinimumSize :: nat where "IPv6MinimumSize = 40"
definition ICMPMinimumSize :: nat where "ICMPMinimumSize = 8"
definition UDPMinimumSize :: nat where "UDPMinimumSize = 8"
definition ICMPv4ProtocolNumber :: byte where "ICMPv4ProtocolNumber = 1"
definition ICMPv6ProtocolNumber :: byte where "ICMPv6ProtocolNumber = 58"
definition UDPProtocolNumber :: byte where "UDPProtocolNumber = 17"


section \<open>Packets the client builds\<close>

definition defaultTTL :: byte where "defaultTTL = 64"
definition icmpv4ErrorMaxSize :: nat where "icmpv4ErrorMaxSize = 576"
definition icmpv6ErrorMaxSize :: nat where "icmpv6ErrorMaxSize = 1280"
definition icmpv4EchoType :: byte where "icmpv4EchoType = 8"
definition icmpv6EchoType :: byte where "icmpv6EchoType = 128"
definition icmpIdentOffset :: nat where "icmpIdentOffset = 4"

definition tcpipAddr :: "addr \<Rightarrow> bytes" where
  "tcpipAddr a = AsSlice (Unmap a)"

definition addrFrom :: "bytes \<Rightarrow> addr" where
  "addrFrom a = Unmap (fst (AddrFromSlice a))"

definition cut :: "bytes \<Rightarrow> nat \<Rightarrow> bytes" where
  "cut b n = (if length b > n then take n b else b)"

definition encodeIPv4 :: "hdr_lib \<Rightarrow> bytes \<Rightarrow> addr \<Rightarrow> addr \<Rightarrow> byte \<Rightarrow> bytes" where
  "encodeIPv4 h payload src dst proto =
     ip4_encode h (word_of_nat (IPv4MinimumSize + length payload)) defaultTTL proto (tcpipAddr src) (tcpipAddr dst) payload"

definition encodeIPv6 :: "hdr_lib \<Rightarrow> bytes \<Rightarrow> addr \<Rightarrow> addr \<Rightarrow> byte \<Rightarrow> bytes" where
  "encodeIPv6 h payload src dst proto =
     ip6_encode h (word_of_nat (length payload)) defaultTTL proto (tcpipAddr src) (tcpipAddr dst) payload"

definition buildEchoReply :: "hdr_lib \<Rightarrow> addr \<Rightarrow> addr \<Rightarrow> 16 word \<Rightarrow> 16 word \<Rightarrow> bytes \<Rightarrow> bytes" where
  "buildEchoReply h pinged to ident seq payload =
     (if Is4 to then encodeIPv4 h (icmp4_echo h icmpv4EchoReply 0 ident seq payload) pinged to ICMPv4ProtocolNumber
      else encodeIPv6 h (icmp6_echo h (tcpipAddr pinged) (tcpipAddr to) icmpv6EchoReply 0 ident seq payload)
             pinged to ICMPv6ProtocolNumber)"

definition buildICMPError :: "hdr_lib \<Rightarrow> icmp_error \<Rightarrow> addr \<Rightarrow> bytes \<Rightarrow> bytes" where
  "buildICMPError h e to inner =
     (if Is4 to then
        encodeIPv4 h (icmp4_error h (ie_Type e) (ie_Code e) (ie_Info e)
            (cut inner (icmpv4ErrorMaxSize - IPv4MinimumSize - ICMPMinimumSize)))
          (ie_From e) to ICMPv4ProtocolNumber
      else
        encodeIPv6 h (icmp6_error h (tcpipAddr (ie_From e)) (tcpipAddr to) (ie_Type e) (ie_Code e) (ie_Info e)
            (cut inner (icmpv6ErrorMaxSize - IPv6MinimumSize - ICMPMinimumSize)))
          (ie_From e) to ICMPv6ProtocolNumber)"

definition innerICMP :: "hdr_lib \<Rightarrow> addr \<Rightarrow> addr \<Rightarrow> bytes \<Rightarrow> bytes" where
  "innerICMP h src dst icmpBytes =
     (if Is4 src then encodeIPv4 h icmpBytes src dst ICMPv4ProtocolNumber
      else encodeIPv6 h icmpBytes src dst ICMPv6ProtocolNumber)"

definition innerUDP :: "hdr_lib \<Rightarrow> addr_port \<Rightarrow> addr_port \<Rightarrow> nat \<Rightarrow> bytes \<Rightarrow> bytes" where
  "innerUDP h src dst lastLen payload =
     (let udp = udp_header h (ap_port src) (ap_port dst) (word_of_nat (UDPMinimumSize + lastLen)) payload
      in if Is4 (ap_addr src) then encodeIPv4 h udp (ap_addr src) (ap_addr dst) UDPProtocolNumber
         else encodeIPv6 h udp (ap_addr src) (ap_addr dst) UDPProtocolNumber)"

definition patchQuotedEchoIdent :: "bytes \<Rightarrow> 16 word \<Rightarrow> bool \<Rightarrow> bytes" where
  "patchQuotedEchoIdent inner ident v6 =
     (if length inner < icmpIdentOffset + 2 then inner
      else if inner ! 0 \<noteq> (if v6 then icmpv6EchoType else icmpv4EchoType) then inner
      else take icmpIdentOffset inner @ be16 ident @ drop (icmpIdentOffset + 2) inner)"

text \<open>\<open>writeUDPError\<close>: the packet, or nothing when the families differ.\<close>

definition writeUDPError :: "hdr_lib \<Rightarrow> icmp_error \<Rightarrow> addr_port \<Rightarrow> addr_port \<Rightarrow> nat \<Rightarrow> bytes list" where
  "writeUDPError h e src dst lastLen =
     (if Is4 (ie_From e) \<noteq> Is4 (ap_addr src) then []
      else [buildICMPError h e (ap_addr src) (innerUDP h src dst lastLen (ie_Inner e))])"


section \<open>Capture\<close>

definition echoQueueLen :: nat where "echoQueueLen = 64"

type_synonym echo_key = "addr \<times> 16 word"

record echo_req =
  rq_src :: addr
  rq_seq :: "16 word"
  rq_ttl :: byte
  rq_payload :: bytes

definition protoOf :: "bytes \<Rightarrow> nat option" where
  "protoOf pkt =
     (if length pkt < 1 then None
      else if drop_bit 4 (pkt ! 0) = 4 then Some 4 else if drop_bit 4 (pkt ! 0) = 6 then Some 6 else None)"

definition parseEchoRequest :: "hdr_lib \<Rightarrow> bytes \<Rightarrow> (echo_key \<times> echo_req) option" where
  "parseEchoRequest h pkt =
     (if length pkt < 1 then None
      else if drop_bit 4 (pkt ! 0) = 4 then
        (if \<not> ip4_IsValid h pkt (length pkt) \<or> ip4_Protocol h pkt \<noteq> ICMPv4ProtocolNumber \<or> ip4_More h pkt
            \<or> ip4_FragmentOffset h pkt \<noteq> 0 then None
         else let icmp = ip4_Payload h pkt in
           if length icmp < ICMPMinimumSize \<or> icmp_Type h icmp \<noteq> icmpv4EchoRequest \<or> icmp_Code h icmp \<noteq> 0 then None
           else Some ((addrFrom (ip4_Dst h pkt), icmp_Ident h icmp),
                      \<lparr>rq_src = addrFrom (ip4_Src h pkt), rq_seq = icmp_Sequence h icmp, rq_ttl = ip4_TTL h pkt,
                       rq_payload = icmp_Payload h icmp\<rparr>))
      else if drop_bit 4 (pkt ! 0) = 6 then
        (if \<not> ip6_IsValid h pkt (length pkt) \<or> ip6_NextHeader h pkt \<noteq> ICMPv6ProtocolNumber then None
         else let icmp = ip6_Payload h pkt in
           if length icmp < ICMPMinimumSize \<or> icmp_Type h icmp \<noteq> icmpv6EchoRequest \<or> icmp_Code h icmp \<noteq> 0 then None
           else Some ((addrFrom (ip6_Dst h pkt), icmp_Ident h icmp),
                      \<lparr>rq_src = addrFrom (ip6_Src h pkt), rq_seq = icmp_Sequence h icmp, rq_ttl = ip6_HopLimit h pkt,
                       rq_payload = icmp_Payload h icmp\<rparr>))
      else None)"


section \<open>Echo flows\<close>

text \<open>
  A flow with its two goroutines. \<open>ef_dialed\<close>: the stream is open and stored in the flow; \<open>ef_closed\<close>:
  \<open>closeEchoFlows\<close> closed it; \<open>ef_status\<close>: the status byte has been read; \<open>ef_done\<close>: a goroutine has ended, or
  the dial failed. \<open>ef_wire\<close> collects the frames on the stream. Flows live on after they leave the map, so the
  map holds numbers, and \<open>ns_flows\<close> every flow that was started.
\<close>

record echo_flow =
  ef_key :: echo_key
  ef_queue :: "echo_req list"
  ef_src :: addr
  ef_dialed :: bool
  ef_closed :: bool
  ef_status :: bool
  ef_done :: bool
  ef_wire :: "bytes list"

record net_stack =
  ns_set :: proto_set
  ns_flows :: "echo_flow list"
  ns_echoFlows :: "echo_key \<rightharpoonup> nat"
  ns_echoUnsupported :: bool
  ns_inject :: "bytes list"
  ns_out :: "bytes list"
  ns_up :: int

definition newNetStack :: "proto_set \<Rightarrow> net_stack" where
  "newNetStack protos = \<lparr>ns_set = protos, ns_flows = [], ns_echoFlows = Map.empty, ns_echoUnsupported = False,
     ns_inject = [], ns_out = [], ns_up = 0\<rparr>"

definition new_flow :: "echo_key \<Rightarrow> echo_flow" where
  "new_flow key = \<lparr>ef_key = key, ef_queue = [], ef_src = AddrZero, ef_dialed = False, ef_closed = False,
     ef_status = False, ef_done = False, ef_wire = []\<rparr>"

text \<open>The method \<open>echoFlow\<close>: the flow of the key, started when there is none.\<close>

definition find_flow :: "echo_key \<Rightarrow> net_stack \<Rightarrow> nat \<times> net_stack" where
  "find_flow key ns =
     (case ns_echoFlows ns key of
        Some i \<Rightarrow> (i, ns)
      | None \<Rightarrow>
          (let i = length (ns_flows ns)
           in (i, ns\<lparr>ns_flows := ns_flows ns @ [new_flow key], ns_echoFlows := (ns_echoFlows ns)(key \<mapsto> i)\<rparr>)))"

definition set_flow :: "nat \<Rightarrow> echo_flow \<Rightarrow> net_stack \<Rightarrow> net_stack" where
  "set_flow i f ns = ns\<lparr>ns_flows := (ns_flows ns)[i := f]\<rparr>"

definition captureEcho :: "hdr_lib \<Rightarrow> bytes \<Rightarrow> net_stack \<Rightarrow> bool \<times> net_stack" where
  "captureEcho h pkt ns =
     (case parseEchoRequest h pkt of
        None \<Rightarrow> (False, ns)
      | Some (key, req) \<Rightarrow>
          if \<not> ps_ICMP (ns_set ns) \<or> ns_echoUnsupported ns then (True, ns)
          else case find_flow key ns of
            (i, ns1) \<Rightarrow>
              let f = ns_flows ns1 ! i
              in (True, if length (ef_queue f) < echoQueueLen then set_flow i (f\<lparr>ef_queue := ef_queue f @ [req]\<rparr>) ns1 else ns1))"

definition dropEchoFlow :: "nat \<Rightarrow> net_stack \<Rightarrow> net_stack" where
  "dropEchoFlow i ns =
     (let key = ef_key (ns_flows ns ! i)
      in if ns_echoFlows ns key = Some i then ns\<lparr>ns_echoFlows := (ns_echoFlows ns)(key := None)\<rparr> else ns)"

definition closeEchoFlows :: "net_stack \<Rightarrow> net_stack" where
  "closeEchoFlows ns =
     ns\<lparr>ns_echoFlows := Map.empty,
        ns_flows := map (\<lambda>(i, f). if ns_echoFlows ns (ef_key f) = Some i \<and> ef_dialed f then f\<lparr>ef_closed := True\<rparr> else f)
                      (enumerate 0 (ns_flows ns))\<rparr>"

text \<open>One packet of the read pump, \<open>tunToStack\<close>.\<close>

definition tunToStack :: "hdr_lib \<Rightarrow> bytes \<Rightarrow> net_stack \<Rightarrow> net_stack" where
  "tunToStack h pkt ns =
     (case protoOf pkt of
        None \<Rightarrow> ns
      | Some _ \<Rightarrow>
          (let ns1 = ns\<lparr>ns_up := u64 (ns_up ns + int (length pkt))\<rparr>
           in case captureEcho h pkt ns1 of
                (consumed, ns2) \<Rightarrow> if consumed then ns2 else ns2\<lparr>ns_inject := ns_inject ns2 @ [pkt]\<rparr>))"

text \<open>
  The goroutines of \<open>runEcho\<close>, one definition per event: the dial, an iteration of the sender, the
  status byte, an iteration of the receiver, and the deferred drop. \<open>None\<close> is a read that failed or ran
  into its deadline; a closed stream only fails.
\<close>

definition flow_dial :: "bool \<Rightarrow> echo_flow \<Rightarrow> echo_flow" where
  "flow_dial ok f = (if ok then f\<lparr>ef_dialed := True\<rparr> else f\<lparr>ef_done := True\<rparr>)"

definition WriteRequest :: "echo_req \<Rightarrow> wire_error + bytes" where
  "WriteRequest req = writeFrame (encodeEchoRequest (rq_seq req) (rq_ttl req) (rq_payload req))"

definition flow_send :: "bool \<Rightarrow> echo_flow \<Rightarrow> echo_flow" where
  "flow_send stream_ok f =
     (if \<not> ef_dialed f \<or> ef_done f then f
      else case ef_queue f of
        [] \<Rightarrow> f
      | req # rest \<Rightarrow>
          let f1 = f\<lparr>ef_queue := rest, ef_src := rq_src req\<rparr>
          in (case WriteRequest req of
                Inl _ \<Rightarrow> f1\<lparr>ef_done := True\<rparr>
              | Inr b \<Rightarrow> if stream_ok \<and> \<not> ef_closed f then f1\<lparr>ef_wire := ef_wire f @ [b]\<rparr> else f1\<lparr>ef_done := True\<rparr>))"

datatype echo_status = StatusOK | StatusUnsupported | StatusFailed

definition ReadStatus :: "byte option \<Rightarrow> echo_status" where
  "ReadStatus st =
     (case st of
        None \<Rightarrow> StatusFailed
      | Some b \<Rightarrow> if b = statusOK then StatusOK else if b = statusUnsupported then StatusUnsupported else StatusFailed)"

definition flow_status :: "byte option \<Rightarrow> nat \<Rightarrow> net_stack \<Rightarrow> net_stack" where
  "flow_status st i ns =
     (let f = ns_flows ns ! i in
      if \<not> ef_dialed f \<or> ef_done f \<or> ef_status f then ns
      else case ReadStatus (if ef_closed f then None else st) of
        StatusOK \<Rightarrow> set_flow i (f\<lparr>ef_status := True\<rparr>) ns
      | StatusUnsupported \<Rightarrow> (set_flow i (f\<lparr>ef_done := True\<rparr>) ns)\<lparr>ns_echoUnsupported := True\<rparr>
      | StatusFailed \<Rightarrow> set_flow i (f\<lparr>ef_done := True\<rparr>) ns)"

text \<open>What the receiver writes to the device for a reply.\<close>

definition reply_packet :: "hdr_lib \<Rightarrow> echo_key \<Rightarrow> addr \<Rightarrow> echo_reply \<Rightarrow> bytes list" where
  "reply_packet h key src reply =
     (if \<not> IsValid src then []
      else case er_Error reply of
        Some e \<Rightarrow>
          if Is4 (ie_From e) \<noteq> Is4 src then []
          else [buildICMPError h e src (innerICMP h src (fst key) (patchQuotedEchoIdent (ie_Inner e) (snd key) (Is6 (fst key))))]
      | None \<Rightarrow> [buildEchoReply h (fst key) src (snd key) (er_Seq reply) (er_Payload reply)])"

definition flow_reply :: "hdr_lib \<Rightarrow> bytes option \<Rightarrow> nat \<Rightarrow> net_stack \<Rightarrow> net_stack" where
  "flow_reply h frame i ns =
     (let f = ns_flows ns ! i in
      if \<not> ef_status f \<or> ef_done f then ns
      else case (if ef_closed f then None else frame) of
        None \<Rightarrow> set_flow i (f\<lparr>ef_done := True\<rparr>) ns
      | Some b \<Rightarrow>
          (case decodeEchoReply b of
             Inl _ \<Rightarrow> set_flow i (f\<lparr>ef_done := True\<rparr>) ns
           | Inr reply \<Rightarrow> ns\<lparr>ns_out := ns_out ns @ reply_packet h (ef_key f) (ef_src f) reply\<rparr>))"

datatype dp_step =
    TunPacket bytes
  | FlowDial nat bool
  | FlowSend nat bool
  | FlowStatus nat "byte option"
  | FlowReply nat "bytes option"
  | FlowEnd nat
  | CloseFlows

definition dp_do :: "hdr_lib \<Rightarrow> dp_step \<Rightarrow> net_stack \<Rightarrow> net_stack" where
  "dp_do h s ns =
     (case s of
        TunPacket pkt \<Rightarrow> tunToStack h pkt ns
      | FlowDial i ok \<Rightarrow>
          if i < length (ns_flows ns) \<and> \<not> ef_dialed (ns_flows ns ! i) \<and> \<not> ef_done (ns_flows ns ! i)
          then set_flow i (flow_dial ok (ns_flows ns ! i)) ns else ns
      | FlowSend i ok \<Rightarrow> if i < length (ns_flows ns) then set_flow i (flow_send ok (ns_flows ns ! i)) ns else ns
      | FlowStatus i st \<Rightarrow> if i < length (ns_flows ns) then flow_status st i ns else ns
      | FlowReply i frame \<Rightarrow> if i < length (ns_flows ns) then flow_reply h frame i ns else ns
      | FlowEnd i \<Rightarrow> if i < length (ns_flows ns) \<and> ef_done (ns_flows ns ! i) then dropEchoFlow i ns else ns
      | CloseFlows \<Rightarrow> closeEchoFlows ns)"

definition dp_run :: "hdr_lib \<Rightarrow> dp_step list \<Rightarrow> net_stack \<Rightarrow> net_stack" where
  "dp_run h steps ns = fold (dp_do h) steps ns"


section \<open>A hop's error reaches the client's probe\<close>

lemma echo_message_shape:
  "\<exists>c d. echo_message v6 ident seq payload =
     [if v6 then icmpv6EchoRequest else icmpv4EchoRequest, 0, c, d] @ be16 ident @ be16 seq @ payload"
proof -
  define ck where "ck = (if v6 then [0, 0] else
    be16 (icmpChecksum ([if v6 then icmpv6EchoRequest else icmpv4EchoRequest, 0] @ [0, 0] @ be16 ident @ be16 seq @ payload)))"
  have "length ck = 2" by (simp add: ck_def)
  then obtain c d where "ck = [c, d]" by (rule length_2E)
  then show ?thesis by (auto simp: echo_message_def Let_def ck_def)
qed

text \<open>The IP header a hop quotes in front of an echo request.\<close>

definition quoted_header :: "bool \<Rightarrow> bytes \<Rightarrow> bool" where
  "quoted_header v6 hdr \<longleftrightarrow>
     (if v6 then length hdr = ipv6HeaderLen \<and> hdr ! 6 = 58
      else 20 \<le> length hdr \<and> length hdr = unat (hdr ! 0 AND 0x0f) * 4 \<and> hdr ! 9 = 1)"

lemma rawError_quoted:
  assumes "quoted_header (es_v6 s) hdr" "isICMPErrorType (es_v6 s) ty" "AddrFromSlice ip = (src, True)"
    "8 \<le> length inner" "inner ! 0 = (if es_v6 s then icmpv6EchoRequest else icmpv4EchoRequest)"
    "un16 (take 2 (drop 4 inner)) = es_ident s"
  shows "rawError ([ty, code, c, d] @ be32 info @ hdr @ inner) (IPAddr ip) s =
    Some \<lparr>ie_Type = ty, ie_Code = code, ie_Info = info, ie_From = Unmap src, ie_Inner = inner\<rparr>"
proof -
  obtain i0 i1 i2 i3 where i: "be32 info = [i0, i1, i2, i3]" by (rule length_4E [OF length_be32])
  have info: "un32 [i0, i1, i2, i3] = info" using un32_be32 [of info] by (simp add: i)
  have pos: "0 < length hdr" using assms(1) by (auto simp: quoted_header_def ipv6HeaderLen_def split: if_splits)
  show ?thesis
  proof (cases "es_v6 s")
    case True
    then show ?thesis using assms info
      by (simp add: rawError_def i Let_def icmpHeaderLen_def quoted_header_def ipv6HeaderLen_def nth_append)
  next
    case False
    then show ?thesis using assms info pos
      by (auto simp: rawError_def i Let_def icmpHeaderLen_def quoted_header_def nth_append)
  qed
qed

lemma patched_quote:
  assumes "8 \<le> n" "m = echo_message v6 ident seq payload" "p = echo_message v6 ident' seq payload"
    "q = patchQuotedEchoIdent (take n m) ident' v6"
  shows "length q = min n (length m)" "take 2 q = take 2 p" "drop 4 q = take (n - 4) (drop 4 p)"
proof -
  let ?ty = "if v6 then icmpv6EchoRequest else icmpv4EchoRequest"
  obtain c d where m: "m = [?ty, 0, c, d] @ be16 ident @ be16 seq @ payload"
    using echo_message_shape [of v6 ident seq payload] assms(2) by auto
  obtain c' d' where p: "p = [?ty, 0, c', d'] @ be16 ident' @ be16 seq @ payload"
    using echo_message_shape [of v6 ident' seq payload] assms(3) by auto
  obtain k where k: "n = k + 8" using assms(1) le_Suc_ex by (metis add.commute)
  have t: "take n m = [?ty, 0, c, d] @ be16 ident @ be16 seq @ take k payload"
    by (simp add: m k take_Cons')
  have "q = [?ty, 0, c, d] @ be16 ident' @ be16 seq @ take k payload"
    unfolding assms(4) t
    by (simp add: patchQuotedEchoIdent_def icmpIdentOffset_def icmpv4EchoType_def icmpv6EchoType_def
        icmpv4EchoRequest_def icmpv6EchoRequest_def)
  then show "length q = min n (length m)" "take 2 q = take 2 p" "drop 4 q = take (n - 4) (drop 4 p)"
    by (simp_all add: m p k)
qed

text \<open>
  C14: traceroute through a session. A hop on the remote side that rejects an echo request of the
  helper's raw socket quotes its IP header and at least the first eight bytes of the message. The helper's socket
  takes the error for its own, the error crosses the stream with its type, code, info and sender,
  and after the client's rewrite of the quoted identifier the quote is the start of the probe as
  the client sent it, with the client's identifier, in every byte but those of the checksum.
\<close>

theorem hop_error_reaches_probe:
  assumes "es_raw s" "es_pending s = []" "quoted_header (es_v6 s) hdr" "isICMPErrorType (es_v6 s) ty"
    "AddrFromSlice ip = (src, True)" "8 \<le> n"
    "msg = [ty, code, c, d] @ be32 info @ hdr @ take n (echo_message (es_v6 s) (es_ident s) seq payload)"
  shows "\<exists>e reply e'. echo_recv (ReadMsg msg (IPAddr ip) # rs) s = (Received (error_event e), rs, s)
    \<and> decodeEchoReply (encodeEchoError e) = Inr reply \<and> er_Error reply = Some e'
    \<and> ie_Type e' = ty \<and> ie_Code e' = code \<and> ie_Info e' = info \<and> ie_From e' = wire_addr src
    \<and> (let q = patchQuotedEchoIdent (ie_Inner e') ident (es_v6 s); p = echo_message (es_v6 s) ident seq payload
       in length q = min n (length p) \<and> take 2 q = take 2 p \<and> drop 4 q = take (n - 4) (drop 4 p))"
proof -
  let ?m = "echo_message (es_v6 s) (es_ident s) seq payload"
  let ?p = "echo_message (es_v6 s) ident seq payload"
  define e where "e = \<lparr>ie_Type = ty, ie_Code = code, ie_Info = info, ie_From = Unmap src, ie_Inner = take n ?m\<rparr>"
  obtain x y where m: "?m = [if es_v6 s then icmpv6EchoRequest else icmpv4EchoRequest, 0, x, y] @ be16 (es_ident s) @ be16 seq @ payload"
    using echo_message_shape by blast
  have len: "length ?m = length ?p" using echo_message_shape [of "es_v6 s" ident seq payload] m by auto
  have "rawError msg (IPAddr ip) s = Some e" unfolding assms(7) e_def
    by (rule rawError_quoted [OF assms(3,4,5)]) (use m assms(6) in \<open>simp_all add: take_Cons'\<close>)
  then have recv: "echo_recv (ReadMsg msg (IPAddr ip) # rs) s = (Received (error_event e), rs, s)"
    using assms(1,2) by (simp add: echo_recv_def recv_loop.simps)
  have "IsValid (ie_From e)" "wire_addr (Unmap src) = wire_addr src"
    using assms(5) by (auto simp: e_def AddrFromSlice_def AddrFrom4_def AddrFrom16_def IsValid_def wire_addr_def split: if_splits)
  then show ?thesis
    using recv decode_echo_error [of e] patched_quote [OF assms(6) refl refl refl, of "es_v6 s" "es_ident s" seq payload ident] len
    by (intro exI [of _ e] exI [of _ "wire_icmp e"] exI) (auto simp: e_def wire_icmp_def Let_def)
qed

theorem hop_error_reaches_probe_witness:
  "\<exists>e reply e'. echo_recv [ReadMsg ([11, 0, 0xf4, 0xff] @ be32 0 @
        [0x45, 0, 0, 28, 0, 0, 0, 0, 1, 1, 0, 0, 10, 0, 0, 9, 10, 0, 0, 1] @ take 8 (echo_message False 7 1 [9])) (IPAddr [10, 0, 0, 254])]
        \<lparr>es_v6 = False, es_raw = True, es_ident = 7, es_ttl = \<lparr>ts_last = 1, ts_kernel = 1\<rparr>, es_pending = []\<rparr>
      = (Received (error_event e), [], \<lparr>es_v6 = False, es_raw = True, es_ident = 7, es_ttl = \<lparr>ts_last = 1, ts_kernel = 1\<rparr>, es_pending = []\<rparr>)
    \<and> decodeEchoReply (encodeEchoError e) = Inr reply \<and> er_Error reply = Some e' \<and> ie_From e' = V4 0x0a0000fe
    \<and> drop 4 (patchQuotedEchoIdent (ie_Inner e') 0x1234 False) = [0x12, 0x34, 0, 1]"
proof -
  have "drop 4 (echo_message False 0x1234 1 [9]) = [0x12, 0x34, 0, 1, 9]"
    by (simp add: echo_message_def Let_def be16_two)
  then show ?thesis
    using hop_error_reaches_probe [where s = "\<lparr>es_v6 = False, es_raw = True, es_ident = 7, es_ttl = \<lparr>ts_last = 1, ts_kernel = 1\<rparr>, es_pending = []\<rparr>"
        and hdr = "[0x45, 0, 0, 28, 0, 0, 0, 0, 1, 1, 0, 0, 10, 0, 0, 9, 10, 0, 0, 1]" and ty = 11 and ip = "[10, 0, 0, 254]"
        and src = "V4 0x0a0000fe" and n = 8 and code = 0 and c = "0xf4" and d = "0xff" and info = 0 and seq = 1 and payload = "[9]"
        and rs = "[]" and ident = "0x1234", OF _ _ _ _ _ _ refl]
    by (auto simp: quoted_header_def isICMPErrorType_def AddrFromSlice_def AddrFrom4_def wire_addr_def Let_def)
qed


section \<open>The flows hold what was captured\<close>

definition tun_request :: "hdr_lib \<Rightarrow> dp_step \<Rightarrow> (echo_key \<times> echo_req) option" where
  "tun_request h s = (case s of TunPacket p \<Rightarrow> if protoOf p = None then None else parseEchoRequest h p | _ \<Rightarrow> None)"

definition tun_other :: "hdr_lib \<Rightarrow> dp_step \<Rightarrow> bytes option" where
  "tun_other h s =
     (case s of TunPacket p \<Rightarrow> if protoOf p \<noteq> None \<and> parseEchoRequest h p = None then Some p else None | _ \<Rightarrow> None)"

text \<open>The requests of a key, in the order of their capture.\<close>

definition reqs :: "(echo_key \<times> echo_req) list \<Rightarrow> echo_key \<Rightarrow> echo_req list" where
  "reqs caps key = map snd (filter (\<lambda>c. fst c = key) caps)"

definition flow_ok :: "(echo_key \<times> echo_req) list \<Rightarrow> echo_flow \<Rightarrow> bool" where
  "flow_ok caps f \<longleftrightarrow> length (ef_queue f) \<le> echoQueueLen
     \<and> (\<exists>rs. subseq (rs @ ef_queue f) (reqs caps (ef_key f)) \<and> map WriteRequest rs = map Inr (ef_wire f))
     \<and> (IsValid (ef_src f) \<longrightarrow> ef_src f \<in> rq_src ` set (reqs caps (ef_key f)))"

definition packet_ok :: "hdr_lib \<Rightarrow> (echo_key \<times> echo_req) list \<Rightarrow> bytes \<Rightarrow> bool" where
  "packet_ok h caps p \<longleftrightarrow> (\<exists>key src reply. p \<in> set (reply_packet h key src reply) \<and> src \<in> rq_src ` set (reqs caps key))"

definition flows_named :: "echo_flow list \<Rightarrow> (echo_key \<rightharpoonup> nat) \<Rightarrow> bool" where
  "flows_named fs m \<longleftrightarrow> (\<forall>k i. m k = Some i \<longrightarrow> i < length fs \<and> ef_key (fs ! i) = k)"

definition ns_inv :: "hdr_lib \<Rightarrow> proto_set \<Rightarrow> (echo_key \<times> echo_req) list \<Rightarrow> net_stack \<Rightarrow> bool" where
  "ns_inv h protos caps ns \<longleftrightarrow> ns_set ns = protos
     \<and> flows_named (ns_flows ns) (ns_echoFlows ns)
     \<and> (\<forall>f\<in>set (ns_flows ns). flow_ok caps f)
     \<and> (\<forall>p\<in>set (ns_out ns). packet_ok h caps p)
     \<and> (\<not> ps_ICMP protos \<longrightarrow> ns_flows ns = [])"

lemma flows_named_D: "flows_named fs m \<Longrightarrow> m k = Some i \<Longrightarrow> i < length fs \<and> ef_key (fs ! i) = k"
  unfolding flows_named_def by blast

lemma flows_named_empty: "flows_named fs Map.empty"
  by (simp add: flows_named_def)

lemma flows_named_drop: "flows_named fs m \<Longrightarrow> flows_named fs (m(k := None))"
  unfolding flows_named_def by simp

lemma flows_named_update: "flows_named fs m \<Longrightarrow> ef_key f = ef_key (fs ! i) \<Longrightarrow> flows_named (fs[i := f]) m"
  unfolding flows_named_def
  by (cases "i < length fs") (auto simp: nth_list_update list_update_beyond simp del: split_paired_All)

lemma flows_named_new: "flows_named fs m \<Longrightarrow> ef_key f = k \<Longrightarrow> flows_named (fs @ [f]) (m(k \<mapsto> length fs))"
proof -
  assume *: "flows_named fs m" "ef_key f = k"
  have "i < length (fs @ [f]) \<and> ef_key ((fs @ [f]) ! i) = j" if "(m(k \<mapsto> length fs)) j = Some i" for j i
  proof (cases "j = k")
    case False
    then show ?thesis using flows_named_D [OF *(1), of j i] that by (simp add: nth_append)
  qed (use that *(2) in \<open>auto simp: nth_append\<close>)
  then show ?thesis unfolding flows_named_def by blast
qed

lemmas flows_named_intros = flows_named_empty flows_named_drop flows_named_update flows_named_new

lemma reqs_append [simp]: "reqs (a @ b) k = reqs a k @ reqs b k"
  by (simp add: reqs_def)

lemma flow_ok_mono: "flow_ok caps f \<Longrightarrow> flow_ok (caps @ c) f"
  by (auto simp: flow_ok_def)

lemma packet_ok_mono: "packet_ok h caps p \<Longrightarrow> packet_ok h (caps @ c) p"
  by (fastforce simp: packet_ok_def)

lemma flow_ok_new: "flow_ok caps (new_flow key)"
  by (simp add: flow_ok_def new_flow_def IsValid_def)

lemma flow_ok_queue:
  assumes "flow_ok caps f" "length (ef_queue f) < echoQueueLen" "ef_key f = key"
  shows "flow_ok (caps @ [(key, req)]) (f\<lparr>ef_queue := ef_queue f @ [req]\<rparr>)"
proof -
  obtain rs where "subseq (rs @ ef_queue f) (reqs caps key)" "map WriteRequest rs = map Inr (ef_wire f)"
    using assms by (auto simp: flow_ok_def)
  then have "subseq (rs @ (ef_queue f @ [req])) (reqs (caps @ [(key, req)]) key)"
    by (simp add: reqs_def) (metis append_assoc list_emb_append_mono subseq_order.order_refl)
  then show ?thesis using assms \<open>map WriteRequest rs = _\<close> by (auto simp: flow_ok_def)
qed

lemma flow_ok_send: "flow_ok caps f \<Longrightarrow> flow_ok caps (flow_send ok f)"
proof -
  assume f: "flow_ok caps f"
  show ?thesis
  proof (cases "ef_dialed f \<and> \<not> ef_done f \<and> ef_queue f \<noteq> []")
    case True
    then obtain req rest where q: "ef_queue f = req # rest" by (cases "ef_queue f") auto
    from f obtain rs where rs: "subseq (rs @ req # rest) (reqs caps (ef_key f))" "map WriteRequest rs = map Inr (ef_wire f)"
      by (auto simp: flow_ok_def q)
    have "subseq (rs @ rest) (rs @ req # rest)" by (simp add: subseq_append' list_emb_Cons)
    then have "subseq (rs @ rest) (reqs caps (ef_key f))" "subseq ((rs @ [req]) @ rest) (reqs caps (ef_key f))"
      using rs(1) subseq_order.order_trans by (blast, simp)
    moreover have "req \<in> set (reqs caps (ef_key f))" by (rule list_emb_set [OF rs(1), of req]) auto
    ultimately show ?thesis using True f rs(2)
      unfolding flow_send_def flow_ok_def
      by (auto simp: q Let_def split: sum.split intro: exI [of _ rs] exI [of _ "rs @ [req]"])
  qed (auto simp: flow_send_def f split: list.split)
qed

lemma ns_inv_flow:
  assumes "ns_inv h protos caps ns" "i < length (ns_flows ns)" "flow_ok caps f" "ef_key f = ef_key (ns_flows ns ! i)"
  shows "ns_inv h protos caps (set_flow i f ns)"
proof -
  have "\<forall>g\<in>set ((ns_flows ns)[i := f]). flow_ok caps g"
    using assms(1,3) by (auto simp: ns_inv_def dest!: set_update_subset_insert [THEN subsetD])
  then show ?thesis using assms by (auto simp: ns_inv_def set_flow_def flows_named_update)
qed

lemma flow_at: "ns_inv h protos caps ns \<Longrightarrow> i < length (ns_flows ns) \<Longrightarrow> flow_ok caps (ns_flows ns ! i)"
  by (simp add: ns_inv_def)

lemma ns_inv_mono: "ns_inv h protos caps ns \<Longrightarrow> ns_inv h protos (caps @ c) ns"
  by (simp add: ns_inv_def flow_ok_mono packet_ok_mono)

lemma ns_inv_fields [simp]:
  "ns_inv h protos caps (ns\<lparr>ns_up := u\<rparr>) = ns_inv h protos caps ns"
  "ns_inv h protos caps (ns\<lparr>ns_inject := x\<rparr>) = ns_inv h protos caps ns"
  "ns_inv h protos caps (ns\<lparr>ns_echoUnsupported := b\<rparr>) = ns_inv h protos caps ns"
  by (simp_all add: ns_inv_def)

lemma flow_ok_flags [simp]:
  "flow_ok caps (f\<lparr>ef_done := b\<rparr>) = flow_ok caps f"
  "flow_ok caps (f\<lparr>ef_status := b\<rparr>) = flow_ok caps f"
  "flow_ok caps (f\<lparr>ef_dialed := b\<rparr>) = flow_ok caps f"
  "flow_ok caps (f\<lparr>ef_closed := b\<rparr>) = flow_ok caps f"
  by (simp_all add: flow_ok_def)

lemma find_flow_inv:
  assumes "ns_inv h protos caps ns" "find_flow key ns = (i, ns1)" "ps_ICMP protos"
  shows "ns_inv h protos caps ns1 \<and> i < length (ns_flows ns1) \<and> ef_key (ns_flows ns1 ! i) = key"
proof (cases "ns_echoFlows ns key")
  case None
  have "ef_key (new_flow key) = key" by (simp add: new_flow_def)
  then show ?thesis using assms None
    by (auto simp: find_flow_def ns_inv_def Let_def flow_ok_new flows_named_new)
next
  case (Some j)
  then have "ns1 = ns" "j = i" using assms(2) by (simp_all add: find_flow_def)
  moreover have "i < length (ns_flows ns) \<and> ef_key (ns_flows ns ! i) = key"
    using assms(1) Some \<open>j = i\<close> flows_named_D unfolding ns_inv_def by blast
  ultimately show ?thesis using assms(1) by simp
qed

lemma captureEcho_inv:
  assumes "ns_inv h protos caps ns" "captureEcho h pkt ns = (consumed, ns1)"
  shows "ns_inv h protos (caps @ (case parseEchoRequest h pkt of None \<Rightarrow> [] | Some c \<Rightarrow> [c])) ns1"
proof (cases "parseEchoRequest h pkt")
  case None
  then show ?thesis using assms by (simp add: captureEcho_def)
next
  case (Some c)
  obtain key req where c: "c = (key, req)" by (cases c)
  let ?caps = "caps @ [(key, req)]"
  have set: "ns_set ns = protos" using assms(1) by (simp add: ns_inv_def)
  show ?thesis
  proof (cases "ps_ICMP protos \<and> \<not> ns_echoUnsupported ns")
    case False
    then show ?thesis using assms ns_inv_mono [OF assms(1)] by (auto simp: captureEcho_def Some c set)
  next
    case True
    obtain i ns2 where f: "find_flow key ns = (i, ns2)" by (cases "find_flow key ns")
    note inv2 = find_flow_inv [OF assms(1) f]
    let ?f = "ns_flows ns2 ! i"
    have ns1: "ns1 = (if length (ef_queue ?f) < echoQueueLen then set_flow i (?f\<lparr>ef_queue := ef_queue ?f @ [req]\<rparr>) ns2 else ns2)"
      using assms(2) True by (auto simp: captureEcho_def Some c set f Let_def)
    have i: "ns_inv h protos caps ns2" "i < length (ns_flows ns2)" "ef_key ?f = key" using inv2 True by simp_all
    have "ns_inv h protos ?caps (set_flow i (?f\<lparr>ef_queue := ef_queue ?f @ [req]\<rparr>) ns2)" if "length (ef_queue ?f) < echoQueueLen"
      using flow_ok_queue [OF flow_at [OF i(1,2)] that i(3)] i by (intro ns_inv_flow ns_inv_mono) auto
    then show ?thesis using ns1 ns_inv_mono [OF i(1)] by (simp add: Some c)
  qed
qed

lemma tunToStack_inv:
  assumes "ns_inv h protos caps ns"
  shows "ns_inv h protos (caps @ List.map_filter (tun_request h) [TunPacket pkt]) (tunToStack h pkt ns)"
proof (cases "protoOf pkt")
  case None
  then show ?thesis using assms by (simp add: tunToStack_def tun_request_def map_filter_simps)
next
  case (Some p)
  let ?ns = "ns\<lparr>ns_up := u64 (ns_up ns + int (length pkt))\<rparr>"
  obtain b ns1 where c: "captureEcho h pkt ?ns = (b, ns1)" by (cases "captureEcho h pkt ?ns")
  have "ns_inv h protos (caps @ (case parseEchoRequest h pkt of None \<Rightarrow> [] | Some c \<Rightarrow> [c])) ns1"
    by (rule captureEcho_inv [OF _ c]) (simp add: assms)
  then show ?thesis
    by (auto simp: tunToStack_def Some Let_def c tun_request_def map_filter_simps split: option.splits)
qed

lemma closeEchoFlows_inv: "ns_inv h protos caps ns \<Longrightarrow> ns_inv h protos caps (closeEchoFlows ns)"
proof -
  assume inv: "ns_inv h protos caps ns"
  have "flow_ok caps (if b then f\<lparr>ef_closed := True\<rparr> else f) = flow_ok caps f" for b f by simp
  then show ?thesis using inv
    by (auto simp: ns_inv_def closeEchoFlows_def in_set_enumerate_eq flows_named_empty simp del: flow_ok_flags)
qed

lemma dropEchoFlow_inv: "ns_inv h protos caps ns \<Longrightarrow> ns_inv h protos caps (dropEchoFlow i ns)"
  by (simp add: ns_inv_def dropEchoFlow_def Let_def flows_named_drop)

lemma flow_status_inv:
  assumes "ns_inv h protos caps ns" "i < length (ns_flows ns)"
  shows "ns_inv h protos caps (flow_status st i ns)"
proof -
  let ?f = "ns_flows ns ! i"
  have "ns_inv h protos caps (set_flow i (?f\<lparr>ef_done := b\<rparr>) ns)" "ns_inv h protos caps (set_flow i (?f\<lparr>ef_status := b\<rparr>) ns)" for b
    using flow_at [OF assms] by (simp_all add: ns_inv_flow [OF assms])
  then show ?thesis using assms(1) by (simp add: flow_status_def Let_def split: echo_status.split)
qed

lemma flow_reply_inv:
  assumes "ns_inv h protos caps ns" "i < length (ns_flows ns)"
  shows "ns_inv h protos caps (flow_reply h frame i ns)"
proof -
  let ?f = "ns_flows ns ! i"
  have fin: "ns_inv h protos caps (set_flow i (?f\<lparr>ef_done := True\<rparr>) ns)"
    using flow_at [OF assms] by (simp add: ns_inv_flow [OF assms])
  have "packet_ok h caps p" if "p \<in> set (reply_packet h (ef_key ?f) (ef_src ?f) reply)" for p reply
  proof -
    have "IsValid (ef_src ?f)" using that by (auto simp: reply_packet_def split: if_splits)
    then have "ef_src ?f \<in> rq_src ` set (reqs caps (ef_key ?f))" using flow_at [OF assms] by (simp add: flow_ok_def)
    then show ?thesis using that unfolding packet_ok_def by blast
  qed
  then have "ns_inv h protos caps (ns\<lparr>ns_out := ns_out ns @ reply_packet h (ef_key ?f) (ef_src ?f) reply\<rparr>)" for reply
    using assms(1) by (auto simp: ns_inv_def)
  then show ?thesis using assms(1) fin by (simp add: flow_reply_def Let_def split: option.split sum.split)
qed

lemma dp_do_inv:
  assumes "ns_inv h protos caps ns"
  shows "ns_inv h protos (caps @ List.map_filter (tun_request h) [s]) (dp_do h s ns)"
proof (cases s)
  case (TunPacket p)
  then show ?thesis using tunToStack_inv [OF assms] by (simp add: dp_do_def)
next
  case (FlowDial i ok)
  then show ?thesis using ns_inv_flow [OF assms, of i] flow_at [OF assms, of i] assms
    by (simp add: dp_do_def tun_request_def map_filter_simps flow_dial_def)
next
  case (FlowSend i ok)
  have "ef_key (flow_send ok f) = ef_key f" for f by (simp add: flow_send_def Let_def split: list.split sum.split)
  then show ?thesis using FlowSend ns_inv_flow [OF assms, of i] flow_ok_send [OF flow_at [OF assms, of i]] assms
    by (simp add: dp_do_def tun_request_def map_filter_simps)
next
  case (FlowEnd i)
  then show ?thesis using assms dropEchoFlow_inv by (simp add: dp_do_def tun_request_def map_filter_simps)
qed (use assms in \<open>simp_all add: dp_do_def tun_request_def map_filter_simps flow_status_inv flow_reply_inv closeEchoFlows_inv\<close>)

lemma map_filter_append: "List.map_filter f (xs @ ys) = List.map_filter f xs @ List.map_filter f ys"
  by (induction xs) (auto simp: map_filter_simps split: option.split)

lemma dp_run_inv: "ns_inv h protos (List.map_filter (tun_request h) steps) (dp_run h steps (newNetStack protos))"
proof (induction steps rule: rev_induct)
  case Nil
  then show ?case by (simp add: dp_run_def newNetStack_def ns_inv_def map_filter_simps flows_named_empty)
next
  case (snoc s steps)
  then show ?case using dp_do_inv [OF snoc, of s] by (simp add: dp_run_def map_filter_append)
qed

lemma dp_do_inject: "ns_inject (dp_do h s ns) = ns_inject ns @ List.map_filter (tun_other h) [s]"
  by (auto simp: dp_do_def tunToStack_def captureEcho_def find_flow_def set_flow_def tun_other_def map_filter_simps Let_def
      flow_status_def flow_reply_def dropEchoFlow_def closeEchoFlows_def
      split: dp_step.split option.split prod.split sum.split echo_status.split)

lemma dp_run_inject: "ns_inject (dp_run h steps (newNetStack protos)) = List.map_filter (tun_other h) steps"
proof (induction steps rule: rev_induct)
  case Nil
  then show ?case by (simp add: dp_run_def newNetStack_def map_filter_simps)
qed (simp add: dp_run_def map_filter_append dp_do_inject)


end
