(* ===== verification/Linux_Dns.thy ===== *)
theory Linux_Dns
  imports Netip_Text
begin

text \<open>
  The Linux resolver of \<open>internal/platform/linux\<close>: \<open>resolver.go\<close>, which drives
  systemd-resolved through \<open>resolvectl\<close>, and \<open>resolvconf.go\<close>, which rewrites
  \<open>/etc/resolv.conf\<close> and restores it where resolved does not run. The host is a map from
  paths to nodes and the list of the commands that ran; every system call and every command
  consumes one reply of the kernel, an argument of the model, and a write may stop in the
  middle. Theorems hold for every kernel unless they say otherwise.
\<close>

section \<open>The host\<close>

datatype node = Regular bytes | Symlink string

datatype reply = Done | Fails | Torn nat

datatype os_error = NotExist | OsFailed

record host =
  h_nodes :: "string \<Rightarrow> node option"
  h_cmds :: "string list list"
  h_now :: nat

text \<open>
  \<open>k_reply\<close> is the kernel's reply to a call, by the number of the call. \<open>k_walk\<close> is the path at
  which it finds the file a symbolic link stands for.
\<close>

record kernel =
  k_reply :: "nat \<Rightarrow> reply"
  k_walk :: "(string \<Rightarrow> node option) \<Rightarrow> string \<Rightarrow> string"

type_synonym ('e, 'a) sys = "kernel \<Rightarrow> host \<Rightarrow> ('e + 'a) \<times> host"

definition set_node :: "string \<Rightarrow> node option \<Rightarrow> host \<Rightarrow> host" where
  "set_node p n h = h\<lparr>h_nodes := (h_nodes h)(p := n)\<rparr>"

definition tick :: "host \<Rightarrow> host" where "tick h = h\<lparr>h_now := Suc (h_now h)\<rparr>"

definition followed :: "kernel \<Rightarrow> host \<Rightarrow> string \<Rightarrow> string" where
  "followed k h p = (case h_nodes h p of Some (Symlink t) \<Rightarrow> k_walk k (h_nodes h) p | _ \<Rightarrow> p)"

definition os_ReadFile :: "string \<Rightarrow> (os_error, bytes) sys" where
  "os_ReadFile p k h =
     (if k_reply k (h_now h) \<noteq> Done then (Inl OsFailed, tick h)
      else (case h_nodes h (followed k h p) of
              None \<Rightarrow> Inl NotExist
            | Some (Regular bs) \<Rightarrow> Inr bs
            | Some (Symlink t) \<Rightarrow> Inl OsFailed, tick h))"

text \<open>\<open>os.WriteFile\<close> truncates, so a write that stops after \<open>n\<close> bytes leaves those.\<close>

definition os_WriteFile :: "string \<Rightarrow> bytes \<Rightarrow> (os_error, unit) sys" where
  "os_WriteFile p bs k h =
     (case k_reply k (h_now h) of
        Done \<Rightarrow> (Inr (), tick (set_node (followed k h p) (Some (Regular bs)) h))
      | Fails \<Rightarrow> (Inl OsFailed, tick h)
      | Torn n \<Rightarrow> (Inl OsFailed, tick (set_node (followed k h p) (Some (Regular (take n bs))) h)))"

definition os_Remove :: "string \<Rightarrow> (os_error, unit) sys" where
  "os_Remove p k h =
     (if k_reply k (h_now h) \<noteq> Done then (Inl OsFailed, tick h)
      else if h_nodes h p = None then (Inl NotExist, tick h)
      else (Inr (), tick (set_node p None h)))"

definition os_Symlink :: "string \<Rightarrow> string \<Rightarrow> (os_error, unit) sys" where
  "os_Symlink t p k h =
     (if k_reply k (h_now h) \<noteq> Done \<or> h_nodes h p \<noteq> None then (Inl OsFailed, tick h)
      else (Inr (), tick (set_node p (Some (Symlink t)) h)))"

definition os_Lstat :: "string \<Rightarrow> (os_error, node) sys" where
  "os_Lstat p k h =
     (if k_reply k (h_now h) \<noteq> Done then Inl OsFailed
      else (case h_nodes h p of None \<Rightarrow> Inl NotExist | Some n \<Rightarrow> Inr n), tick h)"

definition os_Readlink :: "string \<Rightarrow> (os_error, string) sys" where
  "os_Readlink p k h =
     (if k_reply k (h_now h) \<noteq> Done then Inl OsFailed
      else (case h_nodes h p of
              None \<Rightarrow> Inl NotExist
            | Some (Symlink t) \<Rightarrow> Inr t
            | Some (Regular bs) \<Rightarrow> Inl OsFailed), tick h)"

text \<open>Directories are not nodes of the model: \<open>os.MkdirAll\<close> only succeeds or fails.\<close>

definition os_MkdirAll :: "string \<Rightarrow> (os_error, unit) sys" where
  "os_MkdirAll p k h = (if k_reply k (h_now h) \<noteq> Done then Inl OsFailed else Inr (), tick h)"

text \<open>\<open>commandRunner\<close>: the command is on record whatever its exit code.\<close>

definition run_cmd :: "string list \<Rightarrow> (os_error, unit) sys" where
  "run_cmd args k h =
     (if k_reply k (h_now h) \<noteq> Done then Inl OsFailed else Inr (),
      tick (h\<lparr>h_cmds := h_cmds h @ [args]\<rparr>))"

section \<open>Errors\<close>

datatype dns_error =
    DomainsRequired
  | ResolvedNotAvailable
  | CommandFailed
  | CreateRuntimeDir | StatResolvConf | ReadSymlink | RecordLink | ReadResolvConf | BackupResolvConf
  | ReadRecord string
  | RemoveResolvConf | WriteResolvConf | RestoreSymlink | RestoreResolvConf | RemoveRecord string
  | Joined "dns_error list"

definition sys_bind ::
    "('e, 'a) sys \<Rightarrow> ('e \<Rightarrow> ('f, 'b) sys) \<Rightarrow> ('a \<Rightarrow> ('f, 'b) sys) \<Rightarrow> ('f, 'b) sys" where
  "sys_bind m bad ok k h =
     (case m k h of (Inl e, h') \<Rightarrow> bad e k h' | (Inr x, h') \<Rightarrow> ok x k h')"

definition sys_ret :: "'a \<Rightarrow> ('e, 'a) sys" where "sys_ret x k h = (Inr x, h)"

definition sys_err :: "'e \<Rightarrow> ('e, 'a) sys" where "sys_err e k h = (Inl e, h)"

section \<open>The resolver\<close>

record resolver =
  resolvConfPath :: string
  linkFile :: string
  backupFile :: string

definition NewResolver :: resolver where
  "NewResolver = \<lparr>resolvConfPath = ''/etc/resolv.conf'',
     linkFile = ''/run/tj/resolv.conf.link'', backupFile = ''/run/tj/resolv.conf.backup''\<rparr>"

definition addrStrings :: "addr list \<Rightarrow> string list" where
  "addrStrings addrs = map Addr_String addrs"

definition routingDomains :: "string list \<Rightarrow> string list" where
  "routingDomains domains = map (\<lambda>d. CHR ''~'' # d) domains"

definition allDomains :: "string list \<Rightarrow> string list" where
  "allDomains domains = ''~.'' # domains"

definition boolArg :: "bool \<Rightarrow> string" where
  "boolArg v = (if v then ''true'' else ''false'')"

definition Available :: "kernel \<Rightarrow> host \<Rightarrow> bool \<times> host" where
  "Available k h = (let (r, h') = run_cmd [''resolvectl'', ''status''] k h in (\<not> isl r, h'))"

definition resolvectl :: "string list \<Rightarrow> (dns_error, unit) sys" where
  "resolvectl args = sys_bind (run_cmd (''resolvectl'' # args)) (\<lambda>_. sys_err CommandFailed) sys_ret"

definition setDNS :: "string \<Rightarrow> addr list \<Rightarrow> (dns_error, unit) sys" where
  "setDNS device servers = resolvectl ([''dns'', device] @ addrStrings servers)"

definition setDomains :: "string \<Rightarrow> string list \<Rightarrow> (dns_error, unit) sys" where
  "setDomains device domains = resolvectl ([''domain'', device] @ domains)"

definition setDefaultRoute :: "string \<Rightarrow> bool \<Rightarrow> (dns_error, unit) sys" where
  "setDefaultRoute device on = resolvectl [''default-route'', device, boolArg on]"

definition resolved_link :: "string \<Rightarrow> addr list \<Rightarrow> string list \<Rightarrow> bool \<Rightarrow> (dns_error, unit) sys" where
  "resolved_link device servers domains on =
     sys_bind (setDNS device servers) sys_err (\<lambda>_.
       sys_bind (setDomains device domains) sys_err (\<lambda>_. setDefaultRoute device on))"

definition renderResolvConf :: "addr list \<Rightarrow> string list \<Rightarrow> string" where
  "renderResolvConf servers domains =
     ''# written by tj, restored on disconnect'' @ [CHR 0x0A]
     @ (if domains = [] then [] else ''search '' @ Join domains '' '' @ [CHR 0x0A])
     @ concat (map (\<lambda>s. ''nameserver '' @ Addr_String s @ [CHR 0x0A]) servers)"

definition backupResolvConf :: "resolver \<Rightarrow> (dns_error, unit) sys" where
  "backupResolvConf r =
     sys_bind (os_MkdirAll (linkFile r)) (\<lambda>_. sys_err CreateRuntimeDir) (\<lambda>_.
     sys_bind (os_Lstat (resolvConfPath r))
       (\<lambda>e. if e = NotExist then sys_ret () else sys_err StatResolvConf)
       (\<lambda>fi. case fi of
          Symlink _ \<Rightarrow>
            sys_bind (os_Readlink (resolvConfPath r)) (\<lambda>_. sys_err ReadSymlink) (\<lambda>target.
              sys_bind (os_WriteFile (linkFile r) (str_bytes target)) (\<lambda>_. sys_err RecordLink) sys_ret)
        | Regular _ \<Rightarrow>
            sys_bind (os_ReadFile (resolvConfPath r)) (\<lambda>_. sys_err ReadResolvConf) (\<lambda>data.
              sys_bind (os_WriteFile (backupFile r) data) (\<lambda>_. sys_err BackupResolvConf) sys_ret)))"

definition remove_resolv_conf :: "resolver \<Rightarrow> (dns_error, unit) sys" where
  "remove_resolv_conf r =
     sys_bind (os_Remove (resolvConfPath r))
       (\<lambda>e. if e = NotExist then sys_ret () else sys_err RemoveResolvConf) sys_ret"

definition applyResolvConfFallback ::
    "resolver \<Rightarrow> addr list \<Rightarrow> string list \<Rightarrow> (dns_error, unit) sys" where
  "applyResolvConfFallback r servers domains =
     sys_bind (backupResolvConf r) sys_err (\<lambda>_.
     sys_bind (remove_resolv_conf r) sys_err (\<lambda>_.
     sys_bind (os_WriteFile (resolvConfPath r) (str_bytes (renderResolvConf servers domains)))
       (\<lambda>_. sys_err WriteResolvConf) sys_ret))"

definition readIfExists :: "string \<Rightarrow> (dns_error, bytes option) sys" where
  "readIfExists p =
     sys_bind (os_ReadFile p)
       (\<lambda>e. if e = NotExist then sys_ret None else sys_err (ReadRecord p)) (\<lambda>bs. sys_ret (Some bs))"

definition revertResolvConfFallback :: "resolver \<Rightarrow> (dns_error, unit) sys" where
  "revertResolvConfFallback r =
     sys_bind (readIfExists (linkFile r)) sys_err (\<lambda>target.
     sys_bind (readIfExists (backupFile r)) sys_err (\<lambda>backup.
       if target = None \<and> backup = None then sys_ret ()
       else
         sys_bind (remove_resolv_conf r) sys_err (\<lambda>_.
           case target of
             Some t \<Rightarrow>
               sys_bind (os_Symlink (bytes_str t) (resolvConfPath r)) (\<lambda>_. sys_err RestoreSymlink) (\<lambda>_.
                 sys_bind (os_Remove (linkFile r)) (\<lambda>_. sys_err (RemoveRecord (linkFile r))) sys_ret)
           | None \<Rightarrow>
               sys_bind (os_WriteFile (resolvConfPath r) (the backup)) (\<lambda>_. sys_err RestoreResolvConf) (\<lambda>_.
                 sys_bind (os_Remove (backupFile r)) (\<lambda>_. sys_err (RemoveRecord (backupFile r))) sys_ret))))"

definition ApplySplit :: "string \<Rightarrow> addr list \<Rightarrow> string list \<Rightarrow> (dns_error, unit) sys" where
  "ApplySplit device servers domains k h =
     (if domains = [] then (Inl DomainsRequired, h)
      else case Available k h of (up, h') \<Rightarrow>
        if up then resolved_link device servers (routingDomains domains) False k h'
        else (Inl ResolvedNotAvailable, h'))"

definition ApplyAll :: "resolver \<Rightarrow> string \<Rightarrow> addr list \<Rightarrow> string list \<Rightarrow> (dns_error, unit) sys" where
  "ApplyAll r device servers domains k h =
     (case Available k h of (up, h') \<Rightarrow>
        if up then resolved_link device servers (allDomains domains) True k h'
        else applyResolvConfFallback r servers domains k h')"

text \<open>\<open>Revert\<close> goes on after a failing command and joins the errors.\<close>

definition Revert :: "resolver \<Rightarrow> string \<Rightarrow> (dns_error, unit) sys" where
  "Revert r device k h =
     (case Available k h of (up, h1) \<Rightarrow>
      case (if up then resolvectl [''revert'', device] k h1 else (Inr (), h1)) of (cmd, h2) \<Rightarrow>
      case revertResolvConfFallback r k h2 of (file, h3) \<Rightarrow>
        let errs = (case cmd of Inl e \<Rightarrow> [e] | Inr _ \<Rightarrow> []) @ (case file of Inl e \<Rightarrow> [e] | Inr _ \<Rightarrow> [])
        in (if errs = [] then Inr () else Inl (Joined errs), h3))"


section \<open>What the calls do to the host\<close>

lemmas os_defs = os_ReadFile_def os_WriteFile_def os_Remove_def os_Symlink_def os_Lstat_def
  os_Readlink_def os_MkdirAll_def sys_bind_def sys_ret_def sys_err_def

lemma tick_simps [simp]:
  "h_nodes (tick h) = h_nodes h" "h_cmds (tick h) = h_cmds h" "h_now (tick h) = Suc (h_now h)"
  by (simp_all add: tick_def)

lemma set_node_simps [simp]:
  "h_nodes (set_node p n h) = (h_nodes h)(p := n)" "h_cmds (set_node p n h) = h_cmds h"
  "h_now (set_node p n h) = h_now h"
  by (simp_all add: set_node_def)

lemma followed_file [simp]:
  "h_nodes h p = None \<Longrightarrow> followed k h p = p"
  "h_nodes h p = Some (Regular bs) \<Longrightarrow> followed k h p = p"
  by (simp_all add: followed_def)

definition wf_resolver :: "resolver \<Rightarrow> bool" where
  "wf_resolver r \<longleftrightarrow> distinct [resolvConfPath r, linkFile r, backupFile r]"

text \<open>
  \<open>restored\<close>: \<open>resolv.conf\<close> is the given node and no record of tj is left. \<open>recoverable\<close>: the
  record describes the node. \<open>untouched\<close>: no other file changed.
\<close>

definition restored :: "resolver \<Rightarrow> node \<Rightarrow> host \<Rightarrow> bool" where
  "restored r orig h \<longleftrightarrow> h_nodes h (resolvConfPath r) = Some orig
     \<and> h_nodes h (linkFile r) = None \<and> h_nodes h (backupFile r) = None"

definition recoverable :: "resolver \<Rightarrow> node \<Rightarrow> host \<Rightarrow> bool" where
  "recoverable r orig h \<longleftrightarrow> (case orig of
     Symlink t \<Rightarrow> h_nodes h (linkFile r) = Some (Regular (str_bytes t)) \<and> h_nodes h (backupFile r) = None
   | Regular bs \<Rightarrow> h_nodes h (linkFile r) = None \<and> h_nodes h (backupFile r) = Some (Regular bs))"

definition untouched :: "resolver \<Rightarrow> host \<Rightarrow> host \<Rightarrow> bool" where
  "untouched r h h' \<longleftrightarrow>
     (\<forall>p. p \<noteq> resolvConfPath r \<longrightarrow> p \<noteq> linkFile r \<longrightarrow> p \<noteq> backupFile r \<longrightarrow> h_nodes h' p = h_nodes h p)"

lemma untouched_trans: "untouched r a b \<Longrightarrow> untouched r b c \<Longrightarrow> untouched r a c"
  by (simp add: untouched_def)

lemma cmd_nodes [simp]:
  "h_nodes (snd (Available k h)) = h_nodes h"
  "h_nodes (snd (resolvectl args k h)) = h_nodes h"
  "h_nodes (snd (run_cmd args k h)) = h_nodes h"
  by (simp_all add: Available_def resolvectl_def run_cmd_def sys_bind_def sys_err_def sys_ret_def)

lemma resolved_link_nodes [simp]: "h_nodes (snd (resolved_link device servers domains on k h)) = h_nodes h"
  by (simp add: resolved_link_def setDNS_def setDomains_def setDefaultRoute_def resolvectl_def run_cmd_def
      sys_bind_def sys_err_def sys_ret_def)

lemma nodes_cong:
  assumes "h_nodes h = h_nodes h'"
  shows "restored r orig h = restored r orig h'" "recoverable r orig h = recoverable r orig h'"
    "untouched r g h = untouched r g h'" "untouched r h g = untouched r h' g"
  using assms by (simp_all add: restored_def recoverable_def untouched_def split: node.splits)

lemma backup_effect:
  assumes "wf_resolver r" "restored r orig h" "backupResolvConf r k h = (res, h')"
  shows "untouched r h h'" "h_nodes h' (resolvConfPath r) = Some orig"
    "res = Inr () \<Longrightarrow> recoverable r orig h'"
    "res \<noteq> Inr () \<Longrightarrow> res \<notin> {Inl RecordLink, Inl BackupResolvConf} \<Longrightarrow> restored r orig h'"
  using assms
  by (auto simp: backupResolvConf_def os_defs restored_def recoverable_def untouched_def wf_resolver_def
      split: if_splits node.splits reply.splits)

lemma remove_effect:
  assumes "remove_resolv_conf r k h = (res, h')"
  shows "res = Inr () \<Longrightarrow> h_nodes h' = (h_nodes h)(resolvConfPath r := None)"
    "res \<noteq> Inr () \<Longrightarrow> res = Inl RemoveResolvConf \<and> h_nodes h' = h_nodes h"
  using assms by (auto simp: remove_resolv_conf_def os_defs fun_upd_idem split: if_splits)

lemma recoverable_other:
  "recoverable r orig h \<Longrightarrow> wf_resolver r \<Longrightarrow> h_nodes h' = (h_nodes h)(resolvConfPath r := n) \<Longrightarrow> recoverable r orig h'"
  by (auto simp: recoverable_def wf_resolver_def split: node.splits)

lemma fallback_effect:
  assumes "wf_resolver r" "restored r orig h" "applyResolvConfFallback r servers domains k h = (res, h')"
    "res \<noteq> Inl RecordLink" "res \<noteq> Inl BackupResolvConf"
  shows "untouched r h h' \<and> (restored r orig h' \<or> recoverable r orig h')"
proof -
  obtain b h1 where b: "backupResolvConf r k h = (b, h1)" by (cases "backupResolvConf r k h")
  note be = backup_effect [OF assms(1,2) b]
  show ?thesis
  proof (cases b)
    case (Inl e)
    then show ?thesis using be assms(3-5) b by (auto simp: applyResolvConfFallback_def sys_bind_def sys_err_def)
  next
    case (Inr u)
    obtain d h2 where d: "remove_resolv_conf r k h1 = (d, h2)" by (cases "remove_resolv_conf r k h1")
    have rec: "recoverable r orig h1" using be(3) Inr by simp
    show ?thesis
    proof (cases d)
      case (Inl e)
      then show ?thesis using remove_effect(2) [OF d] be(1) rec assms(3) b d \<open>b = Inr u\<close>
        by (auto simp: applyResolvConfFallback_def sys_bind_def sys_err_def nodes_cong [of h' h1])
    next
      case (Inr v)
      then have n2: "h_nodes h2 = (h_nodes h1)(resolvConfPath r := None)" using remove_effect(1) [OF d] by simp
      have "\<exists>n. h_nodes h' = (h_nodes h1)(resolvConfPath r := n)"
        using assms(3) b d \<open>b = Inr u\<close> Inr n2
        by (auto simp: applyResolvConfFallback_def sys_bind_def sys_err_def sys_ret_def os_WriteFile_def split: reply.splits)
      then obtain n where n: "h_nodes h' = (h_nodes h1)(resolvConfPath r := n)" ..
      then show ?thesis using recoverable_other [OF rec assms(1) n] be(1) by (auto simp: untouched_def)
    qed
  qed
qed

lemma apply_effect:
  assumes "wf_resolver r" "restored r orig h" "ApplyAll r device servers domains k h = (res, h')"
    "res \<noteq> Inl RecordLink" "res \<noteq> Inl BackupResolvConf"
  shows "untouched r h h' \<and> (restored r orig h' \<or> recoverable r orig h')"
proof -
  obtain up h1 where a: "Available k h = (up, h1)" by (cases "Available k h")
  have n: "h_nodes h1 = h_nodes h" using cmd_nodes(1) [of k h] by (simp add: a)
  show ?thesis
  proof (cases up)
    case True
    then have "h_nodes h' = h_nodes h"
      using assms(3) n resolved_link_nodes [of device servers "allDomains domains" True k h1]
      by (simp add: ApplyAll_def a)
    then show ?thesis using assms(2) by (simp add: nodes_cong [of h' h] untouched_def)
  next
    case False
    then show ?thesis using fallback_effect [of r orig h1 servers domains k res h'] assms n
      by (simp add: ApplyAll_def a nodes_cong [of h1 h])
  qed
qed

lemma revert_restored:
  assumes "restored r orig h" "revertResolvConfFallback r k h = (res, h')"
  shows "h_nodes h' = h_nodes h"
  using assms by (auto simp: revertResolvConfFallback_def readIfExists_def os_defs restored_def split: if_splits)

lemma revert_recoverable:
  assumes "wf_resolver r" "recoverable r orig h" "revertResolvConfFallback r k h = (res, h')"
  shows "untouched r h h' \<and> (if res = Inr () then restored r orig h' else restored r orig h' \<or> recoverable r orig h')"
proof (cases orig)
  case (Symlink t)
  then show ?thesis using assms
    by (auto simp: revertResolvConfFallback_def readIfExists_def remove_resolv_conf_def os_defs restored_def
        recoverable_def untouched_def wf_resolver_def split: if_splits)
next
  case (Regular bs)
  then show ?thesis using assms
    by (auto simp: revertResolvConfFallback_def readIfExists_def remove_resolv_conf_def os_defs restored_def
        recoverable_def untouched_def wf_resolver_def split: if_splits reply.splits)
qed

section \<open>Revert gives back the file\<close>

lemma Revert_parts:
  obtains h2 out where "h_nodes h2 = h_nodes h" "revertResolvConfFallback r k h2 = (out, snd (Revert r device k h))"
    "fst (Revert r device k h) = Inr () \<longrightarrow> out = Inr ()"
    "h_now h < h_now h2"
    "(\<forall>i. h_now h < i \<longrightarrow> k_reply k i = Done) \<longrightarrow> out = Inr () \<longrightarrow> fst (Revert r device k h) = Inr ()"
proof -
  obtain up h1 where a: "Available k h = (up, h1)" by (cases "Available k h")
  obtain cmd h2 where c: "(if up then resolvectl [''revert'', device] k h1 else (Inr (), h1)) = (cmd, h2)"
    by (cases "if up then resolvectl [''revert'', device] k h1 else (Inr (), h1)")
  obtain out h3 where f: "revertResolvConfFallback r k h2 = (out, h3)" by (cases "revertResolvConfFallback r k h2")
  have n1: "h_nodes h1 = h_nodes h" using cmd_nodes(1) [of k h] by (simp add: a)
  have t1: "h_now h1 = Suc (h_now h)" using a by (auto simp: Available_def run_cmd_def Let_def)
  have "h_nodes h2 = h_nodes (snd (if up then resolvectl [''revert'', device] k h1 else (Inr (), h1)))" by (simp only: c snd_conv)
  then have n2: "h_nodes h2 = h_nodes h1" by (simp split: if_splits)
  have t2: "h_now h1 \<le> h_now h2" "(\<And>i. h_now h < i \<Longrightarrow> k_reply k i = Done) \<Longrightarrow> cmd = Inr ()"
    using c t1 by (auto simp: resolvectl_def run_cmd_def sys_bind_def sys_err_def sys_ret_def split: if_splits)
  have R: "Revert r device k h = (if (case cmd of Inl e \<Rightarrow> [e] | Inr _ \<Rightarrow> []) @ (case out of Inl e \<Rightarrow> [e] | Inr _ \<Rightarrow> []) = []
      then Inr () else Inl (Joined ((case cmd of Inl e \<Rightarrow> [e] | Inr _ \<Rightarrow> []) @ (case out of Inl e \<Rightarrow> [e] | Inr _ \<Rightarrow> []))), h3)"
    by (simp add: Revert_def a c f Let_def)
  show thesis
    by (rule that [of h2 out]) (use n1 n2 t1 t2 f in \<open>auto simp: R split: sum.splits if_splits\<close>)
qed

lemma Revert_keeps:
  assumes "wf_resolver r" "restored r orig h \<or> recoverable r orig h"
  shows "untouched r h (snd (Revert r device k h))"
    and "restored r orig (snd (Revert r device k h)) \<or> recoverable r orig (snd (Revert r device k h))"
    and "fst (Revert r device k h) = Inr () \<Longrightarrow> restored r orig (snd (Revert r device k h))"
proof -
  let ?h' = "snd (Revert r device k h)"
  obtain h2 out where p: "h_nodes h2 = h_nodes h" "revertResolvConfFallback r k h2 = (out, ?h')"
    "fst (Revert r device k h) = Inr () \<longrightarrow> out = Inr ()"
    "h_now h < h_now h2"
    "(\<forall>i. h_now h < i \<longrightarrow> k_reply k i = Done) \<longrightarrow> out = Inr () \<longrightarrow> fst (Revert r device k h) = Inr ()"
    by (rule Revert_parts [of h r k device])
  have "untouched r h ?h' \<and> (restored r orig ?h' \<or> recoverable r orig ?h') \<and> (out = Inr () \<longrightarrow> restored r orig ?h')"
    using assms(2)
  proof
    assume "restored r orig h"
    then have "restored r orig h2" by (simp add: nodes_cong [OF p(1)])
    then have "h_nodes ?h' = h_nodes h" using revert_restored [OF _ p(2)] p(1) by simp
    then show ?thesis using \<open>restored r orig h\<close> by (simp add: nodes_cong [of ?h' h] untouched_def)
  next
    assume "recoverable r orig h"
    then have r2: "recoverable r orig h2" by (simp add: nodes_cong [OF p(1)])
    show ?thesis using revert_recoverable [OF assms(1) r2 p(2)] by (auto simp: nodes_cong [OF p(1)] split: if_splits)
  qed
  then show "untouched r h ?h'" "restored r orig ?h' \<or> recoverable r orig ?h'"
    "fst (Revert r device k h) = Inr () \<Longrightarrow> restored r orig ?h'" using p(3) by auto
qed

lemma fallback_returns:
  assumes "wf_resolver r" "restored r orig h \<or> recoverable r orig h" "\<And>i. h_now h \<le> i \<Longrightarrow> k_reply k i = Done"
  shows "fst (revertResolvConfFallback r k h) = Inr ()"
  using assms
  by (cases orig) (auto simp: revertResolvConfFallback_def readIfExists_def remove_resolv_conf_def os_defs restored_def
      recoverable_def wf_resolver_def)

lemma Revert_returns:
  assumes "wf_resolver r" "restored r orig h \<or> recoverable r orig h" "\<And>i. h_now h < i \<Longrightarrow> k_reply k i = Done"
  shows "fst (Revert r device k h) = Inr ()"
proof (rule Revert_parts [of h r k device])
  fix h2 out
  assume p: "h_nodes h2 = h_nodes h" "revertResolvConfFallback r k h2 = (out, snd (Revert r device k h))"
    "h_now h < h_now h2"
    "(\<forall>i. h_now h < i \<longrightarrow> k_reply k i = Done) \<longrightarrow> out = Inr () \<longrightarrow> fst (Revert r device k h) = Inr ()"
  have "restored r orig h2 \<or> recoverable r orig h2" using assms(2) by (simp add: nodes_cong [OF p(1)])
  then have "fst (revertResolvConfFallback r k h2) = Inr ()"
    using fallback_returns [OF assms(1), of orig h2 k] assms(3) p(3) by auto
  then show ?thesis using p(2,4) assms(3) by simp
qed

definition reverts :: "resolver \<Rightarrow> string \<Rightarrow> kernel \<Rightarrow> nat \<Rightarrow> host \<Rightarrow> host" where
  "reverts r device k n h = ((\<lambda>h. snd (Revert r device k h)) ^^ n) h"

lemma reverts_keep:
  assumes "wf_resolver r" "restored r orig h \<or> recoverable r orig h"
  shows "untouched r h (reverts r device k n h)
    \<and> (restored r orig (reverts r device k n h) \<or> recoverable r orig (reverts r device k n h))"
proof (induction n)
  case 0
  then show ?case using assms by (simp add: reverts_def untouched_def)
next
  case (Suc n)
  then show ?case using Revert_keeps(1,2) [OF assms(1), of orig "reverts r device k n h" device k]
    by (auto simp: reverts_def intro: untouched_trans)
qed


definition sample_kernel :: kernel where
  "sample_kernel = \<lparr>k_reply = (\<lambda>i. if i \<in> {0, 7, 11} then Fails else Done), k_walk = (\<lambda>_ p. p)\<rparr>"

definition sample_host :: host where
  "sample_host = \<lparr>h_nodes = [''/etc/resolv.conf'' \<mapsto> Symlink ''stub''], h_cmds = [], h_now = 0\<rparr>"


section \<open>What resolved is told\<close>

lemma resolvectl_run:
  "resolvectl args k h = (if k_reply k (h_now h) = Done then Inr () else Inl CommandFailed,
     tick (h\<lparr>h_cmds := h_cmds h @ [''resolvectl'' # args]\<rparr>))"
  by (simp add: resolvectl_def run_cmd_def sys_bind_def sys_err_def sys_ret_def)

definition link_cmds :: "string \<Rightarrow> addr list \<Rightarrow> string list \<Rightarrow> bool \<Rightarrow> string list list" where
  "link_cmds device servers domains on =
     [[''resolvectl'', ''status''],
      [''resolvectl'', ''dns'', device] @ map Addr_String servers,
      [''resolvectl'', ''domain'', device] @ domains,
      [''resolvectl'', ''default-route'', device, if on then ''true'' else ''false'']]"

text \<open>
  Split DNS either tells resolved everything or says that it did not. Whatever the kernel
  answers, \<open>ApplySplit\<close> with at least one domain runs a prefix of four commands: the status, the
  servers on the link, each domain as a routing domain, and no default route; it returns no
  error exactly when all four ran and succeeded, stops at the first that fails, and changes no
  file. Without a domain it runs nothing.
\<close>

theorem split_dns_commands:
  "case ApplySplit device servers domains k h of (res, h') \<Rightarrow>
     h_nodes h' = h_nodes h
     \<and> (if domains = [] then res = Inl DomainsRequired \<and> h' = h
        else let cmds = link_cmds device servers (map (\<lambda>d. CHR ''~'' # d) domains) False;
                 n = length (takeWhile (\<lambda>i. k_reply k (h_now h + i) = Done) [0..<4])
             in h_cmds h' = h_cmds h @ take (Suc n) cmds \<and> (res = Inr () \<longleftrightarrow> n = 4))"
  by (simp add: ApplySplit_def Available_def run_cmd_def resolved_link_def setDNS_def setDomains_def
      setDefaultRoute_def resolvectl_run sys_bind_def sys_err_def link_cmds_def addrStrings_def routingDomains_def
      boolArg_def Let_def upt_rec eval_nat_numeral)

end
