(* ===== verification/Linux_Routes.thy ===== *)
theory Linux_Routes
  imports Netip_Text
begin

text \<open>
  The routes and the device of a session on Linux: \<open>internal/platform/linux/router.go\<close> and
  \<open>Configure\<close> and \<open>Delete\<close> of \<open>device.go\<close>. The netlink package is outside the repository: its calls
  are the record \<open>netlink_ops\<close> over the state of a kernel, an argument of every definition, and
  the locale \<open>netlink\<close> states what rtnetlink documents of them. Any call may fail at any time.
\<close>

section \<open>Netlink\<close>

datatype family = FAMILY_V4 | FAMILY_V6

datatype nl_error = LinkNotFound | ESRCH | ENOENT | EEXIST | NlFailed

record nl_route =
  ro_LinkIndex :: int
  ro_Dst :: "prefix option"
  ro_Gw :: "addr option"
  ro_Scope :: nat
  ro_Table :: nat

text \<open>\<open>ru_Match\<close> is what the rule selects by, empty for a rule that selects every packet.\<close>

record nl_rule =
  ru_Priority :: nat
  ru_Table :: nat
  ru_Family :: family
  ru_Match :: string

type_synonym ('k, 'a) nl = "'k \<Rightarrow> (nl_error + 'a) \<times> 'k"

record 'k netlink_ops =
  nl_LinkByName :: "string \<Rightarrow> ('k, int) nl"
  nl_LinkByIndex :: "int \<Rightarrow> ('k, string) nl"
  nl_RouteReplace :: "nl_route \<Rightarrow> ('k, unit) nl"
  nl_RouteDel :: "nl_route \<Rightarrow> ('k, unit) nl"
  nl_RouteListFiltered :: "family \<Rightarrow> nat \<Rightarrow> ('k, nl_route list) nl"
  nl_RouteList :: "('k, nl_route list) nl"
  nl_RuleList :: "family \<Rightarrow> ('k, nl_rule list) nl"
  nl_RuleAdd :: "nl_rule \<Rightarrow> ('k, unit) nl"
  nl_RuleDel :: "nl_rule \<Rightarrow> ('k, unit) nl"
  nl_AddrAdd :: "int \<Rightarrow> prefix \<Rightarrow> bool \<Rightarrow> ('k, unit) nl"
  nl_LinkSetUp :: "int \<Rightarrow> ('k, unit) nl"
  nl_LinkDel :: "int \<Rightarrow> ('k, unit) nl"

datatype router_error =
    LinkError string nl_error
  | ListRules nl_error
  | AddRule nl_error
  | AddRoute prefix nl_error
  | ListTable nl_error
  | FlushTable nl_error
  | DeleteRule nl_error
  | RemoveRoute prefix nl_error
  | ListRoutes nl_error
  | AddAddress prefix nl_error
  | BringUp nl_error
  | DeleteLink nl_error

text \<open>A call, then what follows on an error and on a value.\<close>

definition nl_bind :: "('k, 'a) nl \<Rightarrow> (nl_error \<Rightarrow> 'k \<Rightarrow> 'r) \<Rightarrow> ('a \<Rightarrow> 'k \<Rightarrow> 'r) \<Rightarrow> 'k \<Rightarrow> 'r" where
  "nl_bind m bad ok k = (case m k of (Inl e, k') \<Rightarrow> bad e k' | (Inr x, k') \<Rightarrow> ok x k')"

lemma nl_bind_alt:
  "nl_bind m bad ok k = (case fst (m k) of Inl e \<Rightarrow> bad e (snd (m k)) | Inr v \<Rightarrow> ok v (snd (m k)))"
  by (simp add: nl_bind_def split: prod.split sum.split)

section \<open>The router\<close>

definition routeTable :: nat where "routeTable = 117"

definition rulePriority :: nat where "rulePriority = 5300"

definition RT_SCOPE_LINK :: nat where "RT_SCOPE_LINK = 253"

definition tj_device :: string where "tj_device = ''tj0''"

definition ruleFamilies :: "family list" where "ruleFamilies = [FAMILY_V4, FAMILY_V6]"

definition session_route :: "int \<Rightarrow> prefix \<Rightarrow> nl_route" where
  "session_route index p =
     \<lparr>ro_LinkIndex = index, ro_Dst = Some p, ro_Gw = None, ro_Scope = RT_SCOPE_LINK, ro_Table = routeTable\<rparr>"

definition sessionRule :: "family \<Rightarrow> nl_rule" where
  "sessionRule f = \<lparr>ru_Priority = rulePriority, ru_Table = routeTable, ru_Family = f, ru_Match = []\<rparr>"

definition ruleExists :: "'k netlink_ops \<Rightarrow> family \<Rightarrow> 'k \<Rightarrow> (router_error + bool) \<times> 'k" where
  "ruleExists ops f =
     nl_bind (nl_RuleList ops f) (\<lambda>e k. (Inl (ListRules e), k))
       (\<lambda>rules k. (Inr (list_ex (\<lambda>r. ru_Priority r = rulePriority \<and> ru_Table r = routeTable) rules), k))"

definition ensure_rule :: "'k netlink_ops \<Rightarrow> family \<Rightarrow> 'k \<Rightarrow> router_error option \<times> 'k" where
  "ensure_rule ops f k =
     (case ruleExists ops f k of
        (Inl e, k1) \<Rightarrow> (Some e, k1)
      | (Inr True, k1) \<Rightarrow> (None, k1)
      | (Inr False, k1) \<Rightarrow>
          nl_bind (nl_RuleAdd ops (sessionRule f))
            (\<lambda>e k. (if e = EEXIST then None else Some (AddRule e), k)) (\<lambda>_ k. (None, k)) k1)"

definition ensureRules :: "'k netlink_ops \<Rightarrow> 'k \<Rightarrow> router_error option \<times> 'k" where
  "ensureRules ops = try_each (ensure_rule ops) ruleFamilies"

definition add_route :: "'k netlink_ops \<Rightarrow> int \<Rightarrow> prefix \<Rightarrow> 'k \<Rightarrow> router_error option \<times> 'k" where
  "add_route ops index p =
     nl_bind (nl_RouteReplace ops (session_route index p)) (\<lambda>e k. (Some (AddRoute p e), k)) (\<lambda>_ k. (None, k))"

definition router_Add :: "'k netlink_ops \<Rightarrow> string \<Rightarrow> prefix list \<Rightarrow> 'k \<Rightarrow> router_error option \<times> 'k" where
  "router_Add ops device ps =
     nl_bind (nl_LinkByName ops device) (\<lambda>e k. (Some (LinkError device e), k)) (\<lambda>index k.
       case ensureRules ops k of
         (Some e, k1) \<Rightarrow> (Some e, k1)
       | (None, k1) \<Rightarrow> try_each (add_route ops index) ps k1)"

definition gone :: "nl_error \<Rightarrow> bool" where "gone e \<longleftrightarrow> e = ESRCH \<or> e = ENOENT"

definition flush_route :: "'k netlink_ops \<Rightarrow> nl_route \<Rightarrow> 'k \<Rightarrow> router_error option \<times> 'k" where
  "flush_route ops r =
     nl_bind (nl_RouteDel ops r) (\<lambda>e k. (if gone e then None else Some (FlushTable e), k)) (\<lambda>_ k. (None, k))"

definition delete_rule :: "'k netlink_ops \<Rightarrow> family \<Rightarrow> 'k \<Rightarrow> router_error option \<times> 'k" where
  "delete_rule ops f k =
     (case ruleExists ops f k of
        (Inl e, k1) \<Rightarrow> (Some e, k1)
      | (Inr False, k1) \<Rightarrow> (None, k1)
      | (Inr True, k1) \<Rightarrow>
          nl_bind (nl_RuleDel ops (sessionRule f))
            (\<lambda>e k. (if e = ENOENT then None else Some (DeleteRule e), k)) (\<lambda>_ k. (None, k)) k1)"

definition reset_family :: "'k netlink_ops \<Rightarrow> family \<Rightarrow> 'k \<Rightarrow> router_error option \<times> 'k" where
  "reset_family ops f =
     nl_bind (nl_RouteListFiltered ops f routeTable) (\<lambda>e k. (Some (ListTable e), k)) (\<lambda>routes k.
       case try_each (flush_route ops) routes k of
         (Some e, k1) \<Rightarrow> (Some e, k1)
       | (None, k1) \<Rightarrow> delete_rule ops f k1)"

definition router_Reset :: "'k netlink_ops \<Rightarrow> 'k \<Rightarrow> router_error option \<times> 'k" where
  "router_Reset ops = try_each (reset_family ops) ruleFamilies"

definition remove_route :: "'k netlink_ops \<Rightarrow> int \<Rightarrow> prefix \<Rightarrow> 'k \<Rightarrow> router_error option \<times> 'k" where
  "remove_route ops index p =
     nl_bind (nl_RouteDel ops (session_route index p))
       (\<lambda>e k. (if gone e then None else Some (RemoveRoute p e), k)) (\<lambda>_ k. (None, k))"

definition router_Remove :: "'k netlink_ops \<Rightarrow> string \<Rightarrow> prefix list \<Rightarrow> 'k \<Rightarrow> router_error option \<times> 'k" where
  "router_Remove ops device ps =
     nl_bind (nl_LinkByName ops device)
       (\<lambda>e k. (if e = LinkNotFound then None else Some (LinkError device e), k))
       (\<lambda>index. try_each (remove_route ops index) ps)"

text \<open>
  \<open>Connected\<close>: the loop over the routes of the main tables. The printed prefixes it has seen
  are those of the result.
\<close>

fun connected_loop :: "'k netlink_ops \<Rightarrow> nl_route list \<Rightarrow> prefix list \<Rightarrow> 'k \<Rightarrow> prefix list \<times> 'k" where
  "connected_loop ops [] out k = (out, k)"
| "connected_loop ops (r # rs) out k =
     (case ro_Dst r of
        None \<Rightarrow> connected_loop ops rs out k
      | Some dst \<Rightarrow>
          if ro_Gw r \<noteq> None \<or> ro_Scope r \<noteq> RT_SCOPE_LINK then connected_loop ops rs out k
          else (case nl_LinkByIndex ops (ro_LinkIndex r) k of
                  (Inl e, k') \<Rightarrow> connected_loop ops rs out k'
                | (Inr name, k') \<Rightarrow>
                    if name = ''lo'' \<or> name = tj_device then connected_loop ops rs out k'
                    else let prefix = PrefixFrom (Unmap (pfx_addr dst)) (pfx_bits dst) in
                         if Prefix_String prefix \<in> Prefix_String ` set out then connected_loop ops rs out k'
                         else connected_loop ops rs (out @ [prefix]) k'))"

definition router_Connected :: "'k netlink_ops \<Rightarrow> 'k \<Rightarrow> (router_error + prefix list) \<times> 'k" where
  "router_Connected ops =
     nl_bind (nl_RouteList ops) (\<lambda>e k. (Inl (ListRoutes e), k))
       (\<lambda>routes k. case connected_loop ops routes [] k of (out, k') \<Rightarrow> (Inr out, k'))"

section \<open>The device\<close>

definition add_address :: "'k netlink_ops \<Rightarrow> int \<Rightarrow> prefix \<Rightarrow> 'k \<Rightarrow> router_error option \<times> 'k" where
  "add_address ops index p =
     nl_bind (nl_AddrAdd ops index p (Is6 (pfx_addr p)))
       (\<lambda>e k. (if e = EEXIST then None else Some (AddAddress p e), k)) (\<lambda>_ k. (None, k))"

definition device_Configure :: "'k netlink_ops \<Rightarrow> string \<Rightarrow> prefix list \<Rightarrow> 'k \<Rightarrow> router_error option \<times> 'k" where
  "device_Configure ops name addrs =
     nl_bind (nl_LinkByName ops name) (\<lambda>e k. (Some (LinkError name e), k)) (\<lambda>index k.
       case try_each (add_address ops index) addrs k of
         (Some e, k1) \<Rightarrow> (Some e, k1)
       | (None, k1) \<Rightarrow> nl_bind (nl_LinkSetUp ops index) (\<lambda>e k. (Some (BringUp e), k)) (\<lambda>_ k. (None, k)) k1)"

definition device_Delete :: "'k netlink_ops \<Rightarrow> string \<Rightarrow> 'k \<Rightarrow> router_error option \<times> 'k" where
  "device_Delete ops name =
     nl_bind (nl_LinkByName ops name)
       (\<lambda>e k. (if e = LinkNotFound then None else Some (LinkError name e), k))
       (\<lambda>index. nl_bind (nl_LinkDel ops index) (\<lambda>e k. (Some (DeleteLink e), k)) (\<lambda>_ k. (None, k)))"

section \<open>What netlink promises\<close>

text \<open>
  \<open>routes\<close>, \<open>rules\<close> and \<open>links\<close> are the tables of a kernel. A slot of the tables is a destination in a
  table on a link; a replace fills it, whatever else the kernel stores with the route.
\<close>

definition slot :: "nl_route \<Rightarrow> nat \<times> prefix option \<times> int" where
  "slot r = (ro_Table r, ro_Dst r, ro_LinkIndex r)"

text \<open>The part of the tables a session on link \<open>i\<close> has no business with, and its own part.\<close>

definition foreign_routes :: "int \<Rightarrow> nl_route set \<Rightarrow> nl_route set" where
  "foreign_routes i R = {q \<in> R. ro_LinkIndex q \<noteq> i \<and> ro_Table q \<noteq> routeTable}"

definition foreign_rules :: "nl_rule set \<Rightarrow> nl_rule set" where
  "foreign_rules U = U - range sessionRule"

lemma foreign_eqI:
  assumes "{q \<in> R'. ro_LinkIndex q \<noteq> i} = {q \<in> R. ro_LinkIndex q \<noteq> i}"
  shows "foreign_routes i R' = foreign_routes i R"
  using assms unfolding foreign_routes_def by blast

locale netlink =
  fixes ops :: "'k netlink_ops"
    and route_family :: "nl_route \<Rightarrow> family"
    and routes :: "'k \<Rightarrow> nl_route set"
    and rules :: "'k \<Rightarrow> nl_rule set"
    and links :: "'k \<Rightarrow> string \<Rightarrow> int option"
  assumes by_name: "nl_LinkByName ops n k = (v, k') \<Longrightarrow>
      routes k' = routes k \<and> rules k' = rules k \<and> links k' = links k
      \<and> (\<forall>i. v = Inr i \<longrightarrow> links k n = Some i) \<and> (v = Inl LinkNotFound \<longrightarrow> links k n = None)"
    and by_index: "nl_LinkByIndex ops i k = (w, k') \<Longrightarrow>
      routes k' = routes k \<and> rules k' = rules k \<and> links k' = links k \<and> (\<forall>n. w = Inr n \<longrightarrow> links k n = Some i)"
    and replace: "nl_RouteReplace ops r k = (x, k') \<Longrightarrow> rules k' = rules k \<and> links k' = links k
      \<and> (isl x \<longrightarrow> routes k' = routes k)
      \<and> (\<not> isl x \<longrightarrow> (\<exists>q. slot q = slot r
             \<and> routes k' = insert q {p \<in> routes k. (ro_Table p, ro_Dst p) \<noteq> (ro_Table r, ro_Dst r)}))"
    and del: "nl_RouteDel ops r k = (x, k') \<Longrightarrow> rules k' = rules k \<and> links k' = links k
      \<and> (isl x \<longrightarrow> routes k' = routes k)
      \<and> (x = Inl ESRCH \<or> x = Inl ENOENT \<longrightarrow> (\<forall>q \<in> routes k. slot q \<noteq> slot r))
      \<and> (\<not> isl x \<longrightarrow> (\<exists>q \<in> routes k. slot q = slot r \<and> (r \<in> routes k \<longrightarrow> q = r) \<and> routes k' = routes k - {q}))"
    and list_table: "nl_RouteListFiltered ops f t k = (y, k') \<Longrightarrow>
      routes k' = routes k \<and> rules k' = rules k \<and> links k' = links k
      \<and> (\<forall>rs. y = Inr rs \<longrightarrow> set rs = {r \<in> routes k. route_family r = f \<and> ro_Table r = t})"
    and list_routes: "nl_RouteList ops k = (y, k') \<Longrightarrow>
      routes k' = routes k \<and> rules k' = rules k \<and> links k' = links k \<and> (\<forall>rs. y = Inr rs \<longrightarrow> set rs \<subseteq> routes k)"
    and list_rules: "nl_RuleList ops f k = (z, k') \<Longrightarrow>
      routes k' = routes k \<and> rules k' = rules k \<and> links k' = links k
      \<and> (\<forall>rs. z = Inr rs \<longrightarrow> set rs = {r \<in> rules k. ru_Family r = f})"
    and rule_add: "nl_RuleAdd ops u k = (x, k') \<Longrightarrow> routes k' = routes k \<and> links k' = links k
      \<and> rules k' = (if isl x then rules k else insert u (rules k)) \<and> (x = Inl EEXIST \<longrightarrow> u \<in> rules k)"
    and rule_del: "nl_RuleDel ops u k = (x, k') \<Longrightarrow> routes k' = routes k \<and> links k' = links k
      \<and> rules k' = (if isl x then rules k else rules k - {u}) \<and> (x = Inl ENOENT \<longrightarrow> u \<notin> rules k)"
    and addr_add: "nl_AddrAdd ops i p b k = (x, k') \<Longrightarrow> rules k' = rules k \<and> links k' = links k
      \<and> {q \<in> routes k'. ro_LinkIndex q \<noteq> i} = {q \<in> routes k. ro_LinkIndex q \<noteq> i}"
    and link_up: "nl_LinkSetUp ops i k = (x, k') \<Longrightarrow> rules k' = rules k \<and> links k' = links k
      \<and> {q \<in> routes k'. ro_LinkIndex q \<noteq> i} = {q \<in> routes k. ro_LinkIndex q \<noteq> i}"
    and link_del: "nl_LinkDel ops i k = (x, k') \<Longrightarrow> rules k' = rules k
      \<and> (isl x \<longrightarrow> routes k' = routes k \<and> links k' = links k)
      \<and> (\<not> isl x \<longrightarrow> routes k' = {q \<in> routes k. ro_LinkIndex q \<noteq> i}
           \<and> links k' = (\<lambda>n. if links k n = Some i then None else links k n))"
begin

text \<open>\<open>safe d i k0 k\<close>: since \<open>k0\<close> only the session's part changed, and a deleted device has no routes.\<close>

definition safe :: "string \<Rightarrow> int \<Rightarrow> 'k \<Rightarrow> 'k \<Rightarrow> bool" where
  "safe d i k0 k \<longleftrightarrow> foreign_routes i (routes k) = foreign_routes i (routes k0)
     \<and> foreign_rules (rules k) = foreign_rules (rules k0)
     \<and> (links k d = Some i \<or> links k d = None \<and> (\<forall>q \<in> routes k. ro_LinkIndex q \<noteq> i))"

definition live :: "string \<Rightarrow> int \<Rightarrow> 'k \<Rightarrow> 'k \<Rightarrow> bool" where
  "live d i k0 k \<longleftrightarrow> safe d i k0 k \<and> links k d = Some i"

lemma safe_cong: "routes k' = routes k \<Longrightarrow> rules k' = rules k \<Longrightarrow> links k' = links k \<Longrightarrow> safe d i k0 k' = safe d i k0 k"
  by (simp add: safe_def)

lemma named:
  assumes "safe d i k0 k" "nl_LinkByName ops d k = (v, k')"
  shows "safe d i k0 k'" "v = Inr j \<Longrightarrow> j = i \<and> live d i k0 k'" "v = Inl LinkNotFound \<Longrightarrow> links k' d = None"
  using assms by_name [OF assms(2)] by (auto simp: safe_cong live_def safe_def)

lemma exists_effect:
  assumes "ruleExists ops f k = (r, k')"
  shows "routes k' = routes k \<and> rules k' = rules k \<and> links k' = links k" "r = Inr False \<Longrightarrow> sessionRule f \<notin> rules k"
proof -
  obtain z k1 where z: "nl_RuleList ops f k = (z, k1)" by (cases "nl_RuleList ops f k")
  note l = list_rules [OF z]
  show "routes k' = routes k \<and> rules k' = rules k \<and> links k' = links k"
    using assms z l by (auto simp: ruleExists_def nl_bind_alt split: sum.splits)
  show "sessionRule f \<notin> rules k" if "r = Inr False"
  proof
    assume "sessionRule f \<in> rules k"
    then have "z = Inr rs \<Longrightarrow> sessionRule f \<in> set rs" for rs using l by (simp add: sessionRule_def)
    then show False using that assms z
      by (auto simp: ruleExists_def nl_bind_alt list_ex_iff sessionRule_def split: sum.splits)
  qed
qed

lemma ensure_effect:
  assumes "ensure_rule ops f k = (r, k')"
  shows "routes k' = routes k \<and> links k' = links k \<and> (rules k' = rules k \<or> rules k' = insert (sessionRule f) (rules k))"
proof -
  obtain x k1 where x: "ruleExists ops f k = (x, k1)" by (cases "ruleExists ops f k")
  obtain y k2 where y: "nl_RuleAdd ops (sessionRule f) k1 = (y, k2)" by (cases "nl_RuleAdd ops (sessionRule f) k1")
  have "k' = k1 \<or> k' = k2"
    using assms x y by (auto simp: ensure_rule_def nl_bind_alt split: sum.splits bool.splits)
  then show ?thesis using exists_effect(1) [OF x] rule_add [OF y] by (cases "isl y") auto
qed

lemma delete_effect:
  assumes "delete_rule ops f k = (r, k')"
  shows "routes k' = routes k \<and> links k' = links k \<and> (rules k' = rules k \<or> rules k' = rules k - {sessionRule f})"
    "r = None \<Longrightarrow> sessionRule f \<notin> rules k'"
proof -
  obtain x k1 where x: "ruleExists ops f k = (x, k1)" by (cases "ruleExists ops f k")
  note e = exists_effect [OF x]
  obtain y k2 where y: "nl_RuleDel ops (sessionRule f) k1 = (y, k2)" by (cases "nl_RuleDel ops (sessionRule f) k1")
  have eq: "(r, k') = (case x of Inl e \<Rightarrow> (Some e, k1) | Inr True \<Rightarrow>
      (case y of Inl e \<Rightarrow> if e = ENOENT then None else Some (DeleteRule e) | Inr _ \<Rightarrow> None, k2) | Inr False \<Rightarrow> (None, k1))"
    using assms [symmetric] x y by (simp add: delete_rule_def nl_bind_alt split: sum.split bool.split)
  note d = rule_del [OF y]
  show "routes k' = routes k \<and> links k' = links k \<and> (rules k' = rules k \<or> rules k' = rules k - {sessionRule f})"
    using eq e(1) d by (cases x; cases "x = Inr True"; cases "isl y") simp_all
  show "sessionRule f \<notin> rules k'" if "r = None"
    using that eq e d by (cases x; cases "x = Inr True"; cases y) (simp_all split: if_splits)
qed

lemma foreign_rules_session [simp]:
  "foreign_rules (insert (sessionRule f) U) = foreign_rules U" "foreign_rules (U - {sessionRule f}) = foreign_rules U"
  by (auto simp: foreign_rules_def)

lemma ensure_live: "live d i k0 k \<Longrightarrow> live d i k0 (snd (ensure_rule ops f k))"
  using ensure_effect [of f k "fst (ensure_rule ops f k)" "snd (ensure_rule ops f k)"] by (auto simp: live_def safe_def)

lemma add_live:
  assumes "live d i k0 k"
  shows "live d i k0 (snd (add_route ops i p k))"
proof -
  obtain x k' where x: "nl_RouteReplace ops (session_route i p) k = (x, k')"
    by (cases "nl_RouteReplace ops (session_route i p) k")
  have "foreign_routes i (routes k') = foreign_routes i (routes k)"
    using replace [OF x] by (cases "isl x") (auto simp: foreign_routes_def session_route_def slot_def)
  then have "live d i k0 k'" using assms replace [OF x] by (simp add: live_def safe_def)
  then show ?thesis using x by (simp add: add_route_def nl_bind_alt split: sum.split)
qed

lemma remove_safe:
  assumes "safe d i k0 k" "ro_Table r = routeTable" "nl_RouteDel ops r k = (x, k')"
  shows "safe d i k0 k'" "links k' = links k"
proof -
  note e = del [OF assms(3)]
  have "foreign_routes i (routes k') = foreign_routes i (routes k)" "routes k' \<subseteq> routes k"
    using e assms(2) by (cases "isl x"; auto simp: foreign_routes_def slot_def)+
  then show "safe d i k0 k'" "links k' = links k" using assms(1) e by (auto simp: safe_def)
qed

lemma flush_safe: "safe d i k0 k \<Longrightarrow> ro_Table r = routeTable \<Longrightarrow> safe d i k0 (snd (flush_route ops r k))"
  using remove_safe(1) [of d i k0 k r "fst (nl_RouteDel ops r k)" "snd (nl_RouteDel ops r k)"]
  by (simp add: flush_route_def nl_bind_alt split: sum.split)

lemma delete_rule_safe: "safe d i k0 k \<Longrightarrow> safe d i k0 (snd (delete_rule ops f k))"
  using delete_effect(1) [of f k "fst (delete_rule ops f k)" "snd (delete_rule ops f k)"] by (auto simp: safe_def)

lemma reset_family_safe:
  assumes "safe d i k0 k"
  shows "safe d i k0 (snd (reset_family ops f k))"
proof -
  obtain y k1 where y: "nl_RouteListFiltered ops f routeTable k = (y, k1)"
    by (cases "nl_RouteListFiltered ops f routeTable k")
  note l = list_table [OF y]
  have s1: "safe d i k0 k1" using assms l safe_cong [of k1 k] by simp
  show ?thesis
  proof (cases y)
    case (Inr rs)
    then have tab: "x \<in> set rs \<Longrightarrow> ro_Table x = routeTable" for x using l by simp
    have "safe d i k0 (snd (try_each (flush_route ops) rs k1))"
      by (rule try_each_inv [where P = "safe d i k0"]) (use flush_safe tab s1 in blast)+
    then show ?thesis using y Inr delete_rule_safe [of d i k0 "snd (try_each (flush_route ops) rs k1)" f]
      by (cases "try_each (flush_route ops) rs k1") (simp add: reset_family_def nl_bind_alt split: option.split)
  qed (use y s1 in \<open>simp add: reset_family_def nl_bind_alt\<close>)
qed

lemma flush_effect:
  assumes "try_each (flush_route ops) rs k = (None, k')" "\<And>r. r \<in> set rs \<Longrightarrow> ro_Table r = routeTable"
  shows "routes k' \<subseteq> routes k \<and> routes k' \<inter> set rs = {} \<and> rules k' = rules k"
  using assms
proof (induction rs arbitrary: k)
  case (Cons r rs)
  obtain x k1 where x: "nl_RouteDel ops r k = (x, k1)" by (cases "nl_RouteDel ops r k")
  note e = del [OF x]
  have f: "flush_route ops r k = (case x of Inl e \<Rightarrow> if gone e then None else Some (FlushTable e) | Inr _ \<Rightarrow> None, k1)"
    using x by (simp add: flush_route_def nl_bind_alt split: sum.split)
  have none: "try_each (flush_route ops) rs k1 = (None, k')" and g: "\<not> isl x \<or> x = Inl ESRCH \<or> x = Inl ENOENT"
    using Cons.prems(1) by (simp_all add: f gone_def split: sum.splits if_splits)
  note IH = Cons.IH [OF none Cons.prems(2)]
  have rules: "rules k1 = rules k" using e by simp
  have sub: "routes k1 \<subseteq> routes k \<and> r \<notin> routes k1"
  proof (cases "isl x")
    case True
    then have "routes k1 = routes k" "x = Inl ESRCH \<or> x = Inl ENOENT" using e g by simp_all
    moreover have "x = Inl ESRCH \<or> x = Inl ENOENT \<longrightarrow> (\<forall>q \<in> routes k. slot q \<noteq> slot r)" using e by (elim conjE)
    ultimately have "\<forall>q \<in> routes k. slot q \<noteq> slot r" "routes k1 = routes k" by iprover+
    then show ?thesis by blast
  next
    case False
    then obtain q where "r \<in> routes k \<longrightarrow> q = r" "routes k1 = routes k - {q}" using e by blast
    then show ?thesis by blast
  qed
  then show ?case using IH rules by auto
qed simp

lemma reset_family_effect:
  assumes "reset_family ops f k = (None, k')"
  shows "routes k' \<subseteq> routes k" "rules k' \<subseteq> rules k" "sessionRule f \<notin> rules k'"
    "r \<in> routes k' \<Longrightarrow> route_family r = f \<Longrightarrow> ro_Table r \<noteq> routeTable"
proof -
  obtain y k1 where y: "nl_RouteListFiltered ops f routeTable k = (y, k1)"
    by (cases "nl_RouteListFiltered ops f routeTable k")
  note l = list_table [OF y]
  obtain rs k2 where rs: "y = Inr rs" "try_each (flush_route ops) rs k1 = (None, k2)" "delete_rule ops f k2 = (None, k')"
    using assms y by (auto simp: reset_family_def nl_bind_alt split: sum.splits prod.splits option.splits)
  note e = flush_effect [OF rs(2)] and d = delete_effect [OF rs(3)]
  have set: "set rs = {r \<in> routes k. route_family r = f \<and> ro_Table r = routeTable}" using l rs(1) by simp
  then have e': "routes k2 \<subseteq> routes k1 \<and> routes k2 \<inter> set rs = {} \<and> rules k2 = rules k1" using e by simp
  show "routes k' \<subseteq> routes k" "rules k' \<subseteq> rules k" "sessionRule f \<notin> rules k'" using e' d l by auto
  show "ro_Table r \<noteq> routeTable" if "r \<in> routes k'" "route_family r = f" using that e' d(1) l set by auto
qed

lemma reset_clean:
  assumes "router_Reset ops k = (None, k')"
  shows "\<forall>q \<in> routes k'. ro_Table q \<noteq> routeTable" "rules k' \<inter> range sessionRule = {}"
    "routes k' \<subseteq> routes k" "rules k' \<subseteq> rules k"
proof -
  obtain k1 where r: "reset_family ops FAMILY_V4 k = (None, k1)" "reset_family ops FAMILY_V6 k1 = (None, k')"
    using assms by (auto simp: router_Reset_def ruleFamilies_def split: prod.splits option.splits)
  note e4 = reset_family_effect [OF r(1)] and e6 = reset_family_effect [OF r(2)]
  show "routes k' \<subseteq> routes k" "rules k' \<subseteq> rules k" using e4(1,2) e6(1,2) by auto
  show "\<forall>q \<in> routes k'. ro_Table q \<noteq> routeTable"
  proof
    fix q assume q: "q \<in> routes k'"
    show "ro_Table q \<noteq> routeTable" using e4(4) [of q] e6(4) [OF q] e6(1) q by (cases "route_family q") auto
  qed
  have "sessionRule f \<notin> rules k'" for f using e4(3) e6(2,3) by (cases f) auto
  then show "rules k' \<inter> range sessionRule = {}" by auto
qed

lemma reset_safe: "safe d i k0 k \<Longrightarrow> safe d i k0 (snd (router_Reset ops k))"
  unfolding router_Reset_def by (rule try_each_inv [where P = "safe d i k0"]) (rule reset_family_safe)

lemma flush_links: "links (snd (flush_route ops r k)) = links k"
  using del [of r k "fst (nl_RouteDel ops r k)" "snd (nl_RouteDel ops r k)"]
  by (simp add: flush_route_def nl_bind_alt split: sum.split)

lemma reset_family_links: "links (snd (reset_family ops f k)) = links k"
proof -
  obtain y k1 where y: "nl_RouteListFiltered ops f routeTable k = (y, k1)"
    by (cases "nl_RouteListFiltered ops f routeTable k")
  have l1: "links k1 = links k" using list_table [OF y] by simp
  have "links (snd (try_each (flush_route ops) rs k1)) = links k" for rs
    by (rule try_each_inv [where P = "\<lambda>k'. links k' = links k"]) (simp_all add: flush_links l1)
  moreover have "links (snd (delete_rule ops f k2)) = links k2" for k2
    using delete_effect(1) [of f k2 "fst (delete_rule ops f k2)" "snd (delete_rule ops f k2)"] by simp
  ultimately show ?thesis using y l1
    by (simp add: reset_family_def nl_bind_alt split: sum.split prod.split option.split) (metis snd_conv)
qed

lemma reset_links: "router_Reset ops k = (r, k') \<Longrightarrow> links k' = links k"
  using try_each_inv [where P = "\<lambda>k'. links k' = links k" and f = "reset_family ops" and xs = ruleFamilies and k = k]
  by (simp add: router_Reset_def reset_family_links)

lemma live_safe: "live d i k0 k \<Longrightarrow> safe d i k0 k"
  by (simp add: live_def)

text \<open>An operation that first looks the device up and then works on its link.\<close>

lemma on_link_safe:
  assumes "safe d i k0 k" "\<And>e k. safe d i k0 k \<Longrightarrow> safe d i k0 (snd (bad e k))"
    and "\<And>k. live d i k0 k \<Longrightarrow> safe d i k0 (snd (ok i k))"
  shows "safe d i k0 (snd (nl_bind (nl_LinkByName ops d) bad ok k))"
proof -
  obtain v k' where v: "nl_LinkByName ops d k = (v, k')" by (cases "nl_LinkByName ops d k")
  show ?thesis
  proof (cases v)
    case (Inl e)
    then show ?thesis using v named(1) [OF assms(1) v] assms(2) by (simp add: nl_bind_alt)
  next
    case (Inr j)
    then have "j = i" "live d i k0 k'" using named(2) [OF assms(1) v] by auto
    then show ?thesis using v Inr assms(3) by (simp add: nl_bind_alt)
  qed
qed

lemma ensureRules_live: "live d i k0 k \<Longrightarrow> live d i k0 (snd (ensureRules ops k))"
  unfolding ensureRules_def by (rule try_each_inv [where P = "live d i k0"]) (rule ensure_live)

lemma add_safe: "safe d i k0 k \<Longrightarrow> safe d i k0 (snd (router_Add ops d ps k))"
  unfolding router_Add_def
proof (rule on_link_safe)
  fix k assume "live d i k0 k"
  then have e: "live d i k0 (snd (ensureRules ops k))" by (rule ensureRules_live)
  then have "live d i k0 (snd (try_each (add_route ops i) ps (snd (ensureRules ops k))))"
    by (rule try_each_inv [where P = "live d i k0", rotated]) (rule add_live)
  then show "safe d i k0 (snd (case ensureRules ops k of
      (None, k1) \<Rightarrow> try_each (add_route ops i) ps k1 | (Some e, k1) \<Rightarrow> (Some e, k1)))"
    using e by (cases "ensureRules ops k") (auto simp: live_safe split: option.split)
qed simp_all

lemma remove_live: "live d i k0 k \<Longrightarrow> live d i k0 (snd (remove_route ops i p k))"
  using remove_safe [of d i k0 k "session_route i p" "fst (nl_RouteDel ops (session_route i p) k)"
      "snd (nl_RouteDel ops (session_route i p) k)"]
  by (simp add: live_def remove_route_def nl_bind_alt session_route_def split: sum.split)

lemma remove_all_safe: "safe d i k0 k \<Longrightarrow> safe d i k0 (snd (router_Remove ops d ps k))"
  unfolding router_Remove_def
proof (rule on_link_safe)
  fix k assume "live d i k0 k"
  then have "live d i k0 (snd (try_each (remove_route ops i) ps k))"
    by (rule try_each_inv [where P = "live d i k0", rotated]) (rule remove_live)
  then show "safe d i k0 (snd (try_each (remove_route ops i) ps k))" by (rule live_safe)
qed simp_all

lemma own_link_live:
  assumes "live d i k0 k" "rules k' = rules k" "links k' = links k"
    and "{q \<in> routes k'. ro_LinkIndex q \<noteq> i} = {q \<in> routes k. ro_LinkIndex q \<noteq> i}"
  shows "live d i k0 k'"
  using assms foreign_eqI [OF assms(4)] by (simp add: live_def safe_def)

lemma address_live: "live d i k0 k \<Longrightarrow> live d i k0 (snd (add_address ops i p k))"
  using own_link_live [of d i k0 k "snd (nl_AddrAdd ops i p (Is6 (pfx_addr p)) k)"]
    addr_add [of i p "Is6 (pfx_addr p)" k "fst (nl_AddrAdd ops i p (Is6 (pfx_addr p)) k)" "snd (nl_AddrAdd ops i p (Is6 (pfx_addr p)) k)"]
  by (simp add: add_address_def nl_bind_alt split: sum.split)

lemma configure_safe: "safe d i k0 k \<Longrightarrow> safe d i k0 (snd (device_Configure ops d addrs k))"
  unfolding device_Configure_def
proof (rule on_link_safe)
  fix k assume "live d i k0 k"
  then have a: "live d i k0 (snd (try_each (add_address ops i) addrs k))"
    by (rule try_each_inv [where P = "live d i k0", rotated]) (rule address_live)
  have up: "live d i k0 (snd (nl_LinkSetUp ops i k1))" if "live d i k0 k1" for k1
    using own_link_live [OF that, of "snd (nl_LinkSetUp ops i k1)"]
      link_up [of i k1 "fst (nl_LinkSetUp ops i k1)" "snd (nl_LinkSetUp ops i k1)"] by simp
  show "safe d i k0 (snd (case try_each (add_address ops i) addrs k of
      (None, k1) \<Rightarrow> nl_bind (nl_LinkSetUp ops i) (\<lambda>e k. (Some (BringUp e), k)) (\<lambda>_ k. (None, k)) k1
    | (Some e, k1) \<Rightarrow> (Some e, k1)))"
    using a up by (cases "try_each (add_address ops i) addrs k")
      (auto simp: live_safe nl_bind_alt split: option.split sum.split)
qed simp_all

lemma delete_step:
  assumes "live d i k0 k"
  shows "safe d i k0 (snd (nl_LinkDel ops i k))" "\<not> isl (fst (nl_LinkDel ops i k)) \<Longrightarrow> links (snd (nl_LinkDel ops i k)) d = None"
  using assms link_del [of i k "fst (nl_LinkDel ops i k)" "snd (nl_LinkDel ops i k)"]
  by (cases "isl (fst (nl_LinkDel ops i k))"; auto simp: live_def safe_def foreign_routes_def)+

lemma delete_safe: "safe d i k0 k \<Longrightarrow> safe d i k0 (snd (device_Delete ops d k))"
  unfolding device_Delete_def by (rule on_link_safe) (use delete_step(1) in \<open>simp_all add: nl_bind_alt split: sum.split\<close>)

lemma delete_gone:
  assumes "safe d i k0 k" "device_Delete ops d k = (None, k')"
  shows "links k' d = None"
proof -
  obtain v k1 where v: "nl_LinkByName ops d k = (v, k1)" by (cases "nl_LinkByName ops d k")
  show ?thesis
  proof (cases v)
    case (Inl e)
    then show ?thesis using v named(3) [OF assms(1) v] assms(2)
      by (simp add: device_Delete_def nl_bind_alt split: if_splits)
  next
    case (Inr j)
    then have j: "j = i" "live d i k0 k1" using named(2) [OF assms(1) v] by auto
    have "k' = snd (nl_LinkDel ops i k1) \<and> \<not> isl (fst (nl_LinkDel ops i k1))"
      using assms(2) v Inr j(1) by (auto simp: device_Delete_def nl_bind_alt split: sum.splits)
    then show ?thesis using delete_step(2) [OF j(2)] by simp
  qed
qed

definition ruled :: "'k \<Rightarrow> family \<Rightarrow> bool" where
  "ruled k f \<longleftrightarrow> (\<exists>u \<in> rules k. ru_Priority u = rulePriority \<and> ru_Table u = routeTable \<and> ru_Family u = f)"

lemma exists_ruled:
  assumes "ruleExists ops f k = (Inr True, k')"
  shows "ruled k f"
proof -
  obtain z k1 where z: "nl_RuleList ops f k = (z, k1)" by (cases "nl_RuleList ops f k")
  obtain rs where rs: "z = Inr rs" "list_ex (\<lambda>r. ru_Priority r = rulePriority \<and> ru_Table r = routeTable) rs"
    using assms z by (auto simp: ruleExists_def nl_bind_alt split: sum.splits)
  have "set rs = {r \<in> rules k. ru_Family r = f}" using list_rules [OF z] rs(1) by simp
  then show ?thesis using rs(2) by (auto simp: ruled_def list_ex_iff)
qed

lemma ensure_ruled:
  assumes "ensure_rule ops f k = (None, k')"
  shows "ruled k' f" "ruled k g \<Longrightarrow> ruled k' g"
proof -
  show "ruled k g \<Longrightarrow> ruled k' g" using ensure_effect [OF assms] by (auto simp: ruled_def)
  obtain x k1 where x: "ruleExists ops f k = (x, k1)" by (cases "ruleExists ops f k")
  obtain y k2 where y: "nl_RuleAdd ops (sessionRule f) k1 = (y, k2)" by (cases "nl_RuleAdd ops (sessionRule f) k1")
  have s: "sessionRule f \<in> rules k' \<Longrightarrow> ruled k' f" by (force simp: ruled_def sessionRule_def)
  show "ruled k' f"
  proof (cases "x = Inr True")
    case True
    then have "ruled k f" "k' = k1" using exists_ruled x assms by (auto simp: ensure_rule_def)
    then show ?thesis using exists_effect(1) [OF x] by (simp add: ruled_def)
  next
    case False
    then have "k' = k2 \<and> (\<not> isl y \<or> y = Inl EEXIST)"
      using assms x y by (auto simp: ensure_rule_def nl_bind_alt split: sum.splits bool.splits if_splits)
    then show ?thesis using rule_add [OF y] s by auto
  qed
qed

lemma ensureRules_ruled:
  assumes "ensureRules ops k = (None, k')"
  shows "ruled k' f"
proof -
  obtain k1 where r: "ensure_rule ops FAMILY_V4 k = (None, k1)" "ensure_rule ops FAMILY_V6 k1 = (None, k')"
    using assms by (auto simp: ensureRules_def ruleFamilies_def split: prod.splits option.splits)
  show ?thesis using ensure_ruled [OF r(2)] ensure_ruled(1) [OF r(1)] by (cases f) auto
qed

definition routed :: "'k \<Rightarrow> int \<Rightarrow> prefix \<Rightarrow> bool" where
  "routed k i p \<longleftrightarrow> (\<exists>q \<in> routes k. slot q = (routeTable, Some p, i))"

lemma add_route_effect:
  assumes "add_route ops i p k = (None, k')"
  shows "rules k' = rules k" "routed k' i p" "routed k i p' \<Longrightarrow> routed k' i p'"
proof -
  obtain x where x: "nl_RouteReplace ops (session_route i p) k = (x, k')" "\<not> isl x"
    using assms by (cases "nl_RouteReplace ops (session_route i p) k") (auto simp: add_route_def nl_bind_alt split: sum.splits)
  then obtain q where q: "slot q = slot (session_route i p)" "rules k' = rules k"
      "routes k' = insert q {p' \<in> routes k. (ro_Table p', ro_Dst p') \<noteq> (routeTable, Some p)}"
    using replace [OF x(1)] by (auto simp: session_route_def)
  then show "rules k' = rules k" "routed k' i p" by (auto simp: routed_def slot_def session_route_def)
  then show "routed k i p' \<Longrightarrow> routed k' i p'" using q by (cases "p' = p") (auto simp: routed_def slot_def)
qed

lemma add_routes_effect:
  assumes "try_each (add_route ops i) ps k = (None, k')"
  shows "rules k' = rules k \<and> (\<forall>p. p \<in> set ps \<or> routed k i p \<longrightarrow> routed k' i p)"
  using assms
proof (induction ps arbitrary: k)
  case (Cons p ps)
  then obtain k1 where k1: "add_route ops i p k = (None, k1)" "try_each (add_route ops i) ps k1 = (None, k')"
    by (auto split: prod.splits option.splits)
  show ?case using Cons.IH [OF k1(2)] add_route_effect [OF k1(1)] by auto
qed simp

lemma add_installs:
  assumes "links k d = Some i" "router_Add ops d ps k = (None, k')"
  shows "(\<forall>p \<in> set ps. routed k' i p) \<and> (\<forall>f. ruled k' f)"
proof -
  obtain v k1 where v: "nl_LinkByName ops d k = (v, k1)" by (cases "nl_LinkByName ops d k")
  have "v = Inr j \<Longrightarrow> j = i" for j using by_name [OF v] assms(1) by simp
  then obtain k2 where k2: "ensureRules ops k1 = (None, k2)" "try_each (add_route ops i) ps k2 = (None, k')"
    using assms(2) v by (auto simp: router_Add_def nl_bind_alt split: sum.splits prod.splits option.splits)
  note e = add_routes_effect [OF k2(2)]
  have "ruled k' f" for f using ensureRules_ruled [OF k2(1), of f] e by (simp add: ruled_def)
  then show ?thesis using e by blast
qed

end

section \<open>Sessions on a link\<close>

datatype router_op =
    ConfigureDevice "prefix list"
  | AddRoutes "prefix list"
  | RemoveRoutes "prefix list"
  | ResetRoutes
  | DeleteDevice

definition router_do :: "'k netlink_ops \<Rightarrow> string \<Rightarrow> router_op \<Rightarrow> 'k \<Rightarrow> router_error option \<times> 'k" where
  "router_do ops d op = (case op of
     ConfigureDevice addrs \<Rightarrow> device_Configure ops d addrs
   | AddRoutes ps \<Rightarrow> router_Add ops d ps
   | RemoveRoutes ps \<Rightarrow> router_Remove ops d ps
   | ResetRoutes \<Rightarrow> router_Reset ops
   | DeleteDevice \<Rightarrow> device_Delete ops d)"

definition router_runs :: "'k netlink_ops \<Rightarrow> string \<Rightarrow> router_op list \<Rightarrow> 'k \<Rightarrow> 'k" where
  "router_runs ops d opl k = fold (\<lambda>op k. snd (router_do ops d op k)) opl k"

context netlink
begin

lemma run_safe: "safe d i k0 k \<Longrightarrow> safe d i k0 (router_runs ops d opl k)"
proof (induction opl arbitrary: k)
  case (Cons op opl)
  have "safe d i k0 (snd (router_do ops d op k))" using Cons.prems
    by (cases op) (simp_all add: router_do_def configure_safe add_safe remove_all_safe reset_safe delete_safe)
  then show ?case using Cons.IH by (simp add: router_runs_def)
qed (simp add: router_runs_def)

lemma undone:
  assumes "links k0 d = Some i" "device_Delete ops d (router_runs ops d opl k0) = (None, k2)" "router_Reset ops k2 = (None, k3)"
  shows "routes k3 = foreign_routes i (routes k0)" "rules k3 = foreign_rules (rules k0)" "links k3 d = None"
proof -
  have s: "safe d i k0 (router_runs ops d opl k0)" by (rule run_safe) (simp add: safe_def assms(1))
  have s2: "safe d i k0 k2" using delete_safe [OF s] assms(2) by simp
  have s3: "safe d i k0 k3" using reset_safe [OF s2] assms(3) by simp
  note c = reset_clean [OF assms(3)]
  have "links k2 d = None" using delete_gone [OF s assms(2)] .
  then have n2: "\<forall>q \<in> routes k2. ro_LinkIndex q \<noteq> i" using s2 by (simp add: safe_def)
  then have "routes k3 = foreign_routes i (routes k3)" using c(1,3) by (auto simp: foreign_routes_def)
  then show "routes k3 = foreign_routes i (routes k0)" using s3 by (simp add: safe_def)
  have "rules k3 = foreign_rules (rules k3)" using c(2) by (auto simp: foreign_rules_def)
  then show "rules k3 = foreign_rules (rules k0)" using s3 by (simp add: safe_def)
  show "links k3 d = None"
    using reset_links [OF assms(3)] \<open>links k2 d = None\<close> by simp
qed

end

section \<open>A kernel in memory\<close>

text \<open>
  Tables as lists, with the calls that are going to fail: the laws of \<open>netlink\<close> are consistent with
  each other and with failures at any point.
\<close>

record mem_kernel =
  mk_routes :: "nl_route list"
  mk_rules :: "nl_rule list"
  mk_links :: "(string \<times> int) list"
  mk_fail :: "bool list"

definition mem_call :: "(mem_kernel \<Rightarrow> (nl_error + 'a) \<times> mem_kernel) \<Rightarrow> (mem_kernel, 'a) nl" where
  "mem_call f k = (let k' = k\<lparr>mk_fail := tl (mk_fail k)\<rparr> in
     if mk_fail k \<noteq> [] \<and> hd (mk_fail k) then (Inl NlFailed, k') else f k')"

definition mem_family :: "nl_route \<Rightarrow> family" where
  "mem_family r = (case ro_Dst r of Some p \<Rightarrow> if Is4 (pfx_addr p) then FAMILY_V4 else FAMILY_V6 | None \<Rightarrow> FAMILY_V4)"

definition mem_ops :: "mem_kernel netlink_ops" where
  "mem_ops = \<lparr>
     nl_LinkByName = (\<lambda>n. mem_call (\<lambda>k. (case map_of (mk_links k) n of None \<Rightarrow> Inl LinkNotFound | Some i \<Rightarrow> Inr i, k))),
     nl_LinkByIndex = (\<lambda>i. mem_call (\<lambda>k. (case find (\<lambda>(n, j). map_of (mk_links k) n = Some i) (mk_links k) of
         None \<Rightarrow> Inl LinkNotFound | Some (n, j) \<Rightarrow> Inr n, k))),
     nl_RouteReplace = (\<lambda>r. mem_call (\<lambda>k. (Inr (), k\<lparr>mk_routes :=
         r # filter (\<lambda>p. (ro_Table p, ro_Dst p) \<noteq> (ro_Table r, ro_Dst r)) (mk_routes k)\<rparr>))),
     nl_RouteDel = (\<lambda>r. mem_call (\<lambda>k. if r \<in> set (mk_routes k) then (Inr (), k\<lparr>mk_routes := removeAll r (mk_routes k)\<rparr>)
         else (case find (\<lambda>q. slot q = slot r) (mk_routes k) of
                 None \<Rightarrow> (Inl ESRCH, k) | Some q \<Rightarrow> (Inr (), k\<lparr>mk_routes := removeAll q (mk_routes k)\<rparr>)))),
     nl_RouteListFiltered = (\<lambda>f t. mem_call (\<lambda>k. (Inr (filter (\<lambda>r. mem_family r = f \<and> ro_Table r = t) (mk_routes k)), k))),
     nl_RouteList = mem_call (\<lambda>k. (Inr (mk_routes k), k)),
     nl_RuleList = (\<lambda>f. mem_call (\<lambda>k. (Inr (filter (\<lambda>u. ru_Family u = f) (mk_rules k)), k))),
     nl_RuleAdd = (\<lambda>u. mem_call (\<lambda>k. if u \<in> set (mk_rules k) then (Inl EEXIST, k) else (Inr (), k\<lparr>mk_rules := u # mk_rules k\<rparr>))),
     nl_RuleDel = (\<lambda>u. mem_call (\<lambda>k. if u \<in> set (mk_rules k) then (Inr (), k\<lparr>mk_rules := removeAll u (mk_rules k)\<rparr>) else (Inl ENOENT, k))),
     nl_AddrAdd = (\<lambda>i p b. mem_call (\<lambda>k. (Inr (), k\<lparr>mk_routes :=
         \<lparr>ro_LinkIndex = i, ro_Dst = Some p, ro_Gw = None, ro_Scope = RT_SCOPE_LINK, ro_Table = 254\<rparr> # mk_routes k\<rparr>))),
     nl_LinkSetUp = (\<lambda>i. mem_call (\<lambda>k. (Inr (), k))),
     nl_LinkDel = (\<lambda>i. mem_call (\<lambda>k. (Inr (), k\<lparr>mk_routes := filter (\<lambda>q. ro_LinkIndex q \<noteq> i) (mk_routes k),
         mk_links := filter (\<lambda>(n, j). map_of (mk_links k) n \<noteq> Some i) (mk_links k)\<rparr>)))\<rparr>"

lemma map_of_filter_key: "map_of (filter (\<lambda>(n, j). P n) xs) n = (if P n then map_of xs n else None)"
  by (induction xs) auto

lemma find_named: "find (\<lambda>(n, j). P n) xs = Some (n, j) \<Longrightarrow> P n"
  by (auto simp: find_Some_iff)

interpretation mem: netlink mem_ops mem_family "\<lambda>k. set (mk_routes k)" "\<lambda>k. set (mk_rules k)" "\<lambda>k. map_of (mk_links k)"
proof (unfold_locales, goal_cases)
  case (1 n k v k')
  then show ?case by (auto simp: mem_ops_def mem_call_def Let_def split: if_splits option.splits)
next
  case (2 i k w k')
  then show ?case
    by (auto simp: mem_ops_def mem_call_def Let_def dest!: find_named split: if_splits option.splits)
next
  case (3 r k x k')
  then show ?case by (force simp: mem_ops_def mem_call_def Let_def split: if_splits)
next
  case (4 r k x k')
  then show ?case
    by (auto simp: mem_ops_def mem_call_def Let_def find_None_iff find_Some_iff split: if_splits option.splits)
next
  case (12 i k x k')
  then show ?case by (auto simp: mem_ops_def mem_call_def Let_def map_of_filter_key split: if_splits)
qed (auto simp: mem_ops_def mem_call_def Let_def split: if_splits)

section \<open>What a session does to the tables\<close>

text \<open>
  C5: a session leaves no trace in the routing tables. Take a device of index \<open>i\<close>, any sequence of
  the router's and the device's operations on it, with any calls of netlink failing. All along,
  every route that is neither in table 117 nor through the device, and every rule but the two of the
  session, stays as it is; so the main table never gets a session route. Once the device is
  deleted and \<open>Reset\<close> returns no error, the tables hold exactly those, whatever the session added.
\<close>

theorem session_routes_undone:
  assumes "netlink ops fam routes rules links" "links k0 d = Some i"
    and "device_Delete ops d (router_runs ops d opl k0) = (None, k2)" "router_Reset ops k2 = (None, k3)"
  shows "foreign_routes i (routes (router_runs ops d opl k0)) = foreign_routes i (routes k0)
    \<and> foreign_rules (rules (router_runs ops d opl k0)) = foreign_rules (rules k0)
    \<and> routes k3 = foreign_routes i (routes k0) \<and> rules k3 = foreign_rules (rules k0) \<and> links k3 d = None"
proof -
  have "netlink.safe routes rules links d i k0 (router_runs ops d opl k0)"
    by (rule netlink.run_safe [OF assms(1)]) (simp add: netlink.safe_def [OF assms(1)] assms(2))
  then show ?thesis using netlink.undone [OF assms] by (simp add: netlink.safe_def [OF assms(1)])
qed

definition lan_route :: nl_route where
  "lan_route = \<lparr>ro_LinkIndex = 2, ro_Dst = Some \<lparr>pfx_addr = V4 1, pfx_bits = 32\<rparr>, ro_Gw = None,
     ro_Scope = RT_SCOPE_LINK, ro_Table = 254\<rparr>"

definition lan_host :: mem_kernel where
  "lan_host = \<lparr>mk_routes = [lan_route], mk_rules = [], mk_links = [(''eth0'', 2), (''tj0'', 7)],
     mk_fail = replicate 6 False @ [True]\<rparr>"

definition lan_ops :: "router_op list" where
  "lan_ops = [AddRoutes [\<lparr>pfx_addr = V4 3, pfx_bits = 32\<rparr>, \<lparr>pfx_addr = V4 4, pfx_bits = 32\<rparr>]]"

lemmas route_defs = router_do_def router_Add_def ensureRules_def ruleFamilies_def ensure_rule_def ruleExists_def add_route_def
  device_Delete_def router_Reset_def reset_family_def flush_route_def delete_rule_def nl_bind_def
  session_route_def sessionRule_def tj_device_def mem_ops_def mem_call_def mem_family_def slot_def

definition lan_session :: mem_kernel where
  "lan_session = \<lparr>mk_routes = [session_route 7 \<lparr>pfx_addr = V4 3, pfx_bits = 32\<rparr>, lan_route],
     mk_rules = [sessionRule FAMILY_V6, sessionRule FAMILY_V4], mk_links = [(''eth0'', 2), (''tj0'', 7)], mk_fail = []\<rparr>"

lemma lan_run: "router_runs mem_ops tj_device lan_ops lan_host = lan_session"
  by (simp add: router_runs_def lan_ops_def lan_host_def lan_session_def lan_route_def routeTable_def eval_nat_numeral route_defs)

lemma lan_end:
  "device_Delete mem_ops tj_device lan_session = (None, lan_session\<lparr>mk_routes := [lan_route], mk_links := [(''eth0'', 2)]\<rparr>)"
  "router_Reset mem_ops (lan_session\<lparr>mk_routes := [lan_route], mk_links := [(''eth0'', 2)]\<rparr>)
    = (None, lan_session\<lparr>mk_routes := [lan_route], mk_links := [(''eth0'', 2)], mk_rules := []\<rparr>)"
  by (simp_all add: lan_session_def lan_route_def routeTable_def route_defs)

theorem session_routes_undone_witness:
  "router_runs mem_ops tj_device lan_ops lan_host = lan_session
   \<and> (\<exists>k2 k3. device_Delete mem_ops tj_device lan_session = (None, k2)
       \<and> router_Reset mem_ops k2 = (None, k3) \<and> set (mk_routes k3) = {lan_route} \<and> set (mk_rules k3) = {})"
proof -
  have l: "map_of (mk_links lan_host) tj_device = Some 7" by (simp add: lan_host_def tj_device_def)
  have "foreign_routes 7 (set (mk_routes lan_host)) = {lan_route}" "foreign_rules (set (mk_rules lan_host)) = {}"
    by (auto simp: foreign_routes_def foreign_rules_def lan_host_def lan_route_def routeTable_def)
  then show ?thesis
    using session_routes_undone [OF mem.netlink_axioms l lan_end(1) [folded lan_run] lan_end(2) [folded lan_run]]
      lan_end lan_run by simp
qed

text \<open>
  C24: \<open>Add\<close> installs what it says. When it returns no error, every prefix has a route through the
  device in table 117 and both families have the rule that leads to it; the rest of the tables
  is as before, so that adding the same prefixes again changes nothing outside.
\<close>

theorem routes_installed:
  assumes "netlink ops fam routes rules links" "links k d = Some i" "router_Add ops d ps k = (None, k')"
  shows "(\<forall>p \<in> set ps. \<exists>q \<in> routes k'. slot q = (routeTable, Some p, i))
    \<and> (\<forall>f. \<exists>u \<in> rules k'. ru_Priority u = rulePriority \<and> ru_Table u = routeTable \<and> ru_Family u = f)
    \<and> foreign_routes i (routes k') = foreign_routes i (routes k) \<and> foreign_rules (rules k') = foreign_rules (rules k)"
proof -
  have "netlink.safe routes rules links d i k k'"
    using netlink.add_safe [OF assms(1), of d i k k ps] assms(2,3) by (simp add: netlink.safe_def [OF assms(1)])
  then show ?thesis using netlink.add_installs [OF assms]
    by (simp add: netlink.safe_def [OF assms(1)] netlink.routed_def [OF assms(1)] netlink.ruled_def [OF assms(1)])
qed

theorem routes_installed_witness:
  "\<exists>k'. router_Add mem_ops tj_device [\<lparr>pfx_addr = V4 3, pfx_bits = 32\<rparr>] lan_host = (None, k')
     \<and> (\<exists>q \<in> set (mk_routes k'). slot q = (routeTable, Some \<lparr>pfx_addr = V4 3, pfx_bits = 32\<rparr>, 7))"
proof -
  let ?a = "router_Add mem_ops tj_device [\<lparr>pfx_addr = V4 3, pfx_bits = 32\<rparr>] lan_host"
  have l: "map_of (mk_links lan_host) tj_device = Some 7" by (simp add: lan_host_def tj_device_def)
  have "fst ?a = None" by (simp add: lan_host_def lan_route_def routeTable_def eval_nat_numeral route_defs)
  then have a: "?a = (None, snd ?a)" by (metis prod.collapse)
  show ?thesis using routes_installed [OF mem.netlink_axioms l a] a by auto
qed

section \<open>The subnets of the client\<close>

text \<open>A route whose destination is a subnet the client is on, by a link that is neither the loopback nor the device.\<close>

definition on_link :: "(string \<Rightarrow> int option) \<Rightarrow> nl_route \<Rightarrow> prefix \<Rightarrow> bool" where
  "on_link links r p \<longleftrightarrow> (\<exists>dst n. ro_Dst r = Some dst \<and> ro_Gw r = None \<and> ro_Scope r = RT_SCOPE_LINK
     \<and> p = PrefixFrom (Unmap (pfx_addr dst)) (pfx_bits dst)
     \<and> links n = Some (ro_LinkIndex r) \<and> n \<noteq> ''lo'' \<and> n \<noteq> tj_device)"

context netlink
begin

lemma connected_loop_sound:
  assumes "connected_loop ops rs out k = (res, k')" "distinct (map Prefix_String out)"
  shows "(\<forall>p \<in> set res. p \<in> set out \<or> (\<exists>r \<in> set rs. on_link (links k) r p)) \<and> distinct (map Prefix_String res)"
  using assms
proof (induction rs arbitrary: out k)
  case (Cons r rs)
  obtain w k1 where w: "nl_LinkByIndex ops (ro_LinkIndex r) k = (w, k1)" by (cases "nl_LinkByIndex ops (ro_LinkIndex r) k")
  note l = by_index [OF w]
  have step: "\<exists>out' k2. connected_loop ops (r # rs) out k = connected_loop ops rs out' k2 \<and> links k2 = links k
      \<and> distinct (map Prefix_String out') \<and> (\<forall>p \<in> set out'. p \<in> set out \<or> on_link (links k) r p)"
  proof (cases "\<exists>dst name. ro_Dst r = Some dst \<and> ro_Gw r = None \<and> ro_Scope r = RT_SCOPE_LINK \<and> w = Inr name
      \<and> name \<noteq> ''lo'' \<and> name \<noteq> tj_device
      \<and> Prefix_String (PrefixFrom (Unmap (pfx_addr dst)) (pfx_bits dst)) \<notin> Prefix_String ` set out")
    case True
    then obtain dst name where t: "ro_Dst r = Some dst" "ro_Gw r = None" "ro_Scope r = RT_SCOPE_LINK" "w = Inr name"
      "name \<noteq> ''lo''" "name \<noteq> tj_device"
      "Prefix_String (PrefixFrom (Unmap (pfx_addr dst)) (pfx_bits dst)) \<notin> Prefix_String ` set out" by blast
    let ?p = "PrefixFrom (Unmap (pfx_addr dst)) (pfx_bits dst)"
    have "on_link (links k) r ?p" using t l by (auto simp: on_link_def)
    then show ?thesis using t w l Cons.prems(2) by (intro exI [of _ "out @ [?p]"] exI [of _ k1]) (simp add: Let_def)
  next
    case False
    then have "connected_loop ops (r # rs) out k = connected_loop ops rs out k
        \<or> connected_loop ops (r # rs) out k = connected_loop ops rs out k1"
      using w by (auto simp: Let_def split: option.split sum.split)
    then show ?thesis using l Cons.prems(2) by auto
  qed
  then obtain out' k2 where o: "connected_loop ops rs out' k2 = (res, k')" "links k2 = links k"
      "distinct (map Prefix_String out')" "\<forall>p \<in> set out'. p \<in> set out \<or> on_link (links k) r p"
    using Cons.prems(1) by auto
  show ?case using Cons.IH [OF o(1,3)] o(2,4) by auto
qed simp

lemma connected_sound:
  assumes "router_Connected ops k = (Inr res, k')"
  shows "(\<forall>p \<in> set res. \<exists>r \<in> routes k. on_link (links k) r p) \<and> distinct (map Prefix_String res)"
proof -
  obtain y k1 where y: "nl_RouteList ops k = (y, k1)" by (cases "nl_RouteList ops k")
  note l = list_routes [OF y]
  obtain rs where rs: "y = Inr rs" "connected_loop ops rs [] k1 = (res, k')"
    using assms y by (auto simp: router_Connected_def nl_bind_alt split: sum.splits prod.splits)
  then show ?thesis using connected_loop_sound [OF rs(2)] l by fastforce
qed

end

end
