(* ===== verification/Darwin_Dns.thy ===== *)
theory Darwin_Dns
  imports Netip_Text
begin

text \<open>
  The macOS resolver of \<open>internal/platform/darwin/resolver.go\<close>: split DNS through files under
  \<open>/etc/resolver\<close>, and all DNS through the settings of the active network service, with the records
  under \<open>/var/run/tj\<close> that \<open>Revert\<close> restores from. The file system and the commands \<open>networksetup\<close> and \<open>route\<close> are
  the parameter \<open>mac_ops\<close>; locale \<open>mac_host\<close> has what they do. A call may fail at any point, and
  a write that fails may leave anything in its file.
\<close>

section \<open>The host\<close>

datatype call_error = FileNotExist | CallFailed

type_synonym ('k, 'a) mac = "'k \<Rightarrow> (call_error + 'a) \<times> 'k"

record 'k mac_ops =
  mo_MkdirAll :: "string \<Rightarrow> ('k, unit) mac"
  mo_ReadFile :: "string \<Rightarrow> ('k, bytes) mac"
  mo_WriteFile :: "string \<Rightarrow> bytes \<Rightarrow> ('k, unit) mac"
  mo_Remove :: "string \<Rightarrow> ('k, unit) mac"
  mo_Run :: "string list \<Rightarrow> ('k, string) mac"

definition mac_bind :: "('k \<Rightarrow> ('e + 'a) \<times> 'k) \<Rightarrow> ('e \<Rightarrow> 'k \<Rightarrow> 'r) \<Rightarrow> ('a \<Rightarrow> 'k \<Rightarrow> 'r) \<Rightarrow> 'k \<Rightarrow> 'r" where
  "mac_bind m bad ok k = (case m k of (Inl e, k') \<Rightarrow> bad e k' | (Inr x, k') \<Rightarrow> ok x k')"

text \<open>\<open>filepath.Join\<close> of a rooted directory and one more element, with \<open>filepath.Clean\<close>.\<close>

definition clean_part :: "string list \<Rightarrow> string \<Rightarrow> string list" where
  "clean_part acc e = (if e = [] \<or> e = ''.'' then acc else if e = ''..'' then tl acc else e # acc)"

definition filepath_Join :: "string \<Rightarrow> string \<Rightarrow> string" where
  "filepath_Join dir name =
     ''/'' @ Join (rev (foldl clean_part [] (Split (dir @ ''/'' @ name) (CHR ''/'')))) ''/''"

text \<open>\<open>strings.Contains\<close> and \<open>strings.SplitN\<close>.\<close>

definition str_contains :: "string \<Rightarrow> string \<Rightarrow> bool" where
  "str_contains s sub \<longleftrightarrow> list_ex (\<lambda>i. HasPrefix (drop i s) sub) [0..<Suc (length s)]"

definition SplitN :: "string \<Rightarrow> char \<Rightarrow> nat \<Rightarrow> string list" where
  "SplitN s c n = (let ps = Split s c in if length ps \<le> n then ps else take (n - 1) ps @ [Join (drop (n - 1) ps) [c]])"

section \<open>Split DNS\<close>

datatype mac_dns_error =
    SplitNeedsDomain
  | CreateDir string
  | WriteTo string
  | ReadFrom string
  | RemoveFile string
  | CommandFails "string list"
  | NoDefaultInterface
  | NoNetworkService string
  | BadDNSServer string

definition resolverDir :: string where "resolverDir = ''/etc/resolver''"

definition runtimeDir :: string where "runtimeDir = ''/var/run/tj''"

definition resolverFileContent :: "addr list \<Rightarrow> string" where
  "resolverFileContent servers = concat (map (\<lambda>s. ''nameserver '' @ Addr_String s @ [nl]) servers)"

definition splitStatePath :: "string \<Rightarrow> string" where
  "splitStatePath device = filepath_Join runtimeDir (''resolver-'' @ device @ ''.split'')"

definition write_domain :: "'k mac_ops \<Rightarrow> addr list \<Rightarrow> string \<Rightarrow> 'k \<Rightarrow> mac_dns_error option \<times> 'k" where
  "write_domain ops servers domain k =
     (let path = filepath_Join resolverDir domain in
      mac_bind (mo_WriteFile ops path (str_bytes (resolverFileContent servers)))
        (\<lambda>_ k. (Some (WriteTo path), k)) (\<lambda>_ k. (None, k)) k)"

definition mac_ApplySplit :: "'k mac_ops \<Rightarrow> string \<Rightarrow> addr list \<Rightarrow> string list \<Rightarrow> 'k \<Rightarrow> mac_dns_error option \<times> 'k" where
  "mac_ApplySplit ops device servers domains k =
     (if domains = [] then (Some SplitNeedsDomain, k)
      else mac_bind (mo_MkdirAll ops resolverDir) (\<lambda>_ k. (Some (CreateDir resolverDir), k)) (\<lambda>_.
           mac_bind (mo_MkdirAll ops runtimeDir) (\<lambda>_ k. (Some (CreateDir runtimeDir), k)) (\<lambda>_ k.
             case try_each (write_domain ops servers) domains k of
               (Some e, k) \<Rightarrow> (Some e, k)
             | (None, k) \<Rightarrow>
                 mac_bind (mo_WriteFile ops (splitStatePath device) (str_bytes (Join domains [nl] @ [nl])))
                   (\<lambda>_ k. (Some (WriteTo (splitStatePath device)), k)) (\<lambda>_ k. (None, k)) k)) k)"

definition mac_remove :: "'k mac_ops \<Rightarrow> string \<Rightarrow> 'k \<Rightarrow> mac_dns_error option \<times> 'k" where
  "mac_remove ops path =
     mac_bind (mo_Remove ops path)
       (\<lambda>e k. (if e = FileNotExist then None else Some (RemoveFile path), k)) (\<lambda>_ k. (None, k))"

definition remove_domain :: "'k mac_ops \<Rightarrow> string \<Rightarrow> 'k \<Rightarrow> mac_dns_error option \<times> 'k" where
  "remove_domain ops domain k = (if domain = [] then (None, k) else mac_remove ops (filepath_Join resolverDir domain) k)"

definition revertSplit :: "'k mac_ops \<Rightarrow> string \<Rightarrow> 'k \<Rightarrow> mac_dns_error option \<times> 'k" where
  "revertSplit ops device =
     mac_bind (mo_ReadFile ops (splitStatePath device))
       (\<lambda>e k. (if e = FileNotExist then None else Some (ReadFrom (splitStatePath device)), k))
       (\<lambda>data k.
          case try_each (remove_domain ops) (Split (TrimSpace (bytes_str data)) nl) k of
            (Some e, k) \<Rightarrow> (Some e, k)
          | (None, k) \<Rightarrow> mac_remove ops (splitStatePath device) k)"

section \<open>All DNS\<close>

fun parseRouteGetInterface_loop :: "string list \<Rightarrow> string option" where
  "parseRouteGetInterface_loop [] = None"
| "parseRouteGetInterface_loop (line # ls) =
     (case Fields line of [a, b] \<Rightarrow> if a = ''interface:'' then Some b else parseRouteGetInterface_loop ls
      | _ \<Rightarrow> parseRouteGetInterface_loop ls)"

definition parseRouteGetInterface :: "string \<Rightarrow> mac_dns_error + string" where
  "parseRouteGetInterface output =
     (case parseRouteGetInterface_loop (Split output nl) of None \<Rightarrow> Inl NoDefaultInterface | Some i \<Rightarrow> Inr i)"

fun hardware_port :: "string \<Rightarrow> (string \<rightharpoonup> string) \<times> string \<Rightarrow> (string \<rightharpoonup> string) \<times> string" where
  "hardware_port raw (ports, name) =
     (let line = TrimSpace raw in
      case CutPrefix line ''Hardware Port: '' of
        (v, True) \<Rightarrow> (ports, v)
      | (_, False) \<Rightarrow>
          (case CutPrefix line ''Device: '' of
             (v, True) \<Rightarrow> if name \<noteq> [] then (ports(v \<mapsto> name), []) else (ports, name)
           | (_, False) \<Rightarrow> (ports, name)))"

definition parseHardwarePorts :: "string \<Rightarrow> string \<rightharpoonup> string" where
  "parseHardwarePorts output = fst (fold hardware_port (Split output nl) (Map.empty, []))"

definition serviceForInterface :: "string \<Rightarrow> string \<Rightarrow> mac_dns_error + string" where
  "serviceForInterface output iface =
     (case parseHardwarePorts output iface of None \<Rightarrow> Inl (NoNetworkService iface) | Some name \<Rightarrow> Inr name)"

definition run_output :: "'k mac_ops \<Rightarrow> string list \<Rightarrow> 'k \<Rightarrow> (mac_dns_error + string) \<times> 'k" where
  "run_output ops args = mac_bind (mo_Run ops args) (\<lambda>_ k. (Inl (CommandFails args), k)) (\<lambda>out k. (Inr out, k))"

definition activeNetworkService :: "'k mac_ops \<Rightarrow> 'k \<Rightarrow> (mac_dns_error + string) \<times> 'k" where
  "activeNetworkService ops =
     mac_bind (run_output ops [''route'', ''-n'', ''get'', ''default'']) (\<lambda>e k. (Inl e, k)) (\<lambda>out k.
       case parseRouteGetInterface out of
         Inl e \<Rightarrow> (Inl e, k)
       | Inr iface \<Rightarrow>
           mac_bind (run_output ops [''networksetup'', ''-listallhardwareports'']) (\<lambda>e k. (Inl e, k))
             (\<lambda>portsOut k. (serviceForInterface portsOut iface, k)) k)"

fun parse_servers :: "string list \<Rightarrow> mac_dns_error + addr list" where
  "parse_servers [] = Inr []"
| "parse_servers (raw # ls) =
     (let line = TrimSpace raw in
      if line = [] then parse_servers ls
      else case ParseAddr line of
        None \<Rightarrow> Inl (BadDNSServer line)
      | Some a \<Rightarrow> (case parse_servers ls of Inl e \<Rightarrow> Inl e | Inr as \<Rightarrow> Inr (a # as)))"

definition parseDNSServersOutput :: "string \<Rightarrow> mac_dns_error + addr list" where
  "parseDNSServersOutput output =
     (let text = TrimSpace output in
      if text = [] \<or> str_contains text ''aren't any DNS Servers'' then Inr [] else parse_servers (Split text nl))"

definition parseSearchDomainsOutput :: "string \<Rightarrow> string list" where
  "parseSearchDomainsOutput output =
     (let text = TrimSpace output in
      if text = [] \<or> str_contains text ''aren't any Search Domains'' then []
      else filter (\<lambda>line. line \<noteq> []) (map TrimSpace (Split text nl)))"

definition currentDNSServers :: "'k mac_ops \<Rightarrow> string \<Rightarrow> 'k \<Rightarrow> (mac_dns_error + addr list) \<times> 'k" where
  "currentDNSServers ops service =
     mac_bind (run_output ops [''networksetup'', ''-getdnsservers'', service]) (\<lambda>e k. (Inl e, k))
       (\<lambda>out k. (parseDNSServersOutput out, k))"

definition currentSearchDomains :: "'k mac_ops \<Rightarrow> string \<Rightarrow> 'k \<Rightarrow> (mac_dns_error + string list) \<times> 'k" where
  "currentSearchDomains ops service =
     mac_bind (run_output ops [''networksetup'', ''-getsearchdomains'', service]) (\<lambda>e k. (Inl e, k))
       (\<lambda>out k. (Inr (parseSearchDomainsOutput out), k))"

definition runCommand :: "'k mac_ops \<Rightarrow> string list \<Rightarrow> 'k \<Rightarrow> mac_dns_error option \<times> 'k" where
  "runCommand ops args = mac_bind (mo_Run ops args) (\<lambda>_ k. (Some (CommandFails args), k)) (\<lambda>_ k. (None, k))"

definition setDNSServers :: "'k mac_ops \<Rightarrow> string \<Rightarrow> addr list \<Rightarrow> 'k \<Rightarrow> mac_dns_error option \<times> 'k" where
  "setDNSServers ops service servers =
     runCommand ops ([''networksetup'', ''-setdnsservers'', service]
       @ (if servers = [] then [''empty''] else map Addr_String servers))"

definition setSearchDomains :: "'k mac_ops \<Rightarrow> string \<Rightarrow> string list \<Rightarrow> 'k \<Rightarrow> mac_dns_error option \<times> 'k" where
  "setSearchDomains ops service domains =
     runCommand ops ([''networksetup'', ''-setsearchdomains'', service]
       @ (if domains = [] then [''empty''] else domains))"

record all_state =
  as_service :: string
  as_dns :: "string list"
  as_search :: "string list"

definition allStatePath :: "string \<Rightarrow> string" where
  "allStatePath device = filepath_Join runtimeDir (''resolver-'' @ device @ ''.all'')"

definition all_content :: "string \<Rightarrow> addr list \<Rightarrow> string list \<Rightarrow> string" where
  "all_content service oldDNS oldSearch =
     service @ [nl] @ Join (map Addr_String oldDNS) '','' @ [nl] @ Join oldSearch '','' @ [nl]"

definition saveAllState :: "'k mac_ops \<Rightarrow> string \<Rightarrow> string \<Rightarrow> addr list \<Rightarrow> string list \<Rightarrow> 'k \<Rightarrow> mac_dns_error option \<times> 'k" where
  "saveAllState ops device service oldDNS oldSearch =
     mac_bind (mo_WriteFile ops (allStatePath device) (str_bytes (all_content service oldDNS oldSearch)))
       (\<lambda>_ k. (Some (WriteTo (allStatePath device)), k)) (\<lambda>_ k. (None, k))"

definition parse_state :: "string \<Rightarrow> all_state" where
  "parse_state s =
     (let ls = SplitN s nl 4 @ [[], [], []] in
      \<lparr>as_service = ls ! 0,
       as_dns = if ls ! 1 \<noteq> [] then Split (ls ! 1) (CHR '','') else [],
       as_search = if ls ! 2 \<noteq> [] then Split (ls ! 2) (CHR '','') else []\<rparr>)"

definition loadAllState :: "'k mac_ops \<Rightarrow> string \<Rightarrow> 'k \<Rightarrow> (mac_dns_error + all_state option) \<times> 'k" where
  "loadAllState ops device =
     mac_bind (mo_ReadFile ops (allStatePath device))
       (\<lambda>e k. (if e = FileNotExist then Inr None else Inl (ReadFrom (allStatePath device)), k))
       (\<lambda>data k. (Inr (Some (parse_state (bytes_str data))), k))"

definition mac_ApplyAll :: "'k mac_ops \<Rightarrow> string \<Rightarrow> addr list \<Rightarrow> string list \<Rightarrow> 'k \<Rightarrow> mac_dns_error option \<times> 'k" where
  "mac_ApplyAll ops device servers domains =
     mac_bind (activeNetworkService ops) (\<lambda>e k. (Some e, k)) (\<lambda>service.
     mac_bind (currentDNSServers ops service) (\<lambda>e k. (Some e, k)) (\<lambda>oldDNS.
     mac_bind (currentSearchDomains ops service) (\<lambda>e k. (Some e, k)) (\<lambda>oldSearch.
     mac_bind (mo_MkdirAll ops runtimeDir) (\<lambda>_ k. (Some (CreateDir runtimeDir), k)) (\<lambda>_ k.
       case saveAllState ops device service oldDNS oldSearch k of
         (Some e, k) \<Rightarrow> (Some e, k)
       | (None, k) \<Rightarrow>
           (case setDNSServers ops service servers k of
              (Some e, k) \<Rightarrow> (Some e, k)
            | (None, k) \<Rightarrow> setSearchDomains ops service domains k)))))"

fun parse_saved :: "string list \<Rightarrow> mac_dns_error + addr list" where
  "parse_saved [] = Inr []"
| "parse_saved (s # ss) =
     (case ParseAddr s of
        None \<Rightarrow> Inl (BadDNSServer s)
      | Some a \<Rightarrow> (case parse_saved ss of Inl e \<Rightarrow> Inl e | Inr as \<Rightarrow> Inr (a # as)))"

definition revertAll :: "'k mac_ops \<Rightarrow> string \<Rightarrow> 'k \<Rightarrow> mac_dns_error option \<times> 'k" where
  "revertAll ops device =
     mac_bind (loadAllState ops device) (\<lambda>e k. (Some e, k)) (\<lambda>st k.
       case st of
         None \<Rightarrow> (None, k)
       | Some s \<Rightarrow>
           (case parse_saved (as_dns s) of
              Inl e \<Rightarrow> (Some e, k)
            | Inr dnsAddrs \<Rightarrow>
                (case setDNSServers ops (as_service s) dnsAddrs k of
                   (Some e, k) \<Rightarrow> (Some e, k)
                 | (None, k) \<Rightarrow>
                     (case setSearchDomains ops (as_service s) (as_search s) k of
                        (Some e, k) \<Rightarrow> (Some e, k)
                      | (None, k) \<Rightarrow> mac_remove ops (allStatePath device) k))))"

definition mac_Revert :: "'k mac_ops \<Rightarrow> string \<Rightarrow> 'k \<Rightarrow> mac_dns_error option \<times> 'k" where
  "mac_Revert ops device k =
     (case revertSplit ops device k of (Some e, k) \<Rightarrow> (Some e, k) | (None, k) \<Rightarrow> revertAll ops device k)"

section \<open>The texts\<close>

definition addr_ok :: "addr \<Rightarrow> bool" where
  "addr_ok a \<longleftrightarrow> IsValid a \<and> \<not> hasZone a"

definition name_ok :: "string \<Rightarrow> bool" where
  "name_ok d \<longleftrightarrow> d \<noteq> [] \<and> list_all plain d \<and> CHR '','' \<notin> set d \<and> d \<noteq> ''empty''"

lemma Addr_String_chars: "addr_ok a \<Longrightarrow> c \<in> set (Addr_String a) \<Longrightarrow> is_hex c \<or> c = CHR '':'' \<or> c = CHR ''.''"
proof (cases a)
  case (V6 w z)
  assume "addr_ok a" "c \<in> set (Addr_String a)"
  moreover have "is_hex (CHR ''f'')" by (simp add: is_hex_def hex_digit_def)
  ultimately show ?thesis using V6 show_v6_chars [of c w] show_v4_chars [of c "ucast w"] digit_hex [of c]
    by (auto simp: addr_ok_def split: if_splits)
qed (use show_v4_chars digit_hex in \<open>auto simp: addr_ok_def IsValid_def\<close>)

lemma hex_plain: "is_hex c \<or> c = CHR '':'' \<or> c = CHR ''.'' \<Longrightarrow> plain c \<and> c \<noteq> CHR '','' \<and> c \<noteq> CHR ''m''"
  by (auto simp: is_hex_def hex_digit_def plain_def Let_def split: if_splits)

lemma Addr_String_nonempty: "addr_ok a \<Longrightarrow> Addr_String a \<noteq> []"
proof (cases a)
  case (V6 w z)
  have "show_v6 w \<noteq> []" using show_v6_colon [of w] by auto
  then show "addr_ok a \<Longrightarrow> Addr_String a \<noteq> []" by (simp add: V6 addr_ok_def)
qed (simp_all add: addr_ok_def IsValid_def)

lemma Addr_String_name: "addr_ok a \<Longrightarrow> name_ok (Addr_String a)"
  using Addr_String_chars [of a] hex_plain Addr_String_nonempty [of a] unfolding name_ok_def list_all_iff
  by (metis list.set_intros(1,2))

lemma Join_lines: "xs \<noteq> [] \<Longrightarrow> concat (map (\<lambda>x. x @ [c]) xs) = Join xs [c] @ [c]"
  by (induction xs "[c]" rule: Join.induct) simp_all

lemma Join_ends_plain:
  assumes "xs \<noteq> []" "\<forall>x \<in> set xs. x \<noteq> [] \<and> list_all plain x"
  shows "Join xs sep \<noteq> [] \<and> plain (hd (Join xs sep)) \<and> plain (last (Join xs sep))"
  using assms
proof (induction xs sep rule: Join.induct)
  case (2 w sep)
  then show ?case by (auto simp: list_all_iff)
next
  case (3 w v va sep)
  then show ?case by (auto simp: list_all_iff)
qed simp

lemma lines_text:
  assumes "xs \<noteq> []" "\<forall>x \<in> set xs. x \<noteq> [] \<and> list_all plain x"
  shows "TrimSpace (concat (map (\<lambda>x. x @ [nl]) xs)) = Join xs [nl]" "Split (Join xs [nl]) nl = xs"
    "TrimSpace (Join xs [nl] @ [nl]) = Join xs [nl]"
proof -
  show t: "TrimSpace (Join xs [nl] @ [nl]) = Join xs [nl]" using trim_newline Join_ends_plain [OF assms] by blast
  then show "TrimSpace (concat (map (\<lambda>x. x @ [nl]) xs)) = Join xs [nl]" by (simp add: Join_lines [OF assms(1)])
  have "\<not> plain nl" by (simp add: plain_def)
  then show "Split (Join xs [nl]) nl = xs" using assms by (intro Split_Join) (auto simp: list_all_iff)
qed

lemma str_contains_set: "str_contains s sub \<Longrightarrow> set sub \<subseteq> set s"
  unfolding str_contains_def list_ex_iff HasPrefix_iff
  by (metis set_append Un_upper1 order_trans set_drop_subset)

lemma Join_set: "set (Join xs sep) \<subseteq> (\<Union>x \<in> set xs. set x) \<union> set sep"
  by (induction xs sep rule: Join.induct) auto

text \<open>What \<open>networksetup\<close> prints of the servers and the search domains of a service.\<close>

definition report :: "string \<Rightarrow> string \<Rightarrow> string list \<Rightarrow> string" where
  "report what service xs =
     (if xs = [] then ''There aren't any '' @ what @ '' set on '' @ service @ ''.'' @ [nl]
      else concat (map (\<lambda>x. x @ [nl]) xs))"

lemma name_lines_no_blank:
  assumes "\<forall>x \<in> set xs. list_all plain x"
  shows "CHR '' '' \<notin> set (Join xs [nl])"
proof -
  have "\<not> plain (CHR '' '')" by (simp add: plain_def)
  then show ?thesis using Join_set [of xs "[nl]"] assms by (auto simp: list_all_iff)
qed

lemma str_contains_mid: "str_contains (a @ b @ c) b"
  unfolding str_contains_def list_ex_iff by (rule bexI [of _ "length a"]) auto

lemma none_text: "str_contains (TrimSpace (''There aren't any '' @ what @ '' set on '' @ service @ ''.'' @ [nl])) (''aren't any '' @ what)"
proof -
  have t: "TrimSpace (s @ [nl]) = s" if "s \<noteq> []" "plain (hd s)" "plain (last s)" for s using trim_newline that by blast
  have "TrimSpace ((''There aren't any '' @ what @ '' set on '' @ service @ ''.'') @ [nl]) = ''There '' @ (''aren't any '' @ what) @ ('' set on '' @ service @ ''.'')"
    by (subst t) (simp_all add: plain_def)
  then show ?thesis using str_contains_mid [of "''There ''" "''aren't any '' @ what" "'' set on '' @ service @ ''.''"] by simp
qed

lemma parse_servers_strings: "list_all addr_ok as \<Longrightarrow> parse_servers (map Addr_String as) = Inr as"
proof (induction as)
  case (Cons a as)
  then have "name_ok (Addr_String a)" "IsValid a" using Addr_String_name by (auto simp: addr_ok_def)
  then show ?case using Cons by (simp add: name_ok_def)
qed simp

lemma parse_saved_strings: "list_all addr_ok as \<Longrightarrow> parse_saved (map Addr_String as) = Inr as"
  by (induction as) (simp_all add: addr_ok_def)

lemma parse_dns_report:
  assumes "list_all addr_ok as"
  shows "parseDNSServersOutput (report ''DNS Servers'' s (map Addr_String as)) = Inr as"
proof (cases "as = []")
  case True
  then show ?thesis using none_text [of "''DNS Servers''" s] by (simp add: report_def parseDNSServersOutput_def Let_def)
next
  case False
  let ?xs = "map Addr_String as"
  have n: "\<forall>x \<in> set ?xs. name_ok x" using assms Addr_String_name by (auto simp: list_all_iff)
  then have x: "?xs \<noteq> []" "\<forall>x \<in> set ?xs. x \<noteq> [] \<and> list_all plain x" using False by (auto simp: name_ok_def)
  have "\<not> str_contains (Join ?xs [nl]) ''aren't any DNS Servers''"
    using str_contains_set [of "Join ?xs [nl]" "''aren't any DNS Servers''"] name_lines_no_blank [of ?xs] x(2) by auto
  then show ?thesis using lines_text [OF x] parse_servers_strings [OF assms] x(1) Join_ends_plain [OF x]
    by (simp add: report_def parseDNSServersOutput_def Let_def)
qed

lemma parse_search_report:
  assumes "list_all name_ok ds"
  shows "parseSearchDomainsOutput (report ''Search Domains'' s ds) = ds"
proof (cases "ds = []")
  case True
  then show ?thesis using none_text [of "''Search Domains''" s] by (simp add: report_def parseSearchDomainsOutput_def Let_def)
next
  case False
  then have x: "ds \<noteq> []" "\<forall>x \<in> set ds. x \<noteq> [] \<and> list_all plain x" using assms by (auto simp: name_ok_def list_all_iff)
  have "\<not> str_contains (Join ds [nl]) ''aren't any Search Domains''"
    using str_contains_set [of "Join ds [nl]" "''aren't any Search Domains''"] name_lines_no_blank [of ds] x(2) by auto
  moreover have "map TrimSpace ds = ds" using x(2) by (simp add: map_idI)
  moreover have "filter (\<lambda>line. line \<noteq> []) ds = ds" using x(2) by (simp add: filter_id_conv)
  ultimately show ?thesis using lines_text [OF x] x(1) Join_ends_plain [OF x]
    by (simp add: report_def parseSearchDomainsOutput_def Let_def)
qed

lemma trim_left_set: "set (trim_left ps s) \<subseteq> set s"
proof (induction ps s rule: trim_left.induct)
  case (1 ps s)
  then show ?case using set_drop_subset [of "match_len ps s" s] by (subst trim_left.simps) (auto split: if_splits)
qed

lemma TrimSpace_set: "set (TrimSpace s) \<subseteq> set s"
  using trim_left_set [of "map rev go_spaces" "rev (trim_left go_spaces s)"] trim_left_set [of go_spaces s]
  by (auto simp: TrimSpace_def)

lemma Split_sep: "w \<in> set (Split s c) \<Longrightarrow> c \<notin> set w"
  by (induction s c arbitrary: w rule: Split.induct) (auto split: if_splits list.splits)

lemma CutPrefix_set: "CutPrefix s q = (v, b) \<Longrightarrow> set v \<subseteq> set s"
  by (auto simp: CutPrefix_def split: if_splits dest: in_set_dropD)

lemma hardware_port_no_nl:
  assumes "nl \<notin> set raw" "nl \<notin> set name" "\<forall>i n. ports i = Some n \<longrightarrow> nl \<notin> set n"
  shows "case hardware_port raw (ports, name) of (ports', name') \<Rightarrow> nl \<notin> set name' \<and> (\<forall>i n. ports' i = Some n \<longrightarrow> nl \<notin> set n)"
  using assms TrimSpace_set [of raw]
  by (auto simp: Let_def dest!: CutPrefix_set split: prod.splits bool.splits if_splits)

lemma hardware_ports_no_nl:
  assumes "\<forall>l \<in> set ls. nl \<notin> set l" "nl \<notin> set name" "\<forall>i n. ports i = Some n \<longrightarrow> nl \<notin> set n"
  shows "fst (fold hardware_port ls (ports, name)) i = Some n \<Longrightarrow> nl \<notin> set n"
  using assms
proof (induction ls arbitrary: ports name)
  case (Cons l ls)
  obtain ports' name' where x: "hardware_port l (ports, name) = (ports', name')" by (cases "hardware_port l (ports, name)")
  show ?case using Cons.IH [of ports' name'] Cons.prems hardware_port_no_nl [of l name ports] unfolding fold.simps comp_apply x
    by (simp add: x del: hardware_port.simps)
qed simp

lemma service_no_nl: "serviceForInterface output iface = Inr s \<Longrightarrow> nl \<notin> set s"
  using hardware_ports_no_nl [of "Split output nl" "[]" Map.empty iface s] Split_sep [where s = "output" and c = "nl"]
  by (simp add: serviceForInterface_def parseHardwarePorts_def split: option.splits)

lemma join_simple:
  assumes "CHR ''/'' \<notin> set n" "n \<notin> {[], ''.'', ''..''}"
  shows "filepath_Join runtimeDir n = runtimeDir @ ''/'' @ n" "filepath_Join resolverDir n = resolverDir @ ''/'' @ n"
    "filepath_Join resolverDir (''../'' @ n) = ''/etc/'' @ n"
  using assms by (simp_all add: filepath_Join_def clean_part_def runtimeDir_def resolverDir_def)

lemma state_paths:
  assumes "CHR ''/'' \<notin> set d"
  shows "splitStatePath d = runtimeDir @ ''/resolver-'' @ d @ ''.split''" "allStatePath d = runtimeDir @ ''/resolver-'' @ d @ ''.all''"
  using assms join_simple(1) [of "''resolver-'' @ d @ ''.split''"] join_simple(1) [of "''resolver-'' @ d @ ''.all''"]
  by (simp_all add: splitStatePath_def allStatePath_def)

text \<open>The record gives back what was saved.\<close>

lemma commas_no_nl: "list_all name_ok ds \<Longrightarrow> nl \<notin> set (Join ds '','')"
proof -
  have "\<not> plain nl" by (simp add: plain_def)
  then show "list_all name_ok ds \<Longrightarrow> nl \<notin> set (Join ds '','')"
    using Join_set [of ds "'',''"] by (auto simp: list_all_iff name_ok_def)
qed

lemma Split_commas: "list_all name_ok ds \<Longrightarrow> (if Join ds '','' \<noteq> [] then Split (Join ds '','') (CHR '','') else []) = ds"
  using Split_Join [of ds "CHR '',''"] Join_ends_plain [of ds "'',''"] by (cases "ds = []") (auto simp: list_all_iff name_ok_def)

lemma parse_state_content:
  assumes "nl \<notin> set s" "list_all addr_ok as" "list_all name_ok ds"
  shows "parse_state (all_content s as ds) = \<lparr>as_service = s, as_dns = map Addr_String as, as_search = ds\<rparr>"
proof -
  have a: "list_all name_ok (map Addr_String as)" using assms(2) Addr_String_name by (simp add: list_all_iff)
  have "Split (all_content s as ds) nl = [s, Join (map Addr_String as) '','', Join ds '','', []]"
    using Split_append [OF assms(1)] Split_append [OF commas_no_nl [OF a]] Split_append [OF commas_no_nl [OF assms(3)]]
    by (simp add: all_content_def)
  then show ?thesis using Split_commas [OF a] Split_commas [OF assms(3)]
    by (simp add: parse_state_def SplitN_def Let_def split: if_splits)
qed

text \<open>The files of the domains, and when none of them is a record.\<close>

definition domain_paths :: "string list \<Rightarrow> string set" where
  "domain_paths ds = filepath_Join resolverDir ` set ds"

definition domain_ok :: "string \<Rightarrow> bool" where
  "domain_ok x \<longleftrightarrow> list_all plain x \<and> CHR ''/'' \<notin> set x \<and> x \<notin> {[], ''.'', ''..''}"

definition paths_ok :: "string \<Rightarrow> string list \<Rightarrow> bool" where
  "paths_ok d ds \<longleftrightarrow> CHR ''/'' \<notin> set d \<and> (\<forall>x \<in> set ds. x \<noteq> [] \<and> list_all plain x)
     \<and> splitStatePath d \<notin> domain_paths ds \<and> allStatePath d \<notin> domain_paths ds"

lemma domain_ok_paths:
  assumes "list_all domain_ok ds" "CHR ''/'' \<notin> set d"
  shows "paths_ok d ds"
  using assms join_simple(2) state_paths [OF assms(2)]
  by (auto simp: paths_ok_def domain_paths_def domain_ok_def list_all_iff runtimeDir_def resolverDir_def)

lemma parent_paths:
  assumes "domain_ok n" "CHR ''/'' \<notin> set d"
  shows "paths_ok d [''../'' @ n]" "domain_paths [''../'' @ n] = {''/etc/'' @ n}"
  using assms join_simple(3) [of n] state_paths [OF assms(2)]
  by (auto simp: paths_ok_def domain_paths_def domain_ok_def plain_def runtimeDir_def)

section \<open>What the host promises\<close>

locale mac_host =
  fixes ops :: "'k mac_ops"
    and files :: "'k \<Rightarrow> string \<Rightarrow> bytes option"
    and dns :: "'k \<Rightarrow> string \<Rightarrow> string list"
    and search :: "'k \<Rightarrow> string \<Rightarrow> string list"
  assumes mkdir: "mo_MkdirAll ops p k = (r, k') \<Longrightarrow> files k' = files k \<and> dns k' = dns k \<and> search k' = search k"
    and read_file: "mo_ReadFile ops p k = (r', k') \<Longrightarrow> files k' = files k \<and> dns k' = dns k \<and> search k' = search k
      \<and> (case r' of Inr bs \<Rightarrow> files k p = Some bs | Inl e \<Rightarrow> e = FileNotExist \<longrightarrow> files k p = None)"
    and write_file: "mo_WriteFile ops p bs k = (r, k') \<Longrightarrow> dns k' = dns k \<and> search k' = search k
      \<and> (\<forall>q. q \<noteq> p \<longrightarrow> files k' q = files k q) \<and> (r = Inr () \<longrightarrow> files k' p = Some bs)"
    and rm: "mo_Remove ops p k = (r, k') \<Longrightarrow> dns k' = dns k \<and> search k' = search k
      \<and> (case r of Inr _ \<Rightarrow> files k' = (files k)(p := None) | Inl e \<Rightarrow> files k' = files k \<and> (e = FileNotExist \<longrightarrow> files k p = None))"
    and query: "mo_Run ops args k = (out, k') \<Longrightarrow> args \<in> {[''route'', ''-n'', ''get'', ''default''], [''networksetup'', ''-listallhardwareports''],
        [''networksetup'', ''-getdnsservers'', s], [''networksetup'', ''-getsearchdomains'', s]}
      \<Longrightarrow> files k' = files k \<and> dns k' = dns k \<and> search k' = search k"
    and get_dns: "mo_Run ops [''networksetup'', ''-getdnsservers'', s] k = (Inr text, k') \<Longrightarrow> text = report ''DNS Servers'' s (dns k s)"
    and get_search: "mo_Run ops [''networksetup'', ''-getsearchdomains'', s] k = (Inr text, k') \<Longrightarrow> text = report ''Search Domains'' s (search k s)"
    and set_dns: "mo_Run ops ([''networksetup'', ''-setdnsservers'', s] @ xs) k = (out, k') \<Longrightarrow> xs \<noteq> []
      \<Longrightarrow> files k' = files k \<and> search k' = search k \<and> (\<forall>t. t \<noteq> s \<longrightarrow> dns k' t = dns k t)
        \<and> (\<not> isl out \<longrightarrow> dns k' s = (if xs = [''empty''] then [] else xs))"
    and set_search: "mo_Run ops ([''networksetup'', ''-setsearchdomains'', s] @ xs) k = (out, k') \<Longrightarrow> xs \<noteq> []
      \<Longrightarrow> files k' = files k \<and> dns k' = dns k \<and> (\<forall>t. t \<noteq> s \<longrightarrow> search k' t = search k t)
        \<and> (\<not> isl out \<longrightarrow> search k' s = (if xs = [''empty''] then [] else xs))"

begin

definition same :: "'k \<Rightarrow> 'k \<Rightarrow> bool" where
  "same k k' \<longleftrightarrow> files k' = files k \<and> dns k' = dns k \<and> search k' = search k"

lemma same_refl [simp]: "same k k"
  by (simp add: same_def)

lemma same_trans: "same a b \<Longrightarrow> same b c \<Longrightarrow> same a c"
  by (simp add: same_def)

lemma output_same:
  assumes "run_output ops args k = (r, k')"
    and "args \<in> {[''route'', ''-n'', ''get'', ''default''], [''networksetup'', ''-listallhardwareports''],
        [''networksetup'', ''-getdnsservers'', s], [''networksetup'', ''-getsearchdomains'', s]}"
  shows "same k k'"
proof -
  obtain x k1 where "mo_Run ops args k = (x, k1)" by (cases "mo_Run ops args k")
  then show ?thesis using query [OF _ assms(2)] assms(1)
    by (cases x) (auto simp: run_output_def mac_bind_def same_def)
qed

lemma active_effect:
  assumes "activeNetworkService ops k = (r, k')"
  shows "same k k' \<and> (\<forall>s. r = Inr s \<longrightarrow> nl \<notin> set s)"
proof -
  obtain x k1 where x: "run_output ops [''route'', ''-n'', ''get'', ''default''] k = (x, k1)"
    by (cases "run_output ops [''route'', ''-n'', ''get'', ''default''] k")
  obtain y k2 where y: "run_output ops [''networksetup'', ''-listallhardwareports''] k1 = (y, k2)"
    by (cases "run_output ops [''networksetup'', ''-listallhardwareports''] k1")
  have s: "same k k1" "same k k2" using output_same [OF x] output_same [OF y] same_trans by auto
  then show ?thesis using assms x y service_no_nl
    by (auto simp: activeNetworkService_def mac_bind_def split: sum.splits)
qed

lemma current_dns_effect:
  assumes "currentDNSServers ops s k = (r, k')" "dns k s = map Addr_String as" "list_all addr_ok as"
  shows "same k k' \<and> (isl r \<or> r = Inr as)"
proof -
  let ?args = "[''networksetup'', ''-getdnsservers'', s]"
  obtain x k1 where x: "run_output ops ?args k = (x, k1)" by (cases "run_output ops ?args k")
  have "x = Inr out \<Longrightarrow> out = report ''DNS Servers'' s (dns k s)" for out
    using x get_dns [of s k] by (auto simp: run_output_def mac_bind_def split: prod.splits sum.splits)
  then show ?thesis using assms x output_same [OF x] parse_dns_report [OF assms(3)]
    by (auto simp: currentDNSServers_def mac_bind_def split: sum.splits)
qed

lemma current_search_effect:
  assumes "currentSearchDomains ops s k = (r, k')" "list_all name_ok (search k s)"
  shows "same k k' \<and> (isl r \<or> r = Inr (search k s))"
proof -
  let ?args = "[''networksetup'', ''-getsearchdomains'', s]"
  obtain x k1 where x: "run_output ops ?args k = (x, k1)" by (cases "run_output ops ?args k")
  have "x = Inr out \<Longrightarrow> out = report ''Search Domains'' s (search k s)" for out
    using x get_search [of s k] by (auto simp: run_output_def mac_bind_def split: prod.splits sum.splits)
  then show ?thesis using assms x output_same [OF x] parse_search_report [OF assms(2)]
    by (auto simp: currentSearchDomains_def mac_bind_def split: sum.splits)
qed

lemma set_dns_effect:
  assumes "setDNSServers ops s as k = (r, k')"
  shows "files k' = files k \<and> search k' = search k \<and> (\<forall>t. t \<noteq> s \<longrightarrow> dns k' t = dns k t)
    \<and> (r = None \<longrightarrow> list_all addr_ok as \<longrightarrow> dns k' s = map Addr_String as)"
proof -
  let ?xs = "if as = [] then [''empty''] else map Addr_String as"
  obtain x where x: "mo_Run ops ([''networksetup'', ''-setdnsservers'', s] @ ?xs) k = (x, k')" "isl x \<longleftrightarrow> r \<noteq> None"
    using assms by (auto simp: setDNSServers_def runCommand_def mac_bind_def split: prod.splits sum.splits)
  have "map Addr_String as \<noteq> [''empty'']" if "list_all addr_ok as"
    using that Addr_String_name by (auto simp: list_all_iff name_ok_def)
  then show ?thesis using set_dns [OF x(1)] x(2) by auto
qed

lemma set_search_effect:
  assumes "setSearchDomains ops s ds k = (r, k')"
  shows "files k' = files k \<and> dns k' = dns k \<and> (\<forall>t. t \<noteq> s \<longrightarrow> search k' t = search k t)
    \<and> (r = None \<longrightarrow> list_all name_ok ds \<longrightarrow> search k' s = ds)"
proof -
  let ?xs = "if ds = [] then [''empty''] else ds"
  obtain x where x: "mo_Run ops ([''networksetup'', ''-setsearchdomains'', s] @ ?xs) k = (x, k')" "isl x \<longleftrightarrow> r \<noteq> None"
    using assms by (auto simp: setSearchDomains_def runCommand_def mac_bind_def split: prod.splits sum.splits)
  have "ds \<noteq> [''empty'']" if "list_all name_ok ds" using that by (auto simp: name_ok_def)
  then show ?thesis using set_search [OF x(1)] x(2) by auto
qed

lemma mac_remove_effect:
  assumes "mac_remove ops p k = (r, k')"
  shows "dns k' = dns k \<and> search k' = search k \<and> (files k' = files k \<or> files k' = (files k)(p := None))
    \<and> (r = None \<longrightarrow> files k' = (files k)(p := None))"
proof -
  obtain x k1 where x: "mo_Remove ops p k = (x, k1)" by (cases "mo_Remove ops p k")
  show ?thesis using rm [OF x] assms x
    by (auto simp: mac_remove_def mac_bind_def fun_upd_idem split: sum.splits if_splits)
qed

text \<open>All DNS: the settings of the host, and what is left of a session that can still be undone.\<close>

definition settings_ok :: "'k \<Rightarrow> bool" where
  "settings_ok k \<longleftrightarrow> (\<forall>s. (\<exists>as. dns k s = map Addr_String as \<and> list_all addr_ok as) \<and> list_all name_ok (search k s))"

definition recoverable :: "string \<Rightarrow> 'k \<Rightarrow> 'k \<Rightarrow> bool" where
  "recoverable d k0 k \<longleftrightarrow> (\<exists>s as. nl \<notin> set s \<and> list_all addr_ok as \<and> dns k0 s = map Addr_String as
     \<and> files k = (files k0)(allStatePath d \<mapsto> str_bytes (all_content s as (search k0 s)))
     \<and> (\<forall>t. t \<noteq> s \<longrightarrow> dns k t = dns k0 t \<and> search k t = search k0 t))"

lemma save_effect:
  assumes "saveAllState ops d s as ds k = (r, k')" "r \<noteq> Some (WriteTo (allStatePath d))"
  shows "r = None \<and> dns k' = dns k \<and> search k' = search k \<and> files k' = (files k)(allStatePath d \<mapsto> str_bytes (all_content s as ds))"
proof -
  let ?w = "mo_WriteFile ops (allStatePath d) (str_bytes (all_content s as ds)) k"
  obtain x k1 where x: "?w = (x, k1)" by (cases ?w)
  show ?thesis using write_file [OF x] assms x
    by (auto simp: saveAllState_def mac_bind_def split: sum.splits)
qed

lemma apply_all_effect:
  assumes ok: "settings_ok k0" and a: "mac_ApplyAll ops d servers domains k0 = (r, k')" "r \<noteq> Some (WriteTo (allStatePath d))"
  shows "same k0 k' \<or> recoverable d k0 k'"
proof -
  obtain x k1 where x: "activeNetworkService ops k0 = (x, k1)" by (cases "activeNetworkService ops k0")
  note sx = active_effect [OF x]
  show ?thesis
  proof (cases x)
    case (Inl e)
    then show ?thesis using a x sx by (auto simp: mac_ApplyAll_def mac_bind_def)
  next
    case (Inr s)
    obtain as where as: "dns k1 s = map Addr_String as" "list_all addr_ok as" and ds: "list_all name_ok (search k1 s)"
      using ok sx unfolding settings_ok_def same_def by metis
    obtain y k2 where y: "currentDNSServers ops s k1 = (y, k2)" by (cases "currentDNSServers ops s k1")
    note sy = current_dns_effect [OF y as]
    obtain z k3 where z: "currentSearchDomains ops s k2 = (z, k3)" by (cases "currentSearchDomains ops s k2")
    have sz: "same k2 k3 \<and> (isl z \<or> z = Inr (search k2 s))"
      using current_search_effect [OF z] ds sy by (simp add: same_def)
    obtain m k4 where m: "mo_MkdirAll ops runtimeDir k3 = (m, k4)" by (cases "mo_MkdirAll ops runtimeDir k3")
    have s: "same k0 k1" "same k0 k2" "same k0 k3" "same k0 k4" using sx sy sz mkdir [OF m] by (auto simp: same_def)
    show ?thesis
    proof (cases "isl y \<or> isl z \<or> isl m")
      case True
      then show ?thesis using a x Inr y z m s
        by (cases y; cases z; cases m) (auto simp: mac_ApplyAll_def mac_bind_def)
    next
      case False
      then have v: "y = Inr as" "z = Inr (search k2 s)" "m = Inr ()" using sy sz by (auto, cases m, auto)
      obtain w k5 where w: "saveAllState ops d s as (search k2 s) k4 = (w, k5)" by (cases "saveAllState ops d s as (search k2 s) k4")
      have r: "(r, k') = (case (w, k5) of (Some e, k) \<Rightarrow> (Some e, k) | (None, k) \<Rightarrow>
          (case setDNSServers ops s servers k of (Some e, k) \<Rightarrow> (Some e, k) | (None, k) \<Rightarrow> setSearchDomains ops s domains k))"
        using a(1) x Inr y z m v w by (auto simp: mac_ApplyAll_def mac_bind_def)
      then have "w \<noteq> Some (WriteTo (allStatePath d))" using a(2) by auto
      note sw = save_effect [OF w this]
      obtain p k6 where p: "setDNSServers ops s servers k5 = (p, k6)" by (cases "setDNSServers ops s servers k5")
      obtain q k7 where q: "setSearchDomains ops s domains k6 = (q, k7)" by (cases "setSearchDomains ops s domains k6")
      have k: "k' = k6 \<or> k' = k7" using r sw p q by (auto split: option.splits)
      have f: "files k' = (files k0)(allStatePath d \<mapsto> str_bytes (all_content s as (search k0 s)))"
        using k sw set_dns_effect [OF p] set_search_effect [OF q] s by (auto simp: same_def)
      have o: "\<forall>t. t \<noteq> s \<longrightarrow> dns k' t = dns k0 t \<and> search k' t = search k0 t"
        using k sw set_dns_effect [OF p] set_search_effect [OF q] s by (auto simp: same_def)
      have "nl \<notin> set s" "dns k0 s = map Addr_String as" using sx Inr s as by (auto simp: same_def)
      then show ?thesis using as(2) f o unfolding recoverable_def by blast
    qed
  qed
qed

lemma load_effect:
  assumes "loadAllState ops d k = (r, k')"
  shows "same k k' \<and> (files k (allStatePath d) = None \<longrightarrow> isl r \<or> r = Inr None)
    \<and> (\<forall>bs. files k (allStatePath d) = Some bs \<longrightarrow> isl r \<or> r = Inr (Some (parse_state (bytes_str bs))))"
proof -
  obtain x k1 where x: "mo_ReadFile ops (allStatePath d) k = (x, k1)" by (cases "mo_ReadFile ops (allStatePath d) k")
  show ?thesis using read_file [OF x] assms x
    by (auto simp: loadAllState_def mac_bind_def same_def split: sum.splits if_splits)
qed

lemma revert_all_none:
  assumes "revertAll ops d k = (r, k')" "files k (allStatePath d) = None"
  shows "same k k'"
proof -
  obtain x k1 where x: "loadAllState ops d k = (x, k1)" by (cases "loadAllState ops d k")
  show ?thesis using load_effect [OF x] assms x by (cases x) (auto simp: revertAll_def mac_bind_def)
qed

lemma revert_split_none:
  assumes "revertSplit ops d k = (r, k')" "files k (splitStatePath d) = None"
  shows "same k k'"
proof -
  obtain x k1 where x: "mo_ReadFile ops (splitStatePath d) k = (x, k1)" by (cases "mo_ReadFile ops (splitStatePath d) k")
  show ?thesis using read_file [OF x] assms x by (cases x) (auto simp: revertSplit_def mac_bind_def same_def)
qed

lemma revert_all_recoverable:
  assumes ok: "settings_ok k0" "files k0 (allStatePath d) = None" and rec: "recoverable d k0 k" and r: "revertAll ops d k = (r, k')"
  shows "(same k0 k' \<or> recoverable d k0 k') \<and> (r = None \<longrightarrow> same k0 k')"
proof -
  obtain s as where s: "nl \<notin> set s" "list_all addr_ok as" "dns k0 s = map Addr_String as"
    "files k = (files k0)(allStatePath d \<mapsto> str_bytes (all_content s as (search k0 s)))"
    "\<forall>t. t \<noteq> s \<longrightarrow> dns k t = dns k0 t \<and> search k t = search k0 t"
    using rec unfolding recoverable_def by blast
  have ds: "list_all name_ok (search k0 s)" using ok(1) by (simp add: settings_ok_def)
  obtain x k1 where x: "loadAllState ops d k = (x, k1)" by (cases "loadAllState ops d k")
  have sx: "same k k1" "isl x \<or> x = Inr (Some \<lparr>as_service = s, as_dns = map Addr_String as, as_search = search k0 s\<rparr>)"
    using load_effect [OF x] s(4) parse_state_content [OF s(1,2) ds] by auto
  obtain p k2 where p: "setDNSServers ops s as k1 = (p, k2)" by (cases "setDNSServers ops s as k1")
  obtain q k3 where q: "setSearchDomains ops s (search k0 s) k2 = (q, k3)" by (cases "setSearchDomains ops s (search k0 s) k2")
  obtain u k4 where u: "mac_remove ops (allStatePath d) k3 = (u, k4)" by (cases "mac_remove ops (allStatePath d) k3")
  have keep: "recoverable d k0 j" if "j \<in> {k1, k2, k3}" for j
  proof -
    have "files j = files k" "\<forall>t. t \<noteq> s \<longrightarrow> dns j t = dns k0 t \<and> search j t = search k0 t"
      using that sx(1) s(5) set_dns_effect [OF p] set_search_effect [OF q] by (auto simp: same_def)
    then show ?thesis using s unfolding recoverable_def by (intro exI [of _ s] exI [of _ as]) auto
  qed
  have gone: "same k0 k4" if "p = None" "q = None" "files k4 = (files k3)(allStatePath d := None)"
  proof -
    have f: "files k4 = files k0" using that(3) s(4) sx(1) ok(2) set_dns_effect [OF p] set_search_effect [OF q]
      by (auto simp: same_def fun_upd_idem)
    have "dns k4 t = dns k0 t \<and> search k4 t = search k0 t" for t
      using that(1,2) s sx(1) ds set_dns_effect [OF p] set_search_effect [OF q] mac_remove_effect [OF u]
      by (cases "t = s") (auto simp: same_def)
    then show ?thesis using f by (auto simp: same_def)
  qed
  show ?thesis
  proof (cases "isl x \<or> p \<noteq> None \<or> q \<noteq> None")
    case True
    then have "r \<noteq> None \<and> k' \<in> {k1, k2, k3}" using r x sx(2) p q parse_saved_strings [OF s(2)]
      by (cases x; cases p; cases q) (auto simp: revertAll_def mac_bind_def)
    then show ?thesis using keep by auto
  next
    case False
    then have d: "r = u" "k' = k4" "p = None" "q = None" using r x sx(2) p q u parse_saved_strings [OF s(2)]
      by (auto simp: revertAll_def mac_bind_def)
    have "files k4 = files k3 \<Longrightarrow> recoverable d k0 k4"
      using keep [of k3] mac_remove_effect [OF u] by (simp add: recoverable_def)
    then show ?thesis using mac_remove_effect [OF u] gone d by auto
  qed
qed

lemma revert_effect:
  assumes ok: "settings_ok k0" "files k0 (allStatePath d) = None" "files k0 (splitStatePath d) = None" "CHR ''/'' \<notin> set d"
    and st: "same k0 k \<or> recoverable d k0 k" and r: "mac_Revert ops d k = (r, k')"
  shows "(same k0 k' \<or> recoverable d k0 k') \<and> (r = None \<longrightarrow> same k0 k')"
proof -
  have ne: "splitStatePath d \<noteq> allStatePath d" by (simp add: state_paths [OF ok(4)])
  obtain x k1 where x: "revertSplit ops d k = (x, k1)" by (cases "revertSplit ops d k")
  have "files k (splitStatePath d) = None" using st ok(3) ne by (auto simp: same_def recoverable_def)
  then have s: "same k k1" by (rule revert_split_none [OF x])
  then have st1: "same k0 k1 \<or> recoverable d k0 k1" using st by (auto simp: same_def recoverable_def)
  show ?thesis
  proof (cases x)
    case None
    then have r': "revertAll ops d k1 = (r, k')" using r x by (simp add: mac_Revert_def)
    from st1 show ?thesis
    proof
      assume "same k0 k1"
      then show ?thesis using revert_all_none [OF r'] ok(2) same_trans by (auto simp: same_def)
    qed (rule revert_all_recoverable [OF ok(1,2) _ r'])
  next
    case (Some e)
    then have "r = Some e" "k' = k1" using r x by (simp_all add: mac_Revert_def)
    then show ?thesis using st1 by simp
  qed
qed

text \<open>Split DNS: the files of the domains.\<close>

lemma write_domains_effect:
  assumes "try_each (write_domain ops servers) ds k = (r, k')"
  shows "dns k' = dns k \<and> search k' = search k \<and> (\<forall>q. q \<notin> domain_paths ds \<longrightarrow> files k' q = files k q)
    \<and> (r = None \<longrightarrow> (\<forall>q \<in> domain_paths ds. files k' q = Some (str_bytes (resolverFileContent servers))))"
  using assms
proof (induction ds arbitrary: k)
  case (Cons x ds)
  let ?p = "filepath_Join resolverDir x" and ?c = "str_bytes (resolverFileContent servers)"
  obtain w k1 where w: "mo_WriteFile ops ?p ?c k = (w, k1)" by (cases "mo_WriteFile ops ?p ?c k")
  note e = write_file [OF w]
  have step: "write_domain ops servers x k = (case w of Inl _ \<Rightarrow> (Some (WriteTo ?p), k1) | Inr _ \<Rightarrow> (None, k1))"
    using w by (simp add: write_domain_def mac_bind_def Let_def)
  show ?case
  proof (cases w)
    case (Inl y)
    then show ?thesis using Cons.prems step e by (auto simp: domain_paths_def)
  next
    case (Inr u)
    then have "try_each (write_domain ops servers) ds k1 = (r, k')" using Cons.prems step by simp
    note IH = Cons.IH [OF this]
    have "files k' ?p = Some ?c" if "r = None"
      using IH e Inr that by (cases "?p \<in> domain_paths ds") auto
    then show ?thesis using IH e by (auto simp: domain_paths_def)
  qed
qed (simp add: domain_paths_def)

lemma remove_domains_effect:
  assumes "try_each (remove_domain ops) ds k = (r, k')" "[] \<notin> set ds"
  shows "dns k' = dns k \<and> search k' = search k \<and> (\<forall>q. q \<notin> domain_paths ds \<longrightarrow> files k' q = files k q)
    \<and> (\<forall>q. files k q = None \<longrightarrow> files k' q = None) \<and> (r = None \<longrightarrow> (\<forall>q \<in> domain_paths ds. files k' q = None))"
  using assms
proof (induction ds arbitrary: k)
  case (Cons x ds)
  let ?p = "filepath_Join resolverDir x"
  obtain w k1 where w: "mac_remove ops ?p k = (w, k1)" by (cases "mac_remove ops ?p k")
  note e = mac_remove_effect [OF w]
  have step: "remove_domain ops x k = (w, k1)" using w Cons.prems(2) by (auto simp: remove_domain_def)
  show ?case
  proof (cases w)
    case (Some y)
    then show ?thesis using Cons.prems(1) step e by (auto simp: domain_paths_def)
  next
    case None
    then have t: "try_each (remove_domain ops) ds k1 = (r, k')" using Cons.prems(1) step by simp
    have "[] \<notin> set ds" using Cons.prems(2) by simp
    note IH = Cons.IH [OF t this]
    then show ?thesis using e None by (auto simp: domain_paths_def)
  qed
qed (simp add: domain_paths_def)

definition split_state :: "string \<Rightarrow> string list \<Rightarrow> 'k \<Rightarrow> 'k \<Rightarrow> bool" where
  "split_state d ds k0 k \<longleftrightarrow> dns k = dns k0 \<and> search k = search k0
     \<and> (\<forall>q. q \<notin> domain_paths ds \<longrightarrow> q \<noteq> splitStatePath d \<longrightarrow> files k q = files k0 q)
     \<and> (files k (splitStatePath d) = Some (str_bytes (Join ds [nl] @ [nl]))
        \<or> files k (splitStatePath d) = None \<and> (\<forall>q \<in> domain_paths ds. files k q = None))"

lemma apply_split_effect:
  assumes "mac_ApplySplit ops d servers ds k0 = (None, k')" "paths_ok d ds"
  shows "split_state d ds k0 k' \<and> ds \<noteq> [] \<and> (\<forall>q \<in> domain_paths ds. files k' q = Some (str_bytes (resolverFileContent servers)))"
proof -
  have np: "splitStatePath d \<notin> domain_paths ds" "allStatePath d \<notin> domain_paths ds" using assms(2) by (simp_all add: paths_ok_def)
  let ?c = "str_bytes (Join ds [nl] @ [nl])"
  have ne: "ds \<noteq> []" using assms(1) by (auto simp: mac_ApplySplit_def)
  obtain x k1 where x: "mo_MkdirAll ops resolverDir k0 = (x, k1)" by (cases "mo_MkdirAll ops resolverDir k0")
  obtain y k2 where y: "mo_MkdirAll ops runtimeDir k1 = (y, k2)" by (cases "mo_MkdirAll ops runtimeDir k1")
  obtain t k3 where t: "try_each (write_domain ops servers) ds k2 = (t, k3)" by (cases "try_each (write_domain ops servers) ds k2")
  obtain w k4 where w: "mo_WriteFile ops (splitStatePath d) ?c k3 = (w, k4)" by (cases "mo_WriteFile ops (splitStatePath d) ?c k3")
  have "t = None" "w = Inr ()" "k' = k4" using assms(1) ne x y t w
    by (cases x; cases y; cases t; cases w; auto simp: mac_ApplySplit_def mac_bind_def)+
  moreover have "q \<noteq> splitStatePath d" if "q \<in> domain_paths ds" for q using that np(1) by auto
  ultimately show ?thesis using mkdir [OF x] mkdir [OF y] write_domains_effect [OF t] write_file [OF w] ne np
    by (auto simp: split_state_def)
qed

lemma revert_split_effect:
  assumes st: "split_state d ds k0 k" and ds: "ds \<noteq> []" "paths_ok d ds"
    and r: "revertSplit ops d k = (r, k')"
  shows "split_state d ds k0 k' \<and> (r = None \<longrightarrow> files k' (splitStatePath d) = None)"
proof (cases "files k (splitStatePath d)")
  case None
  then show ?thesis using revert_split_none [OF r None] st by (simp add: same_def split_state_def)
next
  case (Some bs)
  have np: "splitStatePath d \<notin> domain_paths ds" using ds(2) by (simp add: paths_ok_def)
  have bs: "bs = str_bytes (Join ds [nl] @ [nl])" using st Some by (simp add: split_state_def)
  have p: "\<forall>x \<in> set ds. x \<noteq> [] \<and> list_all plain x" using ds(2) by (simp add: paths_ok_def)
  have ls: "Split (TrimSpace (bytes_str bs)) nl = ds" using lines_text [OF ds(1) p] unfolding bs bytes_str_bytes by simp
  obtain x k1 where x: "mo_ReadFile ops (splitStatePath d) k = (x, k1)" by (cases "mo_ReadFile ops (splitStatePath d) k")
  note ex = read_file [OF x]
  show ?thesis
  proof (cases x)
    case (Inl e)
    then show ?thesis using r x ex st Some by (auto simp: revertSplit_def mac_bind_def split_state_def)
  next
    case (Inr v)
    then have v: "v = bs" using ex Some by simp
    obtain t k2 where t: "try_each (remove_domain ops) ds k1 = (t, k2)" by (cases "try_each (remove_domain ops) ds k1")
    have "[] \<notin> set ds" using p by auto
    note et = remove_domains_effect [OF t this]
    obtain w k3 where w: "mac_remove ops (splitStatePath d) k2 = (w, k3)" by (cases "mac_remove ops (splitStatePath d) k2")
    note ew = mac_remove_effect [OF w]
    show ?thesis
    proof (cases t)
      case None
      then have "r = w" "k' = k3" using r x Inr v ls t w by (simp_all add: revertSplit_def mac_bind_def)
      then show ?thesis using None ex et ew st Some np by (auto simp: split_state_def)
    next
      case (Some e)
      then have "r = Some e" "k' = k2" using r x Inr v ls t by (simp_all add: revertSplit_def mac_bind_def)
      then show ?thesis using ex et st \<open>files k (splitStatePath d) = Some bs\<close> bs np by (auto simp: split_state_def)
    qed
  qed
qed

lemma revert_split_all:
  assumes "split_state d ds k0 k" "ds \<noteq> []" "paths_ok d ds" "files k0 (allStatePath d) = None"
    and r: "mac_Revert ops d k = (r, k')"
  shows "split_state d ds k0 k' \<and> (r = None \<longrightarrow> files k' (splitStatePath d) = None)"
proof -
  obtain x k1 where x: "revertSplit ops d k = (x, k1)" by (cases "revertSplit ops d k")
  note e = revert_split_effect [OF assms(1-3) x]
  have "CHR ''/'' \<notin> set d" using assms(3) by (simp add: paths_ok_def)
  then have "allStatePath d \<noteq> splitStatePath d" by (simp add: state_paths)
  then have n: "files k1 (allStatePath d) = None" using e assms(3,4) by (simp add: split_state_def paths_ok_def)
  show ?thesis
  proof (cases x)
    case None
    then have "revertAll ops d k1 = (r, k')" using r x by (simp add: mac_Revert_def)
    then show ?thesis using revert_all_none [OF _ n] e None by (auto simp: same_def split_state_def)
  next
    case (Some y)
    then have "r = Some y" "k' = k1" using r x by (simp_all add: mac_Revert_def)
    then show ?thesis using e by simp
  qed
qed

text \<open>Any number of calls of \<open>Revert\<close>, whatever they return.\<close>

lemma reverts_inv:
  assumes "P k" "\<And>k r k'. P k \<Longrightarrow> mac_Revert ops d k = (r, k') \<Longrightarrow> P k'"
  shows "P (((\<lambda>k. snd (mac_Revert ops d k)) ^^ n) k)"
  by (induction n) (use assms in \<open>auto, metis prod.collapse\<close>)

lemma all_undone:
  assumes ok: "settings_ok k0" "files k0 (allStatePath d) = None" "files k0 (splitStatePath d) = None" "CHR ''/'' \<notin> set d"
    and a: "mac_ApplyAll ops d servers domains k0 = (r1, k1)" "r1 \<noteq> Some (WriteTo (allStatePath d))"
    and r: "mac_Revert ops d (((\<lambda>k. snd (mac_Revert ops d k)) ^^ n) k1) = (None, k3)"
  shows "same k0 k3"
proof -
  have "(\<lambda>k. same k0 k \<or> recoverable d k0 k) (((\<lambda>k. snd (mac_Revert ops d k)) ^^ n) k1)"
    by (rule reverts_inv) (use apply_all_effect [OF ok(1) a] revert_effect [OF ok] in blast)+
  then show ?thesis using revert_effect [OF ok _ r] by blast
qed

lemma split_undone:
  assumes ok: "paths_ok d ds" "files k0 (allStatePath d) = None" and a: "mac_ApplySplit ops d servers ds k0 = (None, k1)"
    and r: "mac_Revert ops d (((\<lambda>k. snd (mac_Revert ops d k)) ^^ n) k1) = (None, k3)"
  shows "(\<forall>q \<in> domain_paths ds. files k1 q = Some (str_bytes (resolverFileContent servers))) \<and> dns k3 = dns k0 \<and> search k3 = search k0
    \<and> (\<forall>q. files k3 q = (if q \<in> domain_paths ds \<or> q = splitStatePath d then None else files k0 q))"
proof -
  note e = apply_split_effect [OF a ok(1)]
  have "split_state d ds k0 (((\<lambda>k. snd (mac_Revert ops d k)) ^^ n) k1)"
    by (rule reverts_inv) (use e revert_split_all [OF _ _ ok] in blast)+
  then have "split_state d ds k0 k3 \<and> files k3 (splitStatePath d) = None" using revert_split_all [OF _ _ ok r] e by blast
  then show ?thesis using e by (auto simp: split_state_def)
qed

end

section \<open>A host in memory\<close>

record mem_mac =
  mm_files :: "string \<Rightarrow> bytes option"
  mm_dns :: "string \<Rightarrow> string list"
  mm_search :: "string \<Rightarrow> string list"
  mm_fail :: "bool list"

definition mac_call :: "(mem_mac \<Rightarrow> (call_error + 'a) \<times> mem_mac) \<Rightarrow> (mem_mac, 'a) mac" where
  "mac_call f k =
     (let k' = k\<lparr>mm_fail := tl (mm_fail k)\<rparr> in
      if mm_fail k \<noteq> [] \<and> hd (mm_fail k) then (Inl CallFailed, k') else f k')"

definition mem_run :: "string list \<Rightarrow> mem_mac \<Rightarrow> (call_error + string) \<times> mem_mac" where
  "mem_run args k =
     (if args ! 0 = ''route'' then (Inr ''  interface: en0'', k)
      else if args ! 1 = ''-listallhardwareports'' then (Inr (''Hardware Port: Wi-Fi'' @ [nl] @ ''Device: en0''), k)
      else let s = args ! 2; xs = drop 3 args; ys = if xs = [''empty''] then [] else xs in
        if args ! 1 = ''-getdnsservers'' then (Inr (report ''DNS Servers'' s (mm_dns k s)), k)
        else if args ! 1 = ''-getsearchdomains'' then (Inr (report ''Search Domains'' s (mm_search k s)), k)
        else if args ! 1 = ''-setdnsservers'' then (Inr [], k\<lparr>mm_dns := (mm_dns k)(s := ys)\<rparr>)
        else (Inr [], k\<lparr>mm_search := (mm_search k)(s := ys)\<rparr>))"

definition mem_mac_ops :: "mem_mac mac_ops" where
  "mem_mac_ops =
     \<lparr>mo_MkdirAll = (\<lambda>p. mac_call (\<lambda>k. (Inr (), k))),
      mo_ReadFile = (\<lambda>p. mac_call (\<lambda>k. (case mm_files k p of None \<Rightarrow> Inl FileNotExist | Some bs \<Rightarrow> Inr bs, k))),
      mo_WriteFile = (\<lambda>p bs. mac_call (\<lambda>k. (Inr (), k\<lparr>mm_files := (mm_files k)(p \<mapsto> bs)\<rparr>))),
      mo_Remove = (\<lambda>p. mac_call (\<lambda>k. if mm_files k p = None then (Inl FileNotExist, k) else (Inr (), k\<lparr>mm_files := (mm_files k)(p := None)\<rparr>))),
      mo_Run = (\<lambda>args. mac_call (mem_run args))\<rparr>"

interpretation memmac: mac_host mem_mac_ops mm_files mm_dns mm_search
  by unfold_locales
    (auto simp: mem_mac_ops_def mac_call_def mem_run_def Let_def split: if_splits option.splits)

section \<open>What a session does to the DNS settings\<close>

text \<open>
  C8: the DNS settings come back. Whatever calls fail and at whichever point \<open>ApplyAll\<close> stops, as long as it is not the
  write of its record, and however often \<open>Revert\<close> fails before: the first \<open>Revert\<close> that returns no error has given
  every network service its own servers and search domains back and left every file as it was.
\<close>

theorem mac_dns_restored:
  assumes "mac_host ops files dns search"
    and "\<forall>s. (\<exists>as. dns k0 s = map Addr_String as \<and> list_all addr_ok as) \<and> list_all name_ok (search k0 s)"
    and "CHR ''/'' \<notin> set d" "files k0 (allStatePath d) = None" "files k0 (splitStatePath d) = None"
    and "mac_ApplyAll ops d servers domains k0 = (r1, k1)" "r1 \<noteq> Some (WriteTo (allStatePath d))"
    and "mac_Revert ops d (((\<lambda>k. snd (mac_Revert ops d k)) ^^ n) k1) = (None, k3)"
  shows "dns k3 = dns k0 \<and> search k3 = search k0 \<and> files k3 = files k0"
proof -
  have "mac_host.settings_ok dns search k0" using assms(2) by (simp add: mac_host.settings_ok_def [OF assms(1)])
  from mac_host.all_undone [OF assms(1) this assms(4,5,3,6,7,8)] show ?thesis by (simp add: mac_host.same_def [OF assms(1)])
qed

text \<open>A host with one service, on which the eighth call fails, the one that sets the search domains.\<close>

definition wifi_host :: mem_mac where
  "wifi_host = \<lparr>mm_files = Map.empty, mm_dns = (\<lambda>s. if s = ''Wi-Fi'' then [Addr_String (V4 1)] else []),
     mm_search = (\<lambda>s. if s = ''Wi-Fi'' then [''home''] else []), mm_fail = replicate 7 False @ [True]\<rparr>"

lemmas mem_mac_defs = mem_mac_ops_def mac_call_def mem_run_def mac_bind_def Let_def

lemma wifi_service: "parseRouteGetInterface ''  interface: en0'' = Inr ''en0''"
    "serviceForInterface (''Hardware Port: Wi-Fi'' @ [nl] @ ''Device: en0'') ''en0'' = Inr ''Wi-Fi''"
  by code_simp+

lemma wifi_texts:
  "addr_ok (V4 w)" "name_ok ''home''" "name_ok ''corp''" "domain_ok ''corp''" "domain_ok ''hosts''"
  by (simp_all add: addr_ok_def IsValid_def name_ok_def domain_ok_def plain_def)

definition corp_host :: mem_mac where
  "corp_host = wifi_host\<lparr>mm_files := [allStatePath ''utun4'' \<mapsto> str_bytes (all_content ''Wi-Fi'' [V4 1] [''home''])],
     mm_dns := (mm_dns wifi_host)(''Wi-Fi'' := [Addr_String (V4 2)]), mm_fail := []\<rparr>"

lemma wifi_apply: "mac_ApplyAll mem_mac_ops ''utun4'' [V4 2] [''corp''] wifi_host =
    (Some (CommandFails [''networksetup'', ''-setsearchdomains'', ''Wi-Fi'', ''corp'']), corp_host)"
proof -
  have d: "parseDNSServersOutput (report ''DNS Servers'' ''Wi-Fi'' [Addr_String (V4 1)]) = Inr [V4 1]"
    using parse_dns_report [of "[V4 1]" "''Wi-Fi''"] wifi_texts by (simp del: Addr_String.simps)
  have e: "parseSearchDomainsOutput (report ''Search Domains'' ''Wi-Fi'' [''home'']) = [''home'']"
    using parse_search_report [of "[''home'']" "''Wi-Fi''"] wifi_texts by simp
  have n: "Addr_String (V4 2) \<noteq> ''empty''" using Addr_String_name [of "V4 2"] wifi_texts by (auto simp: name_ok_def)
  show ?thesis using wifi_service d e n
    by (simp add: mac_ApplyAll_def activeNetworkService_def run_output_def currentDNSServers_def currentSearchDomains_def saveAllState_def
        setDNSServers_def setSearchDomains_def runCommand_def mem_mac_defs wifi_host_def corp_host_def eval_nat_numeral del: Addr_String.simps)
qed

lemma wifi_revert: "\<exists>k3. mac_Revert mem_mac_ops ''utun4'' corp_host = (None, k3)"
proof -
  have p: "parse_state (all_content ''Wi-Fi'' [V4 1] [''home'']) = \<lparr>as_service = ''Wi-Fi'', as_dns = [Addr_String (V4 1)], as_search = [''home'']\<rparr>"
    using parse_state_content [of "''Wi-Fi''" "[V4 1]" "[''home'']"] wifi_texts by (simp del: Addr_String.simps)
  have "splitStatePath ''utun4'' \<noteq> allStatePath ''utun4''" by (simp add: state_paths)
  then show ?thesis using p wifi_texts(1) parse_saved_strings [of "[V4 1]"]
    by (simp add: mac_Revert_def revertSplit_def revertAll_def loadAllState_def setDNSServers_def setSearchDomains_def runCommand_def
        mac_remove_def mem_mac_defs corp_host_def del: Addr_String.simps)
qed

theorem mac_dns_restored_witness:
  "\<exists>k1 k3. mac_ApplyAll mem_mac_ops ''utun4'' [V4 2] [''corp''] wifi_host = (Some (CommandFails [''networksetup'', ''-setsearchdomains'', ''Wi-Fi'', ''corp'']), k1)
     \<and> mac_Revert mem_mac_ops ''utun4'' k1 = (None, k3) \<and> mm_dns k3 = mm_dns wifi_host \<and> mm_search k3 = mm_search wifi_host \<and> mm_files k3 = Map.empty"
proof -
  obtain k3 where r: "mac_Revert mem_mac_ops ''utun4'' corp_host = (None, k3)" using wifi_revert by blast
  have ok: "\<forall>s. (\<exists>as. mm_dns wifi_host s = map Addr_String as \<and> list_all addr_ok as) \<and> list_all name_ok (mm_search wifi_host s)"
    using wifi_texts by (auto simp: wifi_host_def simp del: Addr_String.simps intro!: exI [of _ "[V4 1]"])
  have f: "CHR ''/'' \<notin> set ''utun4''" "mm_files wifi_host p = None" for p by (simp_all add: wifi_host_def)
  show ?thesis using mac_dns_restored [OF memmac.mac_host_axioms ok f(1,2,2) wifi_apply, of 0 k3] r wifi_apply
    by (auto simp: wifi_host_def)
qed

text \<open>
  C1: split DNS comes and goes. After \<open>ApplySplit\<close> without error every domain has its file with the servers. The first \<open>Revert\<close>
  that returns no error has removed these files and the record, and nothing else has changed. A
  file of the same name from before the session is removed as well.
\<close>

theorem mac_split_undone:
  assumes "mac_host ops files dns search" "list_all domain_ok ds"
    and "CHR ''/'' \<notin> set d" "files k0 (allStatePath d) = None"
    and "mac_ApplySplit ops d servers ds k0 = (None, k1)"
    and "mac_Revert ops d (((\<lambda>k. snd (mac_Revert ops d k)) ^^ n) k1) = (None, k3)"
  shows "(\<forall>x \<in> set ds. files k1 (''/etc/resolver/'' @ x) = Some (str_bytes (resolverFileContent servers)))
    \<and> dns k3 = dns k0 \<and> search k3 = search k0
    \<and> (\<forall>q. files k3 q = (if (\<exists>x \<in> set ds. q = ''/etc/resolver/'' @ x) \<or> q = splitStatePath d then None else files k0 q))"
proof -
  have p: "q \<in> domain_paths ds \<longleftrightarrow> (\<exists>x \<in> set ds. q = ''/etc/resolver/'' @ x)" for q
    using assms(2) join_simple(2) unfolding domain_paths_def resolverDir_def list_all_iff domain_ok_def image_iff
    by (metis append_assoc append_Cons append_Nil)
  note u = mac_host.split_undone [OF assms(1) domain_ok_paths [OF assms(2,3)] assms(4-6)]
  have "\<forall>x \<in> set ds. files k1 (''/etc/resolver/'' @ x) = Some (str_bytes (resolverFileContent servers))" using u p by blast
  then show ?thesis using u unfolding p by blast
qed

lemma wifi_split:
  assumes "parse = Split (TrimSpace (bytes_str (str_bytes (Join [x] [nl] @ [nl])))) nl" "parse = [x]" "x \<noteq> []"
    and "filepath_Join resolverDir x \<noteq> splitStatePath ''utun4''" "filepath_Join resolverDir x \<noteq> allStatePath ''utun4''"
  shows "\<exists>k1 k2. mac_ApplySplit mem_mac_ops ''utun4'' [V4 2] [x] (wifi_host\<lparr>mm_fail := []\<rparr>) = (None, k1)
    \<and> mac_Revert mem_mac_ops ''utun4'' k1 = (None, k2)"
proof -
  have "splitStatePath ''utun4'' \<noteq> allStatePath ''utun4''" by (simp add: state_paths)
  moreover have "Split (TrimSpace (bytes_str (str_bytes x @ str_bytes [nl]))) nl = [x]" using assms(1,2) by simp
  ultimately show ?thesis using assms(3-5)
    by (simp add: mac_ApplySplit_def write_domain_def mac_Revert_def revertSplit_def revertAll_def loadAllState_def mac_remove_def
        remove_domain_def mem_mac_defs wifi_host_def del: Addr_String.simps)
qed

lemma wifi_split_ok:
  assumes "paths_ok ''utun4'' [x]"
  shows "\<exists>k1 k2. mac_ApplySplit mem_mac_ops ''utun4'' [V4 2] [x] (wifi_host\<lparr>mm_fail := []\<rparr>) = (None, k1)
    \<and> mac_Revert mem_mac_ops ''utun4'' k1 = (None, k2)"
proof -
  have p: "[x] \<noteq> []" "\<forall>y \<in> set [x]. y \<noteq> [] \<and> list_all plain y" using assms by (auto simp: paths_ok_def)
  show ?thesis
  proof (rule wifi_split [OF refl])
    show "Split (TrimSpace (bytes_str (str_bytes (Join [x] [nl] @ [nl])))) nl = [x]"
      unfolding bytes_str_bytes lines_text(3) [OF p] by (rule lines_text(2) [OF p])
  qed (use assms in \<open>auto simp: paths_ok_def domain_paths_def\<close>)
qed

theorem mac_split_undone_witness:
  "\<exists>k1 k3. mac_ApplySplit mem_mac_ops ''utun4'' [V4 2] [''corp''] (wifi_host\<lparr>mm_fail := []\<rparr>) = (None, k1)
     \<and> mac_Revert mem_mac_ops ''utun4'' k1 = (None, k3) \<and> mm_files k1 ''/etc/resolver/corp'' \<noteq> None \<and> mm_files k3 ''/etc/resolver/corp'' = None"
proof -
  have "paths_ok ''utun4'' [''corp'']" using domain_ok_paths [of "[''corp'']"] wifi_texts by simp
  then obtain k1 k2 where k: "mac_ApplySplit mem_mac_ops ''utun4'' [V4 2] [''corp''] (wifi_host\<lparr>mm_fail := []\<rparr>) = (None, k1)"
    "mac_Revert mem_mac_ops ''utun4'' k1 = (None, k2)" using wifi_split_ok by blast
  have d: "list_all domain_ok [''corp'']" "CHR ''/'' \<notin> set ''utun4''" "mm_files (wifi_host\<lparr>mm_fail := []\<rparr>) p = None" for p
    using wifi_texts by (simp_all add: wifi_host_def)
  show ?thesis using mac_split_undone [OF memmac.mac_host_axioms d k(1), of 0 k2] k by auto
qed

text \<open>
  C37: a domain can leave the directory. \<open>ApplySplit\<close> does not check the domains, which come from the manifest of the remote. With
  a domain like \<open>../hosts\<close> it overwrites \<open>/etc/hosts\<close> with the list of servers, and \<open>Revert\<close> deletes the file.
\<close>

theorem mac_split_escapes:
  assumes "mac_host ops files dns search" "domain_ok n"
    and "CHR ''/'' \<notin> set d" "files k0 (allStatePath d) = None"
    and "mac_ApplySplit ops d servers [''../'' @ n] k0 = (None, k1)" "mac_Revert ops d k1 = (None, k2)"
  shows "files k1 (''/etc/'' @ n) = Some (str_bytes (resolverFileContent servers)) \<and> files k2 (''/etc/'' @ n) = None"
  using mac_host.split_undone [OF assms(1) parent_paths(1) [OF assms(2,3)] assms(4,5), of 0 k2] assms(6)
  unfolding parent_paths(2) [OF assms(2,3)] by simp

theorem mac_split_escapes_witness:
  "\<exists>k1 k2. mac_ApplySplit mem_mac_ops ''utun4'' [V4 2] [''../hosts''] (wifi_host\<lparr>mm_fail := []\<rparr>) = (None, k1)
     \<and> mac_Revert mem_mac_ops ''utun4'' k1 = (None, k2) \<and> mm_files k1 ''/etc/hosts'' \<noteq> None \<and> mm_files k2 ''/etc/hosts'' = None"
proof -
  have d: "domain_ok ''hosts''" "CHR ''/'' \<notin> set ''utun4''" "mm_files (wifi_host\<lparr>mm_fail := []\<rparr>) p = None" for p
    using wifi_texts by (simp_all add: wifi_host_def)
  obtain k1 k2 where k: "mac_ApplySplit mem_mac_ops ''utun4'' [V4 2] [''../hosts''] (wifi_host\<lparr>mm_fail := []\<rparr>) = (None, k1)"
    "mac_Revert mem_mac_ops ''utun4'' k1 = (None, k2)"
    using wifi_split_ok [OF parent_paths(1) [OF d(1,2)]] by auto
  then show ?thesis using mac_split_escapes [OF memmac.mac_host_axioms d, of "[V4 2]" k1 k2] by auto
qed

end
