(* ===== verification/Darwin_Routes.thy ===== *)
theory Darwin_Routes
  imports Darwin_Dns
begin

text \<open>
  The macOS router and device of \<open>internal/platform/darwin\<close>: \<open>router.go\<close> and \<open>device.go\<close>, which run \<open>route\<close> and
  \<open>ifconfig\<close> and read the connected subnets out of what \<open>ifconfig -a\<close> prints.
\<close>

section \<open>The router\<close>

datatype mac_net_error =
    ChangeRoute string prefix
  | IfconfigFailed
  | MalformedLine string | BadAddress string | NoMask string | BadMask string
  | LineTooLong
  | SetAddress prefix
  | BringUp
  | DestroyDevice

definition routeArgs :: "string \<Rightarrow> string \<Rightarrow> prefix \<Rightarrow> string list" where
  "routeArgs verb device p =
     (let family = if Is6 (pfx_addr p) then ''-inet6'' else ''-inet'' in
      [''-q'', ''-n'', verb, family, Prefix_String p, ''-interface'', device])"

definition change_route :: "'k mac_ops \<Rightarrow> string \<Rightarrow> string \<Rightarrow> prefix \<Rightarrow> 'k \<Rightarrow> mac_net_error option \<times> 'k" where
  "change_route ops verb device p k =
     (case runCommand ops (''route'' # routeArgs verb device p) k of
        (Some _, k) \<Rightarrow> (Some (ChangeRoute verb p), k)
      | (None, k) \<Rightarrow> (None, k))"

definition router_change :: "'k mac_ops \<Rightarrow> string \<Rightarrow> string \<Rightarrow> prefix list \<Rightarrow> 'k \<Rightarrow> mac_net_error option \<times> 'k" where
  "router_change ops verb device ps k = try_each (change_route ops verb device) ps k"

definition mac_Add :: "'k mac_ops \<Rightarrow> string \<Rightarrow> prefix list \<Rightarrow> 'k \<Rightarrow> mac_net_error option \<times> 'k" where
  "mac_Add ops device ps = router_change ops ''add'' device ps"

definition mac_Remove :: "'k mac_ops \<Rightarrow> string \<Rightarrow> prefix list \<Rightarrow> 'k \<Rightarrow> mac_net_error option \<times> 'k" where
  "mac_Remove ops device ps = router_change ops ''delete'' device ps"

definition mac_Reset :: "'k \<Rightarrow> mac_net_error option \<times> 'k" where
  "mac_Reset k = (None, k)"

section \<open>Connected subnets\<close>

fun indexOf :: "string list \<Rightarrow> string \<Rightarrow> nat option" where
  "indexOf [] target = None"
| "indexOf (f # fs) target = (if f = target then Some 0 else map_option Suc (indexOf fs target))"

text \<open>\<open>strconv.ParseUint(s, 16, 32)\<close> and \<open>bits.OnesCount32\<close>.\<close>

definition ParseUint16 :: "string \<Rightarrow> nat option" where
  "ParseUint16 s = (if s = [] \<or> \<not> list_all is_hex s \<or> 2 ^ 32 \<le> hex_val s then None else Some (hex_val s))"

definition OnesCount32 :: "32 word \<Rightarrow> nat" where
  "OnesCount32 w = length (filter (bit w) [0..<32])"

definition hexMaskBits :: "string \<Rightarrow> mac_net_error + nat" where
  "hexMaskBits hex =
     (let h = fst (CutPrefix hex ''0x'') in
      case ParseUint16 h of None \<Rightarrow> Inl (BadMask h) | Some v \<Rightarrow> Inr (OnesCount32 (word_of_nat v)))"

definition parseInet :: "string list \<Rightarrow> mac_net_error + prefix option" where
  "parseInet fs =
     (if length fs < 2 then Inl (MalformedLine (Join fs '' ''))
      else if 3 \<le> length fs \<and> fs ! 2 = ''-->'' then Inr None
      else case ParseAddr (fs ! 1) of
        None \<Rightarrow> Inl (BadAddress (fs ! 1))
      | Some addr \<Rightarrow>
          (case indexOf fs ''netmask'' of
             None \<Rightarrow> Inl (NoMask (Join fs '' ''))
           | Some idx \<Rightarrow>
               if length fs \<le> idx + 1 then Inl (NoMask (Join fs '' ''))
               else (case hexMaskBits (fs ! (idx + 1)) of
                       Inl e \<Rightarrow> Inl e
                     | Inr bits \<Rightarrow> Inr (Some (Masked (PrefixFrom addr (int bits)))))))"

definition parseInet6 :: "string list \<Rightarrow> mac_net_error + prefix option" where
  "parseInet6 fs =
     (if length fs < 2 then Inl (MalformedLine (Join fs '' ''))
      else if 3 \<le> length fs \<and> fs ! 2 = ''-->'' then Inr None
      else case ParseAddr (fst (Cut (fs ! 1) (CHR ''%''))) of
        None \<Rightarrow> Inl (BadAddress (fs ! 1))
      | Some addr \<Rightarrow>
          (case indexOf fs ''prefixlen'' of
             None \<Rightarrow> Inl (NoMask (Join fs '' ''))
           | Some idx \<Rightarrow>
               if length fs \<le> idx + 1 then Inl (NoMask (Join fs '' ''))
               else (case Atoi (fs ! (idx + 1)) of
                       None \<Rightarrow> Inl (BadMask (fs ! (idx + 1)))
                     | Some bits \<Rightarrow> Inr (Some (Masked (PrefixFrom addr bits))))))"

fun connected_lines :: "string list \<Rightarrow> bool \<Rightarrow> mac_net_error + prefix list" where
  "connected_lines [] skip = Inr []"
| "connected_lines (raw # ls) skip =
     (if 65536 \<le> length raw then Inl LineTooLong
      else let line = drop_cr raw in
      if line \<noteq> [] \<and> hd line \<noteq> CHR '' '' \<and> hd line \<noteq> CHR 0x09
      then (case Cut line (CHR '':'') of
              (iface, _, True) \<Rightarrow> connected_lines ls (HasPrefix iface ''lo'')
            | (_, _, False) \<Rightarrow> connected_lines ls skip)
      else if skip then connected_lines ls skip
      else case Fields line of
        [] \<Rightarrow> connected_lines ls skip
      | f # fs \<Rightarrow>
          (if f = ''inet'' \<or> f = ''inet6''
           then (case (if f = ''inet'' then parseInet (f # fs) else parseInet6 (f # fs)) of
                   Inl e \<Rightarrow> Inl e
                 | Inr p \<Rightarrow>
                     (case connected_lines ls skip of
                        Inl e \<Rightarrow> Inl e
                      | Inr ps \<Rightarrow> Inr (case p of None \<Rightarrow> ps | Some q \<Rightarrow> q # ps)))
           else connected_lines ls skip))"

definition parseConnected :: "string \<Rightarrow> mac_net_error + prefix list" where
  "parseConnected out = connected_lines (scan_lines out) False"

definition mac_Connected :: "'k mac_ops \<Rightarrow> 'k \<Rightarrow> (mac_net_error + prefix list) \<times> 'k" where
  "mac_Connected ops =
     mac_bind (mo_Run ops [''ifconfig'', ''-a'']) (\<lambda>_ k. (Inl IfconfigFailed, k)) (\<lambda>out k. (parseConnected out, k))"

section \<open>The device\<close>

text \<open>The pattern \<open>^utun([0-9]+)?$\<close>.\<close>

definition normalizeUtunName :: "string \<Rightarrow> string" where
  "normalizeUtunName name = (if HasPrefix name ''utun'' \<and> list_all is_digit (drop 4 name) then name else ''utun'')"

text \<open>\<open>net.CIDRMask(bits, 32)\<close> as an address.\<close>

definition mask4 :: "int \<Rightarrow> 32 word" where
  "mask4 bits = push_bit (32 - nat bits) (- 1)"

definition inet4AliasArgs :: "string \<Rightarrow> prefix \<Rightarrow> string list" where
  "inet4AliasArgs name p =
     (let addr = Addr_String (pfx_addr p) in
      [name, ''inet'', addr, addr, ''netmask'', show_v4 (mask4 (pfx_bits p)), ''alias''])"

definition inet6AliasArgs :: "string \<Rightarrow> prefix \<Rightarrow> string list" where
  "inet6AliasArgs name p = [name, ''inet6'', Addr_String (pfx_addr p), ''prefixlen'', Itoa (pfx_bits p), ''alias'']"

definition add_alias :: "'k mac_ops \<Rightarrow> string \<Rightarrow> prefix \<Rightarrow> 'k \<Rightarrow> mac_net_error option \<times> 'k" where
  "add_alias ops name p k =
     (case runCommand ops (''ifconfig'' # (if Is4 (pfx_addr p) then inet4AliasArgs name p else inet6AliasArgs name p)) k of
        (Some _, k) \<Rightarrow> (Some (SetAddress p), k)
      | (None, k) \<Rightarrow> (None, k))"

definition mac_Configure :: "'k mac_ops \<Rightarrow> string \<Rightarrow> prefix list \<Rightarrow> 'k \<Rightarrow> mac_net_error option \<times> 'k" where
  "mac_Configure ops name addrs k =
     (case try_each (add_alias ops name) addrs k of
        (Some e, k) \<Rightarrow> (Some e, k)
      | (None, k) \<Rightarrow>
          (case runCommand ops [''ifconfig'', name, ''up''] k of (Some _, k) \<Rightarrow> (Some BringUp, k) | (None, k) \<Rightarrow> (None, k)))"

definition mac_Delete :: "'k mac_ops \<Rightarrow> string \<Rightarrow> 'k \<Rightarrow> mac_net_error option \<times> 'k" where
  "mac_Delete ops name k =
     (case runCommand ops [''ifconfig'', name, ''destroy''] k of (Some _, k) \<Rightarrow> (Some DestroyDevice, k) | (None, k) \<Rightarrow> (None, k))"

section \<open>What the connected subnets are\<close>

text \<open>
  What \<open>ifconfig -a\<close> prints: for each interface its name and flags on a line of their own, then its
  settings on indented lines. An address on a shared subnet comes with its mask, a point-to-point
  address with its peer, and there are settings of other kinds.
\<close>

datatype if_line =
    Subnet4 "32 word" string nat "string list"
  | Subnet6 "128 word" string nat "string list"
  | PointToPoint bool string "string list"
  | Setting string "string list"

record interface =
  if_name :: string
  if_flags :: string
  if_lines :: "if_line list"

fun line_words :: "if_line \<Rightarrow> string list" where
  "line_words (Subnet4 w m n rest) = [''inet'', Addr_String (V4 w), ''netmask'', m] @ rest"
| "line_words (Subnet6 w z n rest) = [''inet6'', Addr_String (V6 w z), ''prefixlen'', show_nat n] @ rest"
| "line_words (PointToPoint v6 a rest) = [if v6 then ''inet6'' else ''inet'', a, ''-->''] @ rest"
| "line_words (Setting k rest) = k # rest"

fun line_ok :: "if_line \<Rightarrow> bool" where
  "line_ok (Subnet4 w m n rest) = (hexMaskBits m = Inr n)"
| "line_ok (Subnet6 w z n rest) = (n \<le> 128)"
| "line_ok (PointToPoint v6 a rest) = True"
| "line_ok (Setting k rest) = (k \<noteq> ''inet'' \<and> k \<noteq> ''inet6'')"

fun subnet_of :: "if_line \<Rightarrow> prefix option" where
  "subnet_of (Subnet4 w m n rest) = Some (Masked (PrefixFrom (V4 w) (int n)))"
| "subnet_of (Subnet6 w z n rest) = Some (Masked (PrefixFrom (V6 w []) (int n)))"
| "subnet_of _ = None"

definition line_text :: "if_line \<Rightarrow> string" where
  "line_text l = CHR 0x09 # Join (line_words l) '' ''"

definition head_text :: "interface \<Rightarrow> string" where
  "head_text i = if_name i @ CHR '':'' # if_flags i"

definition if_text :: "interface \<Rightarrow> string list" where
  "if_text i = head_text i # map line_text (if_lines i)"

definition text_line_ok :: "string \<Rightarrow> bool" where
  "text_line_ok s \<longleftrightarrow> nl \<notin> set s \<and> length s < 65536 \<and> last s \<noteq> CHR 0x0D"

definition interface_ok :: "interface \<Rightarrow> bool" where
  "interface_ok i \<longleftrightarrow> if_name i \<noteq> [] \<and> plain (hd (if_name i)) \<and> CHR '':'' \<notin> set (if_name i) \<and> text_line_ok (head_text i)
     \<and> (\<forall>l \<in> set (if_lines i). line_ok l \<and> (\<forall>w \<in> set (line_words l). w \<noteq> [] \<and> list_all plain w) \<and> length (line_text l) < 65536)"

definition subnets :: "interface \<Rightarrow> prefix list" where
  "subnets i = (if HasPrefix (if_name i) ''lo'' then [] else List.map_filter subnet_of (if_lines i))"

lemma Fields_tab: "Fields (CHR 0x09 # s) = Fields s"
proof -
  have "match_len go_spaces (CHR 0x09 # s) = 1" by (simp add: match_len_def go_spaces_def)
  then show ?thesis unfolding Fields_def by (subst fields_from.simps) simp
qed

lemma line_text_ok:
  assumes "\<forall>w \<in> set (line_words l). w \<noteq> [] \<and> list_all plain w"
  shows "nl \<notin> set (line_text l)" "Fields (line_text l) = line_words l" "drop_cr (line_text l) = line_text l"
proof -
  have ne: "line_words l \<noteq> []" by (cases l) simp_all
  have "\<not> plain nl" "\<not> plain (CHR 0x0D)" by (simp_all add: plain_def)
  then show "nl \<notin> set (line_text l)" using Join_set [of "line_words l" "'' ''"] assms by (auto simp: line_text_def list_all_iff)
  show "Fields (line_text l) = line_words l" using Fields_Join [OF assms] by (simp add: line_text_def Fields_tab)
  show "drop_cr (line_text l) = line_text l" using Join_ends_plain [OF ne assms, of "'' ''"] \<open>\<not> plain (CHR 0x0D)\<close>
    by (auto simp: line_text_def drop_cr_def)
qed

lemma inet6_address:
  "ParseAddr (fst (Cut (Addr_String (V6 w z)) (CHR ''%''))) = Some (V6 w [])"
proof -
  have t: "Addr_String (V6 w z) = Addr_String (V6 w []) @ (if z = [] then [] else CHR ''%'' # z)" by simp
  have ok: "addr_ok (V6 w [])" by (simp add: addr_ok_def IsValid_def)
  have "\<not> is_hex (CHR ''%'')" by (simp add: is_hex_def hex_digit_def)
  then have "CHR ''%'' \<notin> set (Addr_String (V6 w []))" using Addr_String_chars [OF ok, of "CHR ''%''"] by auto
  then have "fst (Cut (Addr_String (V6 w z)) (CHR ''%'')) = Addr_String (V6 w [])"
    unfolding t by (cases "z = []") simp_all
  then show ?thesis using ParseAddr_String [of "V6 w []"] ok by (simp add: addr_ok_def)
qed

lemma address_words: "Addr_String (V4 w) \<noteq> ''netmask''" "Addr_String (V6 v z) \<noteq> ''prefixlen''"
proof -
  show "Addr_String (V4 w) \<noteq> ''netmask''"
    using Addr_String_name [of "V4 w"] Addr_String_chars [of "V4 w" "CHR ''n''"]
    by (auto simp: addr_ok_def IsValid_def is_hex_def hex_digit_def)
  have "ParseAddr (fst (Cut ''prefixlen'' (CHR ''%''))) = None" by code_simp
  then show "Addr_String (V6 v z) \<noteq> ''prefixlen''" using inet6_address [of v z] by (intro notI) (simp del: Addr_String.simps)
qed

lemma parse_line:
  assumes "line_ok l"
  shows "case line_words l of [] \<Rightarrow> False | f # fs \<Rightarrow>
    if f = ''inet'' then parseInet (f # fs) = Inr (subnet_of l)
    else if f = ''inet6'' then parseInet6 (f # fs) = Inr (subnet_of l) else subnet_of l = None"
proof (cases l)
  case (Subnet4 w m n rest)
  have "ParseAddr (Addr_String (V4 w)) = Some (V4 w)" by simp
  moreover have "Addr_String (V4 w) \<noteq> ''netmask''" by (rule address_words)
  ultimately show ?thesis using assms Subnet4 by (simp add: parseInet_def numeral_2_eq_2 numeral_3_eq_3 del: Addr_String.simps)
next
  case (Subnet6 w z n rest)
  define a where "a = Addr_String (V6 w z)"
  have "Atoi (show_nat n) = Some (int n)" using assms Subnet6 by simp
  moreover have "ParseAddr (fst (Cut a (CHR ''%''))) = Some (V6 w [])" "a \<noteq> ''prefixlen''"
    using inet6_address [of w z] address_words(2) [of w z] unfolding a_def by blast+
  moreover have "line_words l = [''inet6'', a, ''prefixlen'', show_nat n] @ rest" by (simp add: Subnet6 a_def)
  ultimately show ?thesis using Subnet6 by (simp add: parseInet6_def numeral_2_eq_2 numeral_3_eq_3)
next
  case (PointToPoint v6 a rest)
  then show ?thesis by (simp add: parseInet_def parseInet6_def numeral_2_eq_2 numeral_3_eq_3)
next
  case (Setting k rest)
  then show ?thesis using assms by simp
qed

lemma connected_line:
  assumes "line_ok l" "\<forall>w \<in> set (line_words l). w \<noteq> [] \<and> list_all plain w" "length (line_text l) < 65536"
  shows "connected_lines (line_text l # ls) skip =
    (case connected_lines ls skip of Inl e \<Rightarrow> Inl e | Inr ps \<Rightarrow> Inr ((if skip then [] else List.map_filter subnet_of [l]) @ ps))"
proof -
  obtain f fs where f: "line_words l = f # fs" using parse_line [OF assms(1)] by (cases "line_words l") auto
  have p: "if f = ''inet'' then parseInet (f # fs) = Inr (subnet_of l)
    else if f = ''inet6'' then parseInet6 (f # fs) = Inr (subnet_of l) else subnet_of l = None"
    using parse_line [OF assms(1)] unfolding f by simp
  have h: "hd (line_text l) = CHR 0x09" by (simp add: line_text_def)
  note t = line_text_ok [OF assms(2)]
  have step: "connected_lines (line_text l # ls) skip =
      (if skip then connected_lines ls skip
       else if f = ''inet'' \<or> f = ''inet6''
       then (case (if f = ''inet'' then parseInet (f # fs) else parseInet6 (f # fs)) of
               Inl e \<Rightarrow> Inl e
             | Inr p \<Rightarrow> (case connected_lines ls skip of
                    Inl e \<Rightarrow> Inl e | Inr ps \<Rightarrow> Inr (case p of None \<Rightarrow> ps | Some q \<Rightarrow> q # ps)))
       else connected_lines ls skip)"
    using assms(3) by (simp add: t(3) t(2) h f)
  show ?thesis using p unfolding step
    by (auto simp: map_filter_simps split: sum.splits option.splits if_splits)
qed

lemma connected_body:
  assumes "\<forall>l \<in> set xs. line_ok l \<and> (\<forall>w \<in> set (line_words l). w \<noteq> [] \<and> list_all plain w) \<and> length (line_text l) < 65536"
  shows "connected_lines (map line_text xs @ ls) skip =
    (case connected_lines ls skip of Inl e \<Rightarrow> Inl e | Inr ps \<Rightarrow> Inr ((if skip then [] else List.map_filter subnet_of xs) @ ps))"
  using assms
proof (induction xs)
  case (Cons l xs)
  then show ?case using connected_line [of l "map line_text xs @ ls" skip]
    by (auto simp: map_filter_simps simp del: connected_lines.simps split: sum.splits option.splits)
qed (simp add: map_filter_simps split: sum.splits)

lemma connected_all:
  assumes "\<forall>i \<in> set ifs. interface_ok i"
  shows "connected_lines (concat (map if_text ifs)) skip = Inr (concat (map subnets ifs))"
  using assms
proof (induction ifs arbitrary: skip)
  case (Cons i ifs)
  have i: "interface_ok i" using Cons.prems by simp
  have "plain (hd (head_text i))" "head_text i \<noteq> []" using i by (auto simp: interface_ok_def head_text_def)
  then have "hd (head_text i) \<noteq> CHR '' ''" "hd (head_text i) \<noteq> CHR 0x09" "drop_cr (head_text i) = head_text i" "length (head_text i) < 65536"
    using i by (auto simp: interface_ok_def text_line_ok_def drop_cr_def plain_def)
  moreover have "Cut (head_text i) (CHR '':'') = (if_name i, if_flags i, True)" using i by (simp add: interface_ok_def head_text_def)
  ultimately have "connected_lines (head_text i # ls) skip = connected_lines ls (HasPrefix (if_name i) ''lo'')" for ls
    using \<open>head_text i \<noteq> []\<close> by simp
  then have "connected_lines (concat (map if_text (i # ifs))) skip =
      connected_lines (map line_text (if_lines i) @ concat (map if_text ifs)) (HasPrefix (if_name i) ''lo'')"
    by (simp only: list.map concat.simps if_text_def append_Cons)
  also have "\<dots> = Inr (subnets i @ concat (map subnets ifs))"
    using connected_body [of "if_lines i" "concat (map if_text ifs)" "HasPrefix (if_name i) ''lo''"] i
      Cons.IH [of "HasPrefix (if_name i) ''lo''"] Cons.prems
    by (simp add: interface_ok_def [of i] subnets_def [of i] del: connected_lines.simps)
  finally show ?case by simp
qed simp


definition mac_host_output :: "string \<Rightarrow> unit mac_ops" where
  "mac_host_output out = \<lparr>mo_MkdirAll = (\<lambda>_ k. (Inr (), k)), mo_ReadFile = (\<lambda>_ k. (Inl FileNotExist, k)),
     mo_WriteFile = (\<lambda>_ _ k. (Inr (), k)), mo_Remove = (\<lambda>_ k. (Inr (), k)), mo_Run = (\<lambda>_ k. (Inr out, k))\<rparr>"

definition laptop :: "interface list" where
  "laptop =
     [\<lparr>if_name = ''lo0'', if_flags = '' flags=8049 mtu 16384'', if_lines = [Subnet4 0 ''0xff'' 8 []]\<rparr>,
      \<lparr>if_name = ''en0'', if_flags = '' flags=8863 mtu 1500'',
       if_lines = [Setting ''ether'' [''aa:bb''], Subnet4 0 ''0xffffff00'' 24 [''broadcast'']]\<rparr>,
      \<lparr>if_name = ''utun4'', if_flags = '' flags=8051 mtu 1280'', if_lines = [PointToPoint False ''10.0.0.1'' []]\<rparr>]"

lemma laptop_ok: "\<forall>i \<in> set laptop. interface_ok i"
proof -
  have "[0..<32::nat] = [0,1,2,3,4,5,6,7,8,9,10,11,12,13,14,15,16,17,18,19,20,21,22,23,24,25,26,27,28,29,30,31]" by code_simp
  then have m: "hexMaskBits ''0xff'' = Inr 8" "hexMaskBits ''0xffffff00'' = Inr 24"
    by (simp_all add: hexMaskBits_def CutPrefix_def HasPrefix_def ParseUint16_def hex_val_def is_hex_def hex_digit_def OnesCount32_def)
  have a: "Addr_String (V4 0) \<noteq> []" "list_all plain (Addr_String (V4 0))"
    using Addr_String_name [of "V4 0"] by (simp_all add: addr_ok_def IsValid_def name_ok_def del: Addr_String.simps)
  have "be_put (Suc (Suc (Suc (Suc 0)))) 0 = [0, 0, 0, 0]" "(4 :: nat) = Suc (Suc (Suc (Suc 0)))" by simp_all
  then have "be_put 4 0 = [0, 0, 0, 0]" by (simp only:)
  then have "length (show_v4 0) < 100" by (simp add: show_v4_def As4_def show_nat_0)
  then have "length (Addr_String (V4 0)) < 100" by simp
  with m a show ?thesis
    by (simp add: laptop_def interface_ok_def text_line_ok_def head_text_def line_text_def plain_def del: Addr_String.simps)
qed


end
