(* ===== verification/Config.thy ===== *)
theory Config
  imports Networks Go_Float "HOL-Library.AList" "HOL-Library.Char_ord" "HOL-Library.List_Lexorder"
begin

text \<open>
  The local configuration: \<open>internal/config/config.go\<close> with the settings and their validation,
  the flag values of \<open>internal/cli/flags.go\<close>, the commands \<open>tj alias\<close> (\<open>alias.go\<close>) and
  \<open>tj config\<close> (\<open>config_cmd.go\<close>) that edit the file, and \<open>saveLocalConfig\<close>, \<open>resolveAlias\<close> and
  \<open>sshUser\<close> of \<open>common.go\<close>. A command is a function from the configuration it loaded to the
  configuration it saves; YAML and the file are outside. The map of remotes is an association
  list with distinct keys.
\<close>

section \<open>Durations\<close>

text \<open>
  \<open>time.ParseDuration\<close>, in nanoseconds. \<open>leadingInt\<close> fails above 2^63; \<open>leadingFraction\<close> drops
  the digits that do not fit.
\<close>

fun leadingInt :: "nat \<Rightarrow> string \<Rightarrow> (nat \<times> string) option" where
  "leadingInt x [] = Some (x, [])"
| "leadingInt x (c # s) =
     (if \<not> is_digit c then Some (x, c # s)
      else if x > 2 ^ 63 div 10 then None
      else let y = x * 10 + (of_char c - 48) in if y > 2 ^ 63 then None else leadingInt y s)"

fun leadingFraction :: "nat \<Rightarrow> nat \<Rightarrow> bool \<Rightarrow> string \<Rightarrow> nat \<times> nat \<times> string" where
  "leadingFraction x scale over [] = (x, scale, [])"
| "leadingFraction x scale over (c # s) =
     (if \<not> is_digit c then (x, scale, c # s)
      else if over \<or> x > (2 ^ 63 - 1) div 10 then leadingFraction x scale True s
      else let y = x * 10 + (of_char c - 48) in
           if y > 2 ^ 63 then leadingFraction x scale True s else leadingFraction y (scale * 10) False s)"

definition unitMap :: "string \<rightharpoonup> nat" where
  "unitMap = map_of [(''ns'', 1), (''us'', 1000), ([char_of (0xC2::nat), char_of (0xB5::nat), CHR ''s''], 1000),
     ([char_of (0xCE::nat), char_of (0xBC::nat), CHR ''s''], 1000), (''ms'', 1000000), (''s'', 1000000000),
     (''m'', 60000000000), (''h'', 3600000000000)]"

definition num_char :: "char \<Rightarrow> bool" where "num_char c \<longleftrightarrow> c = CHR ''.'' \<or> is_digit c"

text \<open>One number with its unit: the value and the rest of the text.\<close>

definition duration_item :: "string \<Rightarrow> (nat \<times> string) option" where
  "duration_item s =
     (if s = [] \<or> \<not> num_char (hd s) then None
      else case leadingInt 0 s of None \<Rightarrow> None
      | Some (v, s1) \<Rightarrow>
          let pre = (length s1 \<noteq> length s);
              dot = (s1 \<noteq> [] \<and> hd s1 = CHR ''.'');
              (f, scale, s2) = (if dot then leadingFraction 0 1 False (tl s1) else (0, 1, s1));
              post = (dot \<and> length s2 \<noteq> length (tl s1));
              u = takeWhile (\<lambda>c. \<not> num_char c) s2
          in if \<not> pre \<and> \<not> post then None
             else if u = [] then None
             else case unitMap u of None \<Rightarrow> None
             | Some unit_ns \<Rightarrow>
                 if v > 2 ^ 63 div unit_ns then None
                 else let v1 = v * unit_ns;
                          v2 = (if f > 0 then v1 + nat \<lfloor>f64 (f64 (of_nat f) * f64 (of_nat unit_ns / of_nat scale))\<rfloor> else v1)
                      in if v2 > 2 ^ 63 then None else Some (v2, dropWhile (\<lambda>c. \<not> num_char c) s2))"

lemma leadingInt_length: "leadingInt x s = Some (v, r) \<Longrightarrow> length r \<le> length s"
  by (induction x s rule: leadingInt.induct) (auto simp: Let_def split: if_splits)

lemma leadingFraction_length: "leadingFraction x sc b s = (f, sc', r) \<Longrightarrow> length r \<le> length s"
proof (induction s arbitrary: x sc b)
  case (Cons c s)
  then show ?case by (auto simp: Let_def le_SucI split: if_splits)
qed simp

lemma dropWhile_shorter: "takeWhile P xs \<noteq> [] \<Longrightarrow> length (dropWhile P xs) < length xs"
  by (cases xs) (auto simp: length_dropWhile_le le_imp_less_Suc split: if_splits)

lemma duration_item_shorter:
  assumes "duration_item s = Some (v, r)"
  shows "length r < length s"
proof -
  obtain v0 s1 where li: "leadingInt 0 s = Some (v0, s1)"
    using assms by (auto simp: duration_item_def split: if_splits option.splits)
  define dot where "dot = (s1 \<noteq> [] \<and> hd s1 = CHR ''.'')"
  obtain f sc s2 where lf: "(if dot then leadingFraction 0 1 False (tl s1) else (0, 1, s1)) = (f, sc, s2)"
    by (cases "if dot then leadingFraction 0 1 False (tl s1) else (0, 1, s1)") auto
  have u: "takeWhile (\<lambda>c. \<not> num_char c) s2 \<noteq> []" "r = dropWhile (\<lambda>c. \<not> num_char c) s2"
    using assms by (auto simp: duration_item_def li lf dot_def [symmetric] Let_def split: if_splits option.splits)
  have "length s2 \<le> length s1" using lf leadingFraction_length [of 0 1 False "tl s1" f sc s2] by (auto split: if_splits)
  then show ?thesis using dropWhile_shorter [OF u(1)] leadingInt_length [OF li] by (simp add: u(2))
qed

function duration_items :: "nat \<Rightarrow> string \<Rightarrow> nat option" where
  "duration_items d s =
     (if s = [] then Some d
      else case duration_item s of None \<Rightarrow> None
      | Some (v, r) \<Rightarrow>
          let d' = (d + v) mod 2 ^ 64 in if d' > 2 ^ 63 then None else duration_items d' r)"
  by pat_completeness auto
termination by (relation "measure (length \<circ> snd)") (auto simp: duration_item_shorter)

declare duration_items.simps [simp del]

definition ParseDuration :: "string \<Rightarrow> int option" where
  "ParseDuration s0 =
     (let signed = (s0 \<noteq> [] \<and> (hd s0 = CHR ''-'' \<or> hd s0 = CHR ''+''));
          neg = (signed \<and> hd s0 = CHR ''-'');
          s = (if signed then tl s0 else s0)
      in if s = ''0'' then Some 0
         else if s = [] then None
         else case duration_items 0 s of None \<Rightarrow> None
         | Some d \<Rightarrow> if neg then Some (- int d) else if d > 2 ^ 63 - 1 then None else Some (int d))"

section \<open>Settings\<close>

record defaults =
  df_User :: string
  df_DNS :: string
  df_Transport :: string
  df_Protocols :: string
  df_ReconnectFor :: string

record remote_config =
  rc_Host :: string
  rc_User :: string
  rc_DNS :: string
  rc_Transport :: string
  rc_Protocols :: string
  rc_Networks :: "string list"
  rc_Exclude :: "string list"
  rc_ReconnectFor :: string

record config =
  cf_Version :: int
  cf_Defaults :: defaults
  cf_Exclude :: "string list"
  cf_Remotes :: "(string \<times> remote_config) list"

definition zero_remote :: remote_config where
  "zero_remote = \<lparr>rc_Host = [], rc_User = [], rc_DNS = [], rc_Transport = [], rc_Protocols = [],
     rc_Networks = [], rc_Exclude = [], rc_ReconnectFor = []\<rparr>"

definition zero_config :: config where
  "zero_config = \<lparr>cf_Version = 0, cf_Defaults = \<lparr>df_User = [], df_DNS = [], df_Transport = [],
     df_Protocols = [], df_ReconnectFor = []\<rparr>, cf_Exclude = [], cf_Remotes = []\<rparr>"

datatype config_error =
    VersionInvalid int
  | DNSInvalid string string
  | TransportInvalid string string
  | ProtocolsInvalid string string
  | ReconnectInvalid string string
  | ExcludeInvalid network_error
  | HostRequired string
  | RemoteNetworksInvalid string network_error
  | RemoteExcludeInvalid string network_error

definition validateValues :: "string \<Rightarrow> string \<Rightarrow> string \<Rightarrow> string \<Rightarrow> config_error option" where
  "validateValues block dns transport protocols =
     (if dns \<noteq> [] \<and> \<not> dns_Valid dns then Some (DNSInvalid block dns)
      else if transport \<noteq> [] \<and> \<not> mode_Valid transport then Some (TransportInvalid block transport)
      else if protocols \<noteq> [] \<and> \<not> proto_Valid protocols then Some (ProtocolsInvalid block protocols)
      else None)"

definition validateReconnectFor :: "string \<Rightarrow> string \<Rightarrow> config_error option" where
  "validateReconnectFor block value =
     (if value = [] then None
      else case ParseDuration value of
        Some d \<Rightarrow> if d < 0 then Some (ReconnectInvalid block value) else None
      | None \<Rightarrow> Some (ReconnectInvalid block value))"

definition orElse :: "'e option \<Rightarrow> 'e option \<Rightarrow> 'e option" where
  "orElse a b = (case a of Some e \<Rightarrow> Some e | None \<Rightarrow> b)"

definition validate_remote :: "string \<Rightarrow> remote_config \<Rightarrow> config_error option" where
  "validate_remote name rc =
     (let blk = ''remotes.'' @ name in
      orElse (if rc_Host rc = [] then Some (HostRequired name) else None)
     (orElse (validateValues blk (rc_DNS rc) (rc_Transport rc) (rc_Protocols rc))
     (orElse (validateReconnectFor blk (rc_ReconnectFor rc))
     (orElse (case ParsePrefixes (rc_Networks rc) of Inl e \<Rightarrow> Some (RemoteNetworksInvalid name e) | Inr _ \<Rightarrow> None)
             (case ParsePrefixes (rc_Exclude rc) of Inl e \<Rightarrow> Some (RemoteExcludeInvalid name e) | Inr _ \<Rightarrow> None)))))"

fun validate_remotes :: "config \<Rightarrow> string list \<Rightarrow> config_error option" where
  "validate_remotes c [] = None"
| "validate_remotes c (name # names) =
     orElse (case map_of (cf_Remotes c) name of Some rc \<Rightarrow> validate_remote name rc | None \<Rightarrow> None)
            (validate_remotes c names)"

definition validate :: "config \<Rightarrow> config_error option" where
  "validate c =
     (let d = cf_Defaults c in
      orElse (if cf_Version c \<noteq> 0 \<and> cf_Version c \<noteq> 1 then Some (VersionInvalid (cf_Version c)) else None)
     (orElse (validateValues ''defaults'' (df_DNS d) (df_Transport d) (df_Protocols d))
     (orElse (validateReconnectFor ''defaults'' (df_ReconnectFor d))
     (orElse (case ParsePrefixes (cf_Exclude c) of Inl e \<Rightarrow> Some (ExcludeInvalid e) | Inr _ \<Rightarrow> None)
             (validate_remotes c (sort (map fst (cf_Remotes c))))))))"

text \<open>\<open>Load\<close> on the decoded file, or on no file.\<close>

definition Load :: "config option \<Rightarrow> config_error + config" where
  "Load f = (case f of
     None \<Rightarrow> Inr zero_config
   | Some c \<Rightarrow> (case validate c of Some e \<Rightarrow> Inl e | None \<Rightarrow> Inr c))"

definition saveLocalConfig :: "config \<Rightarrow> config" where
  "saveLocalConfig c = (if cf_Version c = 0 then c\<lparr>cf_Version := 1\<rparr> else c)"

section \<open>Flags\<close>

datatype command_error =
    LoadFailed config_error
  | FlagInvalid string string
  | FlagRequired string
  | AlreadyExists string
  | NotInConfig string
  | NetworkFlag network_error
  | ExcludeFlag network_error
  | UnknownField string
  | UnknownKey string
  | ValueInvalid string string
  | ExcludeValue network_error

definition dnsModeValue_Set :: "string \<Rightarrow> string option" where
  "dnsModeValue_Set s = (if dns_Valid s then Some s else None)"

definition transportModeValue_Set :: "string \<Rightarrow> string option" where
  "transportModeValue_Set s = (if mode_Valid s then Some s else None)"

definition protocolSetValue_Set :: "string \<Rightarrow> string option" where
  "protocolSetValue_Set s = (case proto_Parse s of Inl _ \<Rightarrow> None | Inr _ \<Rightarrow> Some s)"

definition reconnectForValue_Set :: "string \<Rightarrow> string option" where
  "reconnectForValue_Set s =
     (case ParseDuration s of None \<Rightarrow> None | Some d \<Rightarrow> if d < 0 then None else Some s)"

text \<open>The flags of \<open>addRemoteFlags\<close>; one that was not given is \<open>None\<close>.\<close>

record remote_flags =
  fl_host :: "string option"
  fl_user :: "string option"
  fl_dns :: "string option"
  fl_transport :: "string option"
  fl_protocols :: "string option"
  fl_reconnect :: "string option"
  fl_network :: "string list option"
  fl_exclude :: "string list option"

definition flag_ok :: "(string \<Rightarrow> string option) \<Rightarrow> string option \<Rightarrow> bool" where
  "flag_ok set_value v = (case v of None \<Rightarrow> True | Some s \<Rightarrow> set_value s \<noteq> None)"

text \<open>What the flag library refuses at parse time, through the \<open>Set\<close> methods.\<close>

definition addRemoteFlags :: "remote_flags \<Rightarrow> command_error option" where
  "addRemoteFlags f =
     (if \<not> flag_ok dnsModeValue_Set (fl_dns f) then Some (FlagInvalid ''dns'' (the (fl_dns f)))
      else if \<not> flag_ok transportModeValue_Set (fl_transport f) then Some (FlagInvalid ''transport'' (the (fl_transport f)))
      else if \<not> flag_ok protocolSetValue_Set (fl_protocols f) then Some (FlagInvalid ''protocols'' (the (fl_protocols f)))
      else if \<not> flag_ok reconnectForValue_Set (fl_reconnect f) then Some (FlagInvalid ''reconnect-for'' (the (fl_reconnect f)))
      else None)"

definition given :: "'a option \<Rightarrow> 'a \<Rightarrow> 'a" where
  "given v old = (case v of Some x \<Rightarrow> x | None \<Rightarrow> old)"

definition remoteFromFlags :: "remote_flags \<Rightarrow> remote_config \<Rightarrow> command_error + remote_config" where
  "remoteFromFlags f base =
     (let rc = base\<lparr>rc_Host := given (fl_host f) (rc_Host base), rc_User := given (fl_user f) (rc_User base),
                rc_DNS := given (fl_dns f) (rc_DNS base), rc_Transport := given (fl_transport f) (rc_Transport base),
                rc_Protocols := given (fl_protocols f) (rc_Protocols base),
                rc_ReconnectFor := given (fl_reconnect f) (rc_ReconnectFor base)\<rparr>
      in case map_option ParsePrefixes (fl_network f) of Some (Inl e) \<Rightarrow> Inl (NetworkFlag e)
      | _ \<Rightarrow> (case map_option ParsePrefixes (fl_exclude f) of Some (Inl e) \<Rightarrow> Inl (ExcludeFlag e)
      | _ \<Rightarrow> Inr (rc\<lparr>rc_Networks := given (fl_network f) (rc_Networks base),
                         rc_Exclude := given (fl_exclude f) (rc_Exclude base)\<rparr>)))"

section \<open>Commands\<close>

definition with_config :: "config option \<Rightarrow> (config \<Rightarrow> command_error + config) \<Rightarrow> command_error + config" where
  "with_config f edit =
     (case Load f of Inl e \<Rightarrow> Inl (LoadFailed e)
      | Inr c \<Rightarrow> (case edit c of Inl e \<Rightarrow> Inl e | Inr c' \<Rightarrow> Inr (saveLocalConfig c')))"

definition set_remote :: "string \<Rightarrow> remote_config \<Rightarrow> config \<Rightarrow> config" where
  "set_remote name rc c = c\<lparr>cf_Remotes := AList.update name rc (cf_Remotes c)\<rparr>"

definition alias_add :: "string \<Rightarrow> remote_flags \<Rightarrow> config \<Rightarrow> command_error + config" where
  "alias_add alias f c =
     (if map_of (cf_Remotes c) alias \<noteq> None then Inl (AlreadyExists alias)
      else case remoteFromFlags f zero_remote of Inl e \<Rightarrow> Inl e
      | Inr rc \<Rightarrow> Inr (set_remote alias rc c))"

definition alias_set :: "string \<Rightarrow> remote_flags \<Rightarrow> config \<Rightarrow> command_error + config" where
  "alias_set alias f c =
     (case map_of (cf_Remotes c) alias of None \<Rightarrow> Inl (NotInConfig alias)
      | Some rc \<Rightarrow> (case remoteFromFlags f rc of Inl e \<Rightarrow> Inl e
      | Inr rc' \<Rightarrow> Inr (set_remote alias rc' c)))"

definition clear_field :: "string \<Rightarrow> remote_config \<Rightarrow> command_error + remote_config" where
  "clear_field field rc =
     (if field = ''user'' then Inr (rc\<lparr>rc_User := []\<rparr>)
      else if field = ''dns'' then Inr (rc\<lparr>rc_DNS := []\<rparr>)
      else if field = ''transport'' then Inr (rc\<lparr>rc_Transport := []\<rparr>)
      else if field = ''protocols'' then Inr (rc\<lparr>rc_Protocols := []\<rparr>)
      else if field = ''networks'' then Inr (rc\<lparr>rc_Networks := []\<rparr>)
      else if field = ''exclude'' then Inr (rc\<lparr>rc_Exclude := []\<rparr>)
      else if field = ''reconnect_for'' then Inr (rc\<lparr>rc_ReconnectFor := []\<rparr>)
      else Inl (UnknownField field))"

fun clear_fields :: "string list \<Rightarrow> remote_config \<Rightarrow> command_error + remote_config" where
  "clear_fields [] rc = Inr rc"
| "clear_fields (field # rest) rc =
     (case clear_field field rc of Inl e \<Rightarrow> Inl e | Inr rc' \<Rightarrow> clear_fields rest rc')"

definition alias_unset :: "string \<Rightarrow> string list \<Rightarrow> config \<Rightarrow> command_error + config" where
  "alias_unset alias names c =
     (case map_of (cf_Remotes c) alias of None \<Rightarrow> Inl (NotInConfig alias)
      | Some rc \<Rightarrow> (case clear_fields names rc of Inl e \<Rightarrow> Inl e
      | Inr rc' \<Rightarrow> Inr (set_remote alias rc' c)))"

definition alias_remove :: "string \<Rightarrow> config \<Rightarrow> command_error + config" where
  "alias_remove alias c =
     (case map_of (cf_Remotes c) alias of None \<Rightarrow> Inl (NotInConfig alias)
      | Some _ \<Rightarrow> Inr (c\<lparr>cf_Remotes := AList.delete alias (cf_Remotes c)\<rparr>))"

definition parseCIDRList :: "string \<Rightarrow> network_error + string list" where
  "parseCIDRList value =
     (let items = map TrimSpace (Split value CHR '','') in
      case ParsePrefixes items of Inl e \<Rightarrow> Inl e | Inr _ \<Rightarrow> Inr items)"

definition set_default :: "string \<Rightarrow> (string \<Rightarrow> string option) \<Rightarrow> string \<Rightarrow> (string \<Rightarrow> defaults) \<Rightarrow> config \<Rightarrow>
    command_error + config" where
  "set_default name set_value value d c =
     (case set_value value of None \<Rightarrow> Inl (ValueInvalid name value) | Some _ \<Rightarrow> Inr (c\<lparr>cf_Defaults := d value\<rparr>))"

definition config_set :: "string \<Rightarrow> string \<Rightarrow> config \<Rightarrow> command_error + config" where
  "config_set key value c =
     (let d = cf_Defaults c in
      if key = ''defaults.user'' then Inr (c\<lparr>cf_Defaults := d\<lparr>df_User := value\<rparr>\<rparr>)
      else if key = ''defaults.dns'' then set_default ''dns'' dnsModeValue_Set value (\<lambda>v. d\<lparr>df_DNS := v\<rparr>) c
      else if key = ''defaults.transport'' then
        set_default ''transport'' transportModeValue_Set value (\<lambda>v. d\<lparr>df_Transport := v\<rparr>) c
      else if key = ''defaults.protocols'' then
        set_default ''protocols'' protocolSetValue_Set value (\<lambda>v. d\<lparr>df_Protocols := v\<rparr>) c
      else if key = ''defaults.reconnect_for'' then
        set_default ''reconnect_for'' reconnectForValue_Set value (\<lambda>v. d\<lparr>df_ReconnectFor := v\<rparr>) c
      else if key = ''exclude'' then
        (case parseCIDRList value of Inl e \<Rightarrow> Inl (ExcludeValue e) | Inr cidrs \<Rightarrow> Inr (c\<lparr>cf_Exclude := cidrs\<rparr>))
      else Inl (UnknownKey key))"

definition config_unset :: "string \<Rightarrow> config \<Rightarrow> command_error + config" where
  "config_unset key c =
     (let d = cf_Defaults c in
      if key = ''defaults.user'' then Inr (c\<lparr>cf_Defaults := d\<lparr>df_User := []\<rparr>\<rparr>)
      else if key = ''defaults.dns'' then Inr (c\<lparr>cf_Defaults := d\<lparr>df_DNS := []\<rparr>\<rparr>)
      else if key = ''defaults.transport'' then Inr (c\<lparr>cf_Defaults := d\<lparr>df_Transport := []\<rparr>\<rparr>)
      else if key = ''defaults.protocols'' then Inr (c\<lparr>cf_Defaults := d\<lparr>df_Protocols := []\<rparr>\<rparr>)
      else if key = ''defaults.reconnect_for'' then Inr (c\<lparr>cf_Defaults := d\<lparr>df_ReconnectFor := []\<rparr>\<rparr>)
      else if key = ''exclude'' then Inr (c\<lparr>cf_Exclude := []\<rparr>)
      else Inl (UnknownKey key))"

text \<open>The commands as the user types them: the flags are parsed before the file is read.\<close>

datatype config_command =
    AliasAdd string remote_flags
  | AliasSet string remote_flags
  | AliasUnset string "string list"
  | AliasRemove string
  | ConfigSet string string
  | ConfigUnset string

fun run_command :: "config_command \<Rightarrow> config option \<Rightarrow> command_error + config" where
  "run_command (AliasAdd alias f) file =
     (case addRemoteFlags f of Some e \<Rightarrow> Inl e
      | None \<Rightarrow> if fl_host f = None then Inl (FlagRequired ''host'') else with_config file (alias_add alias f))"
| "run_command (AliasSet alias f) file =
     (case addRemoteFlags f of Some e \<Rightarrow> Inl e | None \<Rightarrow> with_config file (alias_set alias f))"
| "run_command (AliasUnset alias names) file = with_config file (alias_unset alias names)"
| "run_command (AliasRemove alias) file = with_config file (alias_remove alias)"
| "run_command (ConfigSet key value) file = with_config file (config_set key value)"
| "run_command (ConfigUnset key) file = with_config file (config_unset key)"

section \<open>Reading the settings\<close>

definition remote_of :: "config \<Rightarrow> string \<Rightarrow> remote_config" where
  "remote_of c ref = (case map_of (cf_Remotes c) ref of Some rc \<Rightarrow> rc | None \<Rightarrow> zero_remote)"

definition resolveAlias :: "config \<Rightarrow> string \<Rightarrow> string \<times> string" where
  "resolveAlias c ref =
     (case map_of (cf_Remotes c) ref of
        Some rc \<Rightarrow> if rc_Host rc \<noteq> [] then (rc_Host rc, rc_User rc) else (ref, [])
      | None \<Rightarrow> (ref, []))"

text \<open>\<open>localUser\<close> is the name of the local user, empty when it is not known.\<close>

definition sshUser :: "string \<Rightarrow> string \<Rightarrow> string \<Rightarrow> config \<Rightarrow> string" where
  "sshUser localUser flagUser remoteUser c =
     (if flagUser \<noteq> [] then flagUser
      else if remoteUser \<noteq> [] then remoteUser
      else if df_User (cf_Defaults c) \<noteq> [] then df_User (cf_Defaults c)
      else if localUser \<noteq> [] then localUser else ''root'')"

section \<open>Edits keep the file loadable\<close>

lemma orElse_None [simp]: "orElse a b = None \<longleftrightarrow> a = None \<and> b = None"
  by (cases a) (simp_all add: orElse_def)

lemma orElse_simps [simp]: "orElse None b = b" "orElse (Some e) b = Some e"
  by (simp_all add: orElse_def)

definition valid_defaults :: "config \<Rightarrow> bool" where
  "valid_defaults c \<longleftrightarrow> validate (c\<lparr>cf_Remotes := []\<rparr>) = None"

definition valid_remotes :: "config \<Rightarrow> bool" where
  "valid_remotes c \<longleftrightarrow> (\<forall>name rc. map_of (cf_Remotes c) name = Some rc \<longrightarrow> validate_remote name rc = None)"

lemma validate_remotes_None:
  "validate_remotes c names = None \<longleftrightarrow>
     (\<forall>name\<in>set names. \<forall>rc. map_of (cf_Remotes c) name = Some rc \<longrightarrow> validate_remote name rc = None)"
  by (induction names) (auto split: option.splits)

lemma validate_split:
  "validate c = orElse (validate (c\<lparr>cf_Remotes := []\<rparr>)) (validate_remotes c (sort (map fst (cf_Remotes c))))"
  by (auto simp: validate_def Let_def orElse_def split: option.splits)

lemma validate_None: "validate c = None \<longleftrightarrow> valid_defaults c \<and> valid_remotes c"
proof -
  have "set (sort (map fst (cf_Remotes c))) = dom (map_of (cf_Remotes c))" by (simp add: dom_map_of_conv_image_fst)
  then show ?thesis
    unfolding validate_split [of c] valid_defaults_def valid_remotes_def orElse_None validate_remotes_None by blast
qed

lemma valid_remotesD: "valid_remotes c \<Longrightarrow> map_of (cf_Remotes c) name = Some rc \<Longrightarrow> validate_remote name rc = None"
  by (simp add: valid_remotes_def)

lemma valid_set_remote:
  "valid_defaults (set_remote name rc c) = valid_defaults c"
  "valid_remotes c \<Longrightarrow> validate_remote name rc = None \<Longrightarrow> valid_remotes (set_remote name rc c)"
  by (auto simp: valid_defaults_def valid_remotes_def set_remote_def update_conv')

lemma valid_delete:
  "valid_remotes c \<Longrightarrow> valid_remotes (c\<lparr>cf_Remotes := AList.delete name (cf_Remotes c)\<rparr>)"
  by (auto simp: valid_remotes_def delete_conv' restrict_map_def split: if_splits)

lemma validateValues_None:
  "validateValues blk d t p = None \<longleftrightarrow>
     (d = [] \<or> dns_Valid d) \<and> (t = [] \<or> mode_Valid t) \<and> (p = [] \<or> proto_Valid p)"
  by (auto simp: validateValues_def)

lemma validateReconnect_None:
  "validateReconnectFor blk v = None \<longleftrightarrow> v = [] \<or> reconnectForValue_Set v \<noteq> None"
  by (auto simp: validateReconnectFor_def reconnectForValue_Set_def split: option.splits)

lemma validate_remote_None:
  "validate_remote name rc = None \<longleftrightarrow>
     rc_Host rc \<noteq> [] \<and> (rc_DNS rc = [] \<or> dns_Valid (rc_DNS rc)) \<and> (rc_Transport rc = [] \<or> mode_Valid (rc_Transport rc))
     \<and> (rc_Protocols rc = [] \<or> proto_Valid (rc_Protocols rc))
     \<and> (rc_ReconnectFor rc = [] \<or> reconnectForValue_Set (rc_ReconnectFor rc) \<noteq> None)
     \<and> \<not> isl (ParsePrefixes (rc_Networks rc)) \<and> \<not> isl (ParsePrefixes (rc_Exclude rc))"
  by (auto simp: validate_remote_def Let_def validateValues_None validateReconnect_None split: sum.splits)

lemma flags_given:
  assumes "addRemoteFlags f = None"
  shows "given (fl_dns f) d = d \<or> dns_Valid (given (fl_dns f) d)"
    "given (fl_transport f) t = t \<or> mode_Valid (given (fl_transport f) t)"
    "given (fl_protocols f) p = p \<or> proto_Valid (given (fl_protocols f) p)"
    "given (fl_reconnect f) r = r \<or> reconnectForValue_Set (given (fl_reconnect f) r) \<noteq> None"
  using assms
  by (auto simp: addRemoteFlags_def flag_ok_def given_def dnsModeValue_Set_def transportModeValue_Set_def
      protocolSetValue_Set_def proto_Valid_def split: option.splits if_splits sum.splits)

lemma remoteFromFlags_Inr:
  assumes "remoteFromFlags f base = Inr rc"
  shows "rc = base\<lparr>rc_Host := given (fl_host f) (rc_Host base), rc_User := given (fl_user f) (rc_User base),
      rc_DNS := given (fl_dns f) (rc_DNS base), rc_Transport := given (fl_transport f) (rc_Transport base),
      rc_Protocols := given (fl_protocols f) (rc_Protocols base),
      rc_ReconnectFor := given (fl_reconnect f) (rc_ReconnectFor base),
      rc_Networks := given (fl_network f) (rc_Networks base), rc_Exclude := given (fl_exclude f) (rc_Exclude base)\<rparr>"
    and "\<forall>v. fl_network f = Some v \<longrightarrow> \<not> isl (ParsePrefixes v)" "\<forall>v. fl_exclude f = Some v \<longrightarrow> \<not> isl (ParsePrefixes v)"
  using assms by (simp_all add: remoteFromFlags_def Let_def split: option.split_asm sum.split_asm)

lemma remoteFromFlags_parts:
  assumes "remoteFromFlags f base = Inr rc"
  shows "rc_Host rc = given (fl_host f) (rc_Host base)" "rc_DNS rc = given (fl_dns f) (rc_DNS base)"
    "rc_Transport rc = given (fl_transport f) (rc_Transport base)"
    "rc_Protocols rc = given (fl_protocols f) (rc_Protocols base)"
    "rc_ReconnectFor rc = given (fl_reconnect f) (rc_ReconnectFor base)"
    "rc_Networks rc = rc_Networks base \<or> \<not> isl (ParsePrefixes (rc_Networks rc))"
    "rc_Exclude rc = rc_Exclude base \<or> \<not> isl (ParsePrefixes (rc_Exclude rc))"
  unfolding remoteFromFlags_Inr(1) [OF assms]
  using remoteFromFlags_Inr(2,3) [OF assms] by (simp_all add: given_def split: option.split)

text \<open>A remote made from flags is valid exactly when it has a host, if the base is valid but for its host.\<close>

definition settings_ok :: "remote_config \<Rightarrow> bool" where
  "settings_ok rc \<longleftrightarrow> validate_remote [] (rc\<lparr>rc_Host := ''x''\<rparr>) = None"

lemma validate_remote_iff: "validate_remote name rc = None \<longleftrightarrow> rc_Host rc \<noteq> [] \<and> settings_ok rc"
  by (simp add: settings_ok_def validate_remote_None)

lemma settings_ok_zero: "settings_ok zero_remote"
  by (simp add: settings_ok_def validate_remote_None zero_remote_def)

lemma validate_remote_host: "rc_Host rc = [] \<Longrightarrow> validate_remote name rc = Some (HostRequired name)"
  by (simp add: validate_remote_def Let_def)

lemma remoteFromFlags_settings:
  assumes "addRemoteFlags f = None" "remoteFromFlags f base = Inr rc" "settings_ok base"
  shows "settings_ok rc"
proof -
  note p = remoteFromFlags_parts [OF assms(2)] and g = flags_given [OF assms(1)]
  have b: "rc_DNS base = [] \<or> dns_Valid (rc_DNS base)" "rc_Transport base = [] \<or> mode_Valid (rc_Transport base)"
    "rc_Protocols base = [] \<or> proto_Valid (rc_Protocols base)"
    "rc_ReconnectFor base = [] \<or> reconnectForValue_Set (rc_ReconnectFor base) \<noteq> None"
    "\<not> isl (ParsePrefixes (rc_Networks base))" "\<not> isl (ParsePrefixes (rc_Exclude base))"
    using assms(3) by (simp_all add: settings_ok_def validate_remote_None)
  have "rc_DNS rc = [] \<or> dns_Valid (rc_DNS rc)" "rc_Transport rc = [] \<or> mode_Valid (rc_Transport rc)"
    "rc_Protocols rc = [] \<or> proto_Valid (rc_Protocols rc)"
    "rc_ReconnectFor rc = [] \<or> reconnectForValue_Set (rc_ReconnectFor rc) \<noteq> None"
    using b(1-4) g(1) [of "rc_DNS base"] g(2) [of "rc_Transport base"] g(3) [of "rc_Protocols base"]
      g(4) [of "rc_ReconnectFor base"] unfolding p(2-5) by metis+
  moreover have "\<not> isl (ParsePrefixes (rc_Networks rc))" "\<not> isl (ParsePrefixes (rc_Exclude rc))"
    using b(5,6) p(6,7) by metis+
  ultimately show ?thesis by (simp add: settings_ok_def validate_remote_None)
qed

lemma clear_field_effect:
  assumes "clear_field x rc = Inr rc'"
  shows "rc_Host rc' = rc_Host rc" "rc_DNS rc' = rc_DNS rc \<or> rc_DNS rc' = []"
    "rc_Transport rc' = rc_Transport rc \<or> rc_Transport rc' = []"
    "rc_Protocols rc' = rc_Protocols rc \<or> rc_Protocols rc' = []"
    "rc_ReconnectFor rc' = rc_ReconnectFor rc \<or> rc_ReconnectFor rc' = []"
    "rc_Networks rc' = rc_Networks rc \<or> rc_Networks rc' = []" "rc_Exclude rc' = rc_Exclude rc \<or> rc_Exclude rc' = []"
  using assms by (auto simp: clear_field_def split: if_split_asm)

lemma clear_field_valid:
  assumes "clear_field x rc = Inr rc'" "validate_remote name rc = None"
  shows "validate_remote name rc' = None"
proof -
  note e = clear_field_effect [OF assms(1)] and v = assms(2) [unfolded validate_remote_None]
  have n: "\<not> isl (ParsePrefixes [])" by simp
  show ?thesis unfolding validate_remote_None e(1)
    using v e(2-5) by (intro conjI) (blast, metis, metis, metis, metis, (use v e(6) n in metis), (use v e(7) n in metis))
qed

lemma clear_fields_valid: "clear_fields names rc = Inr rc' \<Longrightarrow> validate_remote name rc = None \<Longrightarrow> validate_remote name rc' = None"
proof (induction names arbitrary: rc)
  case (Cons x xs)
  then obtain rc1 where c: "clear_field x rc = Inr rc1" "clear_fields xs rc1 = Inr rc'" by (auto split: sum.splits)
  show ?case by (rule Cons.IH [OF c(2) clear_field_valid [OF c(1) Cons.prems(2)]])
qed simp

definition file_ok :: "config option \<Rightarrow> bool" where
  "file_ok f \<longleftrightarrow> (case f of None \<Rightarrow> True | Some c \<Rightarrow> validate c = None)"

definition sets_empty_host :: "config_command \<Rightarrow> bool" where
  "sets_empty_host cmd = (case cmd of AliasAdd _ f \<Rightarrow> fl_host f = Some [] | AliasSet _ f \<Rightarrow> fl_host f = Some [] | _ \<Rightarrow> False)"

lemma validate_zero: "validate zero_config = None"
  by (simp add: validate_None valid_defaults_def valid_remotes_def zero_config_def validate_def Let_def
      validateValues_None validateReconnect_None)

lemma Load_ok: "file_ok f \<Longrightarrow> Load f = Inr c \<Longrightarrow> valid_defaults c \<and> valid_remotes c"
  using validate_zero by (auto simp: file_ok_def Load_def validate_None split: option.splits)

lemma valid_version: "valid_defaults (saveLocalConfig c) = valid_defaults c" "cf_Remotes (saveLocalConfig c) = cf_Remotes c"
  by (auto simp: saveLocalConfig_def valid_defaults_def validate_def Let_def)

lemma valid_saved: "valid_remotes (saveLocalConfig c) = valid_remotes c"
  by (simp add: valid_remotes_def valid_version)

lemma defaults_None:
  "valid_defaults c \<longleftrightarrow> (let d = cf_Defaults c in (cf_Version c = 0 \<or> cf_Version c = 1)
     \<and> (df_DNS d = [] \<or> dns_Valid (df_DNS d)) \<and> (df_Transport d = [] \<or> mode_Valid (df_Transport d))
     \<and> (df_Protocols d = [] \<or> proto_Valid (df_Protocols d))
     \<and> (df_ReconnectFor d = [] \<or> reconnectForValue_Set (df_ReconnectFor d) \<noteq> None)
     \<and> \<not> isl (ParsePrefixes (cf_Exclude c)))"
  by (auto simp: valid_defaults_def validate_def Let_def validateValues_None validateReconnect_None split: sum.splits)

lemma set_default_Inr:
  "set_default n sv v d c = Inr c' \<longleftrightarrow> sv v \<noteq> None \<and> c' = c\<lparr>cf_Defaults := d v\<rparr>"
  by (auto simp: set_default_def split: option.splits)

lemma set_values:
  "dnsModeValue_Set v \<noteq> None \<longleftrightarrow> dns_Valid v" "transportModeValue_Set v \<noteq> None \<longleftrightarrow> mode_Valid v"
  "protocolSetValue_Set v \<noteq> None \<longleftrightarrow> proto_Valid v"
  by (simp_all add: dnsModeValue_Set_def transportModeValue_Set_def protocolSetValue_Set_def proto_Valid_def split: sum.splits)

lemma valid_upd:
  assumes "valid_defaults c"
  shows "valid_defaults (c\<lparr>cf_Defaults := cf_Defaults c\<lparr>df_User := v\<rparr>\<rparr>)"
    "v = [] \<or> dns_Valid v \<Longrightarrow> valid_defaults (c\<lparr>cf_Defaults := cf_Defaults c\<lparr>df_DNS := v\<rparr>\<rparr>)"
    "v = [] \<or> mode_Valid v \<Longrightarrow> valid_defaults (c\<lparr>cf_Defaults := cf_Defaults c\<lparr>df_Transport := v\<rparr>\<rparr>)"
    "v = [] \<or> proto_Valid v \<Longrightarrow> valid_defaults (c\<lparr>cf_Defaults := cf_Defaults c\<lparr>df_Protocols := v\<rparr>\<rparr>)"
    "v = [] \<or> reconnectForValue_Set v \<noteq> None \<Longrightarrow> valid_defaults (c\<lparr>cf_Defaults := cf_Defaults c\<lparr>df_ReconnectFor := v\<rparr>\<rparr>)"
    "\<not> isl (ParsePrefixes l) \<Longrightarrow> valid_defaults (c\<lparr>cf_Exclude := l\<rparr>)"
  using assms by (simp_all add: defaults_None Let_def)

lemma parseCIDRList_valid: "parseCIDRList value = Inr l \<Longrightarrow> \<not> isl (ParsePrefixes l)"
  by (auto simp: parseCIDRList_def Let_def split: sum.splits)

lemma config_set_valid:
  assumes "config_set key value c = Inr c'" "valid_defaults c"
  shows "valid_defaults c' \<and> cf_Remotes c' = cf_Remotes c"
  using assms(1) unfolding config_set_def Let_def set_default_Inr set_values
  by (simp only: set_default_Inr set_values split: if_split_asm sum.split_asm)
    (use valid_upd [OF assms(2)] parseCIDRList_valid in auto)

lemma config_unset_valid:
  assumes "config_unset key c = Inr c'" "valid_defaults c"
  shows "valid_defaults c' \<and> cf_Remotes c' = cf_Remotes c"
  using assms(1) unfolding config_unset_def Let_def
  by (simp only: split: if_split_asm) (use valid_upd [OF assms(2)] in auto)

definition command_alias :: "config_command \<Rightarrow> string" where
  "command_alias cmd = (case cmd of AliasAdd a _ \<Rightarrow> a | AliasSet a _ \<Rightarrow> a | AliasUnset a _ \<Rightarrow> a | AliasRemove a \<Rightarrow> a | _ \<Rightarrow> [])"

lemma validate_remotes_only:
  assumes "a \<in> set names" "map_of (cf_Remotes c) a = Some rc" "validate_remote a rc = Some e"
    "\<And>n x. n \<noteq> a \<Longrightarrow> map_of (cf_Remotes c) n = Some x \<Longrightarrow> validate_remote n x = None"
  shows "validate_remotes c names = Some e"
  using assms(1)
proof (induction names)
  case (Cons n ns)
  then show ?case using assms(2-4) by (cases "n = a") (auto split: option.splits)
qed simp

lemma set_remote_no_host:
  assumes "valid_defaults c" "valid_remotes c" "rc_Host rc = []"
  shows "validate (saveLocalConfig (set_remote a rc c)) = Some (HostRequired a)"
proof -
  let ?c = "saveLocalConfig (set_remote a rc c)"
  have m: "map_of (cf_Remotes ?c) = (map_of (cf_Remotes c))(a \<mapsto> rc)" by (simp add: valid_version set_remote_def update_conv')
  then have "a \<in> set (map fst (cf_Remotes ?c))" by (metis domI dom_map_of_conv_image_fst fun_upd_same image_set)
  then have "validate_remotes ?c (sort (map fst (cf_Remotes ?c))) = Some (HostRequired a)"
    using assms(2) m validate_remote_host [OF assms(3), of a]
    by (intro validate_remotes_only [where a = a and rc = rc]) (auto simp: valid_remotes_def)
  moreover have "validate (?c\<lparr>cf_Remotes := []\<rparr>) = None"
    using assms(1) valid_version(1) [of "set_remote a rc c"] valid_set_remote(1) [of a rc c] by (simp add: valid_defaults_def)
  ultimately show ?thesis using validate_split [of ?c] by simp
qed

text \<open>The law of an edit of a remote from flags: valid again, or refused for the missing host.\<close>

lemma flags_edit:
  assumes "valid_defaults c" "valid_remotes c" "addRemoteFlags f = None" "remoteFromFlags f base = Inr rc"
    "settings_ok base" "rc_Host base \<noteq> [] \<or> fl_host f \<noteq> None"
  shows "validate (saveLocalConfig (set_remote a rc c)) = (if fl_host f = Some [] then Some (HostRequired a) else None)"
proof -
  have h: "rc_Host rc = [] \<longleftrightarrow> fl_host f = Some []"
    using remoteFromFlags_parts(1) [OF assms(4)] assms(6) by (auto simp: given_def split: option.splits)
  have s: "settings_ok rc" by (rule remoteFromFlags_settings [OF assms(3-5)])
  show ?thesis
  proof (cases "fl_host f = Some []")
    case True
    then show ?thesis using set_remote_no_host [OF assms(1,2)] h by simp
  next
    case False
    then have "validate_remote a rc = None" using h s by (simp add: validate_remote_iff)
    then show ?thesis using False assms(1,2)
      by (simp add: validate_None valid_version valid_saved valid_set_remote)
  qed
qed

lemma valid_alias: "valid_remotes c \<Longrightarrow> map_of (cf_Remotes c) a = Some rc \<Longrightarrow> rc_Host rc \<noteq> [] \<and> settings_ok rc"
  using valid_remotesD validate_remote_iff by blast

lemma with_config_Inr:
  assumes "file_ok f" "with_config f edit = Inr c'"
  obtains c c1 where "valid_defaults c" "valid_remotes c" "edit c = Inr c1" "c' = saveLocalConfig c1"
  using assms Load_ok [OF assms(1)] by (auto simp: with_config_def split: sum.splits)

lemma command_law:
  assumes "file_ok f" "run_command cmd f = Inr c'"
  shows "validate c' = (if sets_empty_host cmd then Some (HostRequired (command_alias cmd)) else None)"
proof -
  obtain edit where w: "with_config f edit = Inr c'"
    and e: "edit = (case cmd of AliasAdd a fl \<Rightarrow> alias_add a fl | AliasSet a fl \<Rightarrow> alias_set a fl
      | AliasUnset a ns \<Rightarrow> alias_unset a ns | AliasRemove a \<Rightarrow> alias_remove a
      | ConfigSet k v \<Rightarrow> config_set k v | ConfigUnset k \<Rightarrow> config_unset k)"
    using assms(2) by (cases cmd) (auto split: option.splits if_splits)
  obtain c c1 where c: "valid_defaults c" "valid_remotes c" "edit c = Inr c1" "c' = saveLocalConfig c1"
    by (rule with_config_Inr [OF assms(1) w])
  show ?thesis
  proof (cases cmd)
    case (AliasAdd a fl)
    then have fl: "addRemoteFlags fl = None" "fl_host fl \<noteq> None" using assms(2) by (auto split: option.splits if_splits)
    obtain rc where "remoteFromFlags fl zero_remote = Inr rc" "c1 = set_remote a rc c"
      using c(3) by (auto simp: e AliasAdd alias_add_def split: if_splits sum.splits)
    then show ?thesis using flags_edit [OF c(1,2) fl(1) _ settings_ok_zero] fl(2) c(4)
      by (simp add: AliasAdd sets_empty_host_def command_alias_def)
  next
    case (AliasSet a fl)
    then have fl: "addRemoteFlags fl = None" using assms(2) by (auto split: option.splits)
    obtain base rc where r: "map_of (cf_Remotes c) a = Some base" "remoteFromFlags fl base = Inr rc" "c1 = set_remote a rc c"
      using c(3) by (auto simp: e AliasSet alias_set_def split: option.splits sum.splits)
    then show ?thesis using flags_edit [OF c(1,2) fl r(2)] valid_alias [OF c(2) r(1)] c(4)
      by (simp add: AliasSet sets_empty_host_def command_alias_def)
  next
    case (AliasUnset a ns)
    obtain base rc where r: "map_of (cf_Remotes c) a = Some base" "clear_fields ns base = Inr rc" "c1 = set_remote a rc c"
      using c(3) by (auto simp: e AliasUnset alias_unset_def split: option.splits sum.splits)
    then show ?thesis using clear_fields_valid [OF r(2) valid_remotesD [OF c(2) r(1)]] c
      by (simp add: AliasUnset sets_empty_host_def validate_None valid_version valid_saved valid_set_remote)
  next
    case (AliasRemove a)
    then have "c1 = c\<lparr>cf_Remotes := AList.delete a (cf_Remotes c)\<rparr>"
      using c(3) by (auto simp: e alias_remove_def split: option.splits)
    then show ?thesis using c(1,2,4) valid_delete
      by (simp add: AliasRemove sets_empty_host_def validate_None valid_version valid_saved) (simp add: valid_defaults_def)
  next
    case (ConfigSet k v)
    then show ?thesis using config_set_valid [of k v c c1] c
      by (simp add: e sets_empty_host_def validate_None valid_version valid_saved) (simp add: valid_remotes_def)
  next
    case (ConfigUnset k)
    then show ?thesis using config_unset_valid [of k c c1] c
      by (simp add: e sets_empty_host_def validate_None valid_version valid_saved) (simp add: valid_remotes_def)
  qed
qed

definition run_commands :: "config_command list \<Rightarrow> config option \<Rightarrow> config option" where
  "run_commands cmds f = fold (\<lambda>cmd f. case run_command cmd f of Inl _ \<Rightarrow> f | Inr c \<Rightarrow> Some c) cmds f"

text \<open>
  C10: the commands that edit the configuration keep it loadable. From a file that \<open>Load\<close> accepts,
  or from none, any sequence of \<open>tj alias add\<close>, \<open>set\<close>, \<open>unset\<close> and \<open>remove\<close> and of
  \<open>tj config set\<close> and \<open>unset\<close>, with whatever flags and values, failing ones included, leaves a
  file that \<open>Load\<close> accepts, as long as no \<open>--host\<close> flag is empty.
\<close>

theorem config_edits_loadable:
  assumes "file_ok f" "list_all (\<lambda>cmd. \<not> sets_empty_host cmd) cmds"
  shows "\<exists>c. Load (run_commands cmds f) = Inr c"
proof -
  have "file_ok (run_commands cmds f)" using assms
  proof (induction cmds arbitrary: f)
    case (Cons cmd cmds)
    have "file_ok (case run_command cmd f of Inl _ \<Rightarrow> f | Inr c \<Rightarrow> Some c)"
      using command_law [OF Cons.prems(1), of cmd] Cons.prems by (auto simp: file_ok_def split: sum.splits)
    then show ?case using Cons.IH Cons.prems(2) by (simp add: run_commands_def)
  qed (simp add: run_commands_def)
  then show ?thesis by (auto simp: file_ok_def Load_def split: option.splits)
qed

definition gw_flags :: remote_flags where
  "gw_flags = \<lparr>fl_host = Some ''gw'', fl_user = None, fl_dns = Some ''split'', fl_transport = None, fl_protocols = None,
     fl_reconnect = None, fl_network = None, fl_exclude = None\<rparr>"

theorem config_edits_loadable_witness:
  "\<exists>c. Load (run_commands [AliasAdd ''gw'' gw_flags, ConfigUnset ''x'', AliasUnset ''gw'' [''dns'']] None) = Inr c"
  by (rule config_edits_loadable) (simp_all add: file_ok_def sets_empty_host_def gw_flags_def)

text \<open>
  C36: an empty \<open>--host\<close> locks the configuration. When \<open>tj alias add\<close> or \<open>tj alias set\<close> succeeds
  with an empty host, the file it saves is one that \<open>Load\<close> refuses, and from then on no command
  that edits the file succeeds, not even the one that would remove or repair the alias.
\<close>

theorem empty_host_locks_config:
  assumes "file_ok f" "run_command cmd f = Inr c'" "sets_empty_host cmd"
  shows "Load (Some c') = Inl (HostRequired (command_alias cmd)) \<and> (\<forall>cmd'. isl (run_command cmd' (Some c')))"
proof -
  have L: "Load (Some c') = Inl (HostRequired (command_alias cmd))"
    using command_law [OF assms(1,2)] assms(3) by (simp add: Load_def)
  have "isl (run_command cmd' (Some c'))" for cmd'
    by (cases cmd') (auto simp: with_config_def L split: option.splits)
  then show ?thesis using L by simp
qed

theorem empty_host_locks_config_witness:
  "\<exists>c'. run_command (AliasAdd ''gw'' (gw_flags\<lparr>fl_host := Some []\<rparr>)) None = Inr c'
     \<and> Load (Some c') = Inl (HostRequired ''gw'') \<and> isl (run_command (AliasRemove ''gw'') (Some c'))"
proof -
  let ?cmd = "AliasAdd ''gw'' (gw_flags\<lparr>fl_host := Some []\<rparr>)"
  obtain c' where c: "run_command ?cmd None = Inr c'"
    by (simp add: addRemoteFlags_def flag_ok_def gw_flags_def dnsModeValue_Set_def dns_Valid_def with_config_def Load_def
        alias_add_def zero_config_def remoteFromFlags_def given_def)
  have "sets_empty_host ?cmd" "command_alias ?cmd = ''gw''" "file_ok None"
    by (simp_all add: sets_empty_host_def command_alias_def file_ok_def)
  then show ?thesis using empty_host_locks_config [OF _ c] c by (auto simp del: run_command.simps)
qed

end
