(* ===== verification/Connect_Plan.thy ===== *)
theory Connect_Plan
  imports Config Netip_Text Session
begin

text \<open>
  How \<open>tj connect\<close> makes a plan: \<open>buildPlan\<close> and its helpers of \<open>internal/cli/connect.go\<close>,
  \<open>resolveRemote\<close> of \<open>common.go\<close>, \<open>ArchForUname\<close> of \<open>internal/helper\<close> and \<open>protocolSet\<close> of
  \<open>internal/session/plan.go\<close>. The remote's answers (the discovery result, the manifest) and the
  environment variables are arguments. The plan goes to the runner as text, so the theorems
  say what the runner reads back.
\<close>

section \<open>The remote\<close>

record resolved_remote =
  rr_Peer :: peer
  rr_Addr :: addr
  rr_User :: string
  rr_Config :: remote_config
  rr_Ref :: string

text \<open>\<open>st\<close> is the status of the tailnet, as the client read it.\<close>

definition resolveRemote ::
    "string \<Rightarrow> tail_status \<Rightarrow> config \<Rightarrow> string \<Rightarrow> string \<Rightarrow> tailnet_error + resolved_remote" where
  "resolveRemote localUser st cfg ref flagUser =
     (case resolveAlias cfg ref of (host, aliasUser) \<Rightarrow>
      case Resolve (Peers st) host of Inl e \<Rightarrow> Inl e
      | Inr peer \<Rightarrow> (case peer_IPv4 peer of Inl e \<Rightarrow> Inl e
      | Inr addr \<Rightarrow> Inr \<lparr>rr_Peer = peer, rr_Addr = addr, rr_User = sshUser localUser flagUser aliasUser cfg,
                        rr_Config = remote_of cfg ref, rr_Ref = host\<rparr>))"

section \<open>The settings of a plan\<close>

datatype plan_error =
    ManifestUnreadable network_error
  | NetworksFailed network_error
  | NothingToRoute
  | UnsupportedArch string
  | SplitNeedsDomains
  | ProtocolsFailed proto_error
  | DNSNeedsUDP string
  | ManifestSetting network_error
  | ControllerInvalid string
  | LanesInvalid string
  | ReconnectForInvalid string

definition ArchForUname :: "string \<Rightarrow> plan_error + string" where
  "ArchForUname u = (if u = ''x86_64'' then Inr ''amd64'' else if u = ''aarch64'' then Inr ''arm64'' else Inl (UnsupportedArch u))"

definition checkDNSProtocols :: "string \<Rightarrow> proto_set \<Rightarrow> plan_error option" where
  "checkDNSProtocols mode ps = (if mode = ''none'' \<or> ps_UDP ps then None else Some (DNSNeedsUDP mode))"

definition controllerKnob :: "string \<Rightarrow> plan_error + string" where
  "controllerKnob v = (if v = [] \<or> v = ''cubic'' then Inr v else Inl (ControllerInvalid v))"

definition singleLaneKnob :: "string \<Rightarrow> plan_error + bool" where
  "singleLaneKnob v = (if v = [] then Inr False else if v = ''1'' then Inr True else Inl (LanesInvalid v))"

definition transportMode :: "string \<Rightarrow> config \<Rightarrow> string \<Rightarrow> string" where
  "transportMode flag cfg ref = mode_Resolve flag (rc_Transport (remote_of cfg ref)) (df_Transport (cf_Defaults cfg))"

definition reconnectFor :: "string \<Rightarrow> config \<Rightarrow> string \<Rightarrow> plan_error + int" where
  "reconnectFor flag cfg ref =
     (let v1 = flag;
          v2 = (if v1 = [] then rc_ReconnectFor (remote_of cfg ref) else v1);
          v3 = (if v2 = [] then df_ReconnectFor (cf_Defaults cfg) else v2)
      in if v3 = [] then Inr (600 * 1000000000)
         else case ParseDuration v3 of Some d \<Rightarrow> Inr d | None \<Rightarrow> Inl (ReconnectForInvalid v3))"

definition dnsMode :: "string \<Rightarrow> config \<Rightarrow> string \<Rightarrow> bool \<Rightarrow> string" where
  "dnsMode flag cfg ref hasDomains =
     (if flag \<noteq> [] then flag
      else case map_of (cf_Remotes cfg) ref of
        Some rc \<Rightarrow> if rc_DNS rc \<noteq> [] then rc_DNS rc
                    else if df_DNS (cf_Defaults cfg) \<noteq> [] then df_DNS (cf_Defaults cfg) else dns_Default hasDomains
      | None \<Rightarrow> if df_DNS (cf_Defaults cfg) \<noteq> [] then df_DNS (cf_Defaults cfg) else dns_Default hasDomains)"

definition resolveDNS ::
    "string \<Rightarrow> config \<Rightarrow> string \<Rightarrow> manifest \<Rightarrow> discovery_result option \<Rightarrow> plan_error + plan_dns" where
  "resolveDNS flag cfg ref m res =
     (let domains = (case mf_DNS m of Some d \<Rightarrow> dm_Domains d | None \<Rightarrow> []);
          mode = dnsMode flag cfg ref (domains \<noteq> []);
          servers = (case mf_DNS m of
                       Some d \<Rightarrow> if dm_Servers d \<noteq> [] then dm_Servers d
                                  else (case res of Some r \<Rightarrow> dr_Resolvers r | None \<Rightarrow> [])
                     | None \<Rightarrow> (case res of Some r \<Rightarrow> dr_Resolvers r | None \<Rightarrow> []))
      in if mode = ''split'' \<and> domains = [] then Inl SplitNeedsDomains
         else Inr \<lparr>dns_Mode = mode, dns_Servers = servers, dns_Domains = domains\<rparr>)"

record plan_flags =
  pf_dns :: string
  pf_transport :: string
  pf_protocols :: string
  pf_reconnectFor :: string
  pf_networks :: "string list"
  pf_excludes :: "string list"
  pf_verbose :: bool

text \<open>
  The rest of the world of \<open>buildPlan\<close>: the address sets, the subnets of the client, the two
  measurement variables, and the manifest of the remote with its hash.
\<close>

record ('b, 's) plan_env =
  pe_ops :: "('b, 's) ipset_ops"
  pe_connected :: "prefix list"
  pe_TJ_QUIC_CONTROLLER :: string
  pe_TJ_SSH_LANES :: string
  pe_manifest :: "network_error + manifest"
  pe_sha256 :: string

definition prefixStrings :: "prefix list \<Rightarrow> string list" where
  "prefixStrings ps = map Prefix_String ps"

definition buildPlan ::
    "('b, 's) plan_env \<Rightarrow> resolved_remote \<Rightarrow> config \<Rightarrow> string \<Rightarrow> plan_flags \<Rightarrow> bool \<Rightarrow> discovery_result \<Rightarrow>
     plan_error + plan" where
  "buildPlan env rr cfg ref flags noDiscovery res =
     (case pe_manifest env of Inl e \<Rightarrow> Inl (ManifestUnreadable e)
      | Inr m \<Rightarrow>
     (case sessionNetworks (pe_ops env) m (if noDiscovery then None else Some res) (cf_Exclude cfg)
             (rc_Networks (rr_Config rr)) (rc_Exclude (rr_Config rr)) (TailscaleIPs (rr_Peer rr))
             (pf_networks flags) (pf_excludes flags) (pe_connected env) of
        Inl e \<Rightarrow> Inl (NetworksFailed e)
      | Inr networks \<Rightarrow>
     (if networks = [] then Inl NothingToRoute
      else case ArchForUname (dr_UnameM res) of Inl e \<Rightarrow> Inl e
      | Inr goarch \<Rightarrow>
     (case resolveDNS (pf_dns flags) cfg ref m (Some res) of Inl e \<Rightarrow> Inl e
      | Inr pdns \<Rightarrow>
     (case proto_Resolve (pf_protocols flags) (rc_Protocols (remote_of cfg ref)) (df_Protocols (cf_Defaults cfg)) of
        Inl e \<Rightarrow> Inl (ProtocolsFailed e)
      | Inr ps \<Rightarrow>
     (case checkDNSProtocols (dns_Mode pdns) ps of Some e \<Rightarrow> Inl e
      | None \<Rightarrow>
     (case manifest_QUICPorts m of Inl e \<Rightarrow> Inl (ManifestSetting e)
      | Inr ports \<Rightarrow>
     (case manifest_Bandwidth m of Inl e \<Rightarrow> Inl (ManifestSetting e)
      | Inr (up, down) \<Rightarrow>
     (case controllerKnob (pe_TJ_QUIC_CONTROLLER env) of Inl e \<Rightarrow> Inl e
      | Inr controller \<Rightarrow>
     (case singleLaneKnob (pe_TJ_SSH_LANES env) of Inl e \<Rightarrow> Inl e
      | Inr singleLane \<Rightarrow>
     (case reconnectFor (pf_reconnectFor flags) cfg ref of Inl e \<Rightarrow> Inl e
      | Inr d \<Rightarrow>
          Inr \<lparr>plan_Remote = HostName (rr_Peer rr), plan_Ref = rr_Ref rr, plan_Addr = Addr_String (rr_Addr rr),
               plan_User = rr_User rr, plan_Networks = prefixStrings networks, plan_DNS = pdns,
               plan_HelperArch = goarch, plan_ManifestSHA256 = pe_sha256 env,
               plan_Transport = transportMode (pf_transport flags) cfg ref, plan_QUICPorts = PortRange_String ports,
               plan_BandwidthUp = up, plan_BandwidthDown = down, plan_Controller = controller,
               plan_Protocols = proto_String ps, plan_SingleLane = singleLane, plan_Verbose = pf_verbose flags,
               plan_ReconnectFor = quo d 1000000000\<rparr>)))))))))))"

definition plan_protocolSet :: "plan \<Rightarrow> proto_error + proto_set" where
  "plan_protocolSet p = (if plan_Protocols p = [] then Inr proto_All else proto_Parse (plan_Protocols p))"

section \<open>From the plan to the runner\<close>

lemma buildPlan_Inr:
  assumes "buildPlan env rr cfg ref flags nd res = Inr p" "pe_manifest env = Inr m"
  obtains networks pdns ps ports d where
    "sessionNetworks (pe_ops env) m (if nd then None else Some res) (cf_Exclude cfg) (rc_Networks (rr_Config rr))
       (rc_Exclude (rr_Config rr)) (TailscaleIPs (rr_Peer rr)) (pf_networks flags) (pf_excludes flags) (pe_connected env) = Inr networks"
    "networks \<noteq> []" "plan_Networks p = prefixStrings networks"
    "resolveDNS (pf_dns flags) cfg ref m (Some res) = Inr pdns" "plan_DNS p = pdns"
    "proto_Resolve (pf_protocols flags) (rc_Protocols (remote_of cfg ref)) (df_Protocols (cf_Defaults cfg)) = Inr ps"
    "plan_Protocols p = proto_String ps" "checkDNSProtocols (dns_Mode pdns) ps = None"
    "manifest_QUICPorts m = Inr ports" "plan_QUICPorts p = PortRange_String ports"
    "reconnectFor (pf_reconnectFor flags) cfg ref = Inr d" "plan_ReconnectFor p = quo d 1000000000"
    "plan_Addr p = Addr_String (rr_Addr rr)" "plan_Transport p = transportMode (pf_transport flags) cfg ref"
    "plan_HelperArch p = ''amd64'' \<or> plan_HelperArch p = ''arm64''"
    "plan_Controller p = [] \<or> plan_Controller p = ''cubic''"
  using assms
  by (auto simp: buildPlan_def ArchForUname_def controllerKnob_def split: sum.splits option.splits if_splits prod.splits)

lemma planNetworks_strings: "list_all prefix_ok ps \<Longrightarrow> planNetworks (prefixStrings ps) = Inr ps"
  by (induction ps) (simp_all add: prefixStrings_def)

lemma ports_parse_back:
  assumes "manifest_QUICPorts m = Inr ports"
  shows "ParsePortRange (PortRange_String ports) = Inr ports"
proof (rule port_parse_print)
  have "pr_First ports \<le> pr_Last ports \<and> pr_First ports \<noteq> 0"
    using assms ports_pos by (auto simp: manifest_QUICPorts_def DefaultPorts_def split: option.splits if_splits sum.splits)
  then show "0 < pr_First ports" "pr_First ports \<le> pr_Last ports" by (auto simp: word_greater_zero_iff)
qed

lemma proto_loop_grows:
  "proto_loop s names = Inr t \<Longrightarrow> (names \<noteq> [] \<or> ps_TCP s \<or> ps_UDP s \<or> ps_ICMP s) \<Longrightarrow> ps_TCP t \<or> ps_UDP t \<or> ps_ICMP t"
proof (induction names arbitrary: s)
  case (Cons n names)
  then show ?case by (simp add: Let_def split: if_split_asm)
qed simp

lemma Split_nonempty [simp]: "Split s c \<noteq> []"
  by (induction s c rule: Split.induct) (auto split: list.splits)

lemma proto_Resolve_back: "proto_Resolve f r d = Inr ps \<Longrightarrow> proto_Parse (proto_String ps) = Inr ps"
  unfolding proto_roundtrip
  by (auto simp: proto_Resolve_def proto_Parse_def proto_All_def dest: proto_loop_grows split: option.splits if_splits)

text \<open>
  C9: the runner reads back what \<open>tj connect\<close> computed. For every plan that \<open>buildPlan\<close> makes, the
  text of the plan parses in the runner to exactly the session networks, which are not empty,
  the port range of the manifest, the protocol set that flag, alias and defaults resolve to,
  and the address of the remote; a DNS mode that goes through the tunnel comes with UDP, and
  split DNS with at least one domain.
\<close>

theorem plan_reaches_runner:
  assumes "ipset (pe_ops env) good holds member" "pe_manifest env = Inr m"
    and "buildPlan env rr cfg ref flags noDiscovery res = Inr p" "IsValid (rr_Addr rr)"
  shows "\<exists>networks ports ps.
    sessionNetworks (pe_ops env) m (if noDiscovery then None else Some res) (cf_Exclude cfg) (rc_Networks (rr_Config rr))
      (rc_Exclude (rr_Config rr)) (TailscaleIPs (rr_Peer rr)) (pf_networks flags) (pf_excludes flags) (pe_connected env) = Inr networks
    \<and> networks \<noteq> [] \<and> planNetworks (plan_Networks p) = Inr networks
    \<and> manifest_QUICPorts m = Inr ports \<and> plan_quicPorts p = Inr ports
    \<and> proto_Resolve (pf_protocols flags) (rc_Protocols (remote_of cfg ref)) (df_Protocols (cf_Defaults cfg)) = Inr ps
    \<and> plan_protocolSet p = Inr ps \<and> ParseAddr (plan_Addr p) = Some (rr_Addr rr)
    \<and> (dns_Mode (plan_DNS p) = ''none'' \<or> ps_UDP ps)
    \<and> \<not> (dns_Mode (plan_DNS p) = ''split'' \<and> dns_Domains (plan_DNS p) = [])"
proof -
  obtain networks pdns ps ports d where b:
    "sessionNetworks (pe_ops env) m (if noDiscovery then None else Some res) (cf_Exclude cfg) (rc_Networks (rr_Config rr))
       (rc_Exclude (rr_Config rr)) (TailscaleIPs (rr_Peer rr)) (pf_networks flags) (pf_excludes flags) (pe_connected env) = Inr networks"
    "networks \<noteq> []" "plan_Networks p = prefixStrings networks"
    "resolveDNS (pf_dns flags) cfg ref m (Some res) = Inr pdns" "plan_DNS p = pdns"
    "proto_Resolve (pf_protocols flags) (rc_Protocols (remote_of cfg ref)) (df_Protocols (cf_Defaults cfg)) = Inr ps"
    "plan_Protocols p = proto_String ps" "checkDNSProtocols (dns_Mode pdns) ps = None"
    "manifest_QUICPorts m = Inr ports" "plan_QUICPorts p = PortRange_String ports"
    "plan_Addr p = Addr_String (rr_Addr rr)"
    by (rule buildPlan_Inr [OF assms(3,2)])
  obtain inp where "ComputeNetworks (pe_ops env) inp = Inr networks"
    using b(1) by (auto simp: sessionNetworks_def split: sum.splits)
  then have n: "planNetworks (plan_Networks p) = Inr networks"
    using planNetworks_strings [OF ipset.compute_prefixes_ok [OF assms(1)]] b(3) by simp
  have q: "plan_quicPorts p = Inr ports" "plan_protocolSet p = Inr ps"
    using ports_parse_back [OF b(9)] proto_Resolve_back [OF b(6)] port_string_plain(2) [of ports] b(7,10)
    by (auto simp: plan_quicPorts_def plan_protocolSet_def proto_Parse_def)
  have "dns_Mode pdns = ''none'' \<or> ps_UDP ps" "\<not> (dns_Mode pdns = ''split'' \<and> dns_Domains pdns = [])"
    using b(4,8) by (auto simp: checkDNSProtocols_def resolveDNS_def Let_def split: if_splits)
  then show ?thesis using b n q assms(4) by (intro exI [of _ networks] exI [of _ ports] exI [of _ ps]) simp
qed

definition plan_example_env :: "(bool \<times> (addr \<Rightarrow> bool), addr \<Rightarrow> bool) plan_env" where
  "plan_example_env = \<lparr>pe_ops = pred_ops, pe_connected = [], pe_TJ_QUIC_CONTROLLER = [], pe_TJ_SSH_LANES = [],
     pe_manifest = Inr (manifest_Empty\<lparr>mf_Networks := [''0.0.0.0/0'']\<rparr>), pe_sha256 = []\<rparr>"

definition example_remote :: resolved_remote where
  "example_remote = \<lparr>rr_Peer = \<lparr>HostName = ''gw'', Tags = [], Online = True, TailscaleIPs = [V4 0x08080808], Active = True,
     CurAddr = [], Relay = [], LastHandshake = 0\<rparr>, rr_Addr = V4 0x08080808, rr_User = ''root'', rr_Config = zero_remote,
     rr_Ref = ''gw''\<rparr>"

definition example_flags :: plan_flags where
  "example_flags = \<lparr>pf_dns = ''none'', pf_transport = [], pf_protocols = ''tcp'', pf_reconnectFor = [], pf_networks = [],
     pf_excludes = [], pf_verbose = False\<rparr>"

definition example_discovery :: discovery_result where
  "example_discovery = \<lparr>dr_Version = ''1'', dr_Hostname = ''gw'', dr_UnameM = ''x86_64'', dr_ExecDir = ''/tmp'', dr_Manifest = [],
     dr_Addresses = [], dr_LinkRoutes = [], dr_Resolvers = [], dr_CloudNetworks = None\<rparr>"

lemma example_networks:
  "\<exists>ps. sessionNetworks pred_ops (manifest_Empty\<lparr>mf_Networks := [''0.0.0.0/0'']\<rparr>) None [] [] [] [V4 0x08080808] [] [] [] = Inr ps \<and> ps \<noteq> []"
proof -
  obtain ps where ps: "ComputeNetworks pred_ops example_inputs = Inr ps"
    "\<forall>a. plain_addr a \<longrightarrow> (coveredBy a ps \<longleftrightarrow>
      coveredBy a (ManifestNetworks example_inputs @ DiscoveryLinkRoutes example_inputs @ DiscoveryCloud example_inputs)
      \<and> \<not> coveredBy a (ManifestExclude example_inputs @ ClientConnected example_inputs @ LocalExclude example_inputs @ reserved)
      \<and> a \<notin> set (RemoteAddrs example_inputs))"
    using pred_set.compute_exact [OF example_inputs_ok] by blast
  have "plain_addr (V4 0x01010101)" by (simp add: plain_addr_def IsValid_def)
  moreover have "coveredBy (V4 0x01010101) (ManifestNetworks example_inputs @ DiscoveryLinkRoutes example_inputs @ DiscoveryCloud example_inputs)
      \<and> \<not> coveredBy (V4 0x01010101) (ManifestExclude example_inputs @ ClientConnected example_inputs @ LocalExclude example_inputs @ reserved)
      \<and> V4 0x01010101 \<notin> set (RemoteAddrs example_inputs)"
    by (simp add: example_inputs_def coveredBy_def reserved_def Contains_def PrefixFrom_def PrefixIsValid_def IsValid_def)
  ultimately have "coveredBy (V4 0x01010101) ps" using ps(2) by blast
  then have ne: "ps \<noteq> []" by (auto simp: coveredBy_def)
  have m: "Masked (PrefixFrom (V4 0) 0) = PrefixFrom (V4 0) 0"
    by (simp add: Masked_def PrefixFrom_def PrefixIsValid_def IsValid_def)
  show ?thesis using ps(1) ne by (simp add: sessionNetworks_def manifest_Empty_def parse_all_v4 m example_inputs_def)
qed

lemma example_plan: "\<exists>p. buildPlan plan_example_env example_remote zero_config ''gw'' example_flags True example_discovery = Inr p"
proof -
  obtain ps where ps: "sessionNetworks pred_ops (manifest_Empty\<lparr>mf_Networks := [''0.0.0.0/0'']\<rparr>) None [] [] [] [V4 0x08080808] [] [] [] = Inr ps" "ps \<noteq> []"
    using example_networks by blast
  have r: "remote_of zero_config ''gw'' = zero_remote" "cf_Exclude zero_config = []" "df_Protocols (cf_Defaults zero_config) = []"
    "df_ReconnectFor (cf_Defaults zero_config) = []" by (simp_all add: remote_of_def zero_config_def)
  have "proto_Parse ''tcp'' = Inr \<lparr>ps_TCP = True, ps_UDP = False, ps_ICMP = False\<rparr>"
    using proto_roundtrip [of "\<lparr>ps_TCP = True, ps_UDP = False, ps_ICMP = False\<rparr>"] by (simp add: proto_String_def)
  moreover have "mf_DNS (manifest_Empty\<lparr>mf_Networks := n\<rparr>) = None" "mf_Transport (manifest_Empty\<lparr>mf_Networks := n\<rparr>) = None" for n
    by (simp_all add: manifest_Empty_def)
  ultimately show ?thesis using ps
    by (simp add: buildPlan_def plan_example_env_def example_remote_def example_flags_def example_discovery_def r zero_remote_def
        ArchForUname_def resolveDNS_def dnsMode_def proto_Resolve_def checkDNSProtocols_def
        manifest_QUICPorts_def manifest_Bandwidth_def controllerKnob_def singleLaneKnob_def reconnectFor_def)
qed

theorem plan_reaches_runner_witness:
  "\<exists>p networks. buildPlan plan_example_env example_remote zero_config ''gw'' example_flags True example_discovery = Inr p
     \<and> planNetworks (plan_Networks p) = Inr networks \<and> networks \<noteq> []"
proof -
  obtain p where p: "buildPlan plan_example_env example_remote zero_config ''gw'' example_flags True example_discovery = Inr p"
    using example_plan by blast
  have "ipset (pe_ops plan_example_env) fst snd (\<lambda>s. s)" using pred_set.ipset_axioms by (simp add: plan_example_env_def)
  moreover have "pe_manifest plan_example_env = Inr (manifest_Empty\<lparr>mf_Networks := [''0.0.0.0/0'']\<rparr>)" by (simp add: plan_example_env_def)
  moreover have "IsValid (rr_Addr example_remote)" by (simp add: example_remote_def IsValid_def)
  ultimately show ?thesis using plan_reaches_runner [OF _ _ p] p by metis
qed

definition flags_ok :: "plan_flags \<Rightarrow> bool" where
  "flags_ok f \<longleftrightarrow> (pf_dns f = [] \<or> dnsModeValue_Set (pf_dns f) \<noteq> None)
     \<and> (pf_transport f = [] \<or> transportModeValue_Set (pf_transport f) \<noteq> None)
     \<and> (pf_protocols f = [] \<or> protocolSetValue_Set (pf_protocols f) \<noteq> None)
     \<and> (pf_reconnectFor f = [] \<or> reconnectForValue_Set (pf_reconnectFor f) \<noteq> None)"

lemma Load_valid: "Load f = Inr c \<Longrightarrow> valid_defaults c \<and> valid_remotes c"
  using validate_zero by (auto simp: Load_def validate_None split: option.splits)

lemma remote_of_ok: "valid_remotes c \<Longrightarrow> settings_ok (remote_of c ref)"
  using valid_alias settings_ok_zero by (auto simp: remote_of_def split: option.splits)

lemma settings_okD:
  assumes "settings_ok rc"
  shows "rc_DNS rc = [] \<or> dns_Valid (rc_DNS rc)" "rc_Transport rc = [] \<or> mode_Valid (rc_Transport rc)"
    "rc_Protocols rc = [] \<or> proto_Valid (rc_Protocols rc)"
    "rc_ReconnectFor rc = [] \<or> reconnectForValue_Set (rc_ReconnectFor rc) \<noteq> None"
  using assms by (simp_all add: settings_ok_def validate_remote_None)

lemma defaultsD:
  assumes "valid_defaults c"
  shows "df_DNS (cf_Defaults c) = [] \<or> dns_Valid (df_DNS (cf_Defaults c))"
    "df_Transport (cf_Defaults c) = [] \<or> mode_Valid (df_Transport (cf_Defaults c))"
    "df_Protocols (cf_Defaults c) = [] \<or> proto_Valid (df_Protocols (cf_Defaults c))"
    "df_ReconnectFor (cf_Defaults c) = [] \<or> reconnectForValue_Set (df_ReconnectFor (cf_Defaults c)) \<noteq> None"
  using assms by (simp_all add: defaults_None Let_def)

lemma transport_mode_valid:
  "t = [] \<or> mode_Valid t \<Longrightarrow> settings_ok (remote_of c ref) \<Longrightarrow> valid_defaults c \<Longrightarrow> mode_Valid (transportMode t c ref)"
  using settings_okD(2) [of "remote_of c ref"] defaultsD(2) [of c]
  by (auto simp: transportMode_def mode_Resolve_def mode_Valid_def [of "''auto''"])

lemma dns_mode_valid:
  assumes "t = [] \<or> dns_Valid t" "valid_remotes c" "valid_defaults c"
  shows "dns_Valid (dnsMode t c ref has)"
proof -
  have r: "map_of (cf_Remotes c) ref = Some rc \<Longrightarrow> rc_DNS rc = [] \<or> dns_Valid (rc_DNS rc)" for rc
    using settings_okD(1) valid_alias [OF assms(2)] by blast
  have d: "dns_Valid (dns_Default b)" for b by (simp add: dns_Default_def dns_Valid_def)
  show ?thesis using assms(1) r d defaultsD(1) [OF assms(3)] by (auto simp: dnsMode_def split: option.splits)
qed

lemma protocols_resolve:
  "t = [] \<or> proto_Valid t \<Longrightarrow> settings_ok (remote_of c ref) \<Longrightarrow> valid_defaults c \<Longrightarrow>
     \<not> isl (proto_Resolve t (rc_Protocols (remote_of c ref)) (df_Protocols (cf_Defaults c)))"
  using settings_okD(3) [of "remote_of c ref"] defaultsD(3) [of c]
  by (auto simp: proto_Resolve_def proto_Valid_def split: sum.splits)

lemma reconnect_valid:
  assumes "t = [] \<or> reconnectForValue_Set t \<noteq> None" "settings_ok (remote_of c ref)" "valid_defaults c"
  shows "\<exists>d\<ge>0. reconnectFor t c ref = Inr d"
proof -
  have s: "reconnectForValue_Set v \<noteq> None \<Longrightarrow> \<exists>d\<ge>0. ParseDuration v = Some d" for v
    by (auto simp: reconnectForValue_Set_def split: option.splits if_splits)
  show ?thesis using assms(1) s [of t] s [of "rc_ReconnectFor (remote_of c ref)"] s [of "df_ReconnectFor (cf_Defaults c)"]
      settings_okD(4) [OF assms(2)] defaultsD(4) [OF assms(3)]
    by (auto simp: reconnectFor_def Let_def)
qed

text \<open>
  C35: a plan is well formed. From a configuration that \<open>Load\<close> accepts and flags that their \<open>Set\<close> methods
  accept, no setting of the plan can be refused later: \<open>buildPlan\<close> does not fail on the
  protocols or the reconnect window, and in the plan it makes the transport and the DNS mode
  are known modes, the reconnect window is not negative, the helper is for a known
  architecture and the controller is one the helper accepts.
\<close>

theorem plan_well_formed:
  assumes "Load f = Inr cfg" "flags_ok flags"
  shows "case buildPlan env rr cfg ref flags noDiscovery res of
      Inl e \<Rightarrow> (case e of ProtocolsFailed _ \<Rightarrow> False | ReconnectForInvalid _ \<Rightarrow> False | _ \<Rightarrow> True)
    | Inr p \<Rightarrow> mode_Valid (plan_Transport p) \<and> dns_Valid (dns_Mode (plan_DNS p)) \<and> 0 \<le> plan_ReconnectFor p
        \<and> (plan_HelperArch p = ''amd64'' \<or> plan_HelperArch p = ''arm64'')
        \<and> (plan_Controller p = [] \<or> plan_Controller p = ''cubic'')"
proof -
  have c: "valid_defaults cfg" "valid_remotes cfg" using Load_valid [OF assms(1)] by simp_all
  have r: "settings_ok (remote_of cfg ref)" by (rule remote_of_ok [OF c(2)])
  have f: "pf_dns flags = [] \<or> dns_Valid (pf_dns flags)" "pf_transport flags = [] \<or> mode_Valid (pf_transport flags)"
    "pf_protocols flags = [] \<or> proto_Valid (pf_protocols flags)"
    "pf_reconnectFor flags = [] \<or> reconnectForValue_Set (pf_reconnectFor flags) \<noteq> None"
    using assms(2) by (simp_all only: flags_ok_def set_values)
  obtain ps where ps: "proto_Resolve (pf_protocols flags) (rc_Protocols (remote_of cfg ref)) (df_Protocols (cf_Defaults cfg)) = Inr ps"
    using protocols_resolve [OF f(3) r c(1)] by (metis sum.collapse(2))
  obtain d where d: "0 \<le> d" "reconnectFor (pf_reconnectFor flags) cfg ref = Inr d"
    using reconnect_valid [OF f(4) r c(1)] by blast
  show ?thesis
  proof (cases "buildPlan env rr cfg ref flags noDiscovery res")
    case (Inl e)
    then show ?thesis
      by (auto simp: buildPlan_def ps d ArchForUname_def controllerKnob_def singleLaneKnob_def checkDNSProtocols_def
          resolveDNS_def Let_def split: sum.splits if_splits option.splits prod.splits)
  next
    case (Inr p)
    then obtain m where m: "pe_manifest env = Inr m" by (auto simp: buildPlan_def split: sum.splits)
    obtain pdns d' where b: "resolveDNS (pf_dns flags) cfg ref m (Some res) = Inr pdns" "plan_DNS p = pdns"
      "reconnectFor (pf_reconnectFor flags) cfg ref = Inr d'" "plan_ReconnectFor p = quo d' 1000000000"
      "plan_Transport p = transportMode (pf_transport flags) cfg ref"
      "plan_HelperArch p = ''amd64'' \<or> plan_HelperArch p = ''arm64''" "plan_Controller p = [] \<or> plan_Controller p = ''cubic''"
      by (rule buildPlan_Inr [OF Inr m])
    have "dns_Valid (dns_Mode pdns)"
      using b(1) dns_mode_valid [OF f(1) c(2,1)] by (auto simp: resolveDNS_def Let_def split: if_splits)
    then show ?thesis using Inr b d transport_mode_valid [OF f(2) r c(1)] by simp
  qed
qed

theorem plan_well_formed_witness:
  "\<exists>p. buildPlan plan_example_env example_remote zero_config ''gw'' example_flags True example_discovery = Inr p
     \<and> mode_Valid (plan_Transport p) \<and> 0 \<le> plan_ReconnectFor p"
proof -
  obtain p where p: "buildPlan plan_example_env example_remote zero_config ''gw'' example_flags True example_discovery = Inr p"
    using example_plan by blast
  have "Load None = Inr zero_config" by (simp add: Load_def)
  moreover have "flags_ok example_flags"
    using proto_roundtrip [of "\<lparr>ps_TCP = True, ps_UDP = False, ps_ICMP = False\<rparr>"]
    by (simp add: flags_ok_def example_flags_def dnsModeValue_Set_def protocolSetValue_Set_def dns_Valid_def proto_String_def)
  ultimately show ?thesis
    using plan_well_formed [of None zero_config example_flags plan_example_env example_remote "''gw''" True example_discovery] p by simp
qed

end
