(* ===== verification/Session_Control.thy ===== *)
theory Session_Control
  imports Networks Go_Float
begin

text \<open>
  The commands around a session, of \<open>internal/session\<close>: \<open>Connect\<close> and \<open>waitInactive\<close> of
  \<open>connect.go\<close>, \<open>Start\<close> and \<open>awaitUp\<close> of \<open>run.go\<close>, \<open>disconnect.go\<close>, \<open>lock.go\<close> and
  \<open>status.go\<close>, the path watch of \<open>watch.go\<close> and the metrics sampler of \<open>metrics.go\<close>. What the
  service manager, the state file, sudo and the clock answer is an argument, a poll at a time;
  what the command does to the unit is the list of its actions.
\<close>

section \<open>The state file\<close>

record reconnect_state =
  rs_Since :: string
  rs_Attempts :: int
  rs_Reason :: string

record metrics =
  me_UpdatedAt :: int
  me_RTTMS :: rat
  me_UpBytes :: int
  me_DownBytes :: int
  me_UpRate :: int
  me_DownRate :: int

text \<open>The JSON of the state file; \<open>UpdatedAt\<close> is the time before it is formatted.\<close>

record state_file =
  sf_Remote :: string
  sf_Ref :: string
  sf_Addr :: string
  sf_User :: string
  sf_Networks :: "string list"
  sf_DNS :: plan_dns
  sf_StartedAt :: string
  sf_PID :: int
  sf_Status :: string
  sf_Transport :: string
  sf_QUICPort :: "16 word"
  sf_Fallback :: string
  sf_Protocols :: string
  sf_Lanes :: string
  sf_Reconnect :: "reconnect_state option"
  sf_Reconnects :: int
  sf_Metrics :: "metrics option"

datatype state_read = NoState | BadState | StateIs state_file

definition TransportLine :: "state_file \<Rightarrow> string" where
  "TransportLine s =
     (if sf_Transport s = ''quic'' then ''quic (port '' @ show_nat (unat (sf_QUICPort s)) @ '')''
      else if sf_Transport s = ''ssh'' then
        ''ssh'' @ (if sf_Fallback s \<noteq> [] then '' (fallback: '' @ sf_Fallback s @ '')'' else [])
        @ (if sf_Lanes s \<noteq> [] then '', lanes '' @ sf_Lanes s else [])
      else ''unknown'')"

text \<open>\<open>since\<close> is \<open>sinceText\<close>, the time since a stamp as text.\<close>

definition StatusLine :: "(string \<Rightarrow> string) \<Rightarrow> state_file \<Rightarrow> string" where
  "StatusLine since s =
     (case sf_Reconnect s of
        None \<Rightarrow> sf_Status s
      | Some r \<Rightarrow>
          if sf_Status s \<noteq> ''reconnecting'' then sf_Status s
          else sf_Status s @ '' (attempt '' @ Itoa (rs_Attempts r) @ '', '' @ since (rs_Since r)
               @ (if rs_Reason r \<noteq> [] then ''; '' @ rs_Reason r else []) @ '')'')"

definition upLine :: "(string \<Rightarrow> string) \<Rightarrow> state_file \<Rightarrow> string" where
  "upLine since s =
     (if sf_Status s = ''reconnecting'' then
        ''session to '' @ sf_Remote s @ '' is reconnecting (attempt ''
        @ Itoa (case sf_Reconnect s of Some r \<Rightarrow> rs_Attempts r | None \<Rightarrow> 0) @ ''); use --replace to restart''
      else ''session to '' @ sf_Remote s @ '' already up ('' @ since (sf_StartedAt s) @ ''); use --replace to restart'')"

section \<open>Who is active\<close>

record active_error =
  ae_Remote :: string
  ae_StartedAt :: string

definition ActiveError_Error :: "active_error \<Rightarrow> string" where
  "ActiveError_Error e =
     (if ae_Remote e = [] then ''a session is already active; use --replace to end it first''
      else if ae_StartedAt e \<noteq> [] then
        ''a session to '' @ ae_Remote e @ '' is active since '' @ ae_StartedAt e @ ''; use --replace to end it first''
      else ''a session to '' @ ae_Remote e @ '' is active; use --replace to end it first'')"

text \<open>\<open>activeSession\<close>: the unit is the authority, the state file only names the remote.\<close>

definition activeSession :: "string + bool \<Rightarrow> state_read \<Rightarrow> string + active_error option" where
  "activeSession unit st =
     (case unit of
        Inl e \<Rightarrow> Inl e
      | Inr False \<Rightarrow> Inr None
      | Inr True \<Rightarrow> Inr (Some (case st of
            StateIs s \<Rightarrow> \<lparr>ae_Remote = sf_Remote s, ae_StartedAt = sf_StartedAt s\<rparr>
          | _ \<Rightarrow> \<lparr>ae_Remote = [], ae_StartedAt = []\<rparr>)))"

definition alreadyUp :: "state_read \<Rightarrow> plan \<Rightarrow> state_file option" where
  "alreadyUp st p =
     (case st of
        StateIs s \<Rightarrow>
          if sf_Addr s = plan_Addr p then Some s
          else if sf_Status s = ''reconnecting'' \<and> sf_Ref s \<noteq> [] \<and> sf_Ref s = plan_Ref p then Some s
          else None
      | _ \<Rightarrow> None)"

text \<open>\<open>Active\<close>: an error of the unit check is logged and the state file believed.\<close>

definition session_Active :: "state_read \<Rightarrow> string + bool \<Rightarrow> unit + state_file option" where
  "session_Active st unit =
     (case st of
        NoState \<Rightarrow> Inr None
      | BadState \<Rightarrow> Inl ()
      | StateIs s \<Rightarrow> (case unit of Inr False \<Rightarrow> Inr None | _ \<Rightarrow> Inr (Some s)))"

text \<open>\<open>printUp\<close>: the last line of a connect, when the session still has a state; \<open>took\<close> is the time as text.\<close>

definition printUp :: "string \<Rightarrow> state_read \<Rightarrow> string + bool \<Rightarrow> string option" where
  "printUp took st unit =
     (case session_Active st unit of
        Inr (Some s) \<Rightarrow> Some (''session to '' @ sf_Remote s @ '' up: '' @ TransportLine s @ '', dns '' @ dns_Mode (sf_DNS s)
          @ '', '' @ show_nat (length (sf_Networks s)) @ '' networks, '' @ took)
      | _ \<Rightarrow> None)"

section \<open>Waiting\<close>

text \<open>One iteration of a waiting loop sees the answer of the unit, the state file, the clock and the context.\<close>

record poll =
  po_active :: "string + bool"
  po_state :: state_read
  po_now :: int
  po_done :: bool

definition ms :: "int \<Rightarrow> int" where "ms n = n * 1000000"

datatype wait_error = CheckFailed string | NotStopped | UnitExited | UpTimedOut | CtxDone

partial_function (option) waitInactive :: "(nat \<Rightarrow> poll) \<Rightarrow> int \<Rightarrow> nat \<Rightarrow> wait_error option option" where
  "waitInactive w deadline i =
     (case po_active (w i) of
        Inl e \<Rightarrow> Some (Some (CheckFailed e))
      | Inr active \<Rightarrow>
          if \<not> active then Some None
          else if deadline < po_now (w i) then Some (Some NotStopped)
          else if po_done (w i) then Some (Some CtxDone)
          else waitInactive w deadline (Suc i))"

definition upTimeout :: int where "upTimeout = ms 60000"

definition isUp :: "state_read \<Rightarrow> bool" where
  "isUp st = (case st of StateIs s \<Rightarrow> sf_Status s = ''up'' | _ \<Rightarrow> False)"

partial_function (option) awaitUp :: "(nat \<Rightarrow> poll) \<Rightarrow> int \<Rightarrow> nat \<Rightarrow> wait_error option option" where
  "awaitUp w start i =
     (if isUp (po_state (w i)) then Some None
      else if po_active (w i) = Inr False \<and> po_now (w i) - start > ms 3000 then Some (Some UnitExited)
      else if start + upTimeout < po_now (w i) then Some (Some UpTimedOut)
      else if po_done (w i) then Some (Some CtxDone)
      else awaitUp w start (Suc i))"

section \<open>Start, stop, connect\<close>

datatype action = WritePlan plan | StartUnit | StopUnit | RunInProcess | RunRootCopy "string list"

datatype session_cmd_error =
    ActiveCheck string
  | IsActive active_error
  | WriteFailed
  | UnitFailed string
  | WaitFailed wait_error
  | Cancelled
  | RootCopyMissing
  | SudoFailed string
  | VersionMismatch string
  | Interrupted
  | CommandError string
  | ReplaceFailed session_cmd_error

datatype cmd_outcome = CmdOK | CmdExit int | CmdError string

record control_env =
  ce_active :: "string + bool"
  ce_state :: state_read
  ce_root :: bool
  ce_write_plan :: bool
  ce_unit_start :: "string option"
  ce_unit_stop :: "string option"
  ce_stop_polls :: "nat \<Rightarrow> poll"
  ce_up_polls :: "nat \<Rightarrow> poll"
  ce_cancelled :: bool
  ce_cancel_polls :: "nat \<Rightarrow> poll"
  ce_root_copy :: bool
  ce_version_output :: "string + string"
  ce_version :: string
  ce_sudo_stop :: cmd_outcome
  ce_sudo_start :: cmd_outcome
  ce_run :: "session_cmd_error option"

definition runSudo :: "cmd_outcome \<Rightarrow> session_cmd_error option" where
  "runSudo c = (case c of
     CmdOK \<Rightarrow> None
   | CmdExit n \<Rightarrow> if n = 130 then Some Interrupted else Some (CommandError (''exit status '' @ Itoa n))
   | CmdError e \<Rightarrow> Some (CommandError e))"

definition CheckRootCopy :: "control_env \<Rightarrow> session_cmd_error option" where
  "CheckRootCopy e =
     (if \<not> ce_root_copy e then Some RootCopyMissing
      else case ce_version_output e of
        Inl err \<Rightarrow> Some (SudoFailed err)
      | Inr out \<Rightarrow> if TrimSpace out \<noteq> ce_version e then Some (VersionMismatch (TrimSpace out)) else None)"

text \<open>
  \<open>stopCancelled\<close> and then \<open>Start\<close>; with \<open>foreground\<close> it returns what the session run returned. A wait
  may not return: the outer \<open>None\<close> stands for that.
\<close>

definition stopCancelled :: "control_env \<Rightarrow> action list \<Rightarrow> (session_cmd_error option \<times> action list) option" where
  "stopCancelled e before =
     (case waitInactive (ce_cancel_polls e) (po_now (ce_cancel_polls e 0) + ms 25000) 0 of
        None \<Rightarrow> None
      | Some _ \<Rightarrow> Some (Some Cancelled, before @ [StopUnit]))"

definition Start :: "control_env \<Rightarrow> plan \<Rightarrow> bool \<Rightarrow> (session_cmd_error option \<times> action list) option" where
  "Start e p foreground =
     (if \<not> ce_write_plan e then Some (Some WriteFailed, [])
      else if foreground then Some (ce_run e, [WritePlan p, RunInProcess])
      else case ce_unit_start e of
        Some err \<Rightarrow> Some (Some (UnitFailed err), [WritePlan p, StartUnit])
      | None \<Rightarrow>
          (case awaitUp (ce_up_polls e) (po_now (ce_up_polls e 0)) 0 of
             None \<Rightarrow> None
           | Some None \<Rightarrow> Some (None, [WritePlan p, StartUnit])
           | Some (Some err) \<Rightarrow>
               if ce_cancelled e then stopCancelled e [WritePlan p, StartUnit]
               else Some (Some (WaitFailed err), [WritePlan p, StartUnit])))"

definition sudoStart :: "control_env \<Rightarrow> plan \<Rightarrow> bool \<Rightarrow> session_cmd_error option \<times> action list" where
  "sudoStart e p foreground =
     (case CheckRootCopy e of
        Some err \<Rightarrow> (Some err, [])
      | None \<Rightarrow> (runSudo (ce_sudo_start e),
                 [RunRootCopy ((if plan_Verbose p then [''-v''] else []) @ [''_session'', ''start'']
                   @ (if foreground then [''--foreground''] else []))]))"

definition stopActive :: "control_env \<Rightarrow> (session_cmd_error option \<times> action list) option" where
  "stopActive e =
     (let (err, acts) = (if ce_root e then (map_option UnitFailed (ce_unit_stop e), [StopUnit])
                         else (runSudo (ce_sudo_stop e), [RunRootCopy [''_session'', ''stop'']]))
      in case err of
           Some x \<Rightarrow> Some (Some x, acts)
         | None \<Rightarrow> (case waitInactive (ce_stop_polls e) (po_now (ce_stop_polls e 0) + ms 25000) 0 of
                      None \<Rightarrow> None
                    | Some None \<Rightarrow> Some (None, acts)
                    | Some (Some x) \<Rightarrow> Some (Some (WaitFailed x), acts)))"

datatype connect_result = Started | AlreadyUp state_file | ConnectFailed session_cmd_error

definition connect_start :: "control_env \<Rightarrow> plan \<Rightarrow> bool \<Rightarrow> action list \<Rightarrow> (connect_result \<times> action list) option" where
  "connect_start e p foreground before =
     (case (if ce_root e then Start e p foreground else Some (sudoStart e p foreground)) of
        None \<Rightarrow> None
      | Some (Some err, acts) \<Rightarrow> Some (ConnectFailed err, before @ acts)
      | Some (None, acts) \<Rightarrow> Some (Started, before @ acts))"

definition Connect :: "control_env \<Rightarrow> plan \<Rightarrow> bool \<Rightarrow> bool \<Rightarrow> (connect_result \<times> action list) option" where
  "Connect e p replace foreground =
     (case activeSession (ce_active e) (ce_state e) of
        Inl err \<Rightarrow> Some (ConnectFailed (ActiveCheck err), [])
      | Inr None \<Rightarrow> connect_start e p foreground []
      | Inr (Some ae) \<Rightarrow>
          if \<not> replace then
            (case alreadyUp (ce_state e) p of
               None \<Rightarrow> Some (ConnectFailed (IsActive ae), [])
             | Some st \<Rightarrow> Some (AlreadyUp st, []))
          else (case stopActive e of
                  None \<Rightarrow> None
                | Some (Some err, acts) \<Rightarrow> Some (ConnectFailed (ReplaceFailed err), acts)
                | Some (None, acts) \<Rightarrow> connect_start e p foreground acts))"

text \<open>\<open>Disconnect\<close>, with the line it prints.\<close>

definition Disconnect :: "control_env \<Rightarrow> (session_cmd_error + string) \<times> action list" where
  "Disconnect e =
     (case ce_active e of
        Inl err \<Rightarrow> (Inl (ActiveCheck err), [])
      | Inr False \<Rightarrow> (Inr ''no active session'', [])
      | Inr True \<Rightarrow>
          (let remote = (case ce_state e of StateIs s \<Rightarrow> sf_Remote s | _ \<Rightarrow> []);
               (err, acts) = (if ce_root e then (map_option UnitFailed (ce_unit_stop e), [StopUnit])
                              else (runSudo (ce_sudo_stop e), [RunRootCopy [''_session'', ''stop'']]))
           in (case err of
                 Some x \<Rightarrow> Inl x
               | None \<Rightarrow> Inr (if remote = [] then ''session ended'' else ''session to '' @ remote @ '' ended''), acts)))"

section \<open>The path watch\<close>

definition watchFlaps :: nat where "watchFlaps = 3"

text \<open>\<open>watchWindow / watchInterval\<close>.\<close>

definition watchSamples :: nat where "watchSamples = 12"

definition hasAddr :: "addr list \<Rightarrow> addr \<Rightarrow> bool" where
  "hasAddr as a = list_ex (\<lambda>x. x = a) as"

definition endpointOf :: "tail_status \<Rightarrow> addr \<Rightarrow> string" where
  "endpointOf st a = (case find (\<lambda>p. hasAddr (TailscaleIPs p) a) (Peers st) of Some p \<Rightarrow> CurAddr p | None \<Rightarrow> [])"

fun pathChanges :: "string list \<Rightarrow> nat" where
  "pathChanges (x # y # xs) = (if y \<noteq> x then 1 else 0) + pathChanges (y # xs)"
| "pathChanges _ = 0"

record watch =
  wt_samples :: "string list"
  wt_warned :: bool

definition lastN :: "nat \<Rightarrow> 'a list \<Rightarrow> 'a list" where
  "lastN n xs = drop (length xs - n) xs"

text \<open>One tick of \<open>watchTransportPath\<close>: a status that failed is \<open>None\<close>; the flag says whether it warns.\<close>

definition watch_tick :: "addr \<Rightarrow> tail_status option \<Rightarrow> watch \<Rightarrow> bool \<times> watch" where
  "watch_tick a st w =
     (case st of
        None \<Rightarrow> (False, w)
      | Some s \<Rightarrow>
          let samples = lastN watchSamples (wt_samples w @ [endpointOf s a]);
              changes = pathChanges samples
          in if changes \<ge> watchFlaps \<and> \<not> wt_warned w then (True, \<lparr>wt_samples = samples, wt_warned = True\<rparr>)
             else if changes = 0 then (False, \<lparr>wt_samples = samples, wt_warned = False\<rparr>)
             else (False, w\<lparr>wt_samples := samples\<rparr>))"

section \<open>Metrics\<close>

definition metricsWriteInterval :: int where "metricsWriteInterval = ms 5000"

definition metrics_rate :: "(rat \<Rightarrow> int) \<Rightarrow> int \<Rightarrow> int \<Rightarrow> int" where
  "metrics_rate oor delta d = (if d \<le> 0 then 0 else f64_to_u64 oor (f64 (f64 (of_int delta) / Seconds d)))"

definition meanMS :: "int \<Rightarrow> int \<Rightarrow> rat" where
  "meanMS rttSum answered =
     (if answered = 0 then 0 else f64 (f64 (f64 (of_int rttSum) / f64 (of_int answered)) / 1000000))"

record metrics_watch =
  mw_last :: int
  mw_upBase :: int
  mw_downBase :: int
  mw_rttSum :: int
  mw_answered :: int
  mw_first :: bool

text \<open>A tick: the answer of the probe, the clock after it, and the counters of the data plane.\<close>

record metrics_tick =
  mt_rtt :: "int option"
  mt_now :: int
  mt_up :: int
  mt_down :: int

definition newMetricsWatch :: "int \<Rightarrow> int \<Rightarrow> int \<Rightarrow> metrics_watch" where
  "newMetricsWatch t up down = \<lparr>mw_last = t, mw_upBase = up, mw_downBase = down, mw_rttSum = 0, mw_answered = 0, mw_first = True\<rparr>"

definition metrics_run :: "(rat \<Rightarrow> int) \<Rightarrow> metrics_tick \<Rightarrow> metrics_watch \<Rightarrow> metrics option \<times> metrics_watch" where
  "metrics_run oor t w0 =
     (let w = (case mt_rtt t of None \<Rightarrow> w0
               | Some rtt \<Rightarrow> w0\<lparr>mw_rttSum := i64 (mw_rttSum w0 + rtt), mw_answered := mw_answered w0 + 1\<rparr>);
          elapsed = mt_now t - mw_last w
      in if \<not> mw_first w \<and> elapsed < metricsWriteInterval then (None, w)
         else (Some \<lparr>me_UpdatedAt = mt_now t, me_RTTMS = meanMS (mw_rttSum w) (mw_answered w), me_UpBytes = mt_up t,
                      me_DownBytes = mt_down t, me_UpRate = metrics_rate oor (u64 (mt_up t - mw_upBase w)) elapsed,
                      me_DownRate = metrics_rate oor (u64 (mt_down t - mw_downBase w)) elapsed\<rparr>,
               \<lparr>mw_last = mt_now t, mw_upBase = mt_up t, mw_downBase = mt_down t, mw_rttSum = 0, mw_answered = 0, mw_first = False\<rparr>))"

section \<open>Loops that wait\<close>

text \<open>
  A loop that polls until it has an answer: \<open>decide\<close> is what one iteration makes of a poll. The
  clock moves by the pause of the loop, and after the deadline every poll decides.
\<close>

locale poll_loop =
  fixes w :: "nat \<Rightarrow> poll"
    and loop :: "nat \<Rightarrow> 'r option"
    and decide :: "poll \<Rightarrow> 'r option"
    and pause deadline :: int
  assumes unfold_loop: "loop i = (case decide (w i) of Some r \<Rightarrow> Some r | None \<Rightarrow> loop (Suc i))"
    and late: "deadline < po_now (w i) \<Longrightarrow> decide (w i) \<noteq> None"
    and clock: "po_now (w i) + pause \<le> po_now (w (Suc i))"
    and pause: "0 < pause"
begin

lemma clock_from: "po_now (w 0) + int n * pause \<le> po_now (w n)"
proof (induction n)
  case (Suc n)
  then show ?case using clock [of n] by (simp add: algebra_simps)
qed simp

lemma late_poll: "deadline < po_now (w 0) + int n * pause \<Longrightarrow> decide (w n) \<noteq> None"
  using late [of n] clock_from [of n] by simp

lemma loop_first: "decide (w n) = Some r \<Longrightarrow> (\<And>i. i < n \<Longrightarrow> decide (w i) = None) \<Longrightarrow> i \<le> n \<Longrightarrow> loop i = Some r"
proof (induction "n - i" arbitrary: i)
  case 0
  then show ?case by (subst unfold_loop) simp
next
  case (Suc k)
  then have i: "i < n" "k = n - Suc i" "Suc i \<le> n" by simp_all
  have "loop (Suc i) = Some r" by (rule Suc.hyps(1) [OF i(2) Suc.prems(1,2) i(3)])
  then show ?case using Suc.prems(2) [OF i(1)] by (subst unfold_loop) simp
qed

lemma returns:
  assumes "deadline < po_now (w 0) + int n * pause"
  shows "\<exists>m r. m \<le> n \<and> decide (w m) = Some r \<and> (\<forall>i<m. decide (w i) = None) \<and> loop 0 = Some r"
proof -
  define m where "m = (LEAST m. decide (w m) \<noteq> None)"
  have m: "decide (w m) \<noteq> None" "m \<le> n" using late_poll [OF assms] unfolding m_def by (auto intro: LeastI Least_le)
  have first: "\<And>i. i < m \<Longrightarrow> decide (w i) = None" unfolding m_def using not_less_Least by blast
  obtain r where r: "decide (w m) = Some r" using m(1) by auto
  then show ?thesis using loop_first [OF r first, of 0] m(2) first by blast
qed

end

definition stop_decide :: "int \<Rightarrow> poll \<Rightarrow> wait_error option option" where
  "stop_decide deadline q =
     (case po_active q of
        Inl e \<Rightarrow> Some (Some (CheckFailed e))
      | Inr active \<Rightarrow> if \<not> active then Some None else if deadline < po_now q then Some (Some NotStopped)
                      else if po_done q then Some (Some CtxDone) else None)"

definition up_decide :: "int \<Rightarrow> poll \<Rightarrow> wait_error option option" where
  "up_decide start q =
     (if isUp (po_state q) then Some None
      else if po_active q = Inr False \<and> po_now q - start > ms 3000 then Some (Some UnitExited)
      else if start + upTimeout < po_now q then Some (Some UpTimedOut)
      else if po_done q then Some (Some CtxDone) else None)"

definition ticking :: "(nat \<Rightarrow> poll) \<Rightarrow> bool" where
  "ticking w \<longleftrightarrow> (\<forall>i. po_now (w i) + ms 250 \<le> po_now (w (Suc i)))"

lemma stop_loop: "ticking w \<Longrightarrow> poll_loop w (waitInactive w deadline) (stop_decide deadline) (ms 250) deadline"
proof unfold_locales
  show "waitInactive w deadline i = (case stop_decide deadline (w i) of Some r \<Rightarrow> Some r | None \<Rightarrow> waitInactive w deadline (Suc i))" for i
    by (subst waitInactive.simps) (simp add: stop_decide_def split: sum.splits)
  show "deadline < po_now (w i) \<Longrightarrow> stop_decide deadline (w i) \<noteq> None" for i by (simp add: stop_decide_def split: sum.splits)
qed (simp_all add: ticking_def ms_def)

lemma up_loop: "ticking w \<Longrightarrow> poll_loop w (awaitUp w start) (up_decide start) (ms 250) (start + upTimeout)"
proof unfold_locales
  show "awaitUp w start i = (case up_decide start (w i) of Some r \<Rightarrow> Some r | None \<Rightarrow> awaitUp w start (Suc i))" for i
    by (subst awaitUp.simps) (simp add: up_decide_def)
  show "start + upTimeout < po_now (w i) \<Longrightarrow> up_decide start (w i) \<noteq> None" for i by (simp add: up_decide_def)
qed (simp_all add: ticking_def ms_def)

text \<open>
  The polls of a loop that sleeps 250 ms between them: the clock starts at \<open>t0\<close>, and \<open>d i\<close> is what
  iteration \<open>i\<close> takes on top of the sleep.
\<close>

definition clocked :: "int \<Rightarrow> (nat \<Rightarrow> nat) \<Rightarrow> (nat \<Rightarrow> poll) \<Rightarrow> nat \<Rightarrow> poll" where
  "clocked t0 d w i = (w i)\<lparr>po_now := t0 + (\<Sum>j<i. ms 250 + int (d j))\<rparr>"

lemma ticking_clocked: "ticking (clocked t0 d w)"
  by (simp add: ticking_def clocked_def)

lemma clocked_0 [simp]: "po_now (clocked t0 d w 0) = t0"
  by (simp add: clocked_def)

interpretation stopping: poll_loop "clocked t0 d w" "waitInactive (clocked t0 d w) deadline" "stop_decide deadline" "ms 250" deadline
  for t0 d w deadline by (rule stop_loop [OF ticking_clocked])

interpretation starting: poll_loop "clocked t0 d w" "awaitUp (clocked t0 d w) start" "up_decide start" "ms 250" "start + upTimeout"
  for t0 d w start by (rule up_loop [OF ticking_clocked])

text \<open>
  C31: the loops that wait for the unit end. Whatever the service manager and the state file answer
  and however long each check takes, \<open>waitInactive\<close> returns after at most 101 checks more than
  the first and \<open>awaitUp\<close> after at most 241, with what the first deciding check gives.
\<close>

theorem wait_loops_end:
  "(\<exists>m r. m \<le> 101 \<and> waitInactive (clocked t0 d w) (t0 + ms 25000) 0 = Some r
      \<and> stop_decide (t0 + ms 25000) (clocked t0 d w m) = Some r)
   \<and> (\<exists>m r. m \<le> 241 \<and> awaitUp (clocked t0 d w) t0 0 = Some r \<and> up_decide t0 (clocked t0 d w m) = Some r)"
proof
  have "t0 + ms 25000 < po_now (clocked t0 d w 0) + int 101 * ms 250" by (simp add: ms_def)
  from stopping.returns [OF this] show "\<exists>m r. m \<le> 101 \<and> waitInactive (clocked t0 d w) (t0 + ms 25000) 0 = Some r
      \<and> stop_decide (t0 + ms 25000) (clocked t0 d w m) = Some r" by blast
  have "t0 + upTimeout < po_now (clocked t0 d w 0) + int 241 * ms 250" by (simp add: ms_def upTimeout_def)
  from starting.returns [OF this] show "\<exists>m r. m \<le> 241 \<and> awaitUp (clocked t0 d w) t0 0 = Some r
      \<and> up_decide t0 (clocked t0 d w m) = Some r" by blast
qed

section \<open>One session at a time\<close>

lemma waitInactive_saw: "waitInactive w deadline i = Some None \<Longrightarrow> \<exists>j. po_active (w j) = Inr False"
  using waitInactive.raw_induct [of "\<lambda>w deadline i r. r = None \<longrightarrow> (\<exists>j. po_active (w j) = Inr False)" w deadline i None]
  by (force split: sum.splits if_splits)

lemma awaitUp_saw: "awaitUp w start i = Some None \<Longrightarrow> \<exists>j. isUp (po_state (w j))"
  using awaitUp.raw_induct [of "\<lambda>w start i r. r = None \<longrightarrow> (\<exists>j. isUp (po_state (w j)))" w start i None]
  by (force split: if_splits)

definition starts :: "action \<Rightarrow> bool" where
  "starts a = (case a of StartUnit \<Rightarrow> True | RunInProcess \<Rightarrow> True | RunRootCopy args \<Rightarrow> ''start'' \<in> set args | _ \<Rightarrow> False)"

definition stops :: "action \<Rightarrow> bool" where
  "stops a = (case a of StopUnit \<Rightarrow> True | RunRootCopy args \<Rightarrow> args = [''_session'', ''stop''] | _ \<Rightarrow> False)"

lemma stopActive_law:
  assumes "stopActive e = Some (err, acts)"
  shows "\<exists>a. acts = [a] \<and> stops a \<and> \<not> starts a" "err = None \<Longrightarrow> \<exists>j. po_active (ce_stop_polls e j) = Inr False"
  using assms waitInactive_saw [of "ce_stop_polls e"]
  by (auto simp: stopActive_def stops_def starts_def Let_def split: option.splits if_splits)

lemma start_law:
  assumes "connect_start e p foreground before = Some (res, acts)"
  shows "\<exists>as. acts = before @ as"
    "ce_root e \<Longrightarrow> \<not> foreground \<Longrightarrow> res = Started \<Longrightarrow> \<exists>j. isUp (po_state (ce_up_polls e j))"
    "\<not> foreground \<Longrightarrow> res = ConnectFailed Cancelled \<Longrightarrow> acts \<noteq> [] \<and> last acts = StopUnit"
    "\<not> ce_root e \<Longrightarrow> res = Started \<Longrightarrow> TrimSpace (projr (ce_version_output e)) = ce_version e"
  using assms awaitUp_saw [of "ce_up_polls e"]
  by (auto simp: connect_start_def Start_def stopCancelled_def sudoStart_def CheckRootCopy_def runSudo_def
      split: option.splits if_splits sum.splits cmd_outcome.splits prod.splits)


definition example_poll :: "bool \<Rightarrow> state_read \<Rightarrow> nat \<Rightarrow> poll" where
  "example_poll a s i = \<lparr>po_active = Inr a, po_state = s, po_now = ms 250 * int i, po_done = False\<rparr>"

definition example_state :: state_file where
  "example_state = \<lparr>sf_Remote = ''gw'', sf_Ref = ''gw'', sf_Addr = ''100.64.0.1'', sf_User = ''u'',
     sf_Networks = [''10.0.0.0/8''], sf_DNS = \<lparr>dns_Mode = ''none'', dns_Servers = [], dns_Domains = []\<rparr>, sf_StartedAt = [],
     sf_PID = 1, sf_Status = ''up'',
     sf_Transport = ''ssh'', sf_QUICPort = 0, sf_Fallback = [], sf_Protocols = ''tcp'', sf_Lanes = [],
     sf_Reconnect = None, sf_Reconnects = 0, sf_Metrics = None\<rparr>"

definition example_control :: control_env where
  "example_control = \<lparr>ce_active = Inr True, ce_state = StateIs example_state, ce_root = True, ce_write_plan = True,
     ce_unit_start = None, ce_unit_stop = None, ce_stop_polls = example_poll False NoState,
     ce_up_polls = example_poll True (StateIs example_state), ce_cancelled = False, ce_cancel_polls = example_poll False NoState,
     ce_root_copy = True, ce_version_output = Inr [], ce_version = [], ce_sudo_stop = CmdOK, ce_sudo_start = CmdOK, ce_run = None\<rparr>"

definition control_plan :: plan where
  "control_plan = \<lparr>plan_Remote = ''gw'', plan_Ref = ''gw'', plan_Addr = ''100.64.0.1'', plan_User = ''u'', plan_Networks = [''10.0.0.0/8''],
     plan_DNS = \<lparr>dns_Mode = ''none'', dns_Servers = [], dns_Domains = []\<rparr>, plan_HelperArch = ''amd64'', plan_ManifestSHA256 = [],
     plan_Transport = ''auto'', plan_QUICPorts = [], plan_BandwidthUp = 0, plan_BandwidthDown = 0, plan_Controller = [],
     plan_Protocols = [], plan_SingleLane = False, plan_Verbose = False, plan_ReconnectFor = 600\<rparr>"


section \<open>Samples\<close>

lemma lastN_append: "lastN n (lastN n xs @ ys) = lastN n (xs @ ys)"
  by (cases "length xs \<le> n") (simp_all add: lastN_def add.commute)

text \<open>The watch looks at the endpoints of the last two minutes, whatever it saw before.\<close>

lemma watch_window:
  "wt_samples (snd (fold (\<lambda>st (warn, w). watch_tick a st w) sts (False, \<lparr>wt_samples = [], wt_warned = False\<rparr>)))
     = lastN watchSamples (map (\<lambda>s. endpointOf s a) (List.map_filter (\<lambda>x. x) sts))"
proof -
  have step: "wt_samples (snd (watch_tick a st w)) =
      (case st of None \<Rightarrow> wt_samples w | Some s \<Rightarrow> lastN watchSamples (wt_samples w @ [endpointOf s a]))" for st w
    by (simp add: watch_tick_def Let_def split: option.splits)
  have "wt_samples (snd (fold (\<lambda>st (warn, w). watch_tick a st w) sts (b, w)))
      = lastN watchSamples (xs @ map (\<lambda>s. endpointOf s a) (List.map_filter (\<lambda>x. x) sts))"
    if "wt_samples w = lastN watchSamples xs" for b w xs
    using that
  proof (induction sts arbitrary: b w xs)
    case (Cons st sts)
    let ?x = "watch_tick a st w"
    have w: "wt_samples (snd ?x) = lastN watchSamples (xs @ map (\<lambda>s. endpointOf s a) (List.map_filter (\<lambda>x. x) [st]))"
      unfolding step Cons.prems by (simp add: map_filter_simps lastN_append split: option.split)
    show ?case using Cons.IH [OF w, of "fst ?x"] by (simp add: map_filter_simps split: option.split)
  qed (simp add: map_filter_simps)
  from this [of "\<lparr>wt_samples = [], wt_warned = False\<rparr>" "[]" False] show ?thesis by (simp add: lastN_def)
qed

text \<open>
  The sampler: the ticks that send nothing only add up the answers of the probes, so a sample
  after the first covers at least five seconds, and its round-trip time is the mean over them.
\<close>

definition quiet :: "(rat \<Rightarrow> int) \<Rightarrow> metrics_watch \<Rightarrow> metrics_tick list \<Rightarrow> bool" where
  "quiet oor w ts \<longleftrightarrow> (\<forall>k < length ts. fst (metrics_run oor (ts ! k) (fold (\<lambda>t w. snd (metrics_run oor t w)) (take k ts) w)) = None)"

lemma quiet_Cons: "quiet oor w (t # ts) \<longleftrightarrow> fst (metrics_run oor t w) = None \<and> quiet oor (snd (metrics_run oor t w)) ts"
  by (auto simp: quiet_def nth_Cons less_Suc_eq_0_disj split: nat.splits)

definition answers_sum :: "metrics_tick list \<Rightarrow> int" where
  "answers_sum ts = sum_list (List.map_filter mt_rtt ts)"

definition answers_count :: "metrics_tick list \<Rightarrow> int" where
  "answers_count ts = int (length (List.map_filter mt_rtt ts))"

lemma quiet_ticks:
  "quiet oor w ts \<Longrightarrow> \<forall>r \<in> set (List.map_filter mt_rtt ts). 0 \<le> r \<Longrightarrow> 0 \<le> mw_rttSum w \<Longrightarrow>
     mw_rttSum w + answers_sum ts < 2 ^ 63 \<Longrightarrow>
     fold (\<lambda>t w. snd (metrics_run oor t w)) ts w
       = w\<lparr>mw_rttSum := mw_rttSum w + answers_sum ts, mw_answered := mw_answered w + answers_count ts\<rparr>"
proof (induction ts arbitrary: w)
  case (Cons t ts)
  let ?w = "snd (metrics_run oor t w)"
  have nn: "0 \<le> answers_sum ts" using Cons.prems(2)
    by (auto simp: answers_sum_def map_filter_simps intro!: sum_list_nonneg split: option.splits)
  have w: "?w = (case mt_rtt t of None \<Rightarrow> w | Some r \<Rightarrow> w\<lparr>mw_rttSum := mw_rttSum w + r, mw_answered := mw_answered w + 1\<rparr>)"
    using Cons.prems nn
    by (auto simp: quiet_Cons metrics_run_def Let_def answers_sum_def map_filter_simps split: option.splits if_splits)
  have "quiet oor ?w ts" using Cons.prems(1) by (simp add: quiet_Cons)
  then show ?case using Cons.IH [of ?w] Cons.prems w
    by (auto simp: answers_sum_def answers_count_def map_filter_simps split: option.splits)
qed (simp add: answers_sum_def answers_count_def map_filter_simps)

text \<open>
  A sample after the first covers at least five seconds. Its round-trip time is the mean of the
  probes that answered since the sample before, its totals are the counters, and its rates are
  those of the bytes since the sample before.
\<close>

theorem metrics_sample_exact:
  assumes "\<not> mw_first w" "mw_rttSum w = 0" "mw_answered w = 0" "quiet oor w ts"
    and "\<forall>r \<in> set (List.map_filter mt_rtt (ts @ [t])). 0 \<le> r" "answers_sum (ts @ [t]) < 2 ^ 63"
    and "metrics_run oor t (fold (\<lambda>t w. snd (metrics_run oor t w)) ts w) = (Some m, w')"
  shows "metricsWriteInterval \<le> mt_now t - mw_last w
    \<and> me_RTTMS m = meanMS (answers_sum (ts @ [t])) (answers_count (ts @ [t]))
    \<and> me_UpBytes m = mt_up t \<and> me_DownBytes m = mt_down t
    \<and> me_UpRate m = metrics_rate oor (u64 (mt_up t - mw_upBase w)) (mt_now t - mw_last w)
    \<and> mw_rttSum w' = 0 \<and> mw_answered w' = 0 \<and> mw_upBase w' = mt_up t \<and> mw_last w' = mt_now t"
proof -
  have app: "List.map_filter mt_rtt (xs @ ys) = List.map_filter mt_rtt xs @ List.map_filter mt_rtt ys" for xs ys
    by (induction xs) (simp_all add: map_filter_simps split: option.split)
  have nn: "0 \<le> answers_sum ts" "\<forall>r \<in> set (List.map_filter mt_rtt ts). 0 \<le> r" "\<forall>r. mt_rtt t = Some r \<longrightarrow> 0 \<le> r"
    using assms(5) by (auto simp: answers_sum_def app map_filter_simps intro!: sum_list_nonneg)
  have lt: "answers_sum ts + (case mt_rtt t of Some r \<Rightarrow> r | None \<Rightarrow> 0) < 2 ^ 63"
    using assms(6) by (simp add: answers_sum_def app map_filter_simps split: option.splits)
  then have "answers_sum ts < 2 ^ 63" using nn(3) by (simp split: option.splits)
  then have w: "fold (\<lambda>t w. snd (metrics_run oor t w)) ts w = w\<lparr>mw_rttSum := answers_sum ts, mw_answered := answers_count ts\<rparr>"
    using quiet_ticks [OF assms(4) nn(2)] assms(2,3) by simp
  have r: "metrics_run oor t (w\<lparr>mw_rttSum := answers_sum ts, mw_answered := answers_count ts\<rparr>) = (Some m, w')"
    using assms(7) by (simp only: w)
  have s: "answers_sum (ts @ [t]) = answers_sum ts + (case mt_rtt t of Some r \<Rightarrow> r | None \<Rightarrow> 0)"
    "answers_count (ts @ [t]) = answers_count ts + (case mt_rtt t of Some r \<Rightarrow> 1 | None \<Rightarrow> 0)"
    by (simp_all add: answers_sum_def answers_count_def app map_filter_simps split: option.split)
  show ?thesis using r assms(1) lt nn(1,3) unfolding s metrics_run_def Let_def
    by (cases "mt_rtt t") (auto split: if_splits)
qed

end
