(* ===== verification/Control_Info.thy ===== *)
theory Control_Info
  imports Mux_Wire
begin

text \<open>
  The info line of the control stream, \<open>ControlInfo\<close> of \<open>internal/mux/mux.go\<close>: the helper prints
  it with \<open>fmt\<close>'s quoted strings and the client takes it apart with \<open>strconv\<close>, neither with a JSON
  library. \<open>Quote\<close> and \<open>Unquote\<close> of \<open>strconv\<close> are modelled for ASCII; what they do at a byte above is
  the argument \<open>hi\<close>, which gives the text for the rune at the front and its length in bytes.
\<close>

section \<open>Quoted strings of strconv\<close>

definition dquote :: char where "dquote = CHR 0x22"

definition backslash :: char where "backslash = CHR 0x5C"

definition squote :: char where "squote = CHR 0x27"

definition backquote :: char where "backquote = CHR 0x60"

definition ascii :: "char \<Rightarrow> bool" where "ascii c \<longleftrightarrow> of_char c < (128 :: nat)"

definition lower_hex :: "nat \<Rightarrow> char" where
  "lower_hex n = (if n < 10 then char_of (48 + n) else char_of (87 + n))"

definition quote_char :: "char \<Rightarrow> string" where
  "quote_char c =
     (if c = dquote \<or> c = backslash then [backslash, c]
      else if 32 \<le> (of_char c :: nat) \<and> of_char c < (127 :: nat) then [c]
      else case map_of [(CHR 0x07, CHR ''a''), (CHR 0x08, CHR ''b''), (CHR 0x0C, CHR ''f''), (CHR 0x0A, CHR ''n''),
                        (CHR 0x0D, CHR ''r''), (CHR 0x09, CHR ''t''), (CHR 0x0B, CHR ''v'')] c of
             Some e \<Rightarrow> [backslash, e]
           | None \<Rightarrow> [backslash, CHR ''x'', lower_hex (of_char c div 16), lower_hex (of_char c mod 16)])"

function quote_body :: "(string \<Rightarrow> string \<times> nat) \<Rightarrow> string \<Rightarrow> string" where
  "quote_body hi [] = []"
| "quote_body hi (c # s) =
     (if ascii c then quote_char c @ quote_body hi s
      else case hi (c # s) of (t, n) \<Rightarrow> t @ quote_body hi (drop (n - 1) s))"
  by pat_completeness auto
termination by (relation "measure (\<lambda>(hi, s). length s)") auto

definition Quote :: "(string \<Rightarrow> string \<times> nat) \<Rightarrow> string \<Rightarrow> string" where
  "Quote hi s = [dquote] @ quote_body hi s @ [dquote]"

definition utf8_encode :: "nat \<Rightarrow> string" where
  "utf8_encode v =
     (if v < 128 then [char_of v]
      else if v < 2048 then [char_of (192 + v div 64), char_of (128 + v mod 64)]
      else if v < 65536 then [char_of (224 + v div 4096), char_of (128 + v div 64 mod 64), char_of (128 + v mod 64)]
      else [char_of (240 + v div 262144), char_of (128 + v div 4096 mod 64), char_of (128 + v div 64 mod 64), char_of (128 + v mod 64)])"

definition is_octal :: "char \<Rightarrow> bool" where "is_octal c \<longleftrightarrow> CHR ''0'' \<le> c \<and> c \<le> CHR ''7''"

definition unquote_hex :: "char \<Rightarrow> string \<Rightarrow> (string \<times> string) option" where
  "unquote_hex e u =
     (let n = (if e = CHR ''x'' then 2 else if e = CHR ''u'' then 4 else 8); v = hex_val (take n u) in
      if length u < n \<or> \<not> list_all is_hex (take n u) then None
      else if e = CHR ''x'' then Some ([char_of v], drop n u)
      else if v > 0x10FFFF \<or> 0xD800 \<le> v \<and> v < 0xE000 then None
      else Some (utf8_encode v, drop n u))"

definition unquote_octal :: "char \<Rightarrow> string \<Rightarrow> (string \<times> string) option" where
  "unquote_octal e u =
     (let ds = e # take 2 u; v = foldl (\<lambda>a d. a * 8 + (of_char d - 48)) 0 ds in
      if length u < 2 \<or> \<not> list_all is_octal ds \<or> v > (255 :: nat) then None else Some ([char_of v], drop 2 u))"

text \<open>\<open>strconv.UnquoteChar\<close>: the text of the first character or escape, and what follows.\<close>

definition UnquoteChar :: "(string \<Rightarrow> string \<times> nat) \<Rightarrow> char \<Rightarrow> string \<Rightarrow> (string \<times> string) option" where
  "UnquoteChar hi q s =
     (case s of
        [] \<Rightarrow> None
      | c # t \<Rightarrow>
          if c = q \<and> (q = squote \<or> q = dquote) then None
          else if \<not> ascii c then (case hi s of (out, n) \<Rightarrow> Some (out, drop (n - 1) t))
          else if c \<noteq> backslash then Some ([c], t)
          else (case t of
                  [] \<Rightarrow> None
                | e # u \<Rightarrow>
                    (case map_of [(CHR ''a'', CHR 0x07), (CHR ''b'', CHR 0x08), (CHR ''f'', CHR 0x0C), (CHR ''n'', CHR 0x0A),
                                  (CHR ''r'', CHR 0x0D), (CHR ''t'', CHR 0x09), (CHR ''v'', CHR 0x0B)] e of
                       Some x \<Rightarrow> Some ([x], u)
                     | None \<Rightarrow>
                         if e = CHR ''x'' \<or> e = CHR ''u'' \<or> e = CHR ''U'' then unquote_hex e u
                         else if is_octal e then unquote_octal e u
                         else if e = backslash then Some ([e], u)
                         else if e = squote \<or> e = dquote then (if e \<noteq> q then None else Some ([e], u))
                         else None)))"

lemma UnquoteChar_shorter: "UnquoteChar hi q s = Some (out, r) \<Longrightarrow> length r < length s"
  by (auto simp: UnquoteChar_def unquote_hex_def unquote_octal_def Let_def
      split: list.splits if_splits option.splits prod.splits)

function unquote_loop :: "(string \<Rightarrow> string \<times> nat) \<Rightarrow> char \<Rightarrow> string \<Rightarrow> (string \<times> string) option" where
  "unquote_loop hi q s =
     (case s of
        [] \<Rightarrow> None
      | c # t \<Rightarrow>
          if c = q then Some ([], t)
          else if c = CHR 0x0A then None
          else (case UnquoteChar hi q s of
                  None \<Rightarrow> None
                | Some (out, r) \<Rightarrow>
                    if q = squote then (case r of [] \<Rightarrow> None | d # r' \<Rightarrow> if d = q then Some (out, r') else None)
                    else (case unquote_loop hi q r of None \<Rightarrow> None | Some (out', r') \<Rightarrow> Some (out @ out', r'))))"
  by pat_completeness auto
termination
  by (relation "measure (\<lambda>(hi, q, s). length s)") (use UnquoteChar_shorter in force)+

declare unquote_loop.simps [simp del]

definition Unquote :: "(string \<Rightarrow> string \<times> nat) \<Rightarrow> string \<Rightarrow> string option" where
  "Unquote hi s =
     (if length s < 2 then None
      else if hd s = backquote then
        (case Cut (tl s) backquote of (body, rest, ok) \<Rightarrow>
           if ok \<and> rest = [] then Some (filter (\<lambda>c. c \<noteq> CHR 0x0D) body) else None)
      else if hd s = dquote \<or> hd s = squote then
        (case unquote_loop hi (hd s) (tl s) of Some (out, []) \<Rightarrow> Some out | _ \<Rightarrow> None)
      else None)"

section \<open>The info line\<close>

record control_info =
  ci_Version :: string
  ci_GOOS :: string
  ci_GOARCH :: string
  ci_Hostname :: string
  ci_PID :: int

definition info_fields :: "(string \<Rightarrow> string \<times> nat) \<Rightarrow> control_info \<Rightarrow> (string \<times> string) list" where
  "info_fields hi ci = [(''version'', Quote hi (ci_Version ci)), (''goos'', Quote hi (ci_GOOS ci)),
     (''goarch'', Quote hi (ci_GOARCH ci)), (''hostname'', Quote hi (ci_Hostname ci)), (''pid'', Itoa (ci_PID ci))]"

definition ControlInfo_encode :: "(string \<Rightarrow> string \<times> nat) \<Rightarrow> control_info \<Rightarrow> string" where
  "ControlInfo_encode hi ci =
     [CHR 0x7B] @ Join (map (\<lambda>(k, v). [dquote] @ k @ [dquote] @ '':'' @ v) (info_fields hi ci)) '','' @ [CHR 0x7D] @ [CHR 0x0A]"

text \<open>
  The scanner both loops share: a separator counts outside a quoted string only, and a backslash
  inside one hides the next byte.
\<close>

fun indexTopLevel_loop :: "char \<Rightarrow> bool \<Rightarrow> bool \<Rightarrow> nat \<Rightarrow> string \<Rightarrow> nat option" where
  "indexTopLevel_loop sep inStr esc i [] = None"
| "indexTopLevel_loop sep inStr esc i (c # s) =
     (if esc then indexTopLevel_loop sep inStr False (Suc i) s
      else if inStr \<and> c = backslash then indexTopLevel_loop sep inStr True (Suc i) s
      else if c = dquote then indexTopLevel_loop sep (\<not> inStr) esc (Suc i) s
      else if \<not> inStr \<and> c = sep then Some i
      else indexTopLevel_loop sep inStr esc (Suc i) s)"

definition indexTopLevel :: "string \<Rightarrow> char \<Rightarrow> nat option" where
  "indexTopLevel s sep = indexTopLevel_loop sep False False 0 s"

fun splitTopLevel_loop :: "char \<Rightarrow> bool \<Rightarrow> bool \<Rightarrow> string \<Rightarrow> string \<Rightarrow> string list" where
  "splitTopLevel_loop sep inStr esc cur [] = [cur]"
| "splitTopLevel_loop sep inStr esc cur (c # s) =
     (if esc then splitTopLevel_loop sep inStr False (cur @ [c]) s
      else if inStr \<and> c = backslash then splitTopLevel_loop sep inStr True (cur @ [c]) s
      else if c = dquote then splitTopLevel_loop sep (\<not> inStr) esc (cur @ [c]) s
      else if \<not> inStr \<and> c = sep then cur # splitTopLevel_loop sep inStr esc [] s
      else splitTopLevel_loop sep inStr esc (cur @ [c]) s)"

definition splitTopLevel :: "string \<Rightarrow> char \<Rightarrow> string list" where
  "splitTopLevel s sep = splitTopLevel_loop sep False False [] s"

datatype info_error = MalformedLine | MalformedField string | BadKey | BadField string

definition info_field :: "(string \<Rightarrow> string \<times> nat) \<Rightarrow> control_info \<Rightarrow> string \<Rightarrow> info_error + control_info" where
  "info_field hi ci field0 =
     (let field = TrimSpace field0 in
      if field = [] then Inr ci
      else case indexTopLevel field CHR '':'' of
        None \<Rightarrow> Inl (MalformedField field)
      | Some sep \<Rightarrow>
          (case Unquote hi (TrimSpace (take sep field)) of
             None \<Rightarrow> Inl BadKey
           | Some key \<Rightarrow>
               (let raw = TrimSpace (drop (Suc sep) field);
                    str = (\<lambda>upd. case Unquote hi raw of None \<Rightarrow> Inl (BadField key) | Some v \<Rightarrow> Inr (upd v))
                in if key = ''version'' then str (\<lambda>v. ci\<lparr>ci_Version := v\<rparr>)
                   else if key = ''goos'' then str (\<lambda>v. ci\<lparr>ci_GOOS := v\<rparr>)
                   else if key = ''goarch'' then str (\<lambda>v. ci\<lparr>ci_GOARCH := v\<rparr>)
                   else if key = ''hostname'' then str (\<lambda>v. ci\<lparr>ci_Hostname := v\<rparr>)
                   else if key = ''pid'' then (case Atoi raw of None \<Rightarrow> Inl (BadField key) | Some n \<Rightarrow> Inr (ci\<lparr>ci_PID := n\<rparr>))
                   else Inr ci)))"

fun info_parse :: "(string \<Rightarrow> string \<times> nat) \<Rightarrow> string list \<Rightarrow> control_info \<Rightarrow> info_error + control_info" where
  "info_parse hi [] ci = Inr ci"
| "info_parse hi (f # fs) ci = (case info_field hi ci f of Inl e \<Rightarrow> Inl e | Inr ci' \<Rightarrow> info_parse hi fs ci')"

definition decodeControlInfo :: "(string \<Rightarrow> string \<times> nat) \<Rightarrow> string \<Rightarrow> info_error + control_info" where
  "decodeControlInfo hi line0 =
     (let line = TrimSpace line0 in
      if length line < 2 \<or> hd line \<noteq> CHR 0x7B \<or> last line \<noteq> CHR 0x7D then Inl MalformedLine
      else info_parse hi (splitTopLevel (butlast (tl line)) CHR '','')
             \<lparr>ci_Version = [], ci_GOOS = [], ci_GOARCH = [], ci_Hostname = [], ci_PID = 0\<rparr>)"

section \<open>Escapes\<close>

lemmas quote_marks = dquote_def backslash_def squote_def

lemma hex_digit_lower: "n < 16 \<Longrightarrow> hex_digit (lower_hex n) = Some n"
  by (auto simp: hex_digit_def lower_hex_def Let_def)

lemma hex_val_two: "m < 256 \<Longrightarrow> hex_val [lower_hex (m div 16), lower_hex (m mod 16)] = m"
  using hex_digit_lower [of "m div 16"] hex_digit_lower [of "m mod 16"] by (simp add: hex_val_def)

lemma lower_hex_neq: "n < 16 \<Longrightarrow> lower_hex n \<noteq> dquote \<and> lower_hex n \<noteq> backslash \<and> lower_hex n \<noteq> CHR 0x0A"
  using hex_digit_lower [of n] by (auto simp: quote_marks hex_digit_def)

text \<open>An escape is one character to the reader.\<close>

lemma unquote_escape:
  assumes "ascii c"
  shows "UnquoteChar hi dquote (quote_char c @ r) = Some ([c], r)"
proof (cases "c = dquote \<or> c = backslash \<or> 32 \<le> (of_char c :: nat) \<and> of_char c < (127 :: nat)")
  case True
  then show ?thesis using assms
    by (auto simp: UnquoteChar_def quote_char_def quote_marks is_octal_def less_eq_char_def ascii_def)
next
  case False
  let ?m = "of_char c :: nat"
  have m: "?m < 256" "?m div 16 < 16" "?m mod 16 < 16" using assms by (auto simp: ascii_def)
  have x: "unquote_hex CHR ''x'' (lower_hex (?m div 16) # lower_hex (?m mod 16) # r) = Some ([c], r)"
    using hex_digit_lower [OF m(2)] hex_digit_lower [OF m(3)] hex_val_two [OF m(1)]
    by (simp add: unquote_hex_def Let_def is_hex_def)
  show ?thesis using False assms x
    by (auto simp: UnquoteChar_def quote_char_def quote_marks ascii_def)
qed

lemma quote_char_start: "ascii c \<Longrightarrow> \<exists>d t. quote_char c = d # t \<and> d \<noteq> dquote \<and> d \<noteq> CHR 0x0A"
  by (auto simp: quote_char_def quote_marks split: option.split)

lemma unquote_body:
  assumes "list_all ascii s"
  shows "unquote_loop hi dquote (quote_body hi s @ dquote # r) = Some (s, r)"
  using assms
proof (induction s)
  case Nil
  then show ?case by (simp add: unquote_loop.simps)
next
  case (Cons c s)
  then have c: "ascii c" by simp
  obtain d t where d: "quote_char c = d # t" "d \<noteq> dquote" "d \<noteq> CHR 0x0A" using quote_char_start [OF c] by blast
  have "UnquoteChar hi dquote (d # t @ quote_body hi s @ dquote # r) = Some ([c], quote_body hi s @ dquote # r)"
    using unquote_escape [OF c, of hi "quote_body hi s @ dquote # r"] d(1) by simp
  then show ?case using Cons d by (subst unquote_loop.simps) (simp add: squote_def dquote_def)
qed

lemma Unquote_Quote: "list_all ascii s \<Longrightarrow> Unquote hi (Quote hi s) = Some s"
  using unquote_body [of s hi "[]"] by (simp add: Unquote_def Quote_def dquote_def backquote_def)

text \<open>The scanner passes over a quoted string.\<close>

lemma split_escape:
  assumes "ascii c"
  shows "splitTopLevel_loop sep True False cur (quote_char c @ t) = splitTopLevel_loop sep True False (cur @ quote_char c) t"
    "indexTopLevel_loop sep True False i (quote_char c @ t) = indexTopLevel_loop sep True False (i + length (quote_char c)) t"
proof -
  have "of_char c div 16 < (16 :: nat)" "of_char c mod 16 < (16 :: nat)" using assms by (auto simp: ascii_def)
  note h = lower_hex_neq [OF this(1)] lower_hex_neq [OF this(2)]
  show "splitTopLevel_loop sep True False cur (quote_char c @ t) = splitTopLevel_loop sep True False (cur @ quote_char c) t"
    using h by (auto simp: quote_char_def quote_marks split: option.split)
  show "indexTopLevel_loop sep True False i (quote_char c @ t) = indexTopLevel_loop sep True False (i + length (quote_char c)) t"
    using h by (auto simp: quote_char_def quote_marks split: option.split)
qed

lemma split_body:
  "list_all ascii s \<Longrightarrow>
    splitTopLevel_loop sep True False cur (quote_body hi s @ t) = splitTopLevel_loop sep True False (cur @ quote_body hi s) t"
  by (induction s arbitrary: cur) (simp_all add: split_escape)

lemma split_Quote:
  "list_all ascii s \<Longrightarrow>
    splitTopLevel_loop sep False False cur (Quote hi s @ t) = splitTopLevel_loop sep False False (cur @ Quote hi s) t"
  by (simp add: Quote_def split_body quote_marks)

definition passes :: "char \<Rightarrow> string \<Rightarrow> bool" where
  "passes sep v \<longleftrightarrow> (\<forall>cur t. splitTopLevel_loop sep False False cur (v @ t) = splitTopLevel_loop sep False False (cur @ v) t)"

lemma passes_Quote: "list_all ascii s \<Longrightarrow> passes sep (Quote hi s)"
  unfolding passes_def using split_Quote [of s] by blast

lemma passes_simple: "sep \<notin> set v \<Longrightarrow> dquote \<notin> set v \<Longrightarrow> passes sep v"
  unfolding passes_def by (induction v) auto

lemma passes_append: "passes sep v \<Longrightarrow> passes sep w \<Longrightarrow> passes sep (v @ w)"
  by (simp add: passes_def)

definition item :: "string \<times> string \<Rightarrow> string" where
  "item kv = [dquote] @ fst kv @ [dquote] @ '':'' @ snd kv"

definition key_ok :: "string \<Rightarrow> bool" where
  "key_ok k \<longleftrightarrow> list_all (\<lambda>c. plain c \<and> c \<noteq> dquote \<and> c \<noteq> backslash) k"

lemma key_quoted: "key_ok k \<Longrightarrow> [dquote] @ k @ [dquote] = Quote hi k"
  unfolding Quote_def key_ok_def
  by (induction k) (auto simp: quote_char_def plain_def ascii_def)

lemma key_ascii: "key_ok k \<Longrightarrow> list_all ascii k"
  by (auto simp: key_ok_def list_all_iff plain_def ascii_def)

lemma passes_item:
  assumes "key_ok k" "passes CHR '','' v"
  shows "passes CHR '','' (item (k, v))"
proof -
  have "passes CHR '','' (Quote hi k @ '':'' @ v)" for hi
    by (intro passes_append passes_Quote passes_simple key_ascii assms) (simp_all add: dquote_def)
  moreover have "item (k, v) = Quote hi k @ '':'' @ v" for hi
    unfolding key_quoted [OF assms(1), of hi, symmetric] by (simp add: item_def)
  ultimately show ?thesis by simp
qed

lemma split_items:
  assumes "kvs \<noteq> []" "\<forall>(k, v) \<in> set kvs. key_ok k \<and> passes CHR '','' v"
  shows "splitTopLevel (Join (map item kvs) '','') CHR '','' = map item kvs"
proof -
  have "splitTopLevel_loop CHR '','' False False cur (Join (map item kvs) '','') = (case map item kvs of x # xs \<Rightarrow> (cur @ x) # xs | [] \<Rightarrow> [])"
    for cur
    using assms
  proof (induction kvs arbitrary: cur rule: list_nonempty_induct)
    case (single kv)
    then have "passes CHR '','' (item kv)" using passes_item by (cases kv) auto
    then show ?case unfolding passes_def by (metis (no_types) append.right_neutral Join.simps(2) list.simps(5,8,9) splitTopLevel_loop.simps(1))
  next
    case (cons kv kvs)
    then have p: "passes CHR '','' (item kv)" using passes_item by (cases kv) auto
    obtain x xs where x: "map item kvs = x # xs" using cons(1) by (cases kvs) auto
    have "splitTopLevel_loop CHR '','' False False cur (item kv @ CHR '','' # Join (map item kvs) '','')
        = (cur @ item kv) # splitTopLevel_loop CHR '','' False False [] (Join (map item kvs) '','')"
      using p unfolding passes_def by (simp add: dquote_def)
    then show ?case using cons.IH [of "[]"] cons.prems x by simp
  qed
  then show ?thesis using assms(1) by (cases kvs) (simp_all add: splitTopLevel_def)
qed

lemma index_item:
  assumes "key_ok k"
  shows "indexTopLevel (item (k, v)) CHR '':'' = Some (length k + 2)"
proof -
  have "indexTopLevel_loop CHR '':'' True False i (k @ dquote # t) = indexTopLevel_loop CHR '':'' False False (Suc (i + length k)) t" for i t
    using assms unfolding key_ok_def by (induction k arbitrary: i) (auto simp: quote_marks)
  then show ?thesis by (simp add: indexTopLevel_def item_def dquote_def)
qed

section \<open>The line reaches the client\<close>

lemma Atoi_Itoa:
  assumes "in_i64 n"
  shows "Atoi (Itoa n) = Some n"
proof (cases "n < 0")
  case True
  then show ?thesis using assms show_nat_digits [of "nat (- n)"] by (simp add: Itoa_def Atoi_def Let_def)
next
  case False
  then show ?thesis using assms Atoi_show [of "nat n"] by (simp add: Itoa_def)
qed

lemma Itoa_plain: "list_all plain (Itoa n) \<and> Itoa n \<noteq> [] \<and> CHR '','' \<notin> set (Itoa n) \<and> dquote \<notin> set (Itoa n)"
  by (auto simp: Itoa_def plain_def dquote_def is_digit_def)

lemma info_field_item:
  assumes "key_ok k" "v \<noteq> []" "plain (last v)" "plain (hd v)"
  shows "info_field hi ci (item (k, v)) =
    (let str = (\<lambda>upd. case Unquote hi v of None \<Rightarrow> Inl (BadField k) | Some x \<Rightarrow> Inr (upd x))
     in if k = ''version'' then str (\<lambda>v. ci\<lparr>ci_Version := v\<rparr>)
        else if k = ''goos'' then str (\<lambda>v. ci\<lparr>ci_GOOS := v\<rparr>)
        else if k = ''goarch'' then str (\<lambda>v. ci\<lparr>ci_GOARCH := v\<rparr>)
        else if k = ''hostname'' then str (\<lambda>v. ci\<lparr>ci_Hostname := v\<rparr>)
        else if k = ''pid'' then (case Atoi v of None \<Rightarrow> Inl (BadField k) | Some n \<Rightarrow> Inr (ci\<lparr>ci_PID := n\<rparr>))
        else Inr ci)"
proof -
  have d: "plain dquote" by (simp add: plain_def dquote_def)
  have ne: "item (k, v) \<noteq> []" by (simp add: item_def)
  have t: "TrimSpace (item (k, v)) = item (k, v)" using d assms by (intro TrimSpace_plain) (simp add: item_def)
  have "take (length k + 2) (item (k, v)) = Quote hi k"
    unfolding key_quoted [OF assms(1), of hi, symmetric] by (simp add: item_def)
  moreover have "TrimSpace (Quote hi k) = Quote hi k"
    using d by (intro TrimSpace_plain) (simp add: Quote_def)
  moreover have "drop (Suc (length k + 2)) (item (k, v)) = v" by (simp add: item_def)
  moreover have "TrimSpace v = v" using assms by (intro TrimSpace_plain) simp
  ultimately show ?thesis
    using Unquote_Quote [OF key_ascii [OF assms(1)], of hi]
    by (simp add: info_field_def t index_item [OF assms(1)] Let_def ne)
qed

definition info_ok :: "control_info \<Rightarrow> bool" where
  "info_ok ci \<longleftrightarrow> list_all ascii (ci_Version ci) \<and> list_all ascii (ci_GOOS ci) \<and> list_all ascii (ci_GOARCH ci)
     \<and> list_all ascii (ci_Hostname ci) \<and> in_i64 (ci_PID ci)"

lemma info_keys: "\<forall>(k, v) \<in> set (info_fields hi ci). key_ok k"
  by (simp add: info_fields_def key_ok_def plain_def quote_marks)

lemma Quote_ends: "Quote hi s \<noteq> [] \<and> plain (hd (Quote hi s)) \<and> plain (last (Quote hi s))"
  by (simp add: Quote_def plain_def dquote_def)

lemma info_parse_items:
  assumes "info_ok ci"
  shows "info_parse hi (map item (info_fields hi ci)) ci0 = Inr ci"
  using assms info_keys [of hi ci] Quote_ends Itoa_plain [of "ci_PID ci"] plain_hd_last [of "Itoa (ci_PID ci)"]
  by (simp add: info_fields_def info_field_item Let_def Unquote_Quote Atoi_Itoa info_ok_def)

definition info_body :: "(string \<Rightarrow> string \<times> nat) \<Rightarrow> control_info \<Rightarrow> string" where
  "info_body hi ci = [CHR 0x7B] @ Join (map item (info_fields hi ci)) '','' @ [CHR 0x7D]"

lemma encode_body: "ControlInfo_encode hi ci = info_body hi ci @ [CHR 0x0A]"
proof -
  have "item = (\<lambda>(k, v). [dquote] @ k @ [dquote] @ '':'' @ v)" by (auto simp: item_def fun_eq_iff)
  then show ?thesis by (simp add: ControlInfo_encode_def info_body_def)
qed

lemma decode_body:
  assumes "info_ok ci"
  shows "decodeControlInfo hi (info_body hi ci) = Inr ci"
proof -
  have "\<forall>(k, v) \<in> set (info_fields hi ci). passes CHR '','' v"
    using assms Itoa_plain [of "ci_PID ci"] by (simp add: info_fields_def passes_Quote passes_simple info_ok_def)
  then have s: "splitTopLevel (Join (map item (info_fields hi ci)) '','') CHR '','' = map item (info_fields hi ci)"
    using info_keys [of hi ci] by (intro split_items) (auto simp: info_fields_def)
  have "TrimSpace (info_body hi ci) = info_body hi ci"
    by (intro TrimSpace_plain) (simp add: info_body_def plain_def)
  then show ?thesis by (simp add: decodeControlInfo_def info_body_def s info_parse_items [OF assms] butlast_append)
qed

lemma body_printable:
  assumes "info_ok ci"
  shows "list_all (\<lambda>c. 32 \<le> (of_char c :: nat) \<and> of_char c < (127 :: nat)) (info_body hi ci)"
proof -
  let ?P = "\<lambda>c. 32 \<le> (of_char c :: nat) \<and> of_char c < (127 :: nat)"
  have h: "n < 16 \<Longrightarrow> ?P (lower_hex n)" for n by (auto simp: lower_hex_def)
  have "list_all ?P (quote_char c)" if "ascii c" for c
    using h [of "of_char c div 16"] h [of "of_char c mod 16"] that
    by (auto simp: quote_char_def quote_marks ascii_def split: option.split)
  then have "list_all ?P (quote_body hi s)" if "list_all ascii s" for s
    using that by (induction s) auto
  then have q: "list_all ascii s \<Longrightarrow> list_all ?P (Quote hi s)" for s by (simp add: Quote_def dquote_def)
  have "list_all ?P (Itoa n)" for n using Itoa_plain [of n] by (auto simp: list_all_iff plain_def)
  then have "\<forall>(k, v) \<in> set (info_fields hi ci). list_all ?P v"
    using assms q by (simp add: info_fields_def info_ok_def)
  then have "\<forall>x \<in> set (map item (info_fields hi ci)). list_all ?P x"
    using info_keys [of hi ci] by (fastforce simp: item_def key_ok_def list_all_iff plain_def dquote_def)
  then have "list_all ?P (Join (map item (info_fields hi ci)) '','')" by (intro list_all_Join) (simp_all add: list_all_iff)
  then show ?thesis by (simp add: info_body_def)
qed

lemma info_line_read:
  assumes "info_ok ci" "length (ControlInfo_encode hi ci) \<le> Suc maxLineLen"
  shows "\<exists>l. readLine (str_bytes (ControlInfo_encode hi ci) @ r) maxLineLen = Inr (l, r)
    \<and> decodeControlInfo hi (bytes_str l) = Inr ci"
proof -
  have b: "unat (word_of_nat (of_char c) :: byte) = of_char c" for c
    using of_char_mod_256 [of c, where 'a = nat] by (simp add: unat_byte_of_nat)
  have "x \<noteq> 10 \<and> x \<noteq> 13" if x: "x \<in> set (str_bytes (info_body hi ci))" for x
  proof -
    obtain c where "x = word_of_nat (of_char c)" "c \<in> set (info_body hi ci)" using x by (auto simp: str_bytes_def)
    then have "32 \<le> unat x" using body_printable [OF assms(1), of hi] b [of c] by (simp add: list_all_iff)
    then show ?thesis by auto
  qed
  then have "line_ok (str_bytes (info_body hi ci))"
    using assms(2) last_in_set [of "str_bytes (info_body hi ci)"] by (auto simp: line_ok_def encode_body)
  then have "readLine (str_bytes (ControlInfo_encode hi ci) @ r) maxLineLen = Inr (str_bytes (info_body hi ci), r)"
    using readLine_line [of "str_bytes (info_body hi ci)" r] by (simp add: encode_body) (simp add: str_bytes_def)
  then show ?thesis using decode_body [OF assms(1), of hi] by auto
qed

text \<open>
  The client learns what the helper says of itself. Whatever ASCII texts the version, the
  system, the architecture and the hostname are, control characters, quotes, commas and braces
  included, the info line is one line, and the client that reads it, when it is within the
  line limit, takes out exactly the same values and leaves the bytes after it on the stream.
\<close>

theorem control_info_roundtrip:
  assumes "info_ok ci" "length (ControlInfo_encode hi ci) \<le> Suc maxLineLen"
  shows "\<exists>l. readLine (str_bytes (ControlInfo_encode hi ci) @ r) maxLineLen = Inr (l, r)
    \<and> decodeControlInfo hi (bytes_str l) = Inr ci"
  using assms by (rule info_line_read)

definition sample_info :: control_info where
  "sample_info = \<lparr>ci_Version = ''v1.2'', ci_GOOS = ''linux'', ci_GOARCH = ''amd64'',
     ci_Hostname = [CHR ''a'', CHR 0x0A, dquote, CHR '','', CHR ''}''], ci_PID = 7\<rparr>"

lemma sample_info_ok: "info_ok sample_info" "length (ControlInfo_encode (\<lambda>s. ([], 1)) sample_info) \<le> Suc maxLineLen"
  by (simp_all add: info_ok_def sample_info_def ascii_def dquote_def ControlInfo_encode_def info_fields_def Quote_def quote_char_def
       quote_marks Itoa_def maxLineLen_def show_nat.simps)

theorem control_info_roundtrip_witness:
  "\<exists>l. readLine (str_bytes (ControlInfo_encode (\<lambda>s. ([], 1)) sample_info) @ [1]) maxLineLen = Inr (l, [1])
     \<and> decodeControlInfo (\<lambda>s. ([], 1)) (bytes_str l) = Inr sample_info"
  by (rule control_info_roundtrip [OF sample_info_ok])

end
