(* ===== verification/Mux_Client.thy ===== *)
theory Mux_Client
  imports Helper_Server Control_Info
begin

text \<open>
  The client side of the mux, \<open>internal/mux/client.go\<close>, and the TCP and UDP handlers of the helper
  it meets, of \<open>server.go\<close>. A write has an outcome and a read takes the bytes that arrive, both
  arguments; yamux is outside. The theorems put the two ends together: the handshake, the calls
  on the control stream, and the dial of a flow.
\<close>

section \<open>The handshake\<close>

definition handshakeLine :: string where "handshakeLine = ''TJ5''"

datatype client_error =
    HandshakeEOF
  | HandshakeTimeout
  | RemoteHelper string
  | YamuxFailed
  | ControlOpen
  | ControlWrite
  | ReadControlInfo wire_error
  | ControlInfoError info_error

text \<open>
  \<open>readHandshake\<close>: the line up to the newline, without trailing carriage returns and newlines,
  and the bytes after it, which stay in the buffered reader that yamux gets.
\<close>

definition TrimRight_crlf :: "bytes \<Rightarrow> bytes" where
  "TrimRight_crlf l = rev (dropWhile (\<lambda>b. b = 13 \<or> b = 10) (rev l))"

definition readHandshake :: "bool \<Rightarrow> bytes \<Rightarrow> client_error + (string \<times> bytes)" where
  "readHandshake timeout r =
     (if timeout then Inl HandshakeTimeout
      else if 10 \<notin> set r then Inl HandshakeEOF
      else Inr (bytes_str (TrimRight_crlf (takeWhile (\<lambda>b. b \<noteq> 10) r @ [10])), tl (dropWhile (\<lambda>b. b \<noteq> 10) r)))"

record client_env =
  nc_hi :: "string \<Rightarrow> string \<times> nat"
  nc_timeout :: bool
  nc_yamux :: bool
  nc_open :: bool
  nc_write :: bool
  nc_ctl :: bytes

record client =
  cl_info :: control_info
  cl_ctl :: bytes
  cl_transport :: bytes

text \<open>\<open>NewClient\<close>, with the number of times it closes the yamux session.\<close>

definition NewClient :: "client_env \<Rightarrow> bytes \<Rightarrow> (client_error + client) \<times> nat" where
  "NewClient e transport =
     (case readHandshake (nc_timeout e) transport of
        Inl err \<Rightarrow> (Inl err, 0)
      | Inr (line, rest) \<Rightarrow>
          if line \<noteq> handshakeLine then (Inl (RemoteHelper line), 0)
          else if \<not> nc_yamux e then (Inl YamuxFailed, 0)
          else if \<not> nc_open e then (Inl ControlOpen, 1)
          else if \<not> nc_write e then (Inl ControlWrite, 1)
          else (case readLine (nc_ctl e) maxLineLen of
                  Inl err \<Rightarrow> (Inl (ReadControlInfo err), 1)
                | Inr (infoLine, ctl) \<Rightarrow>
                    (case decodeControlInfo (nc_hi e) (bytes_str infoLine) of
                       Inl err \<Rightarrow> (Inl (ControlInfoError err), 1)
                     | Inr info \<Rightarrow> (Inr \<lparr>cl_info = info, cl_ctl = ctl, cl_transport = rest\<rparr>, 0))))"

section \<open>Calls on the control stream\<close>

datatype write_result = Written | SessionGone | WriteError

datatype call_error = RequestFailed | ReplyFailed wire_error | Refused negotiate_error | EchoRefused echo_info_error

definition read_reply :: "bytes \<Rightarrow> (call_error + string) \<times> bytes" where
  "read_reply r = (case readLine r maxLineLen of
     Inl e \<Rightarrow> (Inl (ReplyFailed e), []) | Inr (l, r') \<Rightarrow> (Inr (bytes_str l), r'))"

definition Quit :: "write_result \<Rightarrow> call_error + unit" where
  "Quit w = (if w = WriteError then Inl RequestFailed else Inr ())"

definition AbandonQUIC :: "write_result \<Rightarrow> call_error + unit" where
  "AbandonQUIC w = (if w = WriteError then Inl RequestFailed else Inr ())"

definition Unlink :: "write_result \<Rightarrow> bytes \<Rightarrow> (call_error + unit) \<times> bytes" where
  "Unlink w r =
     (if w \<noteq> Written then (Inl RequestFailed, r)
      else case read_reply r of
        (Inl e, r') \<Rightarrow> (Inl e, r')
      | (Inr line, r') \<Rightarrow> (case parseUnlinkReply line of None \<Rightarrow> Inr () | Some e \<Rightarrow> Inl (Refused e), r'))"

definition NegotiateQUIC :: "write_result \<Rightarrow> bytes \<Rightarrow> (call_error + quic_reply) \<times> bytes" where
  "NegotiateQUIC w r =
     (if w \<noteq> Written then (Inl RequestFailed, r)
      else case read_reply r of
        (Inl e, r') \<Rightarrow> (Inl e, r')
      | (Inr line, r') \<Rightarrow> (case parseQUICReply line of Inr q \<Rightarrow> Inr q | Inl e \<Rightarrow> Inl (Refused e), r'))"

definition QueryEchoSocket :: "write_result \<Rightarrow> bytes \<Rightarrow> (call_error + echo_socket_info) \<times> bytes" where
  "QueryEchoSocket w r =
     (if w \<noteq> Written then (Inl RequestFailed, r)
      else case read_reply r of
        (Inl e, r') \<Rightarrow> (Inl e, r')
      | (Inr line, r') \<Rightarrow> (case parseEchoSocketInfo line of Inr q \<Rightarrow> Inr q | Inl e \<Rightarrow> Inl (EchoRefused e), r'))"

datatype call = CallUnlink | CallQUIC quic_request | CallAbandon | CallICMP | CallQuit

definition call_line :: "call \<Rightarrow> string" where
  "call_line c = (case c of
     CallUnlink \<Rightarrow> ''unlink'' @ newline
   | CallQUIC req \<Rightarrow> QUICRequest_encode req
   | CallAbandon \<Rightarrow> ''quic-abandon'' @ newline
   | CallICMP \<Rightarrow> ''icmp'' @ newline
   | CallQuit \<Rightarrow> ''quit'' @ newline)"

datatype call_value = Fine | Listens quic_reply | Offers echo_socket_info

definition do_call :: "call \<Rightarrow> write_result \<Rightarrow> bytes \<Rightarrow> (call_error + call_value) \<times> bytes" where
  "do_call c w r = (case c of
     CallUnlink \<Rightarrow> map_prod (map_sum id (\<lambda>_. Fine)) id (Unlink w r)
   | CallQUIC req \<Rightarrow> map_prod (map_sum id Listens) id (NegotiateQUIC w r)
   | CallAbandon \<Rightarrow> (map_sum id (\<lambda>_. Fine) (AbandonQUIC w), r)
   | CallICMP \<Rightarrow> map_prod (map_sum id Offers) id (QueryEchoSocket w r)
   | CallQuit \<Rightarrow> (map_sum id (\<lambda>_. Fine) (Quit w), r))"

text \<open>The calls of a session one after the other, over the bytes of the answers.\<close>

fun do_calls :: "call list \<Rightarrow> bytes \<Rightarrow> (call_error + call_value) list \<times> bytes" where
  "do_calls [] r = ([], r)"
| "do_calls (c # cs) r =
     (case do_call c Written r of (v, r') \<Rightarrow> case do_calls cs r' of (vs, r'') \<Rightarrow> (v # vs, r''))"

section \<open>Dials\<close>

datatype dial_failure = NoStream | StreamWrite | StatusRead wire_error | Status dial_result

text \<open>
  A stream of the session: whether the calls on it succeed and what the helper sends. A dial gives
  its result, the bytes still to come on the stream; what it wrote; and how often it closed the stream.
\<close>

record stream_env =
  so_open :: bool
  so_kind :: bool
  so_dest :: bool
  so_in :: bytes

type_synonym dial = "(dial_failure + bytes) \<times> bytes \<times> nat"

definition client_openStream :: "byte \<Rightarrow> addr_port \<Rightarrow> stream_env \<Rightarrow> dial" where
  "client_openStream kind dst e =
     (if \<not> so_open e then (Inl NoStream, [], 0)
      else if \<not> so_kind e then (Inl StreamWrite, [], 1)
      else if \<not> so_dest e then (Inl StreamWrite, [kind], 1)
      else (Inr (so_in e), [kind] @ writeDest dst, 0))"

definition DialTCP :: "addr_port \<Rightarrow> stream_env \<Rightarrow> dial" where
  "DialTCP dst e =
     (case client_openStream 1 dst e of
        (Inl f, out, n) \<Rightarrow> (Inl f, out, n)
      | (Inr r, out, n) \<Rightarrow>
          (case readStatus r of
             Inl err \<Rightarrow> (Inl (StatusRead err), out, Suc n)
           | Inr (status, r') \<Rightarrow>
               if status \<noteq> statusOK then (Inl (Status (statusError status)), out, Suc n) else (Inr r', out, n)))"

definition DialUDP :: "addr_port \<Rightarrow> stream_env \<Rightarrow> dial" where
  "DialUDP dst e = client_openStream 2 dst e"

definition DialICMP :: "addr \<Rightarrow> 16 word \<Rightarrow> stream_env \<Rightarrow> dial" where
  "DialICMP dst ident e = client_openStream 4 \<lparr>ap_addr = dst, ap_port = ident\<rparr> e"

text \<open>\<open>WriteDatagram\<close> puts one datagram on the stream.\<close>

definition WriteDatagram :: "byte \<Rightarrow> bytes \<Rightarrow> wire_error + bytes" where
  "WriteDatagram ttl p = writeFrame (encodeUDPRequest ttl p)"

definition UDPConn_ReadReply :: "bytes \<Rightarrow> (wire_error + frame_error + udp_reply) \<times> bytes" where
  "UDPConn_ReadReply r =
     (case readFrame r of Inl e \<Rightarrow> (Inl e, []) | Inr (frame, r') \<Rightarrow> (Inr (decodeUDPReply frame), r'))"

text \<open>
  The helper's end: what \<open>handleTCP\<close> and \<open>handleUDP\<close> write before the relay, and the destination
  and the bytes the relay starts with.
\<close>

definition helper_handleTCP :: "(addr_port \<Rightarrow> dial_error option) \<Rightarrow> bytes \<Rightarrow> bytes \<times> (addr_port \<times> bytes) option" where
  "helper_handleTCP dial r =
     (case readDest r of
        Inl _ \<Rightarrow> ([], None)
      | Inr (dst, r') \<Rightarrow>
          (case dial dst of
             Some e \<Rightarrow> ([statusFor e], None)
           | None \<Rightarrow> ([statusOK], Some (dst, r'))))"

definition helper_handleUDP :: "(addr_port \<Rightarrow> dial_error option) \<Rightarrow> bytes \<Rightarrow> bytes \<times> (addr_port \<times> bytes) option" where
  "helper_handleUDP dial r =
     (case readDest r of
        Inl _ \<Rightarrow> ([], None)
      | Inr (dst, r') \<Rightarrow>
          (case dial dst of
             Some e \<Rightarrow> ([statusFor e], None)
           | None \<Rightarrow> ([], Some (dst, r'))))"

section \<open>Both ends of a call\<close>

text \<open>The texts of errors, words of printable characters that leave room for the verb on the line.\<close>

definition text_ok :: "string \<Rightarrow> bool" where
  "text_ok t \<longleftrightarrow> (\<exists>ws. ws \<noteq> [] \<and> (\<forall>w \<in> set ws. w \<noteq> [] \<and> list_all plain w) \<and> t = Join ws '' '') \<and> length t \<le> 4000"

definition env_ok :: "env \<Rightarrow> bool" where
  "env_ok e \<longleftrightarrow> env_write e \<and> (\<forall>fp. env_cert e = Some fp \<longrightarrow> fp_ok fp)
     \<and> (\<forall>t. env_unlink e = Some t \<longrightarrow> text_ok t \<and> t \<noteq> ''ok'') \<and> (\<forall>x. text_ok (env_start_text e x))
     \<and> es_Socket (env_echo e) \<in> {''raw'', ''ping'', ''none''}
     \<and> list_all plain (es_PingGroupRange (env_echo e)) \<and> length (es_PingGroupRange (env_echo e)) \<le> 4000"

definition call_ok :: "call \<Rightarrow> bool" where
  "call_ok c = (case c of CallQUIC req \<Rightarrow> request_ok req | _ \<Rightarrow> True)"

text \<open>What a call returns when the helper serves it in the given environment and state.\<close>

definition served :: "env \<Rightarrow> call \<Rightarrow> server \<Rightarrow> (call_error + call_value) \<times> server" where
  "served e c s = (case c of
     CallUnlink \<Rightarrow> (case env_unlink e of None \<Rightarrow> Inr Fine | Some t \<Rightarrow> Inl (Refused (Unavailable t)), s)
   | CallQUIC req \<Rightarrow>
       (case startQUIC e req s of
          (Inr reply, s') \<Rightarrow> (Inr (Listens reply), s')
        | (Inl err, s') \<Rightarrow> (Inl (Refused (Unavailable (env_start_text e err))), s'))
   | CallAbandon \<Rightarrow> (Inr Fine, stopQUIC s)
   | CallICMP \<Rightarrow> (Inr (Offers (env_echo e)), s)
   | CallQuit \<Rightarrow> (Inr Fine, (stopQUIC s)\<lparr>sv_stopped := True\<rparr>))"

fun served_all :: "(nat \<Rightarrow> env) \<Rightarrow> nat \<Rightarrow> call list \<Rightarrow> server \<Rightarrow> (call_error + call_value) list \<times> server" where
  "served_all ev k [] s = ([], s)"
| "served_all ev k (c # cs) s =
     (case served (ev k) c s of (v, s') \<Rightarrow> case served_all ev (Suc k) cs s' of (vs, s'') \<Rightarrow> (v # vs, s''))"

definition words_ok :: "string list \<Rightarrow> bool" where
  "words_ok ws \<longleftrightarrow> ws \<noteq> [] \<and> (\<forall>w \<in> set ws. w \<noteq> [] \<and> list_all plain w)"

lemma Join_ends: "words_ok ws \<Longrightarrow> Join ws '' '' \<noteq> [] \<and> plain (hd (Join ws '' '')) \<and> plain (last (Join ws '' ''))"
  unfolding words_ok_def
proof (induction ws "'' ''" rule: Join.induct)
  case (3 w v va)
  then show ?case using plain_hd_last [of w] by simp
qed (auto simp: plain_hd_last)

lemma TrimSpace_words: "words_ok ws \<Longrightarrow> TrimSpace (Join ws '' '') = Join ws '' ''"
  using Join_ends [of ws] by (intro TrimSpace_plain) simp

text \<open>An answer of words is read as one line, and what follows stays.\<close>

lemma read_words:
  assumes "words_ok ws" "length (Join ws '' '') \<le> maxLineLen"
  shows "read_reply (str_bytes (Join ws '' '' @ newline) @ r) = (Inr (Join ws '' ''), r)"
proof -
  have "line_ok (str_bytes (Join ws '' ''))" using assms by (intro line_ok_words) (auto simp: words_ok_def)
  then show ?thesis by (simp add: read_reply_def newline_def str_bytes_newline readLine_line)
qed

lemma Join_Cons: "ws \<noteq> [] \<Longrightarrow> Join (w # ws) '' '' = w @ CHR '' '' # Join ws '' ''"
  by (cases ws) simp_all

lemma Cut_words:
  assumes "words_ok (w # ws)" "ws \<noteq> []"
  shows "Cut (TrimSpace (Join (w # ws) '' '')) CHR '' '' = (w, Join ws '' '', True)"
proof -
  have "CHR '' '' \<notin> set w" using assms(1) by (auto simp: words_ok_def list_all_iff plain_def)
  then show ?thesis using TrimSpace_words [OF assms(1)] by (simp add: Join_Cons [OF assms(2)])
qed

lemma one_line_words: "words_ok ws \<Longrightarrow> one_line (Join ws '' '') = Join ws '' ''"
proof -
  assume "words_ok ws"
  then have "list_all (\<lambda>c. plain c \<or> c = CHR '' '') (Join ws '' '')"
    by (intro list_all_Join) (auto simp: words_ok_def list_all_iff)
  then have "CHR 0x0A \<notin> set (Join ws '' '')" unfolding list_all_iff plain_def by fastforce
  then show ?thesis by (auto simp: one_line_def intro!: map_idI)
qed

lemma unavailable_words:
  assumes "text_ok t"
  shows "NegotiateQUIC Written (str_bytes (encodeUnavailable t) @ r) = (Inl (Refused (Unavailable t)), r)"
    "t \<noteq> ''ok'' \<Longrightarrow> Unlink Written (str_bytes (encodeUnlinkReply t) @ r) = (Inl (Refused (Unavailable t)), r)"
proof -
  obtain ws where ws: "words_ok ws" "t = Join ws '' ''" and n: "length t \<le> 4000"
    using assms by (auto simp: text_ok_def words_ok_def)
  have ne: "ws \<noteq> []" using ws(1) by (simp add: words_ok_def)
  have w: "words_ok (''quic-unavailable'' # ws)" "words_ok (''unlink'' # ws)"
    using ws(1) by (auto simp: words_ok_def plain_def)
  note l = one_line_words [OF ws(1)] and tr = TrimSpace_words [OF ws(1)]
  have "encodeUnavailable t = Join (''quic-unavailable'' # ws) '' '' @ newline"
    "encodeUnlinkReply t = Join (''unlink'' # ws) '' '' @ newline"
    by (simp_all add: encodeUnavailable_def encodeUnlinkReply_def ws(2) l Join_Cons [OF ne])
  moreover have "read_reply (str_bytes (Join (''quic-unavailable'' # ws) '' '' @ newline) @ r) = (Inr (Join (''quic-unavailable'' # ws) '' ''), r)"
    "read_reply (str_bytes (Join (''unlink'' # ws) '' '' @ newline) @ r) = (Inr (Join (''unlink'' # ws) '' ''), r)"
    using n by (intro read_words w; simp add: Join_Cons [OF ne] ws(2) maxLineLen_def)+
  moreover have "parseQUICReply (Join (''quic-unavailable'' # ws) '' '') = Inl (Unavailable t)"
    by (simp add: parseQUICReply_def Cut_words [OF w(1) ne] tr ws(2))
  moreover have "t \<noteq> ''ok'' \<Longrightarrow> parseUnlinkReply (Join (''unlink'' # ws) '' '') = Some (Unavailable t)"
    by (simp add: parseUnlinkReply_def Cut_words [OF w(2) ne] tr ws(2))
  ultimately show "NegotiateQUIC Written (str_bytes (encodeUnavailable t) @ r) = (Inl (Refused (Unavailable t)), r)"
    "t \<noteq> ''ok'' \<Longrightarrow> Unlink Written (str_bytes (encodeUnlinkReply t) @ r) = (Inl (Refused (Unavailable t)), r)"
    by (simp_all add: NegotiateQUIC_def Unlink_def)
qed

lemma unlink_ok: "Unlink Written (str_bytes (encodeUnlinkReply ''ok'') @ r) = (Inr (), r)"
proof -
  have w: "words_ok [''unlink'', ''ok'']" by (simp add: words_ok_def plain_def)
  have "encodeUnlinkReply ''ok'' = Join [''unlink'', ''ok''] '' '' @ newline"
    by (simp add: encodeUnlinkReply_def one_line_def)
  moreover have "parseUnlinkReply (Join [''unlink'', ''ok''] '' '') = None"
    using Cut_words [OF w] by (simp add: parseUnlinkReply_def plain_def)
  ultimately show ?thesis using read_words [OF w, of r] by (simp add: Unlink_def maxLineLen_def)
qed

lemma quic_ok:
  assumes "qy_Port q \<noteq> 0" "fp_ok (qy_Fingerprint q)"
  shows "NegotiateQUIC Written (str_bytes (QUICReply_encode q) @ r) = (Inr q, r)"
proof -
  let ?ws = "[''quic'', show_nat (unat (qy_Port q)), qy_Fingerprint q]"
  have w: "words_ok ?ws" using fp_ok_plain [OF assms(2)] by (simp add: words_ok_def plain_def)
  have "length (Join ?ws '' '') \<le> maxLineLen"
    using hex_lengths [OF assms(2)] length_port_string [of "qy_Port q"] by (simp add: maxLineLen_def)
  from read_words [OF w this] have "read_reply (str_bytes (QUICReply_encode q) @ r) = (Inr (Join ?ws '' ''), r)"
    by (simp add: QUICReply_encode_def)
  moreover have "Cut (TrimSpace (Join ?ws '' '')) CHR '' '' = (''quic'', Join (tl ?ws) '' '', True)"
    using Cut_words [OF w] by simp
  moreover have "Fields (Join (tl ?ws) '' '') = tl ?ws" by (rule Fields_Join) (use w in \<open>simp add: words_ok_def\<close>)
  moreover have "unat (qy_Port q) < 2 ^ 16" using unsigned_less [of "qy_Port q"] by simp
  ultimately have "read_reply (str_bytes (QUICReply_encode q) @ r) = (Inr (Join ?ws '' ''), r)" "parseQUICReply (Join ?ws '' '') = Inr q"
    using assms by (simp_all add: parseQUICReply_def fp_ok_def unat_eq_zero Let_def del: Join.simps)
  then show ?thesis by (simp add: NegotiateQUIC_def del: Join.simps)
qed

lemma echo_ok:
  assumes "es_Socket i \<in> {''raw'', ''ping'', ''none''}" "list_all plain (es_PingGroupRange i)" "length (es_PingGroupRange i) \<le> 4000"
  shows "QueryEchoSocket Written (str_bytes (EchoSocketInfo_encode i) @ r) = (Inr i, r)"
proof -
  define ws where "ws = [''icmp'', es_Socket i] @ (if es_PingGroupRange i = [] then [] else [es_PingGroupRange i])"
  have w: "words_ok ws" using assms by (auto simp: words_ok_def plain_def ws_def)
  have n: "length (Join ws '' '') \<le> maxLineLen" using assms by (auto simp: maxLineLen_def ws_def)
  have e: "EchoSocketInfo_encode i = Join ws '' '' @ newline" by (simp add: EchoSocketInfo_encode_def ws_def)
  have f: "Fields (Join ws '' '') = ws" by (rule Fields_Join) (use w in \<open>simp add: words_ok_def\<close>)
  have "parseEchoSocketInfo (Join ws '' '') = Inr i"
    unfolding parseEchoSocketInfo_def f Let_def using assms(1) by (cases i) (auto simp: ws_def)
  then show ?thesis using read_words [OF w n, of r] by (simp add: QueryEchoSocket_def e)
qed

text \<open>One call against one line of the control loop.\<close>

lemma Fields_verb: "v \<noteq> [] \<Longrightarrow> list_all plain v \<Longrightarrow> Fields v = [v]"
  using Fields_Join [of "[v]"] by simp

lemma verb_line:
  assumes "v \<in> {''unlink'', ''quic-abandon'', ''icmp'', ''quit''}"
  shows "line_ok (str_bytes v)" "Fields v = [v]"
proof -
  have w: "words_ok [v]" using assms by (auto simp: words_ok_def plain_def)
  have "length v \<le> maxLineLen" using assms by (auto simp: maxLineLen_def)
  then show "line_ok (str_bytes v)" using line_ok_words [of "[v]"] w by (simp add: words_ok_def)
  show "Fields v = [v]" using Fields_verb w by (simp add: words_ok_def)
qed

lemma started_reply:
  assumes "env_ok e" "request_ok req" "startQUIC e req s = (Inr q, s')"
  shows "qy_Port q \<noteq> 0" "fp_ok (qy_Fingerprint q)"
proof -
  have "PortRange_Contains (qr_Ports req) (qy_Port q)" "env_cert e = Some (qy_Fingerprint q)"
    using assms(3) bindInRange_cases [where e = e and ip = "qr_BindAddr req" and ports = "qr_Ports req"]
    by (auto simp: startQUIC_def split: if_splits option.splits sum.splits)
  then show "qy_Port q \<noteq> 0" "fp_ok (qy_Fingerprint q)"
    using assms(1,2) by (auto simp: env_ok_def request_ok_def PortRange_Contains_def)
qed

lemma call_served:
  assumes "env_ok e" "call_ok c"
  shows "\<exists>l a go. call_line c = l @ newline \<and> line_ok (str_bytes l) \<and> (go \<longleftrightarrow> c \<noteq> CallQuit)
    \<and> control_line e l s = (a, snd (served e c s), go)
    \<and> (\<forall>r. do_call c Written ((case a of None \<Rightarrow> [] | Some x \<Rightarrow> str_bytes x) @ r) = (fst (served e c s), r))"
proof (cases c)
  case (CallQUIC req)
  then have req: "request_ok req" using assms(2) by (simp add: call_ok_def)
  have "Fields (Join (request_words req) '' '') = request_words req" using request_words(1) [OF req] by (rule Fields_Join)
  then have cl: "control_line e (Join (request_words req) '' '') s =
      (case startQUIC e req s of (Inl err, s') \<Rightarrow> (Some (encodeUnavailable (env_start_text e err)), s', True)
       | (Inr reply, s') \<Rightarrow> (Some (QUICReply_encode reply), s', True))"
    using request_words(2) [OF req] assms(1)
    by (simp add: control_line_def request_words_def answerQUIC_def env_ok_def split: prod.splits sum.splits)
  have line: "line_ok (str_bytes (Join (request_words req) '' ''))" by (rule request_line_ok [OF req])
  obtain x s' where st: "startQUIC e req s = (x, s')" by (cases "startQUIC e req s")
  show ?thesis
  proof (cases x)
    case (Inl err)
    have "text_ok (env_start_text e err)" using assms(1) by (simp add: env_ok_def)
    then show ?thesis using CallQUIC st cl line Inl
      by (intro exI [of _ "Join (request_words req) '' ''"] exI [of _ "Some (encodeUnavailable (env_start_text e err))"] exI [of _ True])
        (simp add: call_line_def encode_words served_def do_call_def unavailable_words)
  next
    case (Inr q)
    note q = started_reply [OF assms(1) req st [unfolded Inr]]
    show ?thesis using CallQUIC st cl line Inr quic_ok [OF q]
      by (intro exI [of _ "Join (request_words req) '' ''"] exI [of _ "Some (QUICReply_encode q)"] exI [of _ True])
        (simp add: call_line_def encode_words served_def do_call_def)
  qed
next
  case CallUnlink
  then show ?thesis using verb_line [of "''unlink''"] assms(1)
    by (intro exI [of _ "''unlink''"] exI [of _ "Some (answerUnlink e)"] exI [of _ True])
      (auto simp: call_line_def control_line_def served_def do_call_def answerUnlink_def unlink_ok unavailable_words env_ok_def
        split: option.splits)
next
  case CallAbandon
  then show ?thesis using verb_line [of "''quic-abandon''"]
    by (intro exI [of _ "''quic-abandon''"] exI [of _ None] exI [of _ True])
      (simp add: call_line_def control_line_def served_def do_call_def AbandonQUIC_def)
next
  case CallICMP
  then show ?thesis using verb_line [of "''icmp''"] assms(1) echo_ok [of "env_echo e"]
    by (intro exI [of _ "''icmp''"] exI [of _ "Some (EchoSocketInfo_encode (env_echo e))"] exI [of _ True])
      (simp add: call_line_def control_line_def served_def do_call_def env_ok_def)
next
  case CallQuit
  then show ?thesis using verb_line [of "''quit''"]
    by (intro exI [of _ "''quit''"] exI [of _ None] exI [of _ False])
      (simp add: call_line_def control_line_def served_def do_call_def Quit_def)
qed


definition call_env :: env where
  "call_env = example_env\<lparr>env_start_text := (\<lambda>_. ''failed''), env_unlink := Some ''busy''\<rparr>"

lemma call_env_ok: "env_ok call_env"
proof -
  have "text_ok ''failed''" "text_ok ''busy''"
    unfolding text_ok_def by (intro conjI exI [of _ "[''failed'']"] exI [of _ "[''busy'']"]; simp add: plain_def)+
  then show ?thesis using example_fp [of "CHR ''b''"] by (simp add: env_ok_def call_env_def example_env_def)
qed


section \<open>A session begins\<close>

lemma greeting:
  assumes "10 \<notin> set g" "13 \<notin> set g"
  shows "readHandshake False (g @ 10 # y) = Inr (bytes_str g, y)"
proof -
  have "dropWhile (\<lambda>b. b = 13 \<or> b = 10) (rev g) = rev g"
    using assms hd_in_set [of "rev g"] by (auto simp: dropWhile_eq_self_iff)
  moreover have "takeWhile (\<lambda>b. b \<noteq> 10) (g @ 10 # y) = g" "dropWhile (\<lambda>b. b \<noteq> 10) (g @ 10 # y) = 10 # y"
    using assms(1) by (induction g) auto
  ultimately show ?thesis by (simp add: readHandshake_def TrimRight_crlf_def)
qed

lemma hello: "10 \<notin> set (str_bytes handshakeLine)" "13 \<notin> set (str_bytes handshakeLine)"
  by (simp_all add: handshakeLine_def str_bytes_def)

text \<open>
  C17: client and helper meet. When the helper greets and yamux has its own bytes right behind the
  greeting, and the control stream carries the helper's info line, the client gets exactly that
  info, and yamux reads exactly its own bytes: the handshake takes none of them. A greeting of
  another version fails with the text the helper sent and opens no session, and on every
  failure the session is closed once when there is one.
\<close>

theorem new_client_meets_helper:
  assumes "\<not> nc_timeout e"
  shows "(nc_yamux e \<and> nc_open e \<and> nc_write e \<and> info_ok ci \<and> length (ControlInfo_encode (nc_hi e) ci) \<le> Suc maxLineLen
        \<and> nc_ctl e = str_bytes (ControlInfo_encode (nc_hi e) ci) @ ctl \<longrightarrow>
      NewClient e (str_bytes (handshakeLine @ newline) @ y) = (Inr \<lparr>cl_info = ci, cl_ctl = ctl, cl_transport = y\<rparr>, 0))
    \<and> (10 \<notin> set g \<and> 13 \<notin> set g \<and> bytes_str g \<noteq> handshakeLine \<longrightarrow>
      NewClient e (g @ 10 # y) = (Inl (RemoteHelper (bytes_str g)), 0))
    \<and> (\<forall>t err n. NewClient e t = (Inl err, n) \<longrightarrow>
      n = (if err \<in> {HandshakeEOF, YamuxFailed} \<union> range RemoteHelper then 0 else 1))"
proof (intro conjI impI allI)
  assume a: "nc_yamux e \<and> nc_open e \<and> nc_write e \<and> info_ok ci \<and> length (ControlInfo_encode (nc_hi e) ci) \<le> Suc maxLineLen
    \<and> nc_ctl e = str_bytes (ControlInfo_encode (nc_hi e) ci) @ ctl"
  obtain l where l: "readLine (nc_ctl e) maxLineLen = Inr (l, ctl)" "decodeControlInfo (nc_hi e) (bytes_str l) = Inr ci"
    using info_line_read [of ci "nc_hi e" ctl] a by auto
  have "readHandshake False (str_bytes handshakeLine @ 10 # y) = Inr (handshakeLine, y)"
    using greeting [OF hello, of y] by simp
  then show "NewClient e (str_bytes (handshakeLine @ newline) @ y) = (Inr \<lparr>cl_info = ci, cl_ctl = ctl, cl_transport = y\<rparr>, 0)"
    using a l assms by (simp add: NewClient_def newline_def str_bytes_newline)
next
  assume "10 \<notin> set g \<and> 13 \<notin> set g \<and> bytes_str g \<noteq> handshakeLine"
  then show "NewClient e (g @ 10 # y) = (Inl (RemoteHelper (bytes_str g)), 0)"
    using greeting [of g y] assms by (simp add: NewClient_def)
next
  fix t err n assume "NewClient e t = (Inl err, n)"
  then show "n = (if err \<in> {HandshakeEOF, YamuxFailed} \<union> range RemoteHelper then 0 else 1)"
    using assms by (auto simp: NewClient_def readHandshake_def split: if_splits sum.splits prod.splits)
qed

definition meet_env :: client_env where
  "meet_env = \<lparr>nc_hi = (\<lambda>s. ([], 1)), nc_timeout = False, nc_yamux = True, nc_open = True, nc_write = True,
     nc_ctl = str_bytes (ControlInfo_encode (\<lambda>s. ([], 1)) sample_info)\<rparr>"

theorem new_client_meets_helper_witness:
  "NewClient meet_env (str_bytes (handshakeLine @ newline) @ [7, 8])
     = (Inr \<lparr>cl_info = sample_info, cl_ctl = [], cl_transport = [7, 8]\<rparr>, 0)
   \<and> NewClient meet_env (str_bytes ''TJ4'' @ 10 # [7]) = (Inl (RemoteHelper ''TJ4''), 0)"
proof -
  have g: "10 \<notin> set (str_bytes ''TJ4'')" "13 \<notin> set (str_bytes ''TJ4'')" "''TJ4'' \<noteq> handshakeLine"
    by (simp_all add: str_bytes_def handshakeLine_def)
  have t: "\<not> nc_timeout meet_env" by (simp add: meet_env_def)
  show ?thesis
    using new_client_meets_helper [OF t, of sample_info "[]" "[7, 8]" "str_bytes ''TJ4''"]
      new_client_meets_helper [OF t, of sample_info "[]" "[7]" "str_bytes ''TJ4''"] g sample_info_ok
    by (simp add: meet_env_def)
qed

section \<open>A flow begins\<close>

lemma dial_tcp_result:
  assumes "IsValid (ap_addr dst)" "so_open e" "so_kind e" "so_dest e"
  shows "DialTCP dst (e\<lparr>so_in := fst (helper_handleTCP dial (writeDest dst @ up)) @ down\<rparr>) =
    (case dial (wire_dest dst) of
       None \<Rightarrow> (Inr down, openStream 1 dst, 0)
     | Some x \<Rightarrow> (Inl (Status (statusError (statusFor x))), openStream 1 dst, 1))"
proof -
  have st: "statusFor x \<noteq> statusOK" for x using dial_status_agrees by blast
  have one: "readStatus ([b] @ down) = Inr (b, down)" for b by (simp add: readStatus_def ReadFull_def)
  show ?thesis using assms(2-4) st one readDest_writeDest [OF assms(1)]
    by (auto simp: helper_handleTCP_def DialTCP_def client_openStream_def openStream_def split: option.split)
qed



end
