(* ===== verification/Mux_Bench.thy ===== *)
theory Mux_Bench
  imports Mux_Client Go_Float
begin

text \<open>
  The throughput measurement, \<open>internal/mux/bench.go\<close>: the request, the client's and the helper's
  half of a run in each direction, and the rate. Clock readings, write outcomes and the chunks
  reads return are arguments; a loop that has not ended yet is \<open>None\<close>.
\<close>

section \<open>The request\<close>

definition benchBlock :: nat where "benchBlock = 32768"

definition benchMaxSeconds :: int where "benchMaxSeconds = 30"

definition go_second :: int where "go_second = 1000000000"

datatype bench_direction = BenchUp | BenchDown

definition direction_byte :: "bench_direction \<Rightarrow> byte" where
  "direction_byte d = (case d of BenchUp \<Rightarrow> 0 | BenchDown \<Rightarrow> 1)"

datatype bench_error =
    BenchDuration int
  | BenchShort io_error
  | BenchDirectionByte byte
  | BenchSeconds "16 word"
  | BenchStream
  | BenchStatusRead wire_error
  | BenchStatus dial_result
  | BenchCount io_error
  | BenchCancelled

text \<open>\<open>writeBenchRequest\<close>, the kind byte included.\<close>

definition writeBenchRequest :: "bench_direction \<Rightarrow> int \<Rightarrow> bench_error + bytes" where
  "writeBenchRequest dir d =
     (let secs = quo d go_second in
      if secs < 1 \<or> secs > benchMaxSeconds \<or> d - secs * go_second \<noteq> 0 then Inl (BenchDuration d)
      else Inr ([5, direction_byte dir] @ be16 (word_of_int secs)))"

definition readBenchRequest :: "bytes \<Rightarrow> bench_error + (bench_direction \<times> int \<times> bytes)" where
  "readBenchRequest r =
     (case ReadFull 3 r of
        Inl e \<Rightarrow> Inl (BenchShort e)
      | Inr (buf, r') \<Rightarrow>
          if buf ! 0 \<noteq> direction_byte BenchUp \<and> buf ! 0 \<noteq> direction_byte BenchDown then Inl (BenchDirectionByte (buf ! 0))
          else let secs = un16 (drop 1 buf) in
               if secs < 1 \<or> uint secs > benchMaxSeconds then Inl (BenchSeconds secs)
               else Inr (if buf ! 0 = direction_byte BenchUp then BenchUp else BenchDown, uint secs * go_second, r'))"

section \<open>A run\<close>

record bench_tick =
  bt_now :: int
  bt_cancel :: bool
  bt_write :: bool

text \<open>The sender's loop of the client: the blocks it wrote, and the error that ended it.\<close>

fun bench_send :: "int \<Rightarrow> bench_tick list \<Rightarrow> nat \<Rightarrow> (bench_error option \<times> nat) option" where
  "bench_send stop [] n = None"
| "bench_send stop (t # ts) n =
     (if \<not> bt_now t < stop then Some (None, n)
      else if bt_cancel t then Some (Some BenchCancelled, n)
      else if \<not> bt_write t then Some (Some BenchStream, n)
      else bench_send stop ts (Suc n))"

record bench_result =
  res_Bytes :: nat
  res_Elapsed :: int

definition count_bytes :: "nat \<Rightarrow> bytes" where "count_bytes n = be_put 8 n"

definition benchUp :: "int \<Rightarrow> int \<Rightarrow> bench_tick list \<Rightarrow> bool \<Rightarrow> bytes \<Rightarrow> int \<Rightarrow> (bench_error + bench_result) option" where
  "benchUp start d ticks close_ok answer now =
     (case bench_send (start + d) ticks 0 of
        None \<Rightarrow> None
      | Some (Some e, n) \<Rightarrow> Some (Inl e)
      | Some (None, n) \<Rightarrow>
          Some (if \<not> close_ok then Inl BenchStream
                else case ReadFull 8 answer of
                  Inl e \<Rightarrow> Inl (BenchCount e)
                | Inr (buf, _) \<Rightarrow> Inr \<lparr>res_Bytes = be_get buf, res_Elapsed = now - start\<rparr>))"

text \<open>The helper's half: it counts to the end of the stream and answers; a read error ends it silently.\<close>

definition serveBenchUp :: "bool \<Rightarrow> bytes \<Rightarrow> bytes" where
  "serveBenchUp read_error received = (if read_error then [] else count_bytes (length received mod 2 ^ 64))"

datatype read_end = MoreData | ReadEOF | ReadFailed

record bench_read =
  rd_chunk :: bytes
  rd_end :: read_end
  rd_cancel :: bool

fun bench_receive :: "bench_read list \<Rightarrow> nat \<Rightarrow> (bench_error + nat) option" where
  "bench_receive [] acc = None"
| "bench_receive (x # xs) acc =
     (let acc' = (acc + length (rd_chunk x)) mod 2 ^ 64 in
      case rd_end x of
        ReadEOF \<Rightarrow> Some (Inr acc')
      | ReadFailed \<Rightarrow> Some (Inl BenchStream)
      | MoreData \<Rightarrow> if rd_cancel x then Some (Inl BenchCancelled) else bench_receive xs acc')"

definition benchDown :: "int \<Rightarrow> bench_read list \<Rightarrow> int \<Rightarrow> (bench_error + bench_result) option" where
  "benchDown start reads now =
     map_option (map_sum id (\<lambda>n. \<lparr>res_Bytes = n, res_Elapsed = now - start\<rparr>)) (bench_receive reads 0)"

text \<open>The helper's sender: it writes blocks until the time is over or a write fails.\<close>

fun serveBenchDown :: "int \<Rightarrow> bench_tick list \<Rightarrow> nat \<Rightarrow> nat option" where
  "serveBenchDown stop [] n = None"
| "serveBenchDown stop (t # ts) n =
     (if \<not> bt_now t < stop then Some n else if \<not> bt_write t then Some n else serveBenchDown stop ts (Suc n))"

definition benchStream_status :: "bytes \<Rightarrow> bench_error + bytes" where
  "benchStream_status r =
     (case readStatus r of
        Inl e \<Rightarrow> Inl (BenchStatusRead e)
      | Inr (status, r') \<Rightarrow> if status \<noteq> statusOK then Inl (BenchStatus (statusError status)) else Inr r')"

definition runBench :: "bool \<Rightarrow> bench_error + bench_result \<Rightarrow> bench_error + bench_result" where
  "runBench cancelled res = (case res of Inl e \<Rightarrow> Inl (if cancelled then BenchCancelled else e) | Inr x \<Rightarrow> Inr x)"

text \<open>\<open>handleBench\<close> up to the run: the status byte it answers and the run it starts.\<close>

definition handleBench :: "bytes \<Rightarrow> bytes \<times> (bench_direction \<times> int \<times> bytes) option" where
  "handleBench r = (case readBenchRequest r of Inl _ \<Rightarrow> ([statusOther], None) | Inr x \<Rightarrow> ([statusOK], Some x))"

definition bench_Rate :: "(rat \<Rightarrow> int) \<Rightarrow> bench_result \<Rightarrow> int" where
  "bench_Rate oor r =
     (if res_Elapsed r \<le> 0 then 0 else f64_to_u64 oor (f64 (f64 (of_nat (res_Bytes r)) / Seconds (res_Elapsed r))))"

section \<open>Both ends\<close>

lemma go_second_pos [simp]: "0 < go_second" "go_second \<noteq> 0" by (simp_all add: go_second_def)

lemma request_agrees:
  assumes "writeBenchRequest dir d = Inr bs"
  shows "handle (bs @ r) = ActBench (tl bs @ r) \<and> handleFlow (bs @ r) = ActBench (tl bs @ r)
    \<and> handleBench (tl bs @ r) = ([statusOK], Some (dir, d, r))"
proof -
  define secs where "secs = quo d go_second"
  have s: "1 \<le> secs" "secs \<le> 30" "d = secs * go_second" "bs = [5, direction_byte dir] @ be16 (word_of_int secs)"
    using assms by (auto simp: writeBenchRequest_def secs_def Let_def benchMaxSeconds_def split: if_splits)
  let ?w = "word_of_int secs :: 16 word"
  have w: "uint ?w = secs" using s(1,2) by (simp add: uint_word_of_int)
  have "\<not> ?w < 1" using s(1) w by (simp add: word_less_def)
  moreover have "un16 (be16 ?w) = ?w" by simp
  ultimately have "readBenchRequest (tl bs @ r) = Inr (dir, d, r)"
    using s(2,3) w by (cases dir) (simp_all add: readBenchRequest_def s(4) ReadFull_def direction_byte_def benchMaxSeconds_def be16_def Let_def)
  then show ?thesis by (simp add: handleBench_def handle_def handleFlow_def s(4) ReadFull_def)
qed

lemma bench_send_clock:
  "bench_send stop ts n = Some (None, m) \<Longrightarrow> \<exists>t \<in> set ts. stop \<le> bt_now t"
  by (induction stop ts n rule: bench_send.induct) (auto split: if_splits)

lemma bench_send_ends: "\<exists>t \<in> set ts. stop \<le> bt_now t \<Longrightarrow> bench_send stop ts n \<noteq> None"
  by (induction stop ts n rule: bench_send.induct) auto

lemma receive_all:
  assumes "\<forall>x \<in> set (butlast xs). rd_end x = MoreData \<and> \<not> rd_cancel x" "xs \<noteq> []" "rd_end (last xs) = ReadEOF"
    and "acc + length (concat (map rd_chunk xs)) < 2 ^ 64"
  shows "bench_receive xs acc = Some (Inr (acc + length (concat (map rd_chunk xs))))"
  using assms
proof (induction xs arbitrary: acc)
  case (Cons x xs)
  then show ?case
  proof (cases "xs = []")
    case False
    then have "rd_end x = MoreData" "\<not> rd_cancel x" using Cons.prems(1) by simp_all
    then show ?thesis using Cons.IH [of "acc + length (rd_chunk x)"] Cons.prems False by (simp add: Let_def add.assoc)
  qed (simp add: Let_def)
qed simp

text \<open>
  A measurement counts what was sent. The helper accepts exactly the run the client asks for, on
  either transport. Upwards the client reports the bytes of the blocks it wrote, as the helper
  counted them, over at least the duration it asked for; downwards the bytes of the blocks the
  helper wrote, in whatever chunks the transport delivers them. And the sending loop ends once
  the clock reaches the end of the run.
\<close>

theorem bench_counts_exact:
  assumes req: "writeBenchRequest dir d = Inr bs"
  shows "handle (bs @ r) = ActBench (tl bs @ r) \<and> handleFlow (bs @ r) = ActBench (tl bs @ r)
    \<and> handleBench (tl bs @ r) = ([statusOK], Some (dir, d, r))
    \<and> (bench_send (start + d) ts 0 = Some (None, n) \<and> n * benchBlock < 2 ^ 64 \<and> (\<forall>t \<in> set ts. bt_now t \<le> now) \<longrightarrow>
        benchUp start d ts True (serveBenchUp False (replicate (n * benchBlock) 0)) now
          = Some (Inr \<lparr>res_Bytes = n * benchBlock, res_Elapsed = now - start\<rparr>) \<and> d \<le> now - start)
    \<and> (serveBenchDown (start + d) ts 0 = Some n \<and> n * benchBlock < 2 ^ 64
        \<and> xs \<noteq> [] \<and> rd_end (last xs) = ReadEOF \<and> (\<forall>x \<in> set (butlast xs). rd_end x = MoreData \<and> \<not> rd_cancel x)
        \<and> concat (map rd_chunk xs) = replicate (n * benchBlock) 0 \<longrightarrow>
        benchDown start xs now = Some (Inr \<lparr>res_Bytes = n * benchBlock, res_Elapsed = now - start\<rparr>))
    \<and> ((\<exists>t \<in> set ts. start + d \<le> bt_now t) \<longrightarrow> bench_send (start + d) ts 0 \<noteq> None)"
proof (intro conjI impI)
  show "handle (bs @ r) = ActBench (tl bs @ r)" "handleFlow (bs @ r) = ActBench (tl bs @ r)"
    "handleBench (tl bs @ r) = ([statusOK], Some (dir, d, r))" using request_agrees [OF req, of r] by auto
  assume a: "bench_send (start + d) ts 0 = Some (None, n) \<and> n * benchBlock < 2 ^ 64 \<and> (\<forall>t \<in> set ts. bt_now t \<le> now)"
  then show "benchUp start d ts True (serveBenchUp False (replicate (n * benchBlock) 0)) now
      = Some (Inr \<lparr>res_Bytes = n * benchBlock, res_Elapsed = now - start\<rparr>)"
    by (simp add: benchUp_def serveBenchUp_def count_bytes_def ReadFull_def)
  show "d \<le> now - start" using a bench_send_clock [of "start + d" ts 0 n] by force
next
  assume "serveBenchDown (start + d) ts 0 = Some n \<and> n * benchBlock < 2 ^ 64
        \<and> xs \<noteq> [] \<and> rd_end (last xs) = ReadEOF \<and> (\<forall>x \<in> set (butlast xs). rd_end x = MoreData \<and> \<not> rd_cancel x)
        \<and> concat (map rd_chunk xs) = replicate (n * benchBlock) 0"
  then show "benchDown start xs now = Some (Inr \<lparr>res_Bytes = n * benchBlock, res_Elapsed = now - start\<rparr>)"
    using receive_all [of xs 0] by (simp add: benchDown_def)
qed (rule bench_send_ends)

theorem bench_counts_exact_witness:
  "benchUp 0 go_second [\<lparr>bt_now = 0, bt_cancel = False, bt_write = True\<rparr>, \<lparr>bt_now = go_second, bt_cancel = False, bt_write = True\<rparr>] True
      (serveBenchUp False (replicate (1 * benchBlock) 0)) go_second = Some (Inr \<lparr>res_Bytes = 1 * benchBlock, res_Elapsed = go_second - 0\<rparr>)"
proof -
  have "writeBenchRequest BenchUp go_second = Inr ([5, 0] @ be16 1)"
    by (simp add: writeBenchRequest_def go_second_def quo_def benchMaxSeconds_def direction_byte_def)
  then show ?thesis
    using bench_counts_exact [of BenchUp go_second "[5, 0] @ be16 1" "[]" 0
        "[\<lparr>bt_now = 0, bt_cancel = False, bt_write = True\<rparr>, \<lparr>bt_now = go_second, bt_cancel = False, bt_write = True\<rparr>]" 1 go_second "[]"] less_imp_le [OF go_second_pos(1)]
    by (simp add: benchBlock_def)
qed

end
