(* ===== verification/Tcp_Relay.thy ===== *)
theory Tcp_Relay
  imports Mux_Client
begin

text \<open>
  A TCP connection through the session: \<open>handleTCP\<close> and \<open>relayTCP\<close> of \<open>internal/dataplane/netstack.go\<close>
  at the client and \<open>relayTCP\<close> of \<open>internal/mux/server.go\<close> at the helper. Each relay runs two
  goroutines that copy, one per direction, so four copy loops and the two applications
  interleave. A run is a list of their iterations in any order.
\<close>

section \<open>Taking a connection\<close>

datatype tcp_action = DialStream addr_port | Reset | CloseStream | Accept | Relay

text \<open>
  \<open>handleTCP\<close> of the client for a captured connection: the dial through the session, then the endpoint
  whose handshake may fail.
\<close>

definition client_handleTCP :: "stream_env \<Rightarrow> bool \<Rightarrow> addr_port \<Rightarrow> tcp_action list" where
  "client_handleTCP e endpoint dst =
     (case fst (DialTCP dst e) of
        Inl _ \<Rightarrow> [DialStream dst, Reset]
      | Inr _ \<Rightarrow> if \<not> endpoint then [DialStream dst, CloseStream, Reset] else [DialStream dst, Accept, Relay])"

text \<open>
  The application sees the truth about its destination: its connection is accepted only when the
  helper's dial succeeded, and it is reset in every other case, with the stream closed.
\<close>

lemma connection_accepted_iff:
  assumes "IsValid (ap_addr dst)" "so_open e" "so_kind e" "so_dest e"
    and "acts = client_handleTCP (e\<lparr>so_in := fst (helper_handleTCP dial (writeDest dst @ up)) @ down\<rparr>) endpoint dst"
  shows "Accept \<in> set acts \<longleftrightarrow> dial (wire_dest dst) = None \<and> endpoint" "Reset \<in> set acts \<longleftrightarrow> Accept \<notin> set acts"
    "Relay \<in> set acts \<longleftrightarrow> Accept \<in> set acts"
  using assms(5) by (auto simp: client_handleTCP_def dial_tcp_result [OF assms(1-4)] split: option.split)

section \<open>Copy loops\<close>

text \<open>Bytes on the way from a writer to a reader, and whether the writer closed its side.\<close>

record pipe =
  pi_buf :: bytes
  pi_eof :: bool

datatype copy_event = CopyOK nat | CopyWriteFails nat nat | CopyReadFails

text \<open>
  An iteration of \<open>io.Copy\<close> from \<open>src\<close> to \<open>dst\<close>, with the half-close that follows the last one: the
  new pipes and whether the goroutine still runs. A read takes at most as many bytes as its
  buffer holds; a read with nothing to read waits, or ends the loop at the end of the stream.
\<close>

definition copy_step :: "copy_event \<Rightarrow> pipe \<Rightarrow> pipe \<Rightarrow> pipe \<times> pipe \<times> bool" where
  "copy_step ev src dst =
     (case ev of
        CopyReadFails \<Rightarrow> (src, dst\<lparr>pi_eof := True\<rparr>, False)
      | CopyOK n \<Rightarrow>
          if pi_buf src = [] then (if pi_eof src then (src, dst\<lparr>pi_eof := True\<rparr>, False) else (src, dst, True))
          else (src\<lparr>pi_buf := drop (Suc n) (pi_buf src)\<rparr>, dst\<lparr>pi_buf := pi_buf dst @ take (Suc n) (pi_buf src)\<rparr>, True)
      | CopyWriteFails n k \<Rightarrow>
          if pi_buf src = [] then (if pi_eof src then (src, dst\<lparr>pi_eof := True\<rparr>, False) else (src, dst, True))
          else (src\<lparr>pi_buf := drop (Suc n) (pi_buf src)\<rparr>,
                dst\<lparr>pi_buf := pi_buf dst @ take k (take (Suc n) (pi_buf src)), pi_eof := True\<rparr>, False))"

text \<open>
  One direction: what the source wrote, the pipe it writes to, the first copy loop, the stream,
  the second copy loop, and what the receiver got.
\<close>

record path =
  pt_sent :: bytes
  pt_a :: pipe
  pt_run1 :: bool
  pt_b :: pipe
  pt_run2 :: bool
  pt_c :: pipe

definition new_path :: path where
  "new_path = \<lparr>pt_sent = [], pt_a = \<lparr>pi_buf = [], pi_eof = False\<rparr>, pt_run1 = True,
     pt_b = \<lparr>pi_buf = [], pi_eof = False\<rparr>, pt_run2 = True, pt_c = \<lparr>pi_buf = [], pi_eof = False\<rparr>\<rparr>"

datatype path_event = Send bytes | Shut | First copy_event | Second copy_event

definition path_step :: "path_event \<Rightarrow> path \<Rightarrow> path" where
  "path_step ev p =
     (case ev of
        Send bs \<Rightarrow> if pi_eof (pt_a p) then p
                   else p\<lparr>pt_sent := pt_sent p @ bs, pt_a := (pt_a p)\<lparr>pi_buf := pi_buf (pt_a p) @ bs\<rparr>\<rparr>
      | Shut \<Rightarrow> p\<lparr>pt_a := (pt_a p)\<lparr>pi_eof := True\<rparr>\<rparr>
      | First x \<Rightarrow> if \<not> pt_run1 p then p
                   else (case copy_step x (pt_a p) (pt_b p) of (a, b, r) \<Rightarrow> p\<lparr>pt_a := a, pt_b := b, pt_run1 := r\<rparr>)
      | Second x \<Rightarrow> if \<not> pt_run2 p then p
                    else (case copy_step x (pt_b p) (pt_c p) of (b, c, r) \<Rightarrow> p\<lparr>pt_b := b, pt_c := c, pt_run2 := r\<rparr>))"

section \<open>The connection\<close>

text \<open>
  Upwards the client's loop is the first and the helper's the second, downwards the other way
  round. A relay returns when both its loops ended and closes its ends; from then on what the other
  relay still writes to the stream fails.
\<close>

record tcp_flow =
  fl_up :: path
  fl_down :: path

definition client_done :: "tcp_flow \<Rightarrow> bool" where
  "client_done f \<longleftrightarrow> \<not> pt_run1 (fl_up f) \<and> \<not> pt_run2 (fl_down f)"

definition helper_done :: "tcp_flow \<Rightarrow> bool" where
  "helper_done f \<longleftrightarrow> \<not> pt_run2 (fl_up f) \<and> \<not> pt_run1 (fl_down f)"

definition cut_off :: "bool \<Rightarrow> path_event \<Rightarrow> path_event" where
  "cut_off gone ev = (case ev of First (CopyOK n) \<Rightarrow> if gone then First (CopyWriteFails n 0) else ev | _ \<Rightarrow> ev)"

datatype flow_event = Up path_event | Down path_event

definition flow_step :: "flow_event \<Rightarrow> tcp_flow \<Rightarrow> tcp_flow" where
  "flow_step ev f =
     (case ev of
        Up x \<Rightarrow> f\<lparr>fl_up := path_step (cut_off (helper_done f) x) (fl_up f)\<rparr>
      | Down x \<Rightarrow> f\<lparr>fl_down := path_step (cut_off (client_done f) x) (fl_down f)\<rparr>)"

definition new_tcp_flow :: tcp_flow where
  "new_tcp_flow = \<lparr>fl_up = new_path, fl_down = new_path\<rparr>"

definition flow_run :: "flow_event list \<Rightarrow> tcp_flow" where
  "flow_run evs = fold flow_step evs new_tcp_flow"

section \<open>What arrives\<close>

definition path_inv :: "path \<Rightarrow> bool" where
  "path_inv p \<longleftrightarrow> prefix (pi_buf (pt_c p)) (pt_sent p)
     \<and> (pt_run2 p \<longrightarrow> prefix (pi_buf (pt_c p) @ pi_buf (pt_b p)) (pt_sent p))
     \<and> (pt_run1 p \<and> pt_run2 p \<longrightarrow> pi_buf (pt_c p) @ pi_buf (pt_b p) @ pi_buf (pt_a p) = pt_sent p)"

text \<open>An iteration moves bytes from the front of the source to the end of the destination; only the last may lose some.\<close>

lemma copy_effect:
  assumes "copy_step ev src dst = (src', dst', r)"
  shows "\<exists>m j. j \<le> m \<and> pi_buf src' = drop m (pi_buf src) \<and> pi_buf dst' = pi_buf dst @ take j (pi_buf src) \<and> (r \<longrightarrow> j = m)"
    "pi_eof src' = pi_eof src" "pi_eof dst' = (pi_eof dst \<or> \<not> r)"
proof -
  show "pi_eof src' = pi_eof src" "pi_eof dst' = (pi_eof dst \<or> \<not> r)"
    using assms by (auto simp: copy_step_def split: copy_event.splits if_splits)
  show "\<exists>m j. j \<le> m \<and> pi_buf src' = drop m (pi_buf src) \<and> pi_buf dst' = pi_buf dst @ take j (pi_buf src) \<and> (r \<longrightarrow> j = m)"
  proof (cases "pi_buf src = [] \<or> ev = CopyReadFails")
    case True
    then show ?thesis using assms by (intro exI [of _ 0]) (auto simp: copy_step_def split: copy_event.splits if_splits)
  next
    case False
    then show ?thesis using assms
      by (intro exI [of _ "case ev of CopyOK n \<Rightarrow> Suc n | CopyWriteFails n k \<Rightarrow> Suc n | CopyReadFails \<Rightarrow> 0"]
          exI [of _ "case ev of CopyOK n \<Rightarrow> Suc n | CopyWriteFails n k \<Rightarrow> min k (Suc n) | CopyReadFails \<Rightarrow> 0"])
        (auto simp: copy_step_def split: copy_event.splits)
  qed
qed

lemma prefix_take: "prefix (xs @ ys) zs \<Longrightarrow> prefix (xs @ take j ys) zs"
  by (metis append_take_drop_id append_assoc append_prefixD)

lemma take_drop_append [simp]: "take n xs @ drop n xs @ ys = xs @ ys"
  by (metis append_assoc append_take_drop_id)

lemma path_inv_step:
  assumes "path_inv p"
  shows "path_inv (path_step ev p)"
proof (cases ev)
  case (First x)
  show ?thesis
  proof (cases "pt_run1 p")
    case True
    obtain a b r where c: "copy_step x (pt_a p) (pt_b p) = (a, b, r)" by (cases "copy_step x (pt_a p) (pt_b p)")
    obtain m j where e: "pi_buf a = drop m (pi_buf (pt_a p))" "pi_buf b = pi_buf (pt_b p) @ take j (pi_buf (pt_a p))" "r \<longrightarrow> j = m"
      using copy_effect(1) [OF c] by blast
    have "prefix (pi_buf (pt_c p) @ pi_buf b) (pt_sent p)" if "pt_run2 p"
      using assms True that prefix_take [of "pi_buf (pt_c p) @ pi_buf (pt_b p)" "pi_buf (pt_a p)" "pt_sent p" j]
      by (simp add: path_inv_def e(2))
    then show ?thesis using assms True First c e by (auto simp: path_step_def path_inv_def)
  qed (use assms First in \<open>simp add: path_step_def\<close>)
next
  case (Second x)
  show ?thesis
  proof (cases "pt_run2 p")
    case True
    obtain b c r where c: "copy_step x (pt_b p) (pt_c p) = (b, c, r)" by (cases "copy_step x (pt_b p) (pt_c p)")
    obtain m j where e: "pi_buf b = drop m (pi_buf (pt_b p))" "pi_buf c = pi_buf (pt_c p) @ take j (pi_buf (pt_b p))" "r \<longrightarrow> j = m"
      using copy_effect(1) [OF c] by blast
    have "prefix (pi_buf c) (pt_sent p)"
      using assms True prefix_take [of "pi_buf (pt_c p)" "pi_buf (pt_b p)" "pt_sent p" j] by (simp add: path_inv_def e(2))
    moreover have "prefix (pi_buf c @ pi_buf b) (pt_sent p)" if r
      using assms True e that by (simp add: path_inv_def)
    moreover have "pi_buf c @ pi_buf b @ pi_buf (pt_a p) = pt_sent p" if r "pt_run1 p"
      using assms True e that by (simp add: path_inv_def)
    ultimately show ?thesis using Second True c by (cases r) (simp_all add: path_step_def path_inv_def)
  qed (use assms Second in \<open>simp add: path_step_def\<close>)
qed (use assms in \<open>auto simp: path_step_def path_inv_def prefix_def\<close>)

lemma path_inv_new: "path_inv new_path"
  by (simp add: path_inv_def new_path_def)

text \<open>Without a failed read or write nothing is lost, and an end is passed on only after everything before it.\<close>

definition faulty :: "path_event \<Rightarrow> bool" where
  "faulty ev = (case ev of First (CopyOK n) \<Rightarrow> False | Second (CopyOK n) \<Rightarrow> False | First _ \<Rightarrow> True | Second _ \<Rightarrow> True | _ \<Rightarrow> False)"

definition path_clean :: "path \<Rightarrow> bool" where
  "path_clean p \<longleftrightarrow> pi_buf (pt_c p) @ pi_buf (pt_b p) @ pi_buf (pt_a p) = pt_sent p
     \<and> (pi_eof (pt_b p) \<longleftrightarrow> \<not> pt_run1 p) \<and> (pi_eof (pt_c p) \<longleftrightarrow> \<not> pt_run2 p)
     \<and> (\<not> pt_run1 p \<longrightarrow> pi_eof (pt_a p) \<and> pi_buf (pt_a p) = [])
     \<and> (\<not> pt_run2 p \<longrightarrow> \<not> pt_run1 p \<and> pi_buf (pt_b p) = [])"

lemma path_clean_step: "path_clean p \<Longrightarrow> \<not> faulty ev \<Longrightarrow> path_clean (path_step ev p)"
  by (cases ev; cases "pt_run1 p"; cases "pt_run2 p")
    (auto simp: path_step_def path_clean_def copy_step_def faulty_def split: copy_event.splits)

lemma path_clean_new: "path_clean new_path"
  by (simp add: path_clean_def new_path_def)

definition flow_faulty :: "flow_event \<Rightarrow> bool" where
  "flow_faulty ev = (case ev of Up x \<Rightarrow> faulty x | Down x \<Rightarrow> faulty x)"

lemma cut_off_live: "path_clean p \<Longrightarrow> (gone \<Longrightarrow> \<not> pt_run2 p) \<Longrightarrow> path_step (cut_off gone ev) p = path_step ev p"
  by (auto simp: cut_off_def path_clean_def path_step_def split: path_event.splits copy_event.splits)

lemma flow_inv: "path_inv (fl_up (flow_run evs)) \<and> path_inv (fl_down (flow_run evs))"
proof (induction evs rule: rev_induct)
  case (snoc ev evs)
  then show ?case by (cases ev) (simp_all add: flow_run_def flow_step_def path_inv_step)
qed (simp add: flow_run_def new_tcp_flow_def path_inv_new)

lemma flow_clean: "list_all (\<lambda>ev. \<not> flow_faulty ev) evs \<Longrightarrow> path_clean (fl_up (flow_run evs)) \<and> path_clean (fl_down (flow_run evs))"
proof (induction evs rule: rev_induct)
  case (snoc ev evs)
  let ?f = "flow_run evs"
  have IH: "path_clean (fl_up ?f)" "path_clean (fl_down ?f)" using snoc by simp_all
  have g: "helper_done ?f \<Longrightarrow> \<not> pt_run2 (fl_up ?f)" "client_done ?f \<Longrightarrow> \<not> pt_run2 (fl_down ?f)"
    by (simp_all add: helper_done_def client_done_def)
  show ?case using IH cut_off_live [OF IH(1) g(1)] cut_off_live [OF IH(2) g(2)] snoc.prems path_clean_step
    by (cases ev) (simp_all add: flow_run_def flow_step_def flow_faulty_def)
qed (simp add: flow_run_def new_tcp_flow_def path_clean_new)

text \<open>
  C13: a connection carries its bytes. Whatever the interleaving of the two applications and the
  four copy loops and wherever a read or a write fails, each receiver has got a prefix of what the other
  side sent. Without a failure nothing is lost, and a receiver sees the end of the stream only
  after the other side closed and only when it has everything, whatever happens in the other
  direction: a half-closed connection still carries the answer.
\<close>

theorem tcp_flow_exact:
  assumes "p = fl_up (flow_run evs) \<or> p = fl_down (flow_run evs)"
  shows "prefix (pi_buf (pt_c p)) (pt_sent p)
    \<and> (list_all (\<lambda>ev. \<not> flow_faulty ev) evs \<longrightarrow>
        pt_sent p = pi_buf (pt_c p) @ pi_buf (pt_b p) @ pi_buf (pt_a p)
        \<and> (pi_eof (pt_c p) \<longrightarrow> pi_eof (pt_a p) \<and> pi_buf (pt_c p) = pt_sent p))"
proof (intro conjI impI)
  show "prefix (pi_buf (pt_c p)) (pt_sent p)" using flow_inv [of evs] assms by (auto simp: path_inv_def)
  assume "list_all (\<lambda>ev. \<not> flow_faulty ev) evs"
  then have c: "path_clean p" using flow_clean assms by auto
  then show "pt_sent p = pi_buf (pt_c p) @ pi_buf (pt_b p) @ pi_buf (pt_a p)" by (simp add: path_clean_def)
  assume "pi_eof (pt_c p)"
  then show "pi_eof (pt_a p)" "pi_buf (pt_c p) = pt_sent p" using c by (auto simp: path_clean_def)
qed

theorem tcp_flow_exact_witness:
  "let evs = [Up (Send [1, 2, 3]), Up Shut, Up (First (CopyOK 1)), Down (Send [9]), Up (Second (CopyOK 0)), Up (First (CopyOK 9)),
       Up (First (CopyOK 0)), Up (Second (CopyOK 9)), Up (Second (CopyOK 9)), Down (First (CopyOK 0)), Down (Second (CopyOK 0)), Up (Second (CopyOK 9))];
     f = flow_run evs in
   pi_eof (pt_c (fl_up f)) \<and> pi_buf (pt_c (fl_up f)) = pt_sent (fl_up f) \<and> pi_buf (pt_c (fl_down f)) = [9]"
  using tcp_flow_exact [of "fl_up (flow_run [Up (Send [1, 2, 3]), Up Shut, Up (First (CopyOK 1)), Down (Send [9]),
       Up (Second (CopyOK 0)), Up (First (CopyOK 9)), Up (First (CopyOK 0)), Up (Second (CopyOK 9)), Up (Second (CopyOK 9)),
       Down (First (CopyOK 0)), Down (Second (CopyOK 0)), Up (Second (CopyOK 9))])"]
  by (simp add: flow_run_def flow_step_def path_step_def copy_step_def cut_off_def new_tcp_flow_def new_path_def
      helper_done_def client_done_def flow_faulty_def faulty_def Let_def)

section \<open>Everything arrives\<close>

text \<open>Without failures the directions do not disturb each other: each is a run of its own events.\<close>

fun ups :: "flow_event list \<Rightarrow> path_event list" where
  "ups [] = []"
| "ups (Up x # evs) = x # ups evs"
| "ups (Down x # evs) = ups evs"

fun downs :: "flow_event list \<Rightarrow> path_event list" where
  "downs [] = []"
| "downs (Up x # evs) = downs evs"
| "downs (Down x # evs) = x # downs evs"

lemma ups_append [simp]: "ups (xs @ ys) = ups xs @ ups ys"
  by (induction xs rule: ups.induct) simp_all

lemma downs_append [simp]: "downs (xs @ ys) = downs xs @ downs ys"
  by (induction xs rule: downs.induct) simp_all

lemma flow_directions:
  "list_all (\<lambda>ev. \<not> flow_faulty ev) evs \<Longrightarrow>
     fl_up (flow_run evs) = fold path_step (ups evs) new_path \<and> fl_down (flow_run evs) = fold path_step (downs evs) new_path"
proof (induction evs rule: rev_induct)
  case (snoc ev evs)
  let ?f = "flow_run evs"
  have IH: "path_clean (fl_up ?f)" "path_clean (fl_down ?f)" using snoc.prems flow_clean [of evs] by simp_all
  have g: "helper_done ?f \<Longrightarrow> \<not> pt_run2 (fl_up ?f)" "client_done ?f \<Longrightarrow> \<not> pt_run2 (fl_down ?f)"
    by (simp_all add: helper_done_def client_done_def)
  show ?case using snoc cut_off_live [OF IH(1) g(1)] cut_off_live [OF IH(2) g(2)]
    by (cases ev) (simp_all add: flow_run_def flow_step_def)
qed (simp add: flow_run_def new_tcp_flow_def)

text \<open>What a copy loop has left to do: a byte at least or the end of the stream with every iteration.\<close>

definition work1 :: "path \<Rightarrow> nat" where
  "work1 p = length (pi_buf (pt_a p)) + of_bool (pt_run1 p)"

definition work2 :: "path \<Rightarrow> nat" where
  "work2 p = length (pi_buf (pt_b p)) + of_bool (pt_run2 p)"

definition firsts :: "path_event list \<Rightarrow> nat" where
  "firsts evs = length (filter (\<lambda>ev. case ev of First _ \<Rightarrow> True | _ \<Rightarrow> False) evs)"

definition seconds :: "path_event list \<Rightarrow> nat" where
  "seconds evs = length (filter (\<lambda>ev. case ev of Second _ \<Rightarrow> True | _ \<Rightarrow> False) evs)"

lemma drop_shorter: "xs \<noteq> [] \<Longrightarrow> Suc (length xs - Suc n) \<le> length xs"
  by (cases xs) simp_all

lemma work1_step:
  assumes "path_clean p" "pi_eof (pt_a p)" "\<not> faulty ev"
  shows "work1 (path_step ev p) \<le> work1 p - firsts [ev]" "pt_sent (path_step ev p) = pt_sent p" "pi_eof (pt_a (path_step ev p))"
  using assms
  by (auto simp: work1_def firsts_def path_step_def copy_step_def path_clean_def faulty_def drop_shorter split: path_event.splits copy_event.splits if_splits)

lemma work2_step:
  assumes "path_clean p" "\<not> pt_run1 p" "\<not> faulty ev"
  shows "work2 (path_step ev p) \<le> work2 p - seconds [ev]" "\<not> pt_run1 (path_step ev p)"
  using assms
  by (auto simp: work2_def seconds_def path_step_def copy_step_def path_clean_def faulty_def drop_shorter split: path_event.splits copy_event.splits if_splits)

lemma path_clean_fold: "list_all (\<lambda>ev. \<not> faulty ev) evs \<Longrightarrow> path_clean p \<Longrightarrow> path_clean (fold path_step evs p)"
  by (induction evs arbitrary: p) (simp_all add: path_clean_step)

lemma work1_fold:
  assumes "list_all (\<lambda>ev. \<not> faulty ev) evs" "path_clean p" "pi_eof (pt_a p)"
  shows "work1 (fold path_step evs p) \<le> work1 p - firsts evs \<and> pt_sent (fold path_step evs p) = pt_sent p
    \<and> pi_eof (pt_a (fold path_step evs p))"
  using assms
proof (induction evs arbitrary: p)
  case (Cons ev evs)
  have s: "firsts (ev # evs) = firsts [ev] + firsts evs" by (simp add: firsts_def)
  show ?case using Cons.IH [of "path_step ev p"] Cons.prems work1_step [of p ev] path_clean_step [of p ev] by (auto simp: s)
qed (simp add: firsts_def)

lemma work2_fold:
  assumes "list_all (\<lambda>ev. \<not> faulty ev) evs" "path_clean p" "\<not> pt_run1 p"
  shows "work2 (fold path_step evs p) \<le> work2 p - seconds evs"
  using assms
proof (induction evs arbitrary: p)
  case (Cons ev evs)
  have s: "seconds (ev # evs) = seconds [ev] + seconds evs" by (simp add: seconds_def)
  show ?case using Cons.IH [of "path_step ev p"] Cons.prems work2_step [of p ev] path_clean_step [of p ev] by (auto simp: s)
qed (simp add: seconds_def)

lemma clean_lengths:
  assumes "path_clean p"
  shows "work1 p \<le> Suc (length (pt_sent p))" "work2 p \<le> Suc (length (pt_sent p))"
proof -
  have "length (pi_buf (pt_c p)) + (length (pi_buf (pt_b p)) + length (pi_buf (pt_a p))) = length (pt_sent p)"
    using assms unfolding path_clean_def by (metis length_append)
  then show "work1 p \<le> Suc (length (pt_sent p))" "work2 p \<le> Suc (length (pt_sent p))"
    by (simp_all add: work1_def work2_def)
qed

lemma path_drains:
  assumes "list_all (\<lambda>ev. \<not> faulty ev) (xs @ ys)" "path_clean p" "pi_eof (pt_a p)"
    and "length (pt_sent p) < firsts xs" "length (pt_sent p) < seconds ys"
  shows "pi_buf (pt_c (fold path_step (xs @ ys) p)) = pt_sent p \<and> pi_eof (pt_c (fold path_step (xs @ ys) p))"
proof -
  let ?q = "fold path_step xs p" and ?r = "fold path_step (xs @ ys) p"
  have q: "path_clean ?q" "work1 ?q = 0" "pt_sent ?q = pt_sent p" "pi_eof (pt_a ?q)"
    using assms work1_fold [of xs p] path_clean_fold [of xs p] clean_lengths [of p] by auto
  then have "\<not> pt_run1 ?q" by (simp add: work1_def)
  then have "work2 ?r = 0" "path_clean ?r" "pt_sent ?r = pt_sent p"
    using assms q work2_fold [of ys ?q] path_clean_fold [of ys ?q] clean_lengths [of ?q] work1_fold [of ys ?q] by auto
  then show ?thesis by (auto simp: work2_def path_clean_def)
qed

lemma ups_clean: "list_all (\<lambda>ev. \<not> flow_faulty ev) evs \<Longrightarrow> list_all (\<lambda>ev. \<not> faulty ev) (ups evs) \<and> list_all (\<lambda>ev. \<not> faulty ev) (downs evs)"
  by (induction evs rule: ups.induct) (simp_all add: flow_faulty_def)

text \<open>
  C33: a connection comes to its end. Once the client's application closed its side, everything it wrote
  reaches the destination, followed by the end of the stream, as soon as the client's loop and
  then the helper's loop have had one iteration more than there are bytes, whatever the other direction
  and the other goroutines do in between, as long as no read or write fails.
\<close>

theorem tcp_flow_drains:
  assumes "list_all (\<lambda>ev. \<not> flow_faulty ev) (evs @ xs @ ys)"
    and "p = fl_up (flow_run evs)" "pi_eof (pt_a p)"
    and "length (pt_sent p) < firsts (ups xs)" "length (pt_sent p) < seconds (ups ys)"
  shows "pi_buf (pt_c (fl_up (flow_run (evs @ xs @ ys)))) = pt_sent p \<and> pi_eof (pt_c (fl_up (flow_run (evs @ xs @ ys))))"
proof -
  have "p = fold path_step (ups evs) new_path" "path_clean p" using assms flow_directions [of evs] flow_clean [of evs] by simp_all
  moreover have "fl_up (flow_run (evs @ xs @ ys)) = fold path_step (ups xs @ ups ys) (fold path_step (ups evs) new_path)"
    using assms(1) flow_directions [of "evs @ xs @ ys"] by simp
  ultimately show ?thesis using path_drains [of "ups xs" "ups ys" p] assms ups_clean [of "xs @ ys"] by simp
qed

theorem tcp_flow_drains_witness:
  "let f = flow_run ([Up (Send [7, 8]), Up Shut]
       @ [Up (First (CopyOK 0)), Down (Send [9]), Up (First (CopyOK 0)), Up (First (CopyOK 0))]
       @ [Up (Second (CopyOK 0)), Up (Second (CopyOK 0)), Down (First (CopyOK 3)), Up (Second (CopyOK 0))]) in
   pi_buf (pt_c (fl_up f)) = [7, 8] \<and> pi_eof (pt_c (fl_up f))"
  using tcp_flow_drains [of "[Up (Send [7, 8]), Up Shut]"
       "[Up (First (CopyOK 0)), Down (Send [9]), Up (First (CopyOK 0)), Up (First (CopyOK 0))]"
       "[Up (Second (CopyOK 0)), Up (Second (CopyOK 0)), Down (First (CopyOK 3)), Up (Second (CopyOK 0))]"
       "fl_up (flow_run [Up (Send [7, 8]), Up Shut])"]
  by (simp add: flow_run_def flow_step_def path_step_def copy_step_def cut_off_def new_tcp_flow_def new_path_def
      helper_done_def client_done_def flow_faulty_def faulty_def firsts_def seconds_def Let_def)

end
