(* ===== verification/Udp_Flow.thy ===== *)
theory Udp_Flow
  imports Dataplane Mux_Client
begin

text \<open>
  A UDP flow through the session: \<open>relayUDP\<close> of \<open>internal/dataplane/netstack.go\<close> at the client, with its two
  goroutines as steps in any order, and its composition with the helper's relay of \<open>Relay\<close> over the
  bytes of the stream. A write that fails leaves nothing on the stream: the transport is gone.
\<close>

section \<open>The client's relay\<close>

text \<open>
  \<open>datagramReader.read\<close>: the hop count of a datagram is the TTL or the hop limit of its control messages,
  or the default.
\<close>

definition datagram_ttl :: "byte option \<Rightarrow> byte option \<Rightarrow> byte" where
  "datagram_ttl ttl hop = (case ttl of Some x \<Rightarrow> x | None \<Rightarrow> (case hop of Some x \<Rightarrow> x | None \<Rightarrow> defaultTTL))"

record client_udp =
  cu_sending :: bool
  cu_receiving :: bool
  cu_done :: bool
  cu_closed :: bool
  cu_lastLen :: nat
  cu_out :: "bytes list"
  cu_delivered :: "bytes list"
  cu_packets :: "bytes list"

text \<open>
  The steps: the sender reads a datagram, whose write to the stream may fail, or none, on the idle timeout, on
  \<open>done\<close> or when the endpoint closed; the receiver reads a frame, whose write to the endpoint may
  fail, or the end of the stream; \<open>relayUDP\<close> returns and closes the endpoint and the stream.
\<close>

datatype client_udp_step =
    Captured bytes "byte option" "byte option" bool
  | NoDatagram
  | ReplyFrame bytes bool
  | ReplyEnds
  | RelayReturns

definition new_client_udp :: client_udp where
  "new_client_udp = \<lparr>cu_sending = True, cu_receiving = True, cu_done = False, cu_closed = False, cu_lastLen = 0,
     cu_out = [], cu_delivered = [], cu_packets = []\<rparr>"

fun client_udp_do :: "hdr_lib \<Rightarrow> addr_port \<Rightarrow> addr_port \<Rightarrow> client_udp_step \<Rightarrow> client_udp \<Rightarrow> client_udp" where
  "client_udp_do h src dst (Captured payload ttl hop ok) u =
     (if \<not> cu_sending u then u
      else let u1 = u\<lparr>cu_lastLen := length payload\<rparr> in
        case WriteDatagram (datagram_ttl ttl hop) payload of
          Inl _ \<Rightarrow> u1\<lparr>cu_sending := False, cu_done := True\<rparr>
        | Inr b \<Rightarrow> if cu_closed u \<or> \<not> ok then u1\<lparr>cu_sending := False, cu_done := True\<rparr> else u1\<lparr>cu_out := cu_out u @ [b]\<rparr>)"
| "client_udp_do h src dst NoDatagram u =
     (if \<not> cu_sending u then u else u\<lparr>cu_sending := False, cu_done := True\<rparr>)"
| "client_udp_do h src dst (ReplyFrame frame ok) u =
     (if \<not> cu_receiving u then u
      else case decodeUDPReply frame of
        Inl _ \<Rightarrow> u\<lparr>cu_receiving := False, cu_done := True\<rparr>
      | Inr reply \<Rightarrow>
          (case ur_Error reply of
             Some e \<Rightarrow> u\<lparr>cu_packets := cu_packets u @ writeUDPError h e src dst (cu_lastLen u)\<rparr>
           | None \<Rightarrow>
               if cu_closed u \<or> \<not> ok then u\<lparr>cu_receiving := False, cu_done := True\<rparr>
               else u\<lparr>cu_delivered := cu_delivered u @ [ur_Payload reply]\<rparr>))"
| "client_udp_do h src dst ReplyEnds u =
     (if \<not> cu_receiving u then u else u\<lparr>cu_receiving := False, cu_done := True\<rparr>)"
| "client_udp_do h src dst RelayReturns u = (if cu_done u then u\<lparr>cu_closed := True\<rparr> else u)"

definition client_relayUDP :: "hdr_lib \<Rightarrow> addr_port \<Rightarrow> addr_port \<Rightarrow> client_udp_step list \<Rightarrow> client_udp" where
  "client_relayUDP h src dst steps = fold (client_udp_do h src dst) steps new_client_udp"

section \<open>One direction at a time\<close>

fun captured :: "client_udp_step \<Rightarrow> (byte \<times> bytes) option" where
  "captured (Captured payload ttl hop ok) = Some (datagram_ttl ttl hop, payload)"
| "captured _ = None"

fun reply_frame :: "client_udp_step \<Rightarrow> bytes option" where
  "reply_frame (ReplyFrame f ok) = Some f"
| "reply_frame _ = None"

fun request_frame :: "udp_step \<Rightarrow> bytes option" where
  "request_frame (UdpRequest t f ok a) = Some f"
| "request_frame _ = None"

fun received :: "udp_step \<Rightarrow> bytes option" where
  "received (UdpData t p) = Some p"
| "received _ = None"

text \<open>The datagram in a reply frame, if it is one.\<close>

definition frame_data :: "bytes \<Rightarrow> bytes option" where
  "frame_data f = (case decodeUDPReply f of Inl _ \<Rightarrow> None | Inr r \<Rightarrow> if ur_Error r = None then Some (ur_Payload r) else None)"

lemma frame_data_simps:
  "decodeUDPReply f = Inl e \<Longrightarrow> frame_data f = None"
  "decodeUDPReply f = Inr r \<Longrightarrow> frame_data f = (if ur_Error r = None then Some (ur_Payload r) else None)"
  by (simp_all add: frame_data_def)

lemma map_filter_Nil [simp]: "List.map_filter f [] = []"
  by (simp add: List.map_filter_def)

lemma map_filter_snoc [simp]:
  "List.map_filter f (xs @ [x]) = List.map_filter f xs @ (case f x of None \<Rightarrow> [] | Some y \<Rightarrow> [y])"
  by (simp add: List.map_filter_def split: option.split)

declare map_filter_append [simp]

lemma map_filter_prefix: "prefix xs ys \<Longrightarrow> prefix (List.map_filter f xs) (List.map_filter f ys)"
  by (auto simp: prefix_def)

text \<open>What the sender puts on the stream: the datagrams in order, all of them while it runs.\<close>

lemma client_out:
  "\<exists>ps. prefix ps (List.map_filter captured steps) \<and> (\<forall>(t, p) \<in> set ps. length (encodeUDPRequest t p) \<le> maxUDPFrame)
     \<and> cu_out (client_relayUDP h src dst steps) = map (\<lambda>(t, p). frame_bytes (encodeUDPRequest t p)) ps
     \<and> (cu_sending (client_relayUDP h src dst steps) \<longrightarrow> ps = List.map_filter captured steps)"
proof (induction steps rule: rev_induct)
  case Nil
  then show ?case by (simp add: client_relayUDP_def new_client_udp_def map_filter_simps)
next
  case (snoc s steps)
  let ?u = "client_relayUDP h src dst steps"
  obtain ps where ps: "prefix ps (List.map_filter captured steps)" "\<forall>(t, p) \<in> set ps. length (encodeUDPRequest t p) \<le> maxUDPFrame"
    "cu_out ?u = map (\<lambda>(t, p). frame_bytes (encodeUDPRequest t p)) ps" "cu_sending ?u \<longrightarrow> ps = List.map_filter captured steps"
    using snoc by blast
  have step: "client_relayUDP h src dst (steps @ [s]) = client_udp_do h src dst s ?u" by (simp add: client_relayUDP_def)
  have p': "prefix ps (List.map_filter captured (steps @ [s]))" using ps(1) by (simp add: prefix_prefix)
  show ?case
  proof (cases "\<exists>payload ttl hop ok. s = Captured payload ttl hop ok \<and> cu_sending ?u
      \<and> length (encodeUDPRequest (datagram_ttl ttl hop) payload) \<le> maxUDPFrame \<and> \<not> cu_closed ?u \<and> ok")
    case True
    then obtain payload ttl hop where s: "s = Captured payload ttl hop True" "cu_sending ?u" "\<not> cu_closed ?u"
      "length (encodeUDPRequest (datagram_ttl ttl hop) payload) \<le> maxUDPFrame" by blast
    then show ?thesis using ps unfolding step
      by (intro exI [of _ "ps @ [(datagram_ttl ttl hop, payload)]"])
        (auto simp: WriteDatagram_def writeFrame_def frame_bytes_def Let_def)
  next
    case False
    then have "cu_out (client_udp_do h src dst s ?u) = cu_out ?u
      \<and> (cu_sending (client_udp_do h src dst s ?u) \<longrightarrow> cu_sending ?u \<and> captured s = None)"
      by (cases s) (auto simp: WriteDatagram_def writeFrame_def Let_def split: sum.splits option.splits if_splits)
    then show ?thesis using ps p' unfolding step by (intro exI [of _ ps]) auto
  qed
qed

text \<open>What the receiver gives the application: the datagrams of the frames in order, all of them while it runs.\<close>

lemma client_delivered:
  "prefix (cu_delivered (client_relayUDP h src dst steps)) (List.map_filter frame_data (List.map_filter reply_frame steps))
   \<and> (cu_receiving (client_relayUDP h src dst steps) \<longrightarrow>
        cu_delivered (client_relayUDP h src dst steps) = List.map_filter frame_data (List.map_filter reply_frame steps))"
proof (induction steps rule: rev_induct)
  case Nil
  then show ?case by (simp add: client_relayUDP_def new_client_udp_def map_filter_simps)
next
  case (snoc s steps)
  let ?u = "client_relayUDP h src dst steps"
  have step: "client_relayUDP h src dst (steps @ [x]) = client_udp_do h src dst x ?u" for x by (simp add: client_relayUDP_def)
  show ?case
  proof (cases s)
    case (ReplyFrame f ok)
    then show ?thesis using snoc unfolding step
      by (cases "decodeUDPReply f") (auto simp: frame_data_simps map_filter_simps prefix_prefix split: option.splits)
  qed (use snoc in \<open>auto simp: step WriteDatagram_def Let_def prefix_prefix split: sum.splits option.splits\<close>)
qed

text \<open>What the helper writes: the datagrams it received among its frames, in order.\<close>

lemma error_frames: "List.map_filter frame_data (map encodeUDPError (icmpErrorsFor q v6 err)) = []"
proof -
  have "frame_data f = None" if "f \<in> set (map encodeUDPError (icmpErrorsFor q v6 err))" for f
    using that drainErrQueue_from by (auto simp: icmpErrorsFor_def frame_data_def decode_udp_error split: if_splits)
  then show ?thesis by (auto simp: List.map_filter_def filter_empty_conv)
qed

lemma error_subset: "set gs \<subseteq> set (map encodeUDPError (icmpErrorsFor q v6 err)) \<Longrightarrow> List.map_filter frame_data gs = []"
  using error_frames [of q v6 err] unfolding List.map_filter_def by (auto simp: filter_empty_conv)

lemma write_errors_effect:
  "\<exists>b gs. writeErrors (icmpErrorsFor q v6 err) r = r\<lparr>up_open := b, up_out := up_out r @ map frame_bytes gs\<rparr> \<and> (b \<longrightarrow> up_open r)
     \<and> (\<forall>g \<in> set gs. length g \<le> maxUDPFrame) \<and> List.map_filter frame_data gs = []"
proof -
  obtain b gs where "writeErrors (icmpErrorsFor q v6 err) r = r\<lparr>up_open := b, up_out := up_out r @ map frame_bytes gs\<rparr>" "b \<longrightarrow> up_open r"
    "set gs \<subseteq> {f \<in> set (map encodeUDPError (icmpErrorsFor q v6 err)). length f \<le> maxUDPFrame}"
    using udp_write_effect [of "map encodeUDPError (icmpErrorsFor q v6 err)" r] unfolding writeErrors_def by blast
  moreover from this(3) have "List.map_filter frame_data gs = []" by (intro error_subset) blast
  ultimately show ?thesis by blast
qed

definition helper_law :: "udp_step \<Rightarrow> udp_relay \<Rightarrow> udp_relay \<Rightarrow> bool" where
  "helper_law s r r' \<longleftrightarrow> (\<exists>fs. up_out r' = up_out r @ map frame_bytes fs \<and> (\<forall>f \<in> set fs. length f \<le> maxUDPFrame)
    \<and> prefix (List.map_filter frame_data fs) (case received s of None \<Rightarrow> [] | Some p \<Rightarrow> [p])
    \<and> (fs \<noteq> [] \<longrightarrow> up_open r)
    \<and> (up_open r' \<longrightarrow> up_open r \<and> List.map_filter frame_data fs = (case received s of None \<Rightarrow> [] | Some p \<Rightarrow> [p])))"

lemma helper_quiet:
  assumes "up_out r' = up_out r" "up_open r' \<longrightarrow> up_open r \<and> received s = None"
  shows "helper_law s r r'"
  unfolding helper_law_def using assms by (intro exI [of _ "[]"]) (auto simp: map_filter_simps)

lemma helper_errors:
  assumes "up_out r1 = up_out r" "up_open r1 = up_open r" "up_open r" "received s = None"
  shows "helper_law s r (writeErrors (icmpErrorsFor q v6 err) r1)"
proof -
  obtain b gs where w: "writeErrors (icmpErrorsFor q v6 err) r1 = r1\<lparr>up_open := b, up_out := up_out r1 @ map frame_bytes gs\<rparr>"
    "b \<longrightarrow> up_open r1" "\<forall>g \<in> set gs. length g \<le> maxUDPFrame" "List.map_filter frame_data gs = []"
    using write_errors_effect by blast
  show ?thesis unfolding helper_law_def using w assms by (intro exI [of _ gs]) auto
qed

lemma helper_step: "helper_law s r (udp_do idle s r)"
proof (cases "up_open r")
  case True
  show ?thesis
  proof (cases s)
    case (UdpRequest t frame ok answer)
    show ?thesis
    proof (cases "decodeUDPRequest frame")
      case (Inl e)
      then show ?thesis using True UdpRequest by (auto intro: helper_quiet)
    next
      case (Inr x)
      obtain hops payload where x: "x = (hops, payload)" by (cases x)
      show ?thesis
      proof (cases answer)
        case WriteOK
        then show ?thesis using True UdpRequest Inr x by (auto simp: Let_def intro: helper_quiet)
      next
        case (WriteErr err q)
        then show ?thesis using True UdpRequest Inr x
          by (cases "icmpErrorsFor q (up_v6 r) err = []") (simp_all add: Let_def helper_quiet helper_errors)
      qed
    qed
  next
    case (UdpData t p)
    show ?thesis
    proof (cases "length (encodeUDPData p) \<le> maxUDPFrame")
      case fit: True
      have "frame_data (encodeUDPData p) = Some p" by (simp add: frame_data_def udp_data_roundtrip)
      then show ?thesis unfolding helper_law_def using UdpData True fit
        by (intro exI [of _ "[encodeUDPData p]"]) (auto simp: udp_write_def writeFrame_def frame_bytes_def map_filter_simps)
    next
      case False
      then show ?thesis using UdpData True by (intro helper_quiet) (simp_all add: udp_write_def writeFrame_def)
    qed
  next
    case (UdpReadErr t err q)
    then show ?thesis using True
      by (cases "icmpErrorsFor q (up_v6 r) err = []") (simp_all add: Let_def helper_quiet helper_errors)
  qed (use True in \<open>auto intro: helper_quiet\<close>)
next
  case False
  then show ?thesis by (intro helper_quiet) (cases s; simp)+
qed

lemma helper_out:
  shows "\<exists>gs. up_out (udp_relay_run idle steps r) = up_out r @ map frame_bytes gs \<and> (\<forall>g \<in> set gs. length g \<le> maxUDPFrame)
    \<and> prefix (List.map_filter frame_data gs) (List.map_filter received steps)
    \<and> (up_open (udp_relay_run idle steps r) \<longrightarrow> List.map_filter frame_data gs = List.map_filter received steps)"
proof (induction steps rule: rev_induct)
  case Nil
  then show ?case by (intro exI [of _ "[]"]) (simp add: udp_relay_run_def map_filter_simps)
next
  case (snoc s steps)
  let ?u = "udp_relay_run idle steps r"
  have step: "udp_relay_run idle (steps @ [s]) r = udp_do idle s ?u" by (simp add: udp_relay_run_def)
  obtain gs where gs: "up_out ?u = up_out r @ map frame_bytes gs" "\<forall>g \<in> set gs. length g \<le> maxUDPFrame"
    "prefix (List.map_filter frame_data gs) (List.map_filter received steps)" 
    "up_open ?u \<longrightarrow> List.map_filter frame_data gs = List.map_filter received steps" using snoc by blast
  have "helper_law s ?u (udp_do idle s ?u)" by (rule helper_step)
  then obtain fs where fs: "up_out (udp_do idle s ?u) = up_out ?u @ map frame_bytes fs" "\<forall>f \<in> set fs. length f \<le> maxUDPFrame"
    "prefix (List.map_filter frame_data fs) (case received s of None \<Rightarrow> [] | Some p \<Rightarrow> [p])"
    "fs \<noteq> [] \<longrightarrow> up_open ?u"
    "up_open (udp_do idle s ?u) \<longrightarrow> up_open ?u \<and> List.map_filter frame_data fs = (case received s of None \<Rightarrow> [] | Some p \<Rightarrow> [p])" unfolding helper_law_def by blast
  have p: "prefix (List.map_filter frame_data (gs @ fs)) (List.map_filter received (steps @ [s]))"
  proof (cases "fs = []")
    case True
    then show ?thesis using gs(3) by (simp add: map_filter_simps prefix_prefix)
  next
    case False
    then show ?thesis using gs(4) fs(3,4) by (simp add: map_filter_simps split: option.splits)
  qed
  show ?case unfolding step using gs fs p by (intro exI [of _ "gs @ fs"]; cases "received s") auto
qed

section \<open>Both ends\<close>

lemma frames_read:
  assumes "read_n readFrame n (concat (map frame_bytes gs)) = Inr (fs, rest)" "\<forall>g \<in> set gs. length g \<le> maxUDPFrame"
  shows "\<exists>hs. gs = fs @ hs \<and> rest = concat (map frame_bytes hs)"
  using assms
proof (induction n arbitrary: gs fs)
  case (Suc n)
  show ?case
  proof (cases gs)
    case Nil
    then show ?thesis using Suc.prems(1) by (simp add: readFrame_def ReadFull_def)
  next
    case (Cons g gs')
    then have "readFrame (concat (map frame_bytes gs)) = Inr (g, concat (map frame_bytes gs'))"
      using Suc.prems(2) readFrame_frame_bytes [of g] by simp
    then obtain fs' where "read_n readFrame n (concat (map frame_bytes gs')) = Inr (fs', rest)" "fs = g # fs'"
      using Suc.prems(1) by (auto split: sum.splits)
    then show ?thesis using Suc.IH [of gs' fs'] Suc.prems(2) Cons by auto
  qed
qed simp

definition sets_ttl :: "udp_step list \<Rightarrow> bool" where
  "sets_ttl = list_all (\<lambda>s. case s of UdpRequest t f ok a \<Rightarrow> ok | _ \<Rightarrow> True)"

lemma requests_of_frames:
  assumes "List.map_filter request_frame hs = map (\<lambda>(t, p). encodeUDPRequest t p) ps"
  shows "list_all2 (\<lambda>(t, p) (t', p', ok). t' = t \<and> p' = p \<and> (sets_ttl hs \<longrightarrow> ok)) ps (List.map_filter udp_request hs)"
  using assms
proof (induction hs arbitrary: ps)
  case (Cons s hs)
  show ?case
  proof (cases s)
    case (UdpRequest t f ok a)
    then obtain q ps' where ps: "ps = q # ps'" "f = encodeUDPRequest (fst q) (snd q)"
      "List.map_filter request_frame hs = map (\<lambda>(t, p). encodeUDPRequest t p) ps'"
      using Cons.prems by (cases ps) (auto simp: map_filter_simps)
    have "udp_request s = Some (fst q, snd q, ok)" using UdpRequest ps(2) by (simp add: udp_request_def udp_request_roundtrip split_beta)
    then show ?thesis using Cons.IH [OF ps(3)] ps(1) UdpRequest
      by (auto simp: map_filter_simps sets_ttl_def split_beta elim!: list_all2_mono)
  qed (use Cons in \<open>auto simp: map_filter_simps sets_ttl_def udp_request_def split_beta elim!: list_all2_mono\<close>)
qed (simp add: map_filter_simps)

lemma list_all2_prefix:
  assumes "list_all2 P xs ys" "prefix zs ys"
  shows "\<exists>ws. prefix ws xs \<and> list_all2 P ws zs \<and> (zs = ys \<longrightarrow> ws = xs)"
proof -
  obtain us where us: "ys = zs @ us" using assms(2) by (auto simp: prefix_def)
  then obtain ws vs where "xs = ws @ vs" "list_all2 P ws zs" "length ws = length zs" "length vs = length us"
    using assms(1) by (auto simp: list_all2_append2)
  then show ?thesis using us by (intro exI [of _ ws]) auto
qed

text \<open>
  C22: a UDP flow through the session. Take any interleaving of the client's goroutines and any of the helper's, where each side
  reads frames off the bytes that the other wrote. What leaves the helper's socket is datagrams
  of the application, in order and unchanged, none skipped, with the application's TTL where the kernel takes it; and it is all
  of them when both relays run and the stream is drained. What the application gets is datagrams that the
  helper received, in order and unchanged, none skipped.
\<close>

theorem udp_end_to_end:
  assumes u: "u = client_relayUDP h src dst csteps" and r: "r = udp_relay_run idle hsteps (newUdpRelay idle ttl0 t v6)"
    and up: "read_n readFrame n (concat (cu_out u)) = Inr (List.map_filter request_frame hsteps, rest)"
    and down: "read_n readFrame m (concat (up_out r)) = Inr (List.map_filter reply_frame csteps, rest')"
  shows "(\<exists>qs. prefix qs (List.map_filter captured csteps)
      \<and> list_all2 (\<lambda>(hops, payload) x. snd x = payload \<and> (sets_ttl hsteps \<and> hops \<noteq> 0 \<longrightarrow> fst x = uint hops)) qs (up_sent r)
      \<and> (cu_sending u \<and> up_open r \<and> rest = [] \<longrightarrow> qs = List.map_filter captured csteps))
    \<and> prefix (cu_delivered u) (List.map_filter received hsteps)"
proof
  let ?enc = "\<lambda>(t, p). encodeUDPRequest t p"
  obtain ps where ps: "prefix ps (List.map_filter captured csteps)" "\<forall>(t, p) \<in> set ps. length (encodeUDPRequest t p) \<le> maxUDPFrame"
    and out: "cu_out u = map (\<lambda>(t, p). frame_bytes (encodeUDPRequest t p)) ps"
    and all_sent: "cu_sending u \<longrightarrow> ps = List.map_filter captured csteps"
    using client_out [of csteps h src dst] unfolding u by blast
  have bytes: "cu_out u = map frame_bytes (map ?enc ps)" by (simp add: out comp_def split_beta)
  obtain hs where hs: "map ?enc ps = List.map_filter request_frame hsteps @ hs" "rest = concat (map frame_bytes hs)"
    using frames_read [OF up [unfolded bytes]] ps(2) by (auto simp: split_beta)
  define ps1 where "ps1 = take (length (List.map_filter request_frame hsteps)) ps"
  have len: "length ps = length (List.map_filter request_frame hsteps) + length hs" using arg_cong [OF hs(1), of length] by simp
  have ps1: "List.map_filter request_frame hsteps = map ?enc ps1" "prefix ps1 ps" "hs = [] \<longrightarrow> ps1 = ps"
    using hs(1) len unfolding ps1_def take_map [symmetric] by (simp_all add: take_is_prefix)
  have r0: "udp_inv (newUdpRelay idle ttl0 t v6)" "up_sent (newUdpRelay idle ttl0 t v6) = []"
    by (simp_all add: newUdpRelay_def udp_inv_def ttl_known_def)
  obtain zs where zs: "prefix zs (List.map_filter udp_request hsteps)" "list_all2 udp_matches zs (up_sent r)"
    "up_open r \<longrightarrow> zs = List.map_filter udp_request hsteps"
    using udp.run_sent [OF r0(1), where ss = hsteps and idle = idle] r0(2) unfolding r udp_relay_run_def by auto
  obtain qs where qs: "prefix qs ps1" "list_all2 (\<lambda>(t, p) (t', p', ok). t' = t \<and> p' = p \<and> (sets_ttl hsteps \<longrightarrow> ok)) qs zs"
    "zs = List.map_filter udp_request hsteps \<longrightarrow> qs = ps1"
    using list_all2_prefix [OF requests_of_frames [OF ps1(1)] zs(1)] by blast
  have m: "list_all2 (\<lambda>(hops, payload) x. snd x = payload \<and> (sets_ttl hsteps \<and> hops \<noteq> 0 \<longrightarrow> fst x = uint hops)) qs (up_sent r)"
    by (rule list_all2_trans [OF _ qs(2) zs(2)]) (auto simp: udp_matches_def)
  have "frame_bytes g \<noteq> []" for g using length_be16 unfolding frame_bytes_def by (metis append_is_Nil_conv list.size(3) zero_neq_numeral)
  then have e: "hs = [] \<longleftrightarrow> rest = []" unfolding hs(2) by (cases hs) auto
  have pq: "prefix qs (List.map_filter captured csteps)" using qs(1) ps1(2) ps(1) prefix_order.trans by blast
  have all: "qs = List.map_filter captured csteps" if "cu_sending u \<and> up_open r \<and> rest = []"
    using that qs(3) zs(3) ps1(3) all_sent e by simp
  show "\<exists>qs. prefix qs (List.map_filter captured csteps)
      \<and> list_all2 (\<lambda>(hops, payload) x. snd x = payload \<and> (sets_ttl hsteps \<and> hops \<noteq> 0 \<longrightarrow> fst x = uint hops)) qs (up_sent r)
      \<and> (cu_sending u \<and> up_open r \<and> rest = [] \<longrightarrow> qs = List.map_filter captured csteps)"
    using pq m all by (intro exI [of _ qs]) blast
  obtain gs where gs: "up_out r = map frame_bytes gs" "\<forall>g \<in> set gs. length g \<le> maxUDPFrame"
    "prefix (List.map_filter frame_data gs) (List.map_filter received hsteps)"
    using helper_out [of idle hsteps "newUdpRelay idle ttl0 t v6"] unfolding r by (auto simp: newUdpRelay_def)
  have "prefix (List.map_filter reply_frame csteps) gs" using frames_read [OF down [unfolded gs(1)] gs(2)] by auto
  from map_filter_prefix [OF this] show "prefix (cu_delivered u) (List.map_filter received hsteps)"
    using client_delivered [of h src dst csteps] gs(3) unfolding u by (meson prefix_order.trans)
qed

theorem udp_end_to_end_witness:
  "\<forall>hl. let a = \<lparr>ap_addr = V4 1, ap_port = 7\<rparr>; b = \<lparr>ap_addr = V4 2, ap_port = 9\<rparr>;
       cs = [Captured [4, 2] (Some 5) None True, ReplyFrame (encodeUDPData [8]) True];
       hs = [UdpRequest 0 [5, 4, 2] True WriteOK, UdpData 1 [8]];
       u = client_relayUDP hl a b cs; r = udp_relay_run 60 hs (newUdpRelay 60 64 0 False) in
   up_sent r = [(5, [4, 2])] \<and> prefix (cu_delivered u) [[8]]"
proof
  fix hl
  define a b where "a = \<lparr>ap_addr = V4 1, ap_port = 7\<rparr>" and "b = \<lparr>ap_addr = V4 2, ap_port = 9\<rparr>"
  define cs hs where "cs = [Captured [4, 2] (Some 5) None True, ReplyFrame (encodeUDPData [8]) True]"
    and "hs = [UdpRequest 0 [5, 4, 2] True WriteOK, UdpData 1 [8]]"
  define u r where "u = client_relayUDP hl a b cs" and "r = udp_relay_run 60 hs (newUdpRelay 60 64 0 False)"
  have w: "writeFrame [5, 4, 2] = Inr (frame_bytes [5, 4, 2])" "writeFrame (encodeUDPData [8]) = Inr (frame_bytes (encodeUDPData [8]))"
    by (simp_all add: writeFrame_def frame_bytes_def maxUDPFrame_def encodeUDPData_def)
  have o: "cu_out u = [frame_bytes [5, 4, 2]]" "cu_sending u"
    using w by (simp_all add: u_def cs_def client_relayUDP_def new_client_udp_def WriteDatagram_def encodeUDPRequest_def datagram_ttl_def
        udp_data_roundtrip)
  have p: "up_out r = [frame_bytes (encodeUDPData [8])]" "up_open r"
    using w by (simp_all add: r_def hs_def udp_relay_run_def newUdpRelay_def decodeUDPRequest_def Let_def udp_write_def)
  have f: "readFrame (frame_bytes [5, 4, 2]) = Inr ([5, 4, 2], [])"
      "readFrame (frame_bytes (encodeUDPData [8])) = Inr (encodeUDPData [8], [])"
    using readFrame_frame_bytes [of "[5, 4, 2]" "[]"] readFrame_frame_bytes [of "encodeUDPData [8]" "[]"]
    by (simp_all add: maxUDPFrame_def encodeUDPData_def)
  have up: "read_n readFrame 1 (concat (cu_out u)) = Inr (List.map_filter request_frame hs, [])"
    by (simp add: o f hs_def map_filter_simps)
  have down: "read_n readFrame 1 (concat (up_out r)) = Inr (List.map_filter reply_frame cs, [])"
    by (simp add: p f cs_def map_filter_simps)
  have c: "List.map_filter captured cs = [(5, [4, 2])]" "List.map_filter received hs = [[8]]" "sets_ttl hs"
    by (simp_all add: cs_def hs_def map_filter_simps datagram_ttl_def sets_ttl_def)
  have "\<exists>x. up_sent r = [x] \<and> snd x = [4, 2] \<and> fst x = 5" "prefix (cu_delivered u) [[8]]"
    using udp_end_to_end [OF u_def r_def up down] o(2) p(2) c by (auto simp: list_all2_Cons1)
  then show "let a = \<lparr>ap_addr = V4 1, ap_port = 7\<rparr>; b = \<lparr>ap_addr = V4 2, ap_port = 9\<rparr>;
       cs = [Captured [4, 2] (Some 5) None True, ReplyFrame (encodeUDPData [8]) True];
       hs = [UdpRequest 0 [5, 4, 2] True WriteOK, UdpData 1 [8]];
       u = client_relayUDP hl a b cs; r = udp_relay_run 60 hs (newUdpRelay 60 64 0 False) in
     up_sent r = [(5, [4, 2])] \<and> prefix (cu_delivered u) [[8]]"
    unfolding u_def r_def a_def b_def cs_def hs_def Let_def by auto
qed

end
