(* ===== verification/Quic_Client.thy ===== *)
theory Quic_Client
  imports Mux_Client
begin

text \<open>
  The client side of the QUIC transport, \<open>internal/mux/quic.go\<close>: the dial with the pinned certificate and the probe, the flow
  dials, and the stream with the half-close rule of the flow protocol. The quic-go library is
  represented by the outcomes of its calls.
\<close>

section \<open>Streams\<close>

text \<open>What a \<open>quicStream\<close> did with its two directions.\<close>

record quic_stream =
  qs_sendClosed :: bool
  qs_calls :: "string list"

definition wrapStream :: quic_stream where
  "wrapStream = \<lparr>qs_sendClosed = False, qs_calls = []\<rparr>"

definition quicStream_Close :: "quic_stream \<Rightarrow> quic_stream" where
  "quicStream_Close s =
     (if \<not> qs_sendClosed s then s\<lparr>qs_sendClosed := True, qs_calls := qs_calls s @ [''Close'']\<rparr>
      else s\<lparr>qs_calls := qs_calls s @ [''CancelRead'']\<rparr>)"

definition quicStream_abort :: "quic_stream \<Rightarrow> quic_stream" where
  "quicStream_abort s = s\<lparr>qs_calls := qs_calls s @ [''CancelWrite'', ''CancelRead'']\<rparr>"

definition releaseStream :: "quic_stream \<Rightarrow> quic_stream" where
  "releaseStream s = quicStream_Close (quicStream_Close s)"

section \<open>Flow dials\<close>

text \<open>The result, what was written, and the stream when one was opened.\<close>

type_synonym quic_dial = "(dial_failure + bytes) \<times> bytes \<times> quic_stream option"

definition quic_openStream :: "byte \<Rightarrow> addr_port \<Rightarrow> stream_env \<Rightarrow> quic_dial" where
  "quic_openStream kind dst e =
     (if \<not> so_open e then (Inl NoStream, [], None)
      else if \<not> so_kind e then (Inl StreamWrite, [], Some (quicStream_abort wrapStream))
      else if \<not> so_dest e then (Inl StreamWrite, [kind], Some (quicStream_abort wrapStream))
      else (Inr (so_in e), [kind] @ writeDest dst, Some wrapStream))"

definition quic_DialTCP :: "addr_port \<Rightarrow> stream_env \<Rightarrow> quic_dial" where
  "quic_DialTCP dst e =
     (case quic_openStream 1 dst e of
        (Inl f, out, s) \<Rightarrow> (Inl f, out, s)
      | (Inr r, out, s) \<Rightarrow>
          (case readStatus r of
             Inl err \<Rightarrow> (Inl (StatusRead err), out, map_option quicStream_abort s)
           | Inr (status, r') \<Rightarrow>
               if status \<noteq> statusOK then (Inl (Status (statusError status)), out, map_option quicStream_abort s)
               else (Inr r', out, s)))"

definition quic_DialUDP :: "addr_port \<Rightarrow> stream_env \<Rightarrow> quic_dial" where
  "quic_DialUDP dst e = quic_openStream 2 dst e"

definition quic_DialICMP :: "addr \<Rightarrow> 16 word \<Rightarrow> stream_env \<Rightarrow> quic_dial" where
  "quic_DialICMP dst ident e = quic_openStream 4 \<lparr>ap_addr = dst, ap_port = ident\<rparr> e"

section \<open>The connection\<close>

datatype quic_error = UDPSocket | DialFailed | ApplyFailed | ProbeFailed dial_failure

text \<open>
  \<open>Probe\<close> on a stream: the kind byte and the status of the helper. The stream is aborted in any case.
\<close>

definition Probe :: "stream_env \<Rightarrow> dial_failure option \<times> bytes \<times> quic_stream option" where
  "Probe e =
     (if \<not> so_open e then (Some NoStream, [], None)
      else let s = Some (quicStream_abort wrapStream) in
        if \<not> so_kind e then (Some StreamWrite, [], s)
        else case readStatus (so_in e) of
          Inl err \<Rightarrow> (Some (StatusRead err), [3], s)
        | Inr (status, _) \<Rightarrow> (if status \<noteq> statusOK then Some (Status (statusError status)) else None, [3], s))"

text \<open>
  What the socket, the handshake and the controller answer: \<open>qd_certs\<close> is what the helper presents, which
  the handshake accepts only when it is the pinned certificate.
\<close>

record 'cert quic_env =
  qd_socket :: bool
  qd_handshake :: bool
  qd_certs :: "'cert list"
  qd_apply :: bool
  qd_probe :: stream_env

record quic_state =
  qd_sockets :: nat
  qd_conns :: nat

definition quic_Close :: "quic_state \<Rightarrow> quic_state" where
  "quic_Close s = s\<lparr>qd_conns := qd_conns s - 1, qd_sockets := qd_sockets s - 1\<rparr>"

definition clientVerify :: "('cert \<Rightarrow> string) \<Rightarrow> string \<Rightarrow> 'cert list \<Rightarrow> tls_error option" where
  "clientVerify fp helperFP certs = verifyPinned fp helperFP certs"

definition DialQUIC :: "('cert \<Rightarrow> string) \<Rightarrow> string \<Rightarrow> 'cert quic_env \<Rightarrow> quic_state \<Rightarrow> quic_error option \<times> quic_state" where
  "DialQUIC fp helperFP e s =
     (if \<not> qd_socket e then (Some UDPSocket, s)
      else let s1 = s\<lparr>qd_sockets := qd_sockets s + 1\<rparr> in
        if \<not> qd_handshake e \<or> clientVerify fp helperFP (qd_certs e) \<noteq> None
        then (Some DialFailed, s1\<lparr>qd_sockets := qd_sockets s1 - 1\<rparr>)
        else let s2 = s1\<lparr>qd_conns := qd_conns s1 + 1\<rparr> in
          if \<not> qd_apply e then (Some ApplyFailed, quic_Close s2)
          else case fst (Probe (qd_probe e)) of
            Some f \<Rightarrow> (Some (ProbeFailed f), quic_Close s2)
          | None \<Rightarrow> (None, s2))"

section \<open>The helper's probe\<close>

definition handleProbe :: bytes where
  "handleProbe = [statusOK]"

text \<open>\<open>handleProbe\<close> closes its stream twice, so that both directions end.\<close>

lemma release_ends_both: "qs_calls (releaseStream wrapStream) = [''Close'', ''CancelRead'']"
  by (simp add: releaseStream_def quicStream_Close_def wrapStream_def)

lemma probe_answered:
  assumes "so_open e" "so_kind e"
  shows "Probe (e\<lparr>so_in := handleProbe\<rparr>) = (None, [3], Some (quicStream_abort wrapStream))" "handleFlow [3] = ActProbe" "handle [3] = ActClose"
  using assms by (simp_all add: Probe_def handleProbe_def readStatus_def ReadFull_def handleFlow_def handle_def)

section \<open>The transport\<close>

text \<open>
  Both transports speak the same protocol. Given the same answers of the stream, a dial over QUIC writes the same bytes,
  has the same result and leaves the same bytes to read as a dial over yamux; a stream that failed after it was opened is given up in both
  directions, and one that works is left open.
\<close>

theorem quic_same_flows:
  "(case quic_DialTCP dst e of (res, out, s) \<Rightarrow> case DialTCP dst e of (res', out', closes) \<Rightarrow>
      res = res' \<and> out = out' \<and> s = (if \<not> so_open e then None else Some (if closes = 0 then wrapStream else quicStream_abort wrapStream)))
   \<and> (case quic_DialUDP dst e of (res, out, s) \<Rightarrow> case DialUDP dst e of (res', out', closes) \<Rightarrow>
      res = res' \<and> out = out' \<and> s = (if \<not> so_open e then None else Some (if closes = 0 then wrapStream else quicStream_abort wrapStream)))
   \<and> (case quic_DialICMP a ident e of (res, out, s) \<Rightarrow> case DialICMP a ident e of (res', out', closes) \<Rightarrow>
      res = res' \<and> out = out' \<and> s = (if \<not> so_open e then None else Some (if closes = 0 then wrapStream else quicStream_abort wrapStream)))"
  by (intro conjI)
    (auto simp: quic_DialTCP_def DialTCP_def quic_DialUDP_def DialUDP_def quic_DialICMP_def DialICMP_def
      quic_openStream_def client_openStream_def split: sum.splits)

text \<open>
  C18: a QUIC dial is all or nothing. It succeeds only with a helper that presented the pinned certificate and answered the probe, and
  has then opened one socket and one connection; on every failure it has closed what it opened. The helper
  answers the probe on its QUIC listener only.
\<close>

theorem quic_dial_pinned:
  "case DialQUIC fp helperFP e s of (err, s') \<Rightarrow>
     (err = None \<longleftrightarrow> qd_socket e \<and> qd_handshake e \<and> clientVerify fp helperFP (qd_certs e) = None \<and> qd_apply e \<and> fst (Probe (qd_probe e)) = None)
     \<and> (err = None \<longrightarrow> (\<exists>c cs. qd_certs e = c # cs \<and> fp c = helperFP)
          \<and> (\<exists>r. readStatus (so_in (qd_probe e)) = Inr (statusOK, r))
          \<and> s' = s\<lparr>qd_sockets := qd_sockets s + 1, qd_conns := qd_conns s + 1\<rparr>)
     \<and> (err \<noteq> None \<longrightarrow> s' = s)"
  by (auto simp: DialQUIC_def quic_Close_def clientVerify_def verifyPinned_def Probe_def Let_def
      split: option.splits list.splits if_splits sum.splits)

definition pinned_env :: "string quic_env" where
  "pinned_env = \<lparr>qd_socket = True, qd_handshake = True, qd_certs = [''cert''], qd_apply = True,
     qd_probe = \<lparr>so_open = True, so_kind = True, so_dest = True, so_in = handleProbe\<rparr>\<rparr>"

theorem quic_dial_pinned_witness:
  "DialQUIC (\<lambda>c. ''sha256:'' @ c) ''sha256:cert'' pinned_env \<lparr>qd_sockets = 0, qd_conns = 0\<rparr> = (None, \<lparr>qd_sockets = 1, qd_conns = 1\<rparr>)
   \<and> DialQUIC (\<lambda>c. ''sha256:'' @ c) ''sha256:other'' pinned_env \<lparr>qd_sockets = 0, qd_conns = 0\<rparr> = (Some DialFailed, \<lparr>qd_sockets = 0, qd_conns = 0\<rparr>)"
  using quic_dial_pinned [where fp = "\<lambda>c. ''sha256:'' @ c" and helperFP = "''sha256:cert''" and e = pinned_env and s = "\<lparr>qd_sockets = 0, qd_conns = 0\<rparr>"]
    quic_dial_pinned [where fp = "\<lambda>c. ''sha256:'' @ c" and helperFP = "''sha256:other''" and e = pinned_env and s = "\<lparr>qd_sockets = 0, qd_conns = 0\<rparr>"]
  by (auto simp: DialQUIC_def pinned_env_def clientVerify_def verifyPinned_def Probe_def handleProbe_def readStatus_def ReadFull_def)

end
