(* ===== verification/Spec2Isabelle.thy ===== *)
theory Spec2Isabelle
  imports Session_Props Helper_Server Congestion Dataplane Linux_Dns Linux_Routes Darwin_Routes Connect_Plan Session_Control Mux_Bench Tcp_Relay Udp_Flow Quic_Client
begin

text \<open>
  Verification of tailjump (\<open>tj\<close>), a tool that routes networks through a host of a tailnet.

  \<^bold>\<open>The program.\<close> \<open>tj connect\<close> resolves the remote in the tailnet, reads the remote's manifest and
  discovery result over SSH, computes the networks of the session and writes a plan
  (\<open>internal/cli\<close>, \<open>tailnet\<close>, \<open>manifest\<close>, \<open>discovery\<close>, \<open>config\<close>). The session runner
  (\<open>internal/session\<close>), a unit of the service manager, reads the plan, starts the helper on the
  remote, opens the transport, creates the device, the routes and the DNS settings, and keeps the
  session through losses until it reverts everything. Client and helper speak the mux protocol
  (\<open>internal/mux\<close>): one stream per flow and a control stream, over yamux on SSH connections
  (lanes) or over a pinned QUIC connection that the two negotiate on the control stream. QUIC runs
  the congestion controllers of \<open>internal/congestion\<close>. The data plane (\<open>internal/dataplane\<close>) takes packets off
  the device and gives them to the flows; the helper relays the flows to sockets.

  \<^bold>\<open>Conventions.\<close> An error is the left injection of a sum or \<open>Some\<close> of an error type, a panic is
  \<open>None\<close>. Structs are records, enumerations datatypes. Words and
  addresses are at their width; \<open>int64\<close> and \<open>uint64\<close> values are integers with \<open>i64\<close> and \<open>u64\<close> at every
  operation that can wrap; \<open>float64\<close> values are rationals rounded by \<open>f64\<close>. A Go string is a list of
  byte characters and a reader the list of bytes still to come. What the operating system,
  a peer or a library answers is an argument (\<open>attempt_env\<close>, \<open>env\<close>, \<open>bbr_env\<close>, \<open>control_env\<close>,
  \<open>client_env\<close>, the replies of a kernel), so that a theorem holds for every answer unless a hypothesis says
  otherwise. Goroutines are steps of a run; a theorem over runs holds for every interleaving.

  \<^bold>\<open>Shared base.\<close>
  \<^item> \<open>Prelude\<close>: bytes, \<open>strings\<close>, \<open>strconv\<close>, 64-bit arithmetic, and two locales: \<open>stream_codec\<close>
    (a writer and a reader whose messages survive any stream) and \<open>data_refinement\<close> (operations that
    refine an abstract data type, over any sequence).
  \<^item> \<open>Netip\<close>, \<open>Netip_Text\<close>: the values of \<open>net/netip\<close>, their parsers and printers, and that the parsers
    give every printed IPv4 and IPv6 address and prefix back.
  \<^item> \<open>Go_Float\<close>: rounding of \<open>float64\<close> and conversions to integers.
  \<^item> \<open>Transport\<close>: \<open>transport.go\<close>, \<open>protocols.go\<close>, \<open>dns.go\<close>, with round trips of rates, port ranges and protocol sets.

  \<^bold>\<open>From a reference to a plan.\<close>
  \<^item> \<open>Tailnet\<close>: \<open>resolve.go\<close>, the peers of \<open>tailnet.go\<close>. Locale \<open>selection\<close> (a loop that keeps the best
    candidate) gives that the host match and the tag match pick the documented peer.
  \<^item> \<open>Networks\<close>: \<open>manifest.go\<close>, \<open>networks.go\<close>, \<open>discovery.go\<close>, \<open>routePrefixes\<close>. The address sets of
    \<open>go4.org/netipx\<close> are the parameter \<open>ipset_ops\<close>, with its documented laws in the locale \<open>ipset\<close>. Shown:
    which addresses a session routes, exactly, and that it never routes a reserved range, the remote or
    a subnet of the client.
  \<^item> \<open>Config\<close>: \<open>config.go\<close>, \<open>tj alias\<close>, \<open>tj config\<close>, the flag values. Shown: edits keep the file loadable, and
    the one way they do not.
  \<^item> \<open>Connect_Plan\<close>: \<open>buildPlan\<close> and its helpers. Shown: the runner reads out of the plan what was
    computed, and every plan is well formed.

  \<^bold>\<open>The session.\<close>
  \<^item> \<open>Session_Control\<close>: \<open>connect.go\<close>, \<open>disconnect.go\<close>, \<open>lock.go\<close>, \<open>status.go\<close>, \<open>watch.go\<close>, \<open>metrics.go\<close>,
    \<open>Start\<close> and \<open>awaitUp\<close> of \<open>run.go\<close>. Locale \<open>poll_loop\<close> is what the waiting loops share; it gives that
    they end. Shown: there is one session at a time.
  \<^item> \<open>Session\<close>: \<open>run.go\<close>, \<open>reconnect.go\<close>, \<open>lanes.go\<close>, \<open>quic.go\<close>: the runner's record, one attempt at a
    transport, the loss path, the event loop and the exit. \<open>Session_Laws\<close> has the invariants of one
    operation, \<open>Session_Runs\<close> those of whole runs, \<open>Session_Props\<close> the properties: everything is
    reverted, connections do not leak, a moved session reaches only a remote with the manifest of the
    plan, flows take their lane.
  \<^item> \<open>Linux_Dns\<close>: \<open>resolver.go\<close>, \<open>resolvconf.go\<close> on a file system whose calls may fail at any point. Shown: what a
    revert that returned no error has restored.

  \<^item> \<open>Linux_Routes\<close>: \<open>router.go\<close> and \<open>device.go\<close> of Linux. The netlink library is the parameter \<open>netlink_ops\<close>;
    locale \<open>netlink\<close> has what its calls do to the tables of routes, rules and links when they succeed and that
    they do nothing when they fail, and is interpreted on tables in memory whose calls fail at will.
    Shown: the routes and rules a session adds, and that it leaves none and touches no other.
  \<^item> \<open>Darwin_Dns\<close>, \<open>Darwin_Routes\<close>: \<open>resolver.go\<close>, \<open>router.go\<close>, \<open>device.go\<close> of macOS. The file system and the commands are the
    parameter \<open>mac_ops\<close>; locale \<open>mac_host\<close> has what \<open>networksetup\<close> and the file calls do, and is interpreted on a host in
    memory. Shown: DNS settings come back after any failure but that of the record's own write, a
    manifest domain can name a file outside the directory, and which subnets count as connected.

  \<^bold>\<open>The mux.\<close>
  \<^item> \<open>Mux_Wire\<close>: \<open>frames.go\<close> and the framing of \<open>mux.go\<close>; the destinations, frames and lines interpret
    \<open>stream_codec\<close>. \<open>Negotiate\<close>: \<open>negotiate.go\<close>, the lines of the control stream and their parsers.
  \<^item> \<open>Helper_Server\<close>: \<open>server.go\<close>, \<open>quic_server.go\<close>, the control loop and the QUIC listener. Shown: the
    negotiation end to end, and that only the pinned client is served.
  \<^item> \<open>Control_Info\<close>: the info line of \<open>mux.go\<close>, with \<open>strconv.Quote\<close> and \<open>Unquote\<close>; the treatment of bytes from
    128 on, which needs the tables of Unicode, is a parameter. \<open>Mux_Client\<close>: \<open>client.go\<close> and the dials of
    \<open>server.go\<close>. Shown: both ends agree on the handshake, on every control call and on every dial.
  \<^item> \<open>Mux_Bench\<close>: \<open>bench.go\<close>. Shown: a measurement counts the bytes that were sent.
  \<^item> \<open>Tcp_Relay\<close>: \<open>handleTCP\<close> and \<open>relayTCP\<close> of \<open>netstack.go\<close>, \<open>relayTCP\<close> of \<open>server.go\<close>: the four copy loops of a
    connection. Shown: what arrives is what was sent, in order, and all of it when nothing fails.
  \<^item> \<open>Udp_Flow\<close>: \<open>relayUDP\<close> of \<open>netstack.go\<close>, composed with the helper's relay over the bytes of the stream. Shown:
    datagrams arrive in order, unchanged and with their TTL, in both directions.
  \<^item> \<open>Quic_Client\<close>: \<open>quic.go\<close>. Shown: a dial succeeds only with the pinned helper and leaks nothing, and the flow dials are
    those of the yamux client.
  \<^item> \<open>Err_Queue\<close>, \<open>Echo_Socket\<close>, \<open>Relay\<close>: \<open>errqueue_linux.go\<close>, \<open>echo_socket.go\<close>, the relays of \<open>server.go\<close> as
    interleavings of their goroutines. Locale \<open>flow_relay\<close> is the contract both relays meet: requests go
    out in order, replies are decodable, errors belong to a request.
  \<^item> \<open>Dataplane\<close>: \<open>icmp.go\<close>, \<open>packet.go\<close> and the part of \<open>netstack.go\<close> and \<open>dataplane.go\<close> echo packets take. The header
    library of gVisor is the parameter \<open>hdr_lib\<close>. Shown: a traceroute works through the session.

  \<^bold>\<open>Congestion control.\<close>
  \<^item> \<open>Ring_Buffer\<close> (locale \<open>deque\<close>), \<open>Packet_Queue\<close>, \<open>Windowed_Filter\<close> (locale \<open>filter_order\<close>): the containers,
    with refinements of lists and maps over any sequence of calls.
  \<^item> \<open>Bandwidth_Sampler\<close>, \<open>Sampler_Laws\<close>: \<open>bandwidth_sampler.go\<close>, never a panic on valid packet numbers.
  \<^item> \<open>Pacer\<close>: \<open>pacer.go\<close>, with the locale \<open>paced_sender\<close> that both controllers interpret.
  \<^item> \<open>Bbr_Sender\<close>, \<open>Bbr_Laws\<close>, \<open>Bbr_Props\<close>: \<open>bbr_sender.go\<close>; the invariant, the mode machine, the bounds of the
    window, and that a blocked sender wakes up. \<open>Brutal\<close>: \<open>brutal.go\<close> and its ack rate. \<open>Congestion\<close>: \<open>apply.go\<close>.

  \<^bold>\<open>Loops and bounds.\<close> Most loops are structural recursions. Loops that may not end are \<open>partial_function (option)\<close>:
  those of the packet queue and the sampler are shown to return on every state that their invariants
  allow, and the waits of \<open>Session_Control\<close> to return within 101 and 241 polls, the
  number of 250 ms pauses in their deadlines plus one. The control loop of the helper and the event
  loop of the runner recurse over the list of what arrives. Bounds on byte
  counts and rates in the congestion theorems (for example \<open>2 ^ 60\<close> bytes per second) keep the
  64-bit products of the source from wrapping, and are above what a link can carry.

  \<^bold>\<open>Not modelled.\<close> Libraries the code calls: yamux, quic-go, the TCP and UDP endpoints of gVisor, the SSH
  client, YAML, JSON and base64, cryptographic hashes (a parameter where they are compared).
  \<open>internal/sshc\<close>, which passes calls to the SSH library; the creation of the device; the service
  managers; commands that only print (\<open>list\<close>, \<open>describe\<close>, \<open>doctor\<close>,
  \<open>status\<close>, \<open>completion\<close>); the report of a benchmark and the logs; entry points and test tools.
\<close>

end
